(* ===== verification/Prelude.thy ===== *)
theory Prelude
  imports Main "HOL-Library.Word" "HOL-Library.Sublist" "HOL-Library.Char_ord" "HOL-Library.List_Lexorder" "HOL-Library.Code_Target_Nat"
begin

text \<open>
  The ground the other theories stand on: the machine integers of the Go code as words, Go
  errors as values (sentinel errors, operating-system errors and wrapped errors, with
  \<open>errors.Is\<close> and the \<open>net.Error\<close> test of \<open>isTimeout\<close>), little-endian byte encodings as
  \<open>encoding/binary\<close> writes them, and the list lemmas that several components share.
\<close>

unbundle bit_operations_syntax

named_theorems go_simps \<open>equations that evaluate the model of the Go standard library\<close>

type_synonym byte = "8 word"
type_synonym u16 = "16 word"
type_synonym u64 = "64 word"

section \<open>Go errors\<close>

text \<open>Arguments of a \<open>fmt.Errorf\<close> call: the format string is kept, the arguments are listed.\<close>

datatype arg = AStr string | AInt int

text \<open>
  The sentinel errors the code compares with, an operating-system or network error with what its
  \<open>Timeout()\<close> method answers, and the two error builders of the code: \<open>fmt.Errorf\<close> without and
  with \<open>%w\<close>, and \<open>errors.Join\<close>.
\<close>

datatype go_error =
    ErrClosed | ErrShortWrite | EOF | ErrUnexpectedEOF
  | ErrHeaderLimit | ErrConnectionLimit | ErrBodyLimit | ErrResponseLimit
  | DeadlineExceeded | Canceled
  | OsError string bool
  | Errorf string "arg list"
  | Wrapf string "arg list" go_error
  | Joined "go_error list"

text \<open>\<open>errors.Is\<close>: the error itself or anything it wraps equals the target.\<close>

fun errors_Is :: "go_error \<Rightarrow> go_error \<Rightarrow> bool" where
  "errors_Is (Wrapf m as e) t = (Wrapf m as e = t \<or> errors_Is e t)"
| "errors_Is (Joined es) t = (Joined es = t \<or> list_ex (\<lambda>e. errors_Is e t) es)"
| "errors_Is e t = (e = t)"

text \<open>
  The first \<open>net.Error\<close> in the chain, and its \<open>Timeout()\<close>. The network errors and
  \<open>context.DeadlineExceeded\<close> implement the interface (the latter always times out); the package
  errors made by \<open>errors.New\<close> and \<open>fmt.Errorf\<close> do not.
\<close>

fun net_timeout :: "go_error \<Rightarrow> bool option" where
  "net_timeout (OsError m t) = Some t"
| "net_timeout DeadlineExceeded = Some True"
| "net_timeout (Wrapf m as e) = net_timeout e"
| "net_timeout (Joined es) =
     (case filter (\<lambda>t. t \<noteq> None) (map net_timeout es) of [] \<Rightarrow> None | t # _ \<Rightarrow> t)"
| "net_timeout e = None"

text \<open>\<open>errors.Join\<close> drops nil errors and is nil when nothing is left.\<close>

definition errors_Join :: "go_error option list \<Rightarrow> go_error option" where
  "errors_Join es = (case filter (\<lambda>e. e \<noteq> None) es of [] \<Rightarrow> None
     | xs \<Rightarrow> Some (Joined (map the xs)))"

lemma errors_Join_None [simp]: "errors_Join es = None \<longleftrightarrow> (\<forall>e \<in> set es. e = None)"
proof -
  have "filter (\<lambda>e. e \<noteq> None) es = [] \<longleftrightarrow> (\<forall>e \<in> set es. e = None)"
    by (simp add: filter_empty_conv)
  then show ?thesis by (cases "filter (\<lambda>e. e \<noteq> None) es") (simp_all add: errors_Join_def)
qed

section \<open>Little-endian bytes\<close>

text \<open>\<open>binary.LittleEndian.PutUintN\<close>: byte \<open>i\<close> is the value shifted right by \<open>8 * i\<close>.\<close>

primrec put_le :: "nat \<Rightarrow> 'a::len word \<Rightarrow> byte list" where
  "put_le 0 w = []"
| "put_le (Suc n) w = ucast w # put_le n (drop_bit 8 w)"

text \<open>\<open>binary.LittleEndian.UintN\<close>: the bytes shifted back and combined.\<close>

primrec get_le :: "byte list \<Rightarrow> 'a::len word" where
  "get_le [] = 0"
| "get_le (b # bs) = ucast b OR push_bit 8 (get_le bs)"

abbreviation put16 :: "u16 \<Rightarrow> byte list" where "put16 \<equiv> put_le 2"
abbreviation put64 :: "u64 \<Rightarrow> byte list" where "put64 \<equiv> put_le 8"

lemma length_put_le [simp]: "length (put_le n w) = n"
  by (induction n arbitrary: w) auto

lemma get_put_le: "get_le (put_le n w) = take_bit (8 * n) w"
proof (induction n arbitrary: w)
  case 0
  then show ?case by simp
next
  case (Suc n)
  have "get_le (put_le (Suc n) w) = ucast (ucast w :: byte) OR push_bit 8 (take_bit (8 * n) (drop_bit 8 w))"
    by (simp add: Suc.IH)
  also have "\<dots> = take_bit (8 * Suc n) w"
    by (rule bit_word_eqI) (auto simp: bit_simps not_less)
  finally show ?case .
qed

lemma get_put16 [simp]: "get_le (put_le 2 (w :: u16)) = w"
  by (simp add: get_put_le take_bit_word_eq_self)

lemma get_put64 [simp]: "get_le (put_le 8 (w :: u64)) = w"
  by (simp add: get_put_le take_bit_word_eq_self)

lemma put_get_le:
  "8 * length bs \<le> LENGTH('a) \<Longrightarrow> put_le (length bs) (get_le bs :: 'a::len word) = bs"
proof (induction bs)
  case Nil
  then show ?case by simp
next
  case (Cons b bs)
  let ?g = "get_le bs :: 'a word"
  have len: "8 * Suc (length bs) \<le> LENGTH('a)" using Cons.prems by simp
  have hi: "\<not> bit ?g k" if "8 * length bs \<le> k" for k
    using that
  proof (induction bs arbitrary: k)
    case (Cons c cs)
    then show ?case by (auto simp: bit_simps dest: bit_imp_le_length)
  qed simp
  have low: "ucast (ucast b OR push_bit 8 ?g :: 'a word) = b"
    using len by (intro bit_word_eqI) (auto simp: bit_simps dest: bit_imp_le_length)
  have shift: "drop_bit 8 (ucast b OR push_bit 8 ?g :: 'a word) = ?g"
  proof (rule bit_word_eqI)
    fix k assume "k < LENGTH('a)"
    show "bit (drop_bit 8 (ucast b OR push_bit 8 ?g :: 'a word)) k = bit ?g k"
      using len hi [of k] by (cases "k + 8 < LENGTH('a)") (auto simp: bit_simps add.commute dest: bit_imp_le_length)
  qed
  have IH: "put_le (length bs) ?g = bs" using Cons by simp
  show ?case by (simp only: length_Cons get_le.simps put_le.simps low shift IH)
qed

lemma put16_get [simp]: "length bs = 2 \<Longrightarrow> put_le 2 (get_le bs :: u16) = bs"
  using put_get_le [of bs, where 'a = 16] by simp

lemma put64_get [simp]: "length bs = 8 \<Longrightarrow> put_le 8 (get_le bs :: u64) = bs"
  using put_get_le [of bs, where 'a = 64] by simp

section \<open>Strings as bytes\<close>

text \<open>A Go string is a sequence of bytes, and so is \<^typ>\<open>string\<close>: \<open>[]byte(s)\<close> is the conversion.\<close>

definition bytes_of :: "string \<Rightarrow> byte list" where
  "bytes_of s = map of_char s"

lemma length_bytes_of [simp]: "length (bytes_of s) = length s"
  by (simp add: bytes_of_def)

lemma bytes_of_append [simp]: "bytes_of (s @ t) = bytes_of s @ bytes_of t"
  by (simp add: bytes_of_def)

definition string_of :: "byte list \<Rightarrow> string" where
  "string_of bs = map (\<lambda>b. char_of (unat b)) bs"

lemma unat_of_char [simp]: "unat (of_char c :: byte) = of_char c"
proof -
  have "(of_char c :: byte) = of_nat (of_char c :: nat)"
    by (simp add: of_char_def horner_sum_eq_sum_funpow of_bool_def)
  moreover have "(of_char c :: nat) < 256" by simp
  ultimately show ?thesis by (simp only: unat_of_nat) simp
qed

lemma string_of_bytes_of [simp]: "string_of (bytes_of s) = s"
  by (induction s) (simp_all add: string_of_def bytes_of_def)

lemma bytes_of_string_of [simp]: "bytes_of (string_of bs) = bs"
proof -
  have "(of_char (char_of (unat b) :: char) :: byte) = b" for b
    using unsigned_less [of b, where 'a = nat] by (simp add: word_unat_eq_iff of_char_of)
  then show ?thesis by (induction bs) (simp_all add: string_of_def bytes_of_def)
qed

section \<open>Scripts of outcomes\<close>

text \<open>
  What the environment decides (a clock reading, the result of a system call) is read from a
  script, a list of outcomes; when it runs out the default outcome is taken. A theorem about every
  script is a theorem about every behaviour of the environment.
\<close>

fun pop :: "'a \<Rightarrow> 'a list \<Rightarrow> 'a \<times> 'a list" where
  "pop d [] = (d, [])"
| "pop d (x # xs) = (x, xs)"

section \<open>List lemmas\<close>

lemma take_append_exact [simp]: "length xs = n \<Longrightarrow> take n (xs @ ys) = xs"
  by simp

lemma drop_append_exact [simp]: "length xs = n \<Longrightarrow> drop n (xs @ ys) = ys"
  by simp

lemma prefix_take_iff: "prefix xs ys \<longleftrightarrow> xs = take (length xs) ys"
  by (metis append_eq_conv_conj append_take_drop_id prefix_def)

end
