(* ===== verification/Go_Strings.thy ===== *)
theory Go_Strings
  imports Prelude
begin

text \<open>
  The part of Go's \<open>strconv\<close>, \<open>encoding/hex\<close>, \<open>strings\<close> and \<open>net/textproto\<close> that the
  code uses, on byte strings. White space is Unicode's, given by the UTF-8 encodings of its code
  points; letter case is ASCII (the code folds case of HTTP methods, header names and fixed words
  only, whose letters have no non-ASCII case variants).
\<close>

section \<open>Decimal and hexadecimal\<close>

definition digit :: "nat \<Rightarrow> char" where
  "digit d = char_of (if d < 10 then 48 + d else 87 + d)"

fun digits :: "nat \<Rightarrow> nat \<Rightarrow> string" where
  "digits b n = (if n < b \<or> b < 2 then [digit n] else digits b (n div b) @ [digit (n mod b)])"

declare digits.simps [simp del]

text \<open>\<open>strconv.Itoa\<close>, \<open>strconv.FormatInt(n, 16)\<close> on a length, and \<open>%020d\<close>.\<close>

definition itoa :: "int \<Rightarrow> string" where
  "itoa i = (if i < 0 then CHR ''-'' # digits 10 (nat (- i)) else digits 10 (nat i))"

definition hex_nat :: "nat \<Rightarrow> string" where
  "hex_nat n = digits 16 n"

definition pad20 :: "nat \<Rightarrow> string" where
  "pad20 n = (let s = digits 10 n in replicate (20 - length s) (CHR ''0'') @ s)"

text \<open>The value a digit stands for, as \<open>encoding/hex\<close> and chunk readers take it.\<close>

definition digit_value :: "char \<Rightarrow> nat option" where
  "digit_value c = (let x = of_char c :: nat in
     if 48 \<le> x \<and> x \<le> 57 then Some (x - 48)
     else if 97 \<le> x \<and> x \<le> 102 then Some (x - 87)
     else if 65 \<le> x \<and> x \<le> 70 then Some (x - 55)
     else None)"

lemma of_char_char_of_nat: "(n::nat) < 256 \<Longrightarrow> of_char (char_of n :: char) = n"
  by simp

lemma digit_value_digit [simp]: "d < 16 \<Longrightarrow> digit_value (digit d) = Some d"
  by (simp add: digit_value_def digit_def Let_def)

lemma digits_nonempty [simp]: "digits b n \<noteq> []"
  by (subst digits.simps) simp

text \<open>Reading digits back, most significant first.\<close>

definition undigits :: "nat \<Rightarrow> string \<Rightarrow> nat option" where
  "undigits b s = fold (\<lambda>c acc. case (acc, digit_value c) of
       (Some a, Some d) \<Rightarrow> if d < b then Some (a * b + d) else None
     | _ \<Rightarrow> None) s (Some 0)"

lemma undigits_snoc:
  "undigits b (s @ [c]) = (case (undigits b s, digit_value c) of
      (Some a, Some d) \<Rightarrow> if d < b then Some (a * b + d) else None | _ \<Rightarrow> None)"
  by (simp add: undigits_def)

lemma undigits_digits: "2 \<le> b \<Longrightarrow> b \<le> 16 \<Longrightarrow> undigits b (digits b n) = Some n"
proof (induction b n rule: digits.induct)
  case (1 b n)
  show ?case
  proof (cases "n < b")
    case True
    then show ?thesis using 1 by (subst digits.simps) (simp add: undigits_def)
  next
    case False
    then have "undigits b (digits b (n div b)) = Some (n div b)" using 1 by simp
    moreover have "n mod b < b" "n mod b < 16" using 1(2,3) by (auto intro: less_le_trans [of _ b])
    ultimately show ?thesis using False 1(2) by (subst digits.simps) (simp add: undigits_snoc)
  qed
qed

lemma digits_inj: "2 \<le> b \<Longrightarrow> b \<le> 16 \<Longrightarrow> digits b m = digits b n \<Longrightarrow> m = n"
  by (metis undigits_digits option.inject)

lemma undigits_replicate0: "undigits b s = Some n \<Longrightarrow> 2 \<le> b \<Longrightarrow> undigits b (replicate k (CHR ''0'') @ s) = Some n"
proof (induction k)
  case (Suc k)
  have "digit_value (CHR ''0'') = Some 0" by (simp add: digit_value_def)
  with Suc show ?case by (simp add: undigits_def)
qed simp

lemma pad20_inj: "pad20 m = pad20 n \<Longrightarrow> m = n"
proof -
  have "undigits 10 (pad20 k) = Some k" for k
    by (simp add: pad20_def Let_def undigits_replicate0 undigits_digits)
  then show "pad20 m = pad20 n \<Longrightarrow> m = n" by (metis option.inject)
qed

lemma length_digits_le: "n < 10 ^ k \<Longrightarrow> 0 < k \<Longrightarrow> length (digits 10 n) \<le> k"
proof (induction k arbitrary: n)
  case (Suc k)
  show ?case
  proof (cases "n < 10")
    case False
    then have "n div 10 < 10 ^ k" "0 < k" using Suc.prems by (auto intro!: gr0I)
    then have "length (digits 10 (n div 10)) \<le> k" by (rule Suc.IH)
    with False show ?thesis by (subst digits.simps) simp
  qed (subst digits.simps, simp)
qed simp

lemma length_pad20: "n < 10 ^ 20 \<Longrightarrow> length (pad20 n) = 20"
  using length_digits_le [of n 20] by (simp add: pad20_def Let_def)

section \<open>encoding/hex\<close>

definition hex_encode :: "byte list \<Rightarrow> string" where
  "hex_encode bs = concat (map (\<lambda>b. [digit (unat b div 16), digit (unat b mod 16)]) bs)"

fun hex_decode :: "string \<Rightarrow> go_error + byte list" where
  "hex_decode [] = Inr []"
| "hex_decode [c] = Inl (case digit_value c of
      None \<Rightarrow> Errorf ''encoding/hex: invalid byte'' [AStr [c]]
    | Some _ \<Rightarrow> Errorf ''encoding/hex: odd length hex string'' [])"
| "hex_decode (c # d # s) = (case digit_value c of
      None \<Rightarrow> Inl (Errorf ''encoding/hex: invalid byte'' [AStr [c]])
    | Some x \<Rightarrow> (case digit_value d of
        None \<Rightarrow> Inl (Errorf ''encoding/hex: invalid byte'' [AStr [d]])
      | Some y \<Rightarrow> (case hex_decode s of Inl e \<Rightarrow> Inl e
          | Inr bs \<Rightarrow> Inr (of_nat (16 * x + y) # bs))))"

lemma length_hex_encode [simp]: "length (hex_encode bs) = 2 * length bs"
  by (induction bs) (simp_all add: hex_encode_def)

lemma unat_byte_less: "unat (b :: byte) < 256"
  using unsigned_less [of b, where 'a = nat] by simp

lemma hex_decode_encode [simp]: "hex_decode (hex_encode bs) = Inr bs"
proof (induction bs)
  case (Cons b bs)
  have "16 * (unat b div 16) + unat b mod 16 = unat b" by simp
  then have "(of_nat (16 * (unat b div 16) + unat b mod 16) :: byte) = b"
    by (simp only: of_nat_unat ucast_id)
  moreover have "unat b div 16 < 16" using unat_byte_less [of b] by simp
  ultimately show ?case using Cons
    by (simp add: hex_encode_def del: of_nat_add of_nat_mult)
qed (simp add: hex_encode_def)

lemma hex_encode_inj: "hex_encode a = hex_encode b \<longleftrightarrow> a = b"
  by (metis hex_decode_encode sum.inject(2))

lemma hex_encode_no_dash: "CHR ''-'' \<notin> set (hex_encode bs)"
proof -
  have "digit n \<noteq> CHR ''-''" if "n < 16" for n
    using digit_value_digit [OF that] by (auto simp: digit_value_def)
  moreover have "unat b div 16 < 16" "unat b mod 16 < 16" for b :: byte
    using unat_byte_less [of b] by auto
  ultimately have "CHR ''-'' \<noteq> digit (unat b div 16)" "CHR ''-'' \<noteq> digit (unat b mod 16)" for b :: byte
    by metis+
  then show ?thesis by (auto simp: hex_encode_def)
qed

section \<open>strings\<close>

definition lower_char :: "char \<Rightarrow> char" where
  "lower_char c = (let x = of_char c :: nat in if 65 \<le> x \<and> x \<le> 90 then char_of (x + 32) else c)"

definition upper_char :: "char \<Rightarrow> char" where
  "upper_char c = (let x = of_char c :: nat in if 97 \<le> x \<and> x \<le> 122 then char_of (x - 32) else c)"

definition to_lower :: "string \<Rightarrow> string" where
  "to_lower s = map lower_char s"

definition equal_fold :: "string \<Rightarrow> string \<Rightarrow> bool" where
  "equal_fold s t \<longleftrightarrow> to_lower s = to_lower t"

text \<open>The UTF-8 encodings of the code points for which \<open>unicode.IsSpace\<close> holds.\<close>

definition spaces :: "string list" where
  "spaces = map (map char_of) ([[9], [10], [11], [12], [13], [32],
     [0xC2, 0x85], [0xC2, 0xA0], [0xE1, 0x9A, 0x80],
     [0xE2, 0x80, 0xA8], [0xE2, 0x80, 0xA9], [0xE2, 0x80, 0xAF], [0xE2, 0x81, 0x9F], [0xE3, 0x80, 0x80]]
     @ map (\<lambda>k. [0xE2, 0x80, 0x80 + k]) [0..<11] :: nat list list)"

text \<open>The length of the white-space rune a string starts with, 0 if it starts with none.\<close>

definition space_width :: "string list \<Rightarrow> string \<Rightarrow> nat" where
  "space_width sps s = (case filter (\<lambda>p. prefix p s) sps of [] \<Rightarrow> 0 | p # _ \<Rightarrow> length p)"

function trim_left :: "string list \<Rightarrow> string \<Rightarrow> string" where
  "trim_left sps s =
     (if space_width sps s = 0 \<or> s = [] then s else trim_left sps (drop (space_width sps s) s))"
  by pat_completeness auto
termination
  by (relation "measure (\<lambda>(sps, s). length s)") auto

declare trim_left.simps [simp del]

text \<open>\<open>strings.TrimSpace\<close>: from the left, then from the right with the encodings reversed.\<close>

definition trim_space :: "string \<Rightarrow> string" where
  "trim_space s = rev (trim_left (map rev spaces) (rev (trim_left spaces s)))"

text \<open>\<open>strings.IndexByte\<close>, with -1 as \<^const>\<open>None\<close>.\<close>

fun index_byte :: "string \<Rightarrow> char \<Rightarrow> nat option" where
  "index_byte [] c = None"
| "index_byte (x # xs) c = (if x = c then Some 0 else map_option Suc (index_byte xs c))"

lemma index_byte_None [simp]: "index_byte s c = None \<longleftrightarrow> c \<notin> set s"
  by (induction s) auto

lemma index_byte_Some:
  "index_byte s c = Some i \<Longrightarrow> i < length s \<and> s ! i = c \<and> c \<notin> set (take i s)"
  by (induction s arbitrary: i) (auto split: if_splits)

text \<open>\<open>strings.Index\<close> of a substring.\<close>

fun index_str :: "string \<Rightarrow> string \<Rightarrow> nat option" where
  "index_str [] p = (if p = [] then Some 0 else None)"
| "index_str (x # xs) p = (if prefix p (x # xs) then Some 0 else map_option Suc (index_str xs p))"

lemma index_str_Some: "index_str s p = Some i \<Longrightarrow> i + length p \<le> length s \<and> take (length p) (drop i s) = p"
proof (induction s arbitrary: i)
  case (Cons x xs)
  show ?case
  proof (cases "prefix p (x # xs)")
    case True
    then have "i = 0" using Cons.prems by simp
    moreover have "length p \<le> length (x # xs)" using True by (rule prefix_length_le)
    moreover have "take (length p) (x # xs) = p" using True by (simp add: prefix_take_iff)
    ultimately show ?thesis by simp
  next
    case False
    then show ?thesis using Cons by auto
  qed
qed (auto split: if_splits)

fun join_strings :: "string \<Rightarrow> string list \<Rightarrow> string" where
  "join_strings sep [] = []"
| "join_strings sep [s] = s"
| "join_strings sep (s # t # ts) = s @ sep @ join_strings sep (t # ts)"

section \<open>net/textproto header names\<close>

definition token_byte :: "char \<Rightarrow> bool" where
  "token_byte c = (let x = of_char c :: nat in
     48 \<le> x \<and> x \<le> 57 \<or> 65 \<le> x \<and> x \<le> 90 \<or> 97 \<le> x \<and> x \<le> 122 \<or> c \<in> set ''!#$%&*+-.^_`|~'' \<or> x = 39)"

fun canonical_from :: "bool \<Rightarrow> string \<Rightarrow> string" where
  "canonical_from up [] = []"
| "canonical_from up (c # cs) =
     (if up then upper_char c else lower_char c) # canonical_from (c = CHR ''-'') cs"

text \<open>\<open>http.CanonicalHeaderKey\<close>: unchanged if a byte is no token byte.\<close>

definition canonical_key :: "string \<Rightarrow> string" where
  "canonical_key s = (if list_all token_byte s then canonical_from True s else s)"

lemma length_canonical_from [simp]: "length (canonical_from u s) = length s"
  by (induction s arbitrary: u) auto

lemma length_canonical_key [simp]: "length (canonical_key s) = length s"
  by (simp add: canonical_key_def)

end
