(* ===== verification/Host.thy ===== *)
theory Host
  imports Go_Strings
begin

text \<open>
  The host the program runs on, as far as the evidence writers see it: a wall clock, a source of
  random bytes, directories and the files in them. The outcome of every system call is read from a
  script (theory Prelude), so an operation is a function of the host and a theorem over all hosts
  covers every sequence of failures, short writes and clock readings. Also the \<open>io.Writer\<close>
  contract as a locale, the retry loop written twice in the code (\<open>writeFull\<close> of
  \<open>evidence/bwj.go\<close>, \<open>writeAll\<close> of \<open>response/response.go\<close>), and \<open>evidence/storage.go\<close>.
\<close>

section \<open>The host\<close>

text \<open>
  A path is the directory and the name that \<open>filepath.Join\<close> puts together. The file table lists
  the files in order of creation.
\<close>

type_synonym path = "string \<times> string"

text \<open>\<open>filepath.Join\<close> of a cleaned directory and a plain name.\<close>

definition path_string :: "path \<Rightarrow> string" where
  "path_string p = fst p @ ''/'' @ snd p"

record host =
  clock :: int
  ticks :: "int list"
  randoms :: "(go_error + byte list) list"
  files :: "(path \<times> byte list) list"
  writes :: "(nat \<times> go_error option) list"
  opens :: "go_error option list"
  syncs :: "go_error option list"
  closes :: "go_error option list"
  removes :: "go_error option list"
  stats :: "string \<Rightarrow> go_error + bool"
  frees :: "(go_error + u64 \<times> u64) list"

definition now :: "host \<Rightarrow> int \<times> host" where
  "now h = (let (t, ts) = pop (clock h) (ticks h) in (t, h\<lparr>clock := t, ticks := ts\<rparr>))"

definition rand_read :: "nat \<Rightarrow> host \<Rightarrow> (go_error + byte list) \<times> host" where
  "rand_read n h = (let (r, rs) = pop (Inr []) (randoms h) in
     (map_sum id (\<lambda>bs. take n (bs @ replicate n 0)) r, h\<lparr>randoms := rs\<rparr>))"

definition fs_append :: "path \<Rightarrow> byte list \<Rightarrow> (path \<times> byte list) list \<Rightarrow> (path \<times> byte list) list" where
  "fs_append p bs fs = map (\<lambda>(q, c). if q = p then (q, c @ bs) else (q, c)) fs"

text \<open>\<open>os.OpenFile\<close> with \<open>O_WRONLY|O_CREATE|O_EXCL\<close>: fails when the path exists.\<close>

definition open_excl :: "path \<Rightarrow> host \<Rightarrow> go_error option \<times> host" where
  "open_excl p h = (let (e, es) = pop None (opens h); h' = h\<lparr>opens := es\<rparr> in
     case e of Some err \<Rightarrow> (Some err, h')
     | None \<Rightarrow> if p \<in> fst ` set (files h) then (Some (OsError ''file exists'' False), h')
               else (None, h'\<lparr>files := files h @ [(p, [])]\<rparr>))"

text \<open>\<open>(*os.File).Write\<close>: some prefix of the bytes reaches the file, with or without an error.\<close>

definition file_write :: "path \<Rightarrow> host \<Rightarrow> byte list \<Rightarrow> (nat \<times> go_error option) \<times> host" where
  "file_write p h bs = (let ((n, e), ws) = pop (length bs, None) (writes h); m = min n (length bs) in
     ((m, e), h\<lparr>writes := ws, files := fs_append p (take m bs) (files h)\<rparr>))"

definition file_sync :: "host \<Rightarrow> go_error option \<times> host" where
  "file_sync h = (let (e, es) = pop None (syncs h) in (e, h\<lparr>syncs := es\<rparr>))"

definition file_close :: "host \<Rightarrow> go_error option \<times> host" where
  "file_close h = (let (e, es) = pop None (closes h) in (e, h\<lparr>closes := es\<rparr>))"

definition file_remove :: "path \<Rightarrow> host \<Rightarrow> go_error option \<times> host" where
  "file_remove p h = (let (e, es) = pop None (removes h); h' = h\<lparr>removes := es\<rparr> in
     case e of Some err \<Rightarrow> (Some err, h')
     | None \<Rightarrow> (None, h'\<lparr>files := filter (\<lambda>(q, c). q \<noteq> p) (files h)\<rparr>))"

definition content :: "path \<Rightarrow> host \<Rightarrow> byte list" where
  "content p h = (case map_of (files h) p of None \<Rightarrow> [] | Some c \<Rightarrow> c)"

definition exists_file :: "path \<Rightarrow> host \<Rightarrow> bool" where
  "exists_file p h \<longleftrightarrow> p \<in> fst ` set (files h)"

lemma map_of_fs_append:
  "map_of (fs_append p bs fs) q = (if q = p then map_option (\<lambda>c. c @ bs) (map_of fs q) else map_of fs q)"
  by (induction fs) (auto simp: fs_append_def)

lemma dom_fs_append [simp]: "fst ` set (fs_append p bs fs) = fst ` set fs"
  by (force simp: fs_append_def)

lemma map_fst_fs_append [simp]: "map fst (fs_append p bs fs) = map fst fs"
  by (induction fs) (auto simp: fs_append_def)

lemma now_frame [simp]: "files (snd (now h)) = files h"
  by (simp add: now_def split: prod.splits)

lemma file_sync_frame [simp]: "files (snd (file_sync h)) = files h"
  by (simp add: file_sync_def split: prod.splits)

lemma file_close_frame [simp]: "files (snd (file_close h)) = files h"
  by (simp add: file_close_def split: prod.splits)

lemma rand_read_frame [simp]: "files (snd (rand_read n h)) = files h"
  by (simp add: rand_read_def split: prod.splits)

lemma rand_read_length: "rand_read n h = (Inr bs, h') \<Longrightarrow> length bs = n"
  by (cases "fst (pop (Inr []) (randoms h))") (auto simp: rand_read_def split: prod.splits)

lemma open_excl_ok:
  "open_excl p h = (None, h') \<Longrightarrow> \<not> exists_file p h \<and> files h' = files h @ [(p, [])]"
  by (auto simp: open_excl_def exists_file_def Let_def split: prod.splits option.splits if_splits)

lemma open_excl_fail: "open_excl p h = (Some e, h') \<Longrightarrow> files h' = files h"
  by (auto simp: open_excl_def Let_def split: prod.splits option.splits if_splits)

section \<open>The \<open>io.Writer\<close> contract and the retry loop\<close>

text \<open>
  The loop of \<open>writeFull\<close> and \<open>writeAll\<close>: write, drop what was taken, stop at the first error
  or when no byte was taken.
\<close>

function write_loop ::
  "('s \<Rightarrow> byte list \<Rightarrow> (nat \<times> go_error option) \<times> 's) \<Rightarrow> 's \<Rightarrow> byte list \<Rightarrow> go_error option \<times> 's" where
  "write_loop w s p = (if p = [] then (None, s) else
     case w s p of ((n, e), s') \<Rightarrow>
       case e of Some err \<Rightarrow> (Some err, s')
       | None \<Rightarrow> if n = 0 then (Some ErrShortWrite, s') else write_loop w s' (drop n p))"
  by pat_completeness auto
termination
  by (relation "measure (\<lambda>(w, s, p). length p)") auto

declare write_loop.simps [simp del]

text \<open>
  What a client of an \<open>io.Writer\<close> relies on: \<open>write\<close> takes a prefix of what it is given, \<open>sink\<close>
  (everything written so far) grows by exactly that prefix, and \<open>rest\<close> (what the writer must leave
  alone) does not change. Nothing is assumed about errors or about how much is taken.
\<close>

locale io_writer =
  fixes wr :: "'s \<Rightarrow> byte list \<Rightarrow> (nat \<times> go_error option) \<times> 's"
    and sink :: "'s \<Rightarrow> byte list"
    and rest :: "'s \<Rightarrow> 'r"
    and invar :: "'s \<Rightarrow> bool"
  assumes write_le: "invar s \<Longrightarrow> wr s p = ((n, e), s') \<Longrightarrow> n \<le> length p"
    and write_sink: "invar s \<Longrightarrow> wr s p = ((n, e), s') \<Longrightarrow> sink s' = sink s @ take n p"
    and write_rest: "invar s \<Longrightarrow> wr s p = ((n, e), s') \<Longrightarrow> rest s' = rest s"
    and write_invar: "invar s \<Longrightarrow> wr s p = ((n, e), s') \<Longrightarrow> invar s'"
begin

lemma loop_invar: "invar s \<Longrightarrow> write_loop wr s p = (r, s') \<Longrightarrow> invar s' \<and> rest s' = rest s"
proof (induction "length p" arbitrary: s p rule: less_induct)
  case less
  show ?case
  proof (cases "p = []")
    case True
    then show ?thesis using less.prems by (simp add: write_loop.simps)
  next
    case False
    obtain n e t where w: "wr s p = ((n, e), t)" by (metis surj_pair)
    have t: "invar t" "rest t = rest s" using write_invar write_rest w less.prems(1) by blast+
    show ?thesis
    proof (cases "e = None \<and> n \<noteq> 0")
      case True
      then have "write_loop wr t (drop n p) = (r, s')" "length (drop n p) < length p"
        using less.prems(2) w False by (simp_all add: write_loop.simps [of wr s p])
      then have "invar s' \<and> rest s' = rest t" using less.hyps t(1) by blast
      with t show ?thesis by simp
    next
      case stop: False
      then have "s' = t" using less.prems(2) w False
        by (auto simp: write_loop.simps [of wr s p] split: option.splits if_splits)
      with t show ?thesis by simp
    qed
  qed
qed

text \<open>Whatever happens, the sink grows by a prefix of the data, and by all of it on success.\<close>

lemma loop_prefix:
  "invar s \<Longrightarrow> write_loop wr s p = (r, s') \<Longrightarrow>
     \<exists>k \<le> length p. sink s' = sink s @ take k p \<and> (r = None \<longrightarrow> k = length p)"
proof (induction "length p" arbitrary: s p rule: less_induct)
  case less
  show ?case
  proof (cases "p = []")
    case True
    then show ?thesis using less.prems by (simp add: write_loop.simps)
  next
    case False
    obtain n e t where w: "wr s p = ((n, e), t)" by (metis surj_pair)
    have t: "invar t" "sink t = sink s @ take n p" "n \<le> length p"
      using write_invar write_sink write_le w less.prems(1) by blast+
    show ?thesis
    proof (cases "e = None \<and> n \<noteq> 0")
      case True
      then have "write_loop wr t (drop n p) = (r, s')" "length (drop n p) < length p"
        using less.prems(2) w False by (simp_all add: write_loop.simps [of wr s p])
      then obtain k where k: "k \<le> length (drop n p)" "sink s' = sink t @ take k (drop n p)"
          "r = None \<longrightarrow> k = length (drop n p)" using less.hyps t(1) by blast
      then have "sink s' = sink s @ take (n + k) p" by (simp add: t take_add)
      with k t show ?thesis by (intro exI [of _ "n + k"]) auto
    next
      case stop: False
      then have "s' = t" "r \<noteq> None" using less.prems(2) w False
        by (auto simp: write_loop.simps [of wr s p] split: option.splits if_splits)
      with t show ?thesis by auto
    qed
  qed
qed

lemma loop_ok: "invar s \<Longrightarrow> write_loop wr s p = (None, s') \<Longrightarrow> sink s' = sink s @ p"
  using loop_prefix [of s p None s'] by auto

end

section \<open>Files as writers\<close>

definition other_files :: "path \<Rightarrow> host \<Rightarrow> path list \<times> (path \<Rightarrow> byte list option)" where
  "other_files p h = (map fst (files h), (map_of (files h))(p := None))"

interpretation osfile: io_writer "file_write p" "content p" "other_files p" "exists_file p" for p
proof
  fix s p' n e s'
  assume ex: "exists_file p s" and w: "file_write p s p' = ((n, e), s')"
  then obtain c where c: "map_of (files s) p = Some c"
    by (metis exists_file_def map_of_eq_None_iff not_None_eq)
  have n: "n \<le> length p'" and f: "files s' = fs_append p (take n p') (files s)"
    using w by (auto simp: file_write_def Let_def split: prod.splits)
  show "n \<le> length p'" by (fact n)
  show "content p s' = content p s @ take n p'" by (simp add: content_def f map_of_fs_append c)
  show "other_files p s' = other_files p s" by (auto simp: other_files_def f map_of_fs_append)
  show "exists_file p s'" using ex by (simp add: exists_file_def f)
qed

definition writeFull :: "path \<Rightarrow> host \<Rightarrow> byte list \<Rightarrow> go_error option \<times> host" where
  "writeFull p h bs = write_loop (file_write p) h bs"

lemma writeFull_effect:
  assumes "exists_file p h" "writeFull p h bs = (r, h')"
  shows "\<exists>k \<le> length bs. content p h' = content p h @ take k bs \<and> (r = None \<longrightarrow> k = length bs)"
    and "q \<noteq> p \<Longrightarrow> content q h' = content q h"
    and "exists_file q h' = exists_file q h"
proof -
  show "\<exists>k \<le> length bs. content p h' = content p h @ take k bs \<and> (r = None \<longrightarrow> k = length bs)"
    using osfile.loop_prefix assms unfolding writeFull_def by blast
  have "other_files p h' = other_files p h"
    using osfile.loop_invar assms unfolding writeFull_def by blast
  then have m: "(map_of (files h'))(p := None) = (map_of (files h))(p := None)"
    and f: "map fst (files h') = map fst (files h)" by (simp_all add: other_files_def)
  show "q \<noteq> p \<Longrightarrow> content q h' = content q h"
    using fun_cong [OF m, of q] by (simp add: content_def)
  show "exists_file q h' = exists_file q h"
    using arg_cong [OF f, of set] by (simp add: exists_file_def)
qed

lemma open_excl_effect:
  assumes "open_excl p h = (None, h')"
  shows "\<not> exists_file p h" and "content q h' = content q h" and "exists_file q h' = (q = p \<or> exists_file q h)"
proof -
  have f: "\<not> exists_file p h" "files h' = files h @ [(p, [])]" using open_excl_ok [OF assms] by auto
  show "\<not> exists_file p h" by (rule f)
  have "map_of (files h) p = None" using f(1) by (simp add: exists_file_def map_of_eq_None_iff)
  then show "content q h' = content q h" by (auto simp: content_def f(2) map_add_def split: option.splits)
  show "exists_file q h' = (q = p \<or> exists_file q h)" by (auto simp: exists_file_def f(2))
qed

lemma same_files:
  "files h' = files h \<Longrightarrow> content q h' = content q h" "files h' = files h \<Longrightarrow> exists_file q h' = exists_file q h"
  by (simp_all add: content_def exists_file_def)

lemma absent_content: "\<not> exists_file p h \<Longrightarrow> content p h = []"
  by (metis content_def exists_file_def map_of_eq_None_iff option.simps(4))

text \<open>What an operation did on disk: it appended to one file, which it may have created, and left all
  others alone.\<close>

definition disk_step :: "path \<Rightarrow> byte list \<Rightarrow> bool \<Rightarrow> host \<Rightarrow> host \<Rightarrow> bool" where
  "disk_step p bs created h h' \<longleftrightarrow> content p h' = content p h @ bs \<and> (\<forall>q. q \<noteq> p \<longrightarrow> content q h' = content q h)
     \<and> (\<forall>q. exists_file q h' = (q = p \<and> created \<or> exists_file q h))"

lemma disk_stepD:
  assumes "disk_step p bs c h h'"
  shows "content p h' = content p h @ bs" "q \<noteq> p \<Longrightarrow> content q h' = content q h"
    "exists_file q h' = (q = p \<and> c \<or> exists_file q h)"
  using assms unfolding disk_step_def by blast+

lemma disk_step_files: "disk_step p bs c h h1 \<Longrightarrow> files h2 = files h1 \<Longrightarrow> disk_step p bs c h h2"
  by (simp add: disk_step_def same_files [of h2 h1])

lemma disk_step_trans:
  "disk_step p bs c h h1 \<Longrightarrow> disk_step p cs d h1 h2 \<Longrightarrow> disk_step p (bs @ cs) (c \<or> d) h h2"
  by (auto simp: disk_step_def)

lemma writeFull_disk:
  assumes "exists_file p h" "writeFull p h bs = (r, h')"
  obtains k where "k \<le> length bs" "disk_step p (take k bs) False h h'" "r = None \<longrightarrow> k = length bs"
  using writeFull_effect [OF assms] by (auto simp: disk_step_def)

lemma open_excl_disk:
  "open_excl p h = (None, h') \<Longrightarrow> disk_step p [] True h h'"
  using open_excl_effect [of p h h'] by (auto simp: disk_step_def)

text \<open>The files of a class are as before.\<close>

definition leaves :: "(path \<Rightarrow> bool) \<Rightarrow> host \<Rightarrow> host \<Rightarrow> bool" where
  "leaves P h h' \<longleftrightarrow> (\<forall>q. P q \<longrightarrow> content q h' = content q h \<and> exists_file q h' = exists_file q h)"

lemma leaves_refl [simp]: "leaves P h h"
  by (simp add: leaves_def)

lemma leaves_trans: "leaves P h h1 \<Longrightarrow> leaves P h1 h2 \<Longrightarrow> leaves P h h2"
  by (simp add: leaves_def)

lemma leaves_files: "files h' = files h \<Longrightarrow> leaves P h h'"
  by (simp add: leaves_def same_files [of h' h])

lemma leaves_disk: "disk_step p bs c h h' \<Longrightarrow> \<not> P p \<Longrightarrow> leaves P h h'"
  by (auto simp: leaves_def disk_step_def)

section \<open>\<open>evidence/storage.go\<close>\<close>

definition ValidateDirectory :: "string \<Rightarrow> host \<Rightarrow> go_error option" where
  "ValidateDirectory path h = (case stats h path of
      Inl err \<Rightarrow> Some (Wrapf ''stat evidence directory %s: %w'' [AStr path] err)
    | Inr is_dir \<Rightarrow> if \<not> is_dir then Some (Errorf ''evidence path %s is not a directory'' [AStr path]) else None)"

definition CheckWritable :: "string \<Rightarrow> host \<Rightarrow> go_error option \<times> host" where
  "CheckWritable path h = (case ValidateDirectory path h of Some err \<Rightarrow> (Some err, h) | None \<Rightarrow>
     case rand_read 8 h of (Inl err, h1) \<Rightarrow> (Some (Wrapf ''generate write probe name: %w'' [] err), h1)
     | (Inr nonce, h1) \<Rightarrow>
       let probe = (path, ''.notaihoney-write-probe-'' @ hex_encode nonce) in
       case open_excl probe h1 of
         (Some err, h2) \<Rightarrow> (Some (Wrapf ''open write probe in %s: %w'' [AStr path] err), h2)
       | (None, h2) \<Rightarrow>
         let (closeErr, h3) = file_close h2; (removeErr, h4) = file_remove probe h3 in
         case closeErr of Some err \<Rightarrow> (Some (Wrapf ''close write probe in %s: %w'' [AStr path] err), h4)
         | None \<Rightarrow> case removeErr of
             Some err \<Rightarrow> (Some (Wrapf ''remove write probe in %s: %w'' [AStr path] err), h4)
           | None \<Rightarrow> (None, h4))"

text \<open>\<open>Bavail\<close> and \<open>Bsize\<close> are multiplied as \<open>uint64\<close>.\<close>

definition FreeBytes :: "string \<Rightarrow> host \<Rightarrow> (go_error + u64) \<times> host" where
  "FreeBytes path h = (let (r, rs) = pop (Inr (0, 0)) (frees h); h' = h\<lparr>frees := rs\<rparr> in
     case r of Inl err \<Rightarrow> (Inl (Wrapf ''statfs %s: %w'' [AStr path] err), h')
     | Inr (bavail, bsize) \<Rightarrow> (Inr (bavail * bsize), h'))"

definition RequireFreeBytes :: "string \<Rightarrow> u64 \<Rightarrow> host \<Rightarrow> (u64 \<times> go_error option) \<times> host" where
  "RequireFreeBytes path minimum h = (case FreeBytes path h of
      (Inl err, h') \<Rightarrow> ((0, Some err), h')
    | (Inr available, h') \<Rightarrow>
        if available \<le> minimum
        then ((available, Some (Errorf ''EVIDENCE_STORAGE_LOW path=%s available_bytes=%d minimum_bytes=%d''
               [AStr path, AInt (uint available), AInt (uint minimum)])), h')
        else ((available, None), h'))"


end
