(* ===== verification/Response.thy ===== *)
theory Response
  imports Host "HOL-Library.AList"
begin

text \<open>
  \<open>internal/response/response.go\<close>: how a planned response becomes bytes on an \<open>io.Writer\<close>, the
  size check made before the first byte, and the accounting of what was sent. A Go map of strings
  is an association list with distinct keys; the order of the list is the iteration order, which Go
  leaves open. The destination is any state with a \<open>Write\<close> (theory Host, locale \<open>io_writer\<close>); the
  \<open>select\<close> of \<open>wait\<close> between the timer and the context is a second operation on that state.
\<close>

section \<open>Data\<close>

type_synonym go_map = "(string \<times> string) list"

record chunk =
  cDelay :: int
  cBody :: "byte list"

record plan =
  pStatus :: int
  pHeaders :: go_map
  pMode :: string
  pDelay :: int
  pBody :: "byte list"
  pChunks :: "chunk list"
  pClose :: bool

record write_result =
  rBytes :: int
  rSHA256 :: string
  rComplete :: bool
  rError :: "go_error option"

section \<open>Status line and headers\<close>

abbreviation (input) "StatusNoContent \<equiv> (204 :: int)"
abbreviation (input) "StatusNotModified \<equiv> (304 :: int)"

definition crlf :: string where "crlf = [CHR 0x0D, CHR 0x0A]"

text \<open>\<open>http.StatusText\<close>.\<close>

definition status_texts :: "(int \<times> string) list" where
  "status_texts = [(100, ''Continue''), (101, ''Switching Protocols''), (102, ''Processing''),
    (103, ''Early Hints''), (200, ''OK''), (201, ''Created''), (202, ''Accepted''),
    (203, ''Non-Authoritative Information''), (204, ''No Content''), (205, ''Reset Content''),
    (206, ''Partial Content''), (207, ''Multi-Status''), (208, ''Already Reported''), (226, ''IM Used''),
    (300, ''Multiple Choices''), (301, ''Moved Permanently''), (302, ''Found''), (303, ''See Other''),
    (304, ''Not Modified''), (305, ''Use Proxy''), (307, ''Temporary Redirect''),
    (308, ''Permanent Redirect''), (400, ''Bad Request''), (401, ''Unauthorized''),
    (402, ''Payment Required''), (403, ''Forbidden''), (404, ''Not Found''),
    (405, ''Method Not Allowed''), (406, ''Not Acceptable''), (407, ''Proxy Authentication Required''),
    (408, ''Request Timeout''), (409, ''Conflict''), (410, ''Gone''), (411, ''Length Required''),
    (412, ''Precondition Failed''), (413, ''Request Entity Too Large''), (414, ''Request URI Too Long''),
    (415, ''Unsupported Media Type''), (416, ''Requested Range Not Satisfiable''),
    (417, ''Expectation Failed''), (418, ''I'' @ [CHR 0x27] @ ''m a teapot''), (421, ''Misdirected Request''),
    (422, ''Unprocessable Entity''), (423, ''Locked''), (424, ''Failed Dependency''), (425, ''Too Early''),
    (426, ''Upgrade Required''), (428, ''Precondition Required''), (429, ''Too Many Requests''),
    (431, ''Request Header Fields Too Large''), (451, ''Unavailable For Legal Reasons''),
    (500, ''Internal Server Error''), (501, ''Not Implemented''), (502, ''Bad Gateway''),
    (503, ''Service Unavailable''), (504, ''Gateway Timeout''), (505, ''HTTP Version Not Supported''),
    (506, ''Variant Also Negotiates''), (507, ''Insufficient Storage''), (508, ''Loop Detected''),
    (510, ''Not Extended''), (511, ''Network Authentication Required'')]"

definition StatusText :: "int \<Rightarrow> string" where
  "StatusText code = (case map_of status_texts code of None \<Rightarrow> '''' | Some t \<Rightarrow> t)"

definition statusLine :: "int \<Rightarrow> int \<Rightarrow> int \<Rightarrow> string" where
  "statusLine protoMajor protoMinor status =
    (let text = StatusText status; text = (if text = '''' then ''Status'' else text) in
     ''HTTP/'' @ itoa protoMajor @ ''.'' @ itoa protoMinor @ '' '' @ itoa status @ '' '' @ text @ crlf)"

definition unsupported_protocol :: "int \<Rightarrow> int \<Rightarrow> go_error" where
  "unsupported_protocol protoMajor protoMinor =
     Errorf ''unsupported HTTP protocol %d.%d'' [AInt protoMajor, AInt protoMinor]"

definition unsupported_mode :: "string \<Rightarrow> go_error" where
  "unsupported_mode mode = Errorf ''unsupported response mode %q'' [AStr mode]"

definition responseHeaders :: "int \<Rightarrow> int \<Rightarrow> string \<Rightarrow> plan \<Rightarrow> go_error + string list" where
  "responseHeaders protoMajor protoMinor meth plan =
    (let headers = fold (\<lambda>(key, value) hs. AList.update (canonical_key key) value hs) (pHeaders plan) [];
         framed =
           (if pMode plan = '''' \<or> pMode plan = ''immediate''
            then Inr (AList.update ''Content-Length'' (itoa (int (length (pBody plan)))) headers)
            else if pMode plan = ''ndjson'' then
              (if protoMajor = 1 \<and> protoMinor = 1 then Inr (AList.update ''Transfer-Encoding'' ''chunked'' headers)
               else if protoMajor = 1 \<and> protoMinor = 0
               then Inr (AList.update ''Content-Length''
                      (itoa (int (sum_list (map (\<lambda>c. length (cBody c)) (pChunks plan))))) headers)
               else Inl (unsupported_protocol protoMajor protoMinor))
            else Inl (unsupported_mode (pMode plan)))
     in case framed of Inl err \<Rightarrow> Inl err
      | Inr headers \<Rightarrow>
          let headers = (if pClose plan then AList.update ''Connection'' ''close'' headers
             else if protoMajor = 1 \<and> protoMinor = 0 then AList.update ''Connection'' ''keep-alive'' headers
             else headers);
            keys = sort (map fst headers)
          in Inr (map (\<lambda>key. key @ '': '' @ the (map_of headers key) @ crlf) keys))"

definition no_body :: "string \<Rightarrow> plan \<Rightarrow> bool" where
  "no_body meth plan \<longleftrightarrow> equal_fold meth ''HEAD'' \<or> pStatus plan = StatusNoContent \<or> pStatus plan = StatusNotModified"

definition chunk_prefix :: "chunk \<Rightarrow> string" where
  "chunk_prefix c = hex_nat (length (cBody c)) @ crlf"

definition intendedWireSize :: "int \<Rightarrow> int \<Rightarrow> string \<Rightarrow> plan \<Rightarrow> go_error + int" where
  "intendedWireSize protoMajor protoMinor meth plan =
    (case responseHeaders protoMajor protoMinor meth plan of Inl err \<Rightarrow> Inl err
     | Inr headers \<Rightarrow>
       let total = int (length (statusLine protoMajor protoMinor (pStatus plan)) + 2);
           total = total + int (sum_list (map length headers))
       in if no_body meth plan then Inr total
          else if pMode plan = '''' \<or> pMode plan = ''immediate'' then Inr (total + int (length (pBody plan)))
          else if pMode plan \<noteq> ''ndjson'' then Inl (unsupported_mode (pMode plan))
          else if protoMajor = 1 \<and> protoMinor = 0
            then Inr (total + int (sum_list (map (\<lambda>c. length (cBody c)) (pChunks plan))))
          else if protoMajor = 1 \<and> protoMinor = 1
            then Inr (total + int (sum_list (map (\<lambda>c. length (hex_nat (length (cBody c))) + 2 + length (cBody c) + 2)
                   (pChunks plan))) + 5)
          else Inl (unsupported_protocol protoMajor protoMinor))"

section \<open>Writing\<close>

text \<open>The wrapper that counts and hashes what the destination took.\<close>

record 's hash_writer =
  hwW :: 's
  hwH :: "byte list"
  hwN :: int

type_synonym 's writer_op = "'s \<Rightarrow> byte list \<Rightarrow> (nat \<times> go_error option) \<times> 's"

definition hashWriter_Write :: "'s writer_op \<Rightarrow> 's hash_writer writer_op" where
  "hashWriter_Write wr w p = (case wr (hwW w) p of ((n, err), s) \<Rightarrow>
     ((n, err), if n > 0 then \<lparr>hwW = s, hwH = hwH w @ take n p, hwN = hwN w + int n\<rparr> else w\<lparr>hwW := s\<rparr>))"

definition hashWriter_sum :: "(byte list \<Rightarrow> byte list) \<Rightarrow> 's hash_writer \<Rightarrow> string" where
  "hashWriter_sum sha256 w = hex_encode (sha256 (hwH w))"

definition writeAll :: "'s writer_op \<Rightarrow> 's hash_writer \<Rightarrow> byte list \<Rightarrow> go_error option \<times> 's hash_writer" where
  "writeAll wr = write_loop (hashWriter_Write wr)"

text \<open>\<open>if err := ...; err != nil { return ... }\<close>.\<close>

definition and_then :: "go_error option \<times> 's \<Rightarrow> ('s \<Rightarrow> go_error option \<times> 's) \<Rightarrow> go_error option \<times> 's" where
  "and_then r k = (case r of (Some err, s) \<Rightarrow> (Some err, s) | (None, s) \<Rightarrow> k s)"

text \<open>\<open>sel\<close> answers the \<open>select\<close>: nil when the timer fired, \<open>ctx.Err()\<close> otherwise.\<close>

type_synonym 's select_op = "int \<Rightarrow> 's \<Rightarrow> go_error option \<times> 's"

definition wait :: "'s select_op \<Rightarrow> int \<Rightarrow> 's \<Rightarrow> go_error option \<times> 's" where
  "wait sel delay s = (if delay \<le> 0 then (None, s) else sel delay s)"

definition wait_hw :: "'s select_op \<Rightarrow> int \<Rightarrow> 's hash_writer \<Rightarrow> go_error option \<times> 's hash_writer" where
  "wait_hw sel delay w = (case wait sel delay (hwW w) of (err, s) \<Rightarrow> (err, w\<lparr>hwW := s\<rparr>))"

definition resultFrom :: "(byte list \<Rightarrow> byte list) \<Rightarrow> 's hash_writer \<Rightarrow> bool \<Rightarrow> go_error option \<Rightarrow> write_result" where
  "resultFrom sha256 w ok err = \<lparr>rBytes = hwN w, rSHA256 = hashWriter_sum sha256 w,
     rComplete = (ok \<and> err = None), rError = err\<rparr>"

definition error_result :: "go_error \<Rightarrow> write_result" where
  "error_result err = \<lparr>rBytes = 0, rSHA256 = '''', rComplete = False, rError = Some err\<rparr>"

primrec write_headers :: "'s writer_op \<Rightarrow> string list \<Rightarrow> 's hash_writer \<Rightarrow> go_error option \<times> 's hash_writer" where
  "write_headers wr [] w = (None, w)"
| "write_headers wr (line # ls) w = and_then (writeAll wr w (bytes_of line)) (write_headers wr ls)"

primrec write_chunks11 ::
  "'s writer_op \<Rightarrow> 's select_op \<Rightarrow> chunk list \<Rightarrow> 's hash_writer \<Rightarrow> go_error option \<times> 's hash_writer" where
  "write_chunks11 wr sel [] w = (None, w)"
| "write_chunks11 wr sel (c # cs) w =
     and_then (wait_hw sel (cDelay c) w) (\<lambda>w.
     and_then (writeAll wr w (bytes_of (chunk_prefix c))) (\<lambda>w.
     and_then (writeAll wr w (cBody c)) (\<lambda>w.
     and_then (writeAll wr w (bytes_of crlf)) (write_chunks11 wr sel cs))))"

primrec write_chunks10 ::
  "'s writer_op \<Rightarrow> 's select_op \<Rightarrow> chunk list \<Rightarrow> 's hash_writer \<Rightarrow> go_error option \<times> 's hash_writer" where
  "write_chunks10 wr sel [] w = (None, w)"
| "write_chunks10 wr sel (c # cs) w =
     and_then (wait_hw sel (cDelay c) w) (\<lambda>w.
     and_then (writeAll wr w (cBody c)) (write_chunks10 wr sel cs))"

definition write_body ::
  "'s writer_op \<Rightarrow> 's select_op \<Rightarrow> int \<Rightarrow> int \<Rightarrow> plan \<Rightarrow> 's hash_writer \<Rightarrow> go_error option \<times> 's hash_writer" where
  "write_body wr sel protoMajor protoMinor plan w =
    (if pMode plan = ''immediate'' then writeAll wr w (pBody plan)
     else if pMode plan = ''ndjson'' then
       (if protoMajor = 1 \<and> protoMinor = 1
        then and_then (write_chunks11 wr sel (pChunks plan) w) (\<lambda>w. writeAll wr w (bytes_of (''0'' @ crlf @ crlf)))
        else if protoMajor = 1 \<and> protoMinor = 0 then write_chunks10 wr sel (pChunks plan) w
        else (Some (unsupported_protocol protoMajor protoMinor), w))
     else (Some (unsupported_mode (pMode plan)), w))"

definition Write ::
  "'s writer_op \<Rightarrow> 's select_op \<Rightarrow> (byte list \<Rightarrow> byte list) \<Rightarrow> int \<Rightarrow> int \<Rightarrow> string \<Rightarrow> plan \<Rightarrow> int \<Rightarrow> 's \<Rightarrow>
     write_result \<times> 's" where
  "Write wr sel sha256 protoMajor protoMinor meth plan0 maxBytes dst =
    (let plan = (if pMode plan0 = '''' then plan0\<lparr>pMode := ''immediate''\<rparr> else plan0) in
     case intendedWireSize protoMajor protoMinor meth plan of Inl err \<Rightarrow> (error_result err, dst)
     | Inr wireSize \<Rightarrow>
       if wireSize > maxBytes
       then (error_result (Wrapf ''%w: %d > %d'' [AInt wireSize, AInt maxBytes] ErrResponseLimit), dst)
       else (case wait sel (pDelay plan) dst of (Some err, dst) \<Rightarrow> (error_result err, dst)
       | (None, dst) \<Rightarrow>
         (case responseHeaders protoMajor protoMinor meth plan of Inl err \<Rightarrow> (error_result err, dst)
         | Inr headers \<Rightarrow>
           (case and_then (writeAll wr \<lparr>hwW = dst, hwH = [], hwN = 0\<rparr>
                    (bytes_of (statusLine protoMajor protoMinor (pStatus plan)))) (\<lambda>w.
                and_then (write_headers wr headers w) (\<lambda>w.
                and_then (writeAll wr w (bytes_of crlf)) (\<lambda>w.
                if no_body meth plan then (None, w) else write_body wr sel protoMajor protoMinor plan w))) of
             (err, w) \<Rightarrow> (resultFrom sha256 w True err, hwW w)))))"

section \<open>A response as a list of actions\<close>

text \<open>What \<open>Write\<close> means to send, as a list: the bytes and the pauses, in order.\<close>

datatype action = Emit "byte list" | Pause int

primrec emitted :: "action \<Rightarrow> byte list" where
  "emitted (Emit bs) = bs"
| "emitted (Pause d) = []"

definition emitted_all :: "action list \<Rightarrow> byte list" where
  "emitted_all as = concat (map emitted as)"

lemma emitted_all_simps [simp]: "emitted_all [] = []" "emitted_all (a # as) = emitted a @ emitted_all as"
    "emitted_all (as @ bs) = emitted_all as @ emitted_all bs"
  by (simp_all add: emitted_all_def)

definition chunk_actions :: "chunk \<Rightarrow> action list" where
  "chunk_actions c = [Pause (cDelay c), Emit (bytes_of (chunk_prefix c)), Emit (cBody c), Emit (bytes_of crlf)]"

definition body_actions :: "int \<Rightarrow> plan \<Rightarrow> action list" where
  "body_actions protoMinor plan =
    (if pMode plan = ''ndjson'' then
       (if protoMinor = 1 then concat (map chunk_actions (pChunks plan)) @ [Emit (bytes_of (''0'' @ crlf @ crlf))]
        else concat (map (\<lambda>c. [Pause (cDelay c), Emit (cBody c)]) (pChunks plan)))
     else [Emit (pBody plan)])"

definition plan_actions :: "int \<Rightarrow> int \<Rightarrow> string \<Rightarrow> plan \<Rightarrow> string list \<Rightarrow> action list" where
  "plan_actions protoMajor protoMinor meth plan headers =
     [Emit (bytes_of (statusLine protoMajor protoMinor (pStatus plan)))] @ map (Emit \<circ> bytes_of) headers
     @ [Emit (bytes_of crlf)] @ (if no_body meth plan then [] else body_actions protoMinor plan)"

text \<open>Performing a list of actions, stopping at the first error.\<close>

primrec perform :: "'s writer_op \<Rightarrow> 's select_op \<Rightarrow> action list \<Rightarrow> 's hash_writer \<Rightarrow> go_error option \<times> 's hash_writer" where
  "perform wr sel [] w = (None, w)"
| "perform wr sel (a # as) w = and_then
     (case a of Emit bs \<Rightarrow> writeAll wr w bs | Pause d \<Rightarrow> wait_hw sel d w) (perform wr sel as)"

lemma and_then_simps [simp]: "and_then (None, s) k = k s" "and_then (Some err, s) k = (Some err, s)"
  by (simp_all add: and_then_def)

lemma and_then_assoc: "and_then (and_then r k) l = and_then r (\<lambda>s. and_then (k s) l)"
  by (auto simp: and_then_def split: prod.splits option.splits)

lemma and_then_return [simp]: "and_then r (\<lambda>s. (None, s)) = r"
  by (auto simp: and_then_def split: prod.splits option.splits)

lemma perform_fun: "perform wr sel [] = (\<lambda>w. (None, w))"
    "perform wr sel (a # as) = (\<lambda>w. and_then
       (case a of Emit bs \<Rightarrow> writeAll wr w bs | Pause d \<Rightarrow> wait_hw sel d w) (perform wr sel as))"
  by (simp_all add: fun_eq_iff)

lemma perform_append: "perform wr sel (as @ bs) = (\<lambda>w. and_then (perform wr sel as w) (perform wr sel bs))"
  by (induction as) (simp_all add: perform_fun and_then_assoc del: perform.simps)

lemma perform_headers: "write_headers wr ls = perform wr sel (map (Emit \<circ> bytes_of) ls)"
proof (induction ls)
  case (Cons l ls)
  have "write_headers wr (l # ls) = (\<lambda>w. and_then (writeAll wr w (bytes_of l)) (write_headers wr ls))"
    by (simp add: fun_eq_iff)
  then show ?case by (simp add: Cons.IH perform_fun del: perform.simps)
qed (simp add: fun_eq_iff)

lemma perform_chunks11: "write_chunks11 wr sel cs = perform wr sel (concat (map chunk_actions cs))"
proof (induction cs)
  case (Cons c cs)
  show ?case by (simp add: fun_eq_iff perform_append perform_fun chunk_actions_def and_then_assoc Cons.IH
      del: perform.simps)
qed (simp add: fun_eq_iff)

lemma perform_chunks10:
  "write_chunks10 wr sel cs = perform wr sel (concat (map (\<lambda>c. [Pause (cDelay c), Emit (cBody c)]) cs))"
proof (induction cs)
  case (Cons c cs)
  show ?case by (simp add: fun_eq_iff perform_append perform_fun and_then_assoc Cons.IH del: perform.simps)
qed (simp add: fun_eq_iff)

definition known_body :: "int \<Rightarrow> int \<Rightarrow> plan \<Rightarrow> bool" where
  "known_body protoMajor protoMinor plan \<longleftrightarrow> pMode plan = ''immediate''
     \<or> pMode plan = ''ndjson'' \<and> protoMajor = 1 \<and> (protoMinor = 1 \<or> protoMinor = 0)"

lemma perform_body:
  "known_body protoMajor protoMinor plan \<Longrightarrow>
     write_body wr sel protoMajor protoMinor plan w = perform wr sel (body_actions protoMinor plan) w"
  by (auto simp: known_body_def write_body_def body_actions_def perform_append perform_fun
      perform_chunks11 perform_chunks10 simp del: perform.simps)

text \<open>What \<open>responseHeaders\<close> and \<open>intendedWireSize\<close> accept.\<close>

lemma responseHeaders_known:
  "pMode plan \<noteq> '''' \<Longrightarrow> (\<exists>hs. responseHeaders protoMajor protoMinor meth plan = Inr hs)
     \<longleftrightarrow> known_body protoMajor protoMinor plan"
  by (auto simp: responseHeaders_def known_body_def Let_def)

lemma length_crlf [simp]: "length crlf = 2"
  by (simp add: crlf_def)

lemma emitted_headers: "length (emitted_all (map (Emit \<circ> bytes_of) hs)) = sum_list (map length hs)"
  by (induction hs) simp_all

lemma emitted_chunks11:
  "length (emitted_all (concat (map chunk_actions cs)))
     = sum_list (map (\<lambda>c. length (hex_nat (length (cBody c))) + 2 + length (cBody c) + 2) cs)"
  by (induction cs) (simp_all add: chunk_actions_def chunk_prefix_def)

lemma emitted_chunks10:
  "emitted_all (concat (map (\<lambda>c. [Pause (cDelay c), Emit (cBody c)]) cs)) = concat (map cBody cs)"
  by (induction cs) simp_all

lemma intendedWireSize_actions:
  assumes hs: "responseHeaders protoMajor protoMinor meth plan = Inr hs" and m: "pMode plan \<noteq> ''''"
  shows "intendedWireSize protoMajor protoMinor meth plan
    = Inr (int (length (emitted_all (plan_actions protoMajor protoMinor meth plan hs))))"
proof -
  have k: "known_body protoMajor protoMinor plan" using hs responseHeaders_known [OF m] by blast
  show ?thesis using k
    by (auto simp: intendedWireSize_def hs Let_def plan_actions_def body_actions_def known_body_def
        emitted_headers [unfolded comp_def] emitted_chunks11 emitted_chunks10 length_concat comp_def)
qed

section \<open>The accounting of a response\<close>

text \<open>
  A destination is an \<open>io.Writer\<close> whose \<open>select\<close> with the timer sends nothing. Wrapped in a
  \<open>hashWriter\<close> it is an \<open>io.Writer\<close> again: what the wrapper hashed and counted is what the
  destination took since the wrapper was made.
\<close>

locale destination = io_writer wr sink rest invar
  for wr :: "'s \<Rightarrow> byte list \<Rightarrow> (nat \<times> go_error option) \<times> 's"
    and sink :: "'s \<Rightarrow> byte list" and rest :: "'s \<Rightarrow> 'r" and invar :: "'s \<Rightarrow> bool" +
  fixes sel :: "int \<Rightarrow> 's \<Rightarrow> go_error option \<times> 's"
  assumes sel_frame: "invar s \<Longrightarrow> sel d s = (e, s') \<Longrightarrow> invar s' \<and> sink s' = sink s \<and> rest s' = rest s"

definition hw_before :: "('s \<Rightarrow> byte list) \<Rightarrow> 's hash_writer \<Rightarrow> byte list" where
  "hw_before sink w = take (length (sink (hwW w)) - length (hwH w)) (sink (hwW w))"

definition hw_ok :: "('s \<Rightarrow> byte list) \<Rightarrow> 's hash_writer \<Rightarrow> bool" where
  "hw_ok sink w \<longleftrightarrow> sink (hwW w) = hw_before sink w @ hwH w \<and> hwN w = int (length (hwH w))"

lemma hw_write:
  assumes "hashWriter_Write wr w p = ((n, e), w')" "hw_ok sink w" "wr (hwW w) p = ((m, e2), s)"
    and "sink s = sink (hwW w) @ take m p" "m \<le> length p"
  shows "n = m \<and> e = e2 \<and> hwW w' = s \<and> hwH w' = hwH w @ take n p \<and> hw_ok sink w'
    \<and> hw_before sink w' = hw_before sink w"
proof -
  have w': "n = m" "e = e2" "hwW w' = s" "hwH w' = hwH w @ take m p" "hwN w' = hwN w + int m"
    using assms(1,3) by (auto simp: hashWriter_Write_def split: if_splits)
  have s: "sink s = (hw_before sink w @ hwH w) @ take m p" using assms(2,4) by (simp add: hw_ok_def)
  have "hw_before sink w' = hw_before sink w" unfolding hw_before_def [of sink w'] w'(3,4) s
    using assms(5) by simp
  then show ?thesis using w' s assms(2,5) by (simp add: hw_ok_def)
qed

sublocale destination \<subseteq> hashed: io_writer "hashWriter_Write wr" hwH
  "\<lambda>w. (hw_before sink w, rest (hwW w))" "\<lambda>w. invar (hwW w) \<and> hw_ok sink w"
proof
  fix w w' :: "'s hash_writer" and p n e
  assume inv: "invar (hwW w) \<and> hw_ok sink w" and op: "hashWriter_Write wr w p = ((n, e), w')"
  obtain m e2 s where wr: "wr (hwW w) p = ((m, e2), s)" by (metis surj_pair)
  have s: "m \<le> length p" "sink s = sink (hwW w) @ take m p" "rest s = rest (hwW w)" "invar s"
    using inv wr write_le write_sink write_rest write_invar by blast+
  note eff = hw_write [OF op _ wr s(2,1)]
  show "n \<le> length p" "hwH w' = hwH w @ take n p"
    "(hw_before sink w', rest (hwW w')) = (hw_before sink w, rest (hwW w))"
    "invar (hwW w') \<and> hw_ok sink w'"
    using eff inv s by auto
qed

context destination
begin

lemma wait_frame: "invar s \<Longrightarrow> wait sel d s = (e, s') \<Longrightarrow> invar s' \<and> sink s' = sink s \<and> rest s' = rest s"
  using sel_frame by (auto simp: wait_def split: if_splits)

lemma wait_hw_frame:
  assumes "invar (hwW w) \<and> hw_ok sink w" "wait_hw sel d w = (e, w')"
  shows "(invar (hwW w') \<and> hw_ok sink w') \<and> hwH w' = hwH w \<and> hw_before sink w' = hw_before sink w
    \<and> rest (hwW w') = rest (hwW w)"
proof -
  obtain s where "wait sel d (hwW w) = (e, s)" "w' = w\<lparr>hwW := s\<rparr>"
    using assms(2) by (auto simp: wait_hw_def split: prod.splits)
  then show ?thesis using wait_frame [of "hwW w" d e s] assms(1) by (auto simp: hw_ok_def hw_before_def)
qed

text \<open>Performing actions: a prefix of what they emit reaches the destination, and all of it when no
  error is returned.\<close>

lemma perform_effect:
  "invar (hwW w) \<and> hw_ok sink w \<Longrightarrow> perform wr sel as w = (r, w') \<Longrightarrow>
     (invar (hwW w') \<and> hw_ok sink w') \<and> hw_before sink w' = hw_before sink w \<and> rest (hwW w') = rest (hwW w)
     \<and> (\<exists>k \<le> length (emitted_all as). hwH w' = hwH w @ take k (emitted_all as)
          \<and> (r = None \<longrightarrow> k = length (emitted_all as)))"
proof (induction as arbitrary: w)
  case (Cons a as)
  obtain e v where first: "(case a of Emit bs \<Rightarrow> writeAll wr w bs | Pause d \<Rightarrow> wait_hw sel d w) = (e, v)"
    by fastforce
  have v: "(invar (hwW v) \<and> hw_ok sink v) \<and> hw_before sink v = hw_before sink w \<and> rest (hwW v) = rest (hwW w)
     \<and> (\<exists>k \<le> length (emitted a). hwH v = hwH w @ take k (emitted a) \<and> (e = None \<longrightarrow> k = length (emitted a)))"
  proof (cases a)
    case (Emit bs)
    then have wa: "write_loop (hashWriter_Write wr) w bs = (e, v)" using first by (simp add: writeAll_def)
    show ?thesis using hashed.loop_invar [OF Cons.prems(1) wa] hashed.loop_prefix [OF Cons.prems(1) wa] Emit by auto
  next
    case (Pause d)
    then show ?thesis using wait_hw_frame [OF Cons.prems(1)] first by simp
  qed
  show ?case
  proof (cases e)
    case (Some err)
    then have "r = Some err" "w' = v" using Cons.prems(2) first by simp_all
    moreover obtain k where "k \<le> length (emitted a)" "hwH v = hwH w @ take k (emitted a)" using v by blast
    ultimately show ?thesis using v by (auto intro!: exI [of _ k])
  next
    case None
    then have "perform wr sel as v = (r, w')" using Cons.prems(2) first by simp
    from Cons.IH [OF _ this] v obtain k where k: "k \<le> length (emitted_all as)"
        "hwH w' = hwH v @ take k (emitted_all as)" "r = None \<longrightarrow> k = length (emitted_all as)"
        "(invar (hwW w') \<and> hw_ok sink w') \<and> hw_before sink w' = hw_before sink w \<and> rest (hwW w') = rest (hwW w)"
      by auto
    moreover have "hwH v = hwH w @ emitted a" using v None by auto
    ultimately show ?thesis by (auto intro!: exI [of _ "length (emitted a) + k"])
  qed
qed auto

end

text \<open>The bytes of a planned response; a plan without a mode is sent at once.\<close>

definition effective :: "plan \<Rightarrow> plan" where
  "effective plan = (if pMode plan = '''' then plan\<lparr>pMode := ''immediate''\<rparr> else plan)"

definition response_bytes :: "int \<Rightarrow> int \<Rightarrow> string \<Rightarrow> plan \<Rightarrow> byte list" where
  "response_bytes protoMajor protoMinor meth plan =
    (case responseHeaders protoMajor protoMinor meth (effective plan) of Inl err \<Rightarrow> []
     | Inr hs \<Rightarrow> emitted_all (plan_actions protoMajor protoMinor meth (effective plan) hs))"

definition no_writer :: "'s \<Rightarrow> 's hash_writer" where
  "no_writer s = \<lparr>hwW = s, hwH = [], hwN = 0\<rparr>"

lemma Write_actions:
  "Write wr sel sha256 protoMajor protoMinor meth plan maxBytes s =
    (case intendedWireSize protoMajor protoMinor meth (effective plan) of Inl err \<Rightarrow> (error_result err, s)
     | Inr wireSize \<Rightarrow>
       if wireSize > maxBytes
       then (error_result (Wrapf ''%w: %d > %d'' [AInt wireSize, AInt maxBytes] ErrResponseLimit), s)
       else (case wait sel (pDelay plan) s of (Some err, s) \<Rightarrow> (error_result err, s)
       | (None, s) \<Rightarrow>
         (case responseHeaders protoMajor protoMinor meth (effective plan) of Inl err \<Rightarrow> (error_result err, s)
         | Inr hs \<Rightarrow> (case perform wr sel (plan_actions protoMajor protoMinor meth (effective plan) hs) (no_writer s) of
             (err, w) \<Rightarrow> (resultFrom sha256 w True err, hwW w)))))"
proof -
  have m: "pMode (effective plan) \<noteq> ''''" "pDelay (effective plan) = pDelay plan" by (simp_all add: effective_def)
  show ?thesis
  proof (cases "responseHeaders protoMajor protoMinor meth (effective plan)")
    case (Inr hs)
    then have "known_body protoMajor protoMinor (effective plan)" using responseHeaders_known [OF m(1)] by blast
    note bd = perform_body [OF this, of wr sel]
    have "and_then (writeAll wr (no_writer t) (bytes_of (statusLine protoMajor protoMinor (pStatus (effective plan))))) (\<lambda>w.
            and_then (write_headers wr hs w) (\<lambda>w.
            and_then (writeAll wr w (bytes_of crlf)) (\<lambda>w.
            if no_body meth (effective plan) then (None, w)
            else write_body wr sel protoMajor protoMinor (effective plan) w)))
        = perform wr sel (plan_actions protoMajor protoMinor meth (effective plan) hs) (no_writer t)" for t
      by (simp add: plan_actions_def perform_headers [where sel = sel] perform_append perform_fun and_then_assoc bd del: perform.simps)
    then show ?thesis using m(2) Inr
      by (simp add: Write_def Let_def effective_def [symmetric] no_writer_def split: prod.split option.split sum.split)
  next
    case (Inl err)
    then show ?thesis by (simp add: Write_def Let_def effective_def [symmetric] intendedWireSize_def)
  qed
qed

context destination
begin

lemma Write_effect:
  assumes inv: "invar s" and op: "Write wr sel sha256 protoMajor protoMinor meth plan maxBytes s = (res, s')"
  defines "R \<equiv> response_bytes protoMajor protoMinor meth plan"
  shows "invar s' \<and> rest s' = rest s \<and> (rComplete res \<longleftrightarrow> rError res = None)
    \<and> (\<exists>k \<le> length R. sink s' = sink s @ take k R \<and> rBytes res = int k
        \<and> (rComplete res \<longrightarrow> k = length R)
        \<and> (rComplete res \<or> 0 < k \<longrightarrow> int (length R) \<le> maxBytes \<and> rSHA256 res = hex_encode (sha256 (take k R))))"
proof (cases "responseHeaders protoMajor protoMinor meth (effective plan)")
  case (Inl err)
  then have "res = error_result err \<and> s' = s" using op by (simp add: Write_actions intendedWireSize_def)
  then show ?thesis using inv by (auto simp: error_result_def)
next
  case (Inr hs)
  let ?as = "plan_actions protoMajor protoMinor meth (effective plan) hs"
  have R: "R = emitted_all ?as" by (simp add: R_def response_bytes_def Inr)
  have wsize: "intendedWireSize protoMajor protoMinor meth (effective plan) = Inr (int (length R))"
    unfolding R by (rule intendedWireSize_actions [OF Inr]) (simp add: effective_def)
  show ?thesis
  proof (cases "int (length R) > maxBytes")
    case True
    then have "rBytes res = 0 \<and> \<not> rComplete res \<and> rError res \<noteq> None \<and> s' = s" using op
      by (auto simp: Write_actions wsize error_result_def)
    then show ?thesis using inv by (auto intro!: exI [of _ 0])
  next
    case fits: False
    obtain e t where wt: "wait sel (pDelay plan) s = (e, t)" by (cases "wait sel (pDelay plan) s")
    have t: "invar t" "sink t = sink s" "rest t = rest s" using wait_frame [OF inv wt] by auto
    show ?thesis
    proof (cases e)
      case (Some err)
      then have "rBytes res = 0 \<and> \<not> rComplete res \<and> rError res \<noteq> None \<and> s' = t" using op fits wt
        by (auto simp: Write_actions wsize error_result_def)
      then show ?thesis using t by (auto intro!: exI [of _ 0])
    next
      case None
      obtain err w where p: "perform wr sel ?as (no_writer t) = (err, w)" by (cases "perform wr sel ?as (no_writer t)")
      have res: "res = resultFrom sha256 w True err" "s' = hwW w" using op fits wt None p
        by (auto simp: Write_actions wsize Inr)
      have start: "invar (hwW (no_writer t)) \<and> hw_ok sink (no_writer t)" "hw_before sink (no_writer t) = sink s"
          "hwH (no_writer t) = []" "rest (hwW (no_writer t)) = rest s"
        using t by (simp_all add: no_writer_def hw_ok_def hw_before_def)
      obtain k where k: "k \<le> length R" "hwH w = take k R" "err = None \<longrightarrow> k = length R" "invar (hwW w)"
          "rest (hwW w) = rest s" "hw_ok sink w" "hw_before sink w = sink s"
        using perform_effect [OF start(1) p] by (auto simp: R start)
      then show ?thesis using fits
        by (auto simp: res resultFrom_def hashWriter_sum_def hw_ok_def intro!: exI [of _ k])
    qed
  qed
qed

end

text \<open>A writer that takes everything it is given, as long as the bytes it still has room for allow, and
  whose waits end in time, makes \<open>Write\<close> succeed.\<close>

definition lossless :: "'s writer_op \<Rightarrow> 's select_op \<Rightarrow> (nat \<Rightarrow> 's \<Rightarrow> bool) \<Rightarrow> bool" where
  "lossless wr sel room_for \<longleftrightarrow>
     (\<forall>k s p n e s'. room_for (length p + k) s \<and> p \<noteq> [] \<and> wr s p = ((n, e), s') \<longrightarrow> n = length p \<and> e = None \<and> room_for k s')
     \<and> (\<forall>k s d e s'. room_for k s \<and> sel d s = (e, s') \<longrightarrow> e = None \<and> room_for k s')"

lemma losslessD:
  "lossless wr sel R \<Longrightarrow> R (length p + k) s \<Longrightarrow> p \<noteq> [] \<Longrightarrow> wr s p = ((n, e), s') \<Longrightarrow> n = length p \<and> e = None \<and> R k s'"
  "lossless wr sel R \<Longrightarrow> R k s \<Longrightarrow> sel d s = (e, s') \<Longrightarrow> e = None \<and> R k s'"
  unfolding lossless_def by blast+

lemma writeAll_lossless:
  assumes "lossless wr sel R" "R (length p + k) (hwW w)" "writeAll wr w p = (r, w')"
  shows "r = None \<and> R k (hwW w')"
proof (cases "p = []")
  case True
  then show ?thesis using assms by (simp add: writeAll_def write_loop.simps)
next
  case False
  obtain n e s where w: "wr (hwW w) p = ((n, e), s)" by (metis surj_pair)
  have n: "n = length p" "e = None" "R k s" using losslessD(1) [OF assms(1,2) False w] by auto
  let ?v = "\<lparr>hwW = s, hwH = hwH w @ p, hwN = hwN w + int (length p)\<rparr>"
  have "hashWriter_Write wr w p = ((length p, None), ?v)" using w n False by (simp add: hashWriter_Write_def)
  then have "writeAll wr w p = (None, ?v)" using False by (simp add: writeAll_def write_loop.simps [of _ w p]) (simp add: write_loop.simps)
  then show ?thesis using assms(3) n by auto
qed

lemma wait_lossless:
  assumes "lossless wr sel R" "R k s" "wait sel d s = (r, s')"
  shows "r = None \<and> R k s'"
  using losslessD(2) [OF assms(1,2)] assms by (auto simp: wait_def split: if_splits)

lemma perform_lossless:
  "lossless wr sel R \<Longrightarrow> R (length (emitted_all as)) (hwW w) \<Longrightarrow> perform wr sel as w = (r, w') \<Longrightarrow> r = None"
proof (induction as arbitrary: w)
  case (Cons a as)
  obtain e v where first: "(case a of Emit bs \<Rightarrow> writeAll wr w bs | Pause d \<Rightarrow> wait_hw sel d w) = (e, v)"
    by fastforce
  have "e = None \<and> R (length (emitted_all as)) (hwW v)"
  proof (cases a)
    case (Emit bs)
    then have "writeAll wr w bs = (e, v)" "R (length bs + length (emitted_all as)) (hwW w)"
      using first Cons.prems(2) by simp_all
    then show ?thesis using writeAll_lossless [OF Cons.prems(1)] by blast
  next
    case (Pause d)
    then obtain s where s: "wait sel d (hwW w) = (e, s)" "v = w\<lparr>hwW := s\<rparr>"
      using first by (auto simp: wait_hw_def split: prod.splits)
    have "R (length (emitted_all as)) (hwW w)" using Cons.prems(2) Pause by simp
    then show ?thesis using wait_lossless [OF Cons.prems(1) _ s(1)] s(2) by simp
  qed
  then show ?case using Cons.IH [of v] Cons.prems first by auto
qed simp

lemma Write_lossless:
  assumes lossless: "lossless wr sel R"
    and hs: "responseHeaders protoMajor protoMinor meth (effective plan) = Inr hs"
    and fits: "int (length (response_bytes protoMajor protoMinor meth plan)) \<le> maxBytes"
    and R: "R (length (response_bytes protoMajor protoMinor meth plan)) s"
  shows "rError (fst (Write wr sel sha256 protoMajor protoMinor meth plan maxBytes s)) = None"
proof -
  let ?as = "plan_actions protoMajor protoMinor meth (effective plan) hs"
  have b: "response_bytes protoMajor protoMinor meth plan = emitted_all ?as" by (simp add: response_bytes_def hs)
  have wsize: "intendedWireSize protoMajor protoMinor meth (effective plan) = Inr (int (length (emitted_all ?as)))"
    by (rule intendedWireSize_actions [OF hs]) (simp add: effective_def)
  obtain e t where wt: "wait sel (pDelay plan) s = (e, t)" by (cases "wait sel (pDelay plan) s")
  have t: "e = None" "R (length (emitted_all ?as)) t"
    using wait_lossless [OF lossless R wt] by (simp_all add: b)
  obtain err w where p: "perform wr sel ?as (no_writer t) = (err, w)" by (cases "perform wr sel ?as (no_writer t)")
  have "err = None" by (rule perform_lossless [OF lossless _ p]) (simp add: no_writer_def t(2))
  then show ?thesis using fits wt t(1) p by (simp add: Write_actions wsize hs b resultFrom_def)
qed

section \<open>What a client reads\<close>

text \<open>A reader of the chunked transfer coding (RFC 9112, section 7.1, without extensions and
  trailers): the body and what follows it.\<close>

fun split_crlf :: "byte list \<Rightarrow> (byte list \<times> byte list) option" where
  "split_crlf (x # y # zs) = (if x = 13 \<and> y = 10 then Some ([], zs)
     else map_option (\<lambda>(l, r). (x # l, r)) (split_crlf (y # zs)))"
| "split_crlf _ = None"

lemma split_crlf_shorter: "split_crlf bs = Some (l, r) \<Longrightarrow> length r < length bs"
  by (induction bs arbitrary: l rule: split_crlf.induct) (auto split: if_splits)

function dechunk :: "byte list \<Rightarrow> (byte list \<times> byte list) option" where
  "dechunk bs = (case split_crlf bs of None \<Rightarrow> None
     | Some (l, r) \<Rightarrow>
       (case undigits 16 (string_of l) of None \<Rightarrow> None
        | Some n \<Rightarrow>
          if l = [] then None
          else if n = 0 then (if take 2 r = bytes_of crlf then Some ([], drop 2 r) else None)
          else if take 2 (drop n r) = bytes_of crlf
          then map_option (\<lambda>(body, rest). (take n r @ body, rest)) (dechunk (drop (n + 2) r))
          else None))"
  by pat_completeness auto
termination
  by (relation "measure length") (auto dest: split_crlf_shorter)

declare dechunk.simps [simp del]

lemma split_crlf_line: "13 \<notin> set l \<Longrightarrow> split_crlf (l @ 13 # 10 # r) = Some (l, r)"
proof (induction l)
  case (Cons x l)
  then show ?case by (cases l) auto
qed simp

lemma bytes_crlf: "bytes_of crlf = [13, 10]"
  by (simp add: bytes_of_def crlf_def)

lemma digits_chars: "2 \<le> b \<Longrightarrow> b \<le> 16 \<Longrightarrow> c \<in> set (digits b n) \<Longrightarrow> \<exists>d < 16. c = digit d"
proof (induction b n rule: digits.induct)
  case (1 b n)
  show ?case
  proof (cases "n < b \<or> b < 2")
    case True
    then show ?thesis using "1.prems" by (subst (asm) digits.simps) (auto intro: exI [of _ n])
  next
    case False
    then have "c \<in> set (digits b (n div b)) \<or> c = digit (n mod b)"
      using "1.prems" by (subst (asm) digits.simps) auto
    moreover have "n mod b < 16" using "1.prems"(1,2) mod_less_divisor [of b n] by linarith
    ultimately show ?thesis using "1.IH" "1.prems" False by auto
  qed
qed

lemma hex_line: "13 \<notin> set (bytes_of (hex_nat n))"
proof
  assume "13 \<in> set (bytes_of (hex_nat n))"
  then obtain c where c: "c \<in> set (digits 16 n)" "13 = (of_char c :: byte)" by (auto simp: bytes_of_def hex_nat_def)
  then obtain d where "d < 16" "c = digit d" using digits_chars [of 16 c n] by auto
  then have "digit_value c = Some d" by simp
  moreover have "(of_char c :: nat) = 13" using arg_cong [OF c(2), of unat] by simp
  ultimately show False by (simp add: digit_value_def)
qed

definition chunked :: "chunk list \<Rightarrow> byte list" where
  "chunked cs = emitted_all (concat (map chunk_actions cs))"

lemma chunked_Cons: "chunked (c # cs) =
    bytes_of (hex_nat (length (cBody c))) @ [13, 10] @ cBody c @ [13, 10] @ chunked cs"
  by (simp add: chunked_def chunk_actions_def chunk_prefix_def bytes_crlf)

lemma dechunk_line:
  "dechunk (bytes_of (hex_nat n) @ 13 # 10 # r) =
    (if n = 0 then (if take 2 r = bytes_of crlf then Some ([], drop 2 r) else None)
     else if take 2 (drop n r) = bytes_of crlf
     then map_option (\<lambda>(body, rest). (take n r @ body, rest)) (dechunk (drop (n + 2) r))
     else None)"
proof -
  have "undigits 16 (string_of (bytes_of (hex_nat n))) = Some n" by (simp add: hex_nat_def undigits_digits)
  moreover have "bytes_of (hex_nat n) \<noteq> []"
    by (metis digits_nonempty hex_nat_def length_0_conv length_bytes_of)
  ultimately show ?thesis
    by (subst dechunk.simps) (simp add: split_crlf_line [OF hex_line])
qed

lemma dechunk_chunk:
  "cBody c \<noteq> [] \<Longrightarrow> dechunk (chunked (c # cs) @ rest)
     = map_option (\<lambda>(body, r). (cBody c @ body, r)) (dechunk (chunked cs @ rest))"
  by (simp add: chunked_Cons dechunk_line bytes_crlf)

lemma dechunk_empty_chunk: "cBody c = [] \<Longrightarrow> dechunk (chunked (c # cs) @ rest) = Some ([], chunked cs @ rest)"
  by (simp add: chunked_Cons dechunk_line bytes_crlf)

lemma dechunk_last: "dechunk (bytes_of (''0'' @ crlf @ crlf) @ rest) = Some ([], rest)"
proof -
  have z: "hex_nat 0 = ''0''" by code_simp
  have "bytes_of (''0'' @ crlf @ crlf) = bytes_of (hex_nat 0) @ bytes_of crlf @ bytes_of crlf"
    by (simp only: bytes_of_append z)
  then show ?thesis using dechunk_line [of 0 "[13, 10] @ rest"] by (simp add: bytes_crlf)
qed

lemma dechunk_chunks:
  "\<forall>c \<in> set cs. cBody c \<noteq> [] \<Longrightarrow> dechunk (chunked (cs @ ds) @ rest)
     = map_option (\<lambda>(body, r). (concat (map cBody cs) @ body, r)) (dechunk (chunked ds @ rest))"
proof (induction cs)
  case (Cons c cs)
  then show ?case using dechunk_chunk [of c "cs @ ds" rest] by (simp add: option.map_comp comp_def split_beta)
qed (simp add: option.map_id0 id_def [symmetric] split_beta)

section \<open>The header lines\<close>

lemma fold_update_distinct:
  "distinct (map fst hs) \<Longrightarrow> distinct (map fst (fold (\<lambda>(key, value) hs. AList.update (f key) value hs) kvs hs))"
  by (induction kvs arbitrary: hs) (auto simp: distinct_update)

lemma fold_update_from:
  "map_of (fold (\<lambda>(key, value) hs. AList.update (f key) value hs) kvs hs) k = Some v \<Longrightarrow>
     (\<exists>k'. (k', v) \<in> set kvs \<and> f k' = k) \<or> map_of hs k = Some v"
proof (induction kvs arbitrary: hs)
  case (Cons kv kvs)
  obtain a b where "kv = (a, b)" by (cases kv)
  then show ?case using Cons.IH [of "AList.update (f a) b hs"] Cons.prems
    by (fastforce simp: update_conv split: if_splits)
qed simp

text \<open>The table that \<open>responseHeaders\<close> prints: distinct keys, and the framing and connection
  headers of the code on top of the plan's own.\<close>

definition framing :: "int \<Rightarrow> int \<Rightarrow> plan \<Rightarrow> string \<times> string" where
  "framing protoMajor protoMinor plan =
    (if pMode plan = ''ndjson'' \<and> protoMajor = 1 \<and> protoMinor = 1 then (''Transfer-Encoding'', ''chunked'')
     else if pMode plan = ''ndjson''
     then (''Content-Length'', itoa (int (length (concat (map cBody (pChunks plan))))))
     else (''Content-Length'', itoa (int (length (pBody plan)))))"

lemma responseHeaders_table:
  assumes "responseHeaders protoMajor protoMinor meth plan = Inr hs"
  obtains table where "distinct (map fst table)" "hs = map (\<lambda>k. k @ '': '' @ the (map_of table k) @ crlf) (sort (map fst table))"
    "map_of table (fst (framing protoMajor protoMinor plan)) = Some (snd (framing protoMajor protoMinor plan))"
    "pClose plan \<Longrightarrow> map_of table ''Connection'' = Some ''close''"
    "\<not> pClose plan \<Longrightarrow> protoMajor = 1 \<and> protoMinor = 0 \<Longrightarrow> map_of table ''Connection'' = Some ''keep-alive''"
    "\<And>k v. map_of table k = Some v \<Longrightarrow> (k, v) = framing protoMajor protoMinor plan
       \<or> k = ''Connection'' \<and> v \<in> {''close'', ''keep-alive''} \<or> (\<exists>k'. (k', v) \<in> set (pHeaders plan) \<and> canonical_key k' = k)"
proof -
  let ?own = "fold (\<lambda>(key, value) hs. AList.update (canonical_key key) value hs) (pHeaders plan) []"
  let ?fr = "framing protoMajor protoMinor plan"
  let ?framed = "AList.update (fst ?fr) (snd ?fr) ?own"
  let ?table = "if pClose plan then AList.update ''Connection'' ''close'' ?framed
     else if protoMajor = 1 \<and> protoMinor = 0 then AList.update ''Connection'' ''keep-alive'' ?framed else ?framed"
  have own: "distinct (map fst ?own)" by (rule fold_update_distinct) simp
  have ne: "fst ?fr \<noteq> ''Connection''" by (simp add: framing_def)
  have len: "sum_list (map (\<lambda>c. length (cBody c)) cs) = length (concat (map cBody cs))" for cs :: "chunk list"
    by (simp add: length_concat comp_def)
  have "hs = map (\<lambda>k. k @ '': '' @ the (map_of ?table k) @ crlf) (sort (map fst ?table))"
    using assms unfolding responseHeaders_def Let_def framing_def len
    by (auto split: if_split_asm)
  moreover have "distinct (map fst ?table)" using own by (auto simp: distinct_update)
  moreover have "map_of ?table (fst ?fr) = Some (snd ?fr)" using ne by (auto simp: update_conv)
  moreover have "(k, v) = ?fr \<or> k = ''Connection'' \<and> v \<in> {''close'', ''keep-alive''}
      \<or> (\<exists>k'. (k', v) \<in> set (pHeaders plan) \<and> canonical_key k' = k)" if "map_of ?table k = Some v" for k v
    using that fold_update_from [of canonical_key "pHeaders plan" "[]" k v]
    by (auto simp: update_conv prod_eq_iff split: if_splits)
  ultimately show ?thesis using that [of ?table] by (auto simp: update_conv)
qed

section \<open>Properties\<close>

lemma response_bytes_layout:
  assumes "responseHeaders protoMajor protoMinor meth (effective plan) = Inr hs"
  shows "response_bytes protoMajor protoMinor meth plan
    = bytes_of (statusLine protoMajor protoMinor (pStatus plan) @ concat hs @ crlf)
      @ (if no_body meth plan then [] else emitted_all (body_actions protoMinor (effective plan)))"
proof -
  have "emitted_all (map (Emit \<circ> bytes_of) ls) = bytes_of (concat ls)" for ls
    by (induction ls) (simp_all add: bytes_of_def)
  moreover have "pStatus (effective plan) = pStatus plan" "no_body meth (effective plan) = no_body meth plan"
    by (simp_all add: effective_def no_body_def)
  ultimately show ?thesis using assms by (simp add: response_bytes_def plan_actions_def)
qed

text \<open>The header lines are sorted by key, one line for each key; the body is framed by exactly
  the header the code chooses (the length of what follows, or the chunked coding), and the
  connection header says whether the server closes.\<close>

lemma responseHeaders_lines:
  assumes "responseHeaders protoMajor protoMinor meth plan = Inr hs"
  shows "\<exists>keys value. sorted keys \<and> distinct keys \<and> hs = map (\<lambda>k. k @ '': '' @ value k @ crlf) keys
    \<and> fst (framing protoMajor protoMinor plan) \<in> set keys
    \<and> value (fst (framing protoMajor protoMinor plan)) = snd (framing protoMajor protoMinor plan)
    \<and> (pClose plan \<longrightarrow> ''Connection'' \<in> set keys \<and> value ''Connection'' = ''close'')
    \<and> (\<not> pClose plan \<and> protoMajor = 1 \<and> protoMinor = 0 \<longrightarrow> ''Connection'' \<in> set keys \<and> value ''Connection'' = ''keep-alive'')"
proof -
  obtain table where t: "distinct (map fst table)" "hs = map (\<lambda>k. k @ '': '' @ the (map_of table k) @ crlf) (sort (map fst table))"
    "map_of table (fst (framing protoMajor protoMinor plan)) = Some (snd (framing protoMajor protoMinor plan))"
    "pClose plan \<Longrightarrow> map_of table ''Connection'' = Some ''close''"
    "\<not> pClose plan \<Longrightarrow> protoMajor = 1 \<and> protoMinor = 0 \<Longrightarrow> map_of table ''Connection'' = Some ''keep-alive''"
    using responseHeaders_table [OF assms] by blast
  have in_keys: "map_of table k = Some v \<Longrightarrow> k \<in> set (sort (map fst table))" for k v
    using map_of_SomeD [of table k v] by (force simp del: map_of_eq_Some_iff)
  show ?thesis using t in_keys
    by (intro exI [of _ "sort (map fst table)"] exI [of _ "\<lambda>k. the (map_of table k)"])
       (auto simp del: map_of_eq_Some_iff)
qed

text \<open>What a streamed response over HTTP/1.1 that is sent without an error puts on the destination, in
  terms of the chunks; what a reader makes of it.\<close>

abbreviation (input) last_chunk :: "byte list" where "last_chunk \<equiv> bytes_of (''0'' @ crlf @ crlf)"

lemma stream_layout:
  assumes "pMode plan = ''ndjson''" "\<not> no_body meth plan"
  shows "\<exists>hs. responseHeaders 1 1 meth plan = Inr hs \<and> ''Transfer-Encoding: chunked'' @ crlf \<in> set hs
    \<and> response_bytes 1 1 meth plan = bytes_of (statusLine 1 1 (pStatus plan) @ concat hs @ crlf) @ chunked (pChunks plan) @ last_chunk"
proof -
  have e: "effective plan = plan" using assms(1) by (simp add: effective_def)
  have "known_body 1 1 plan" using assms(1) by (simp add: known_body_def)
  then obtain hs where hs: "responseHeaders 1 1 meth plan = Inr hs"
    using responseHeaders_known [of plan 1 1 meth] assms(1) by auto
  have fr: "framing 1 1 plan = (''Transfer-Encoding'', ''chunked'')" using assms(1) by (simp add: framing_def)
  obtain keys val where k: "hs = map (\<lambda>k. k @ '': '' @ val k @ crlf) keys" "''Transfer-Encoding'' \<in> set keys"
      "val ''Transfer-Encoding'' = ''chunked''"
    using responseHeaders_lines [OF hs] by (auto simp: fr)
  have "(\<lambda>k. k @ '': '' @ val k @ crlf) ''Transfer-Encoding'' \<in> set hs" unfolding k(1) set_map using k(2) by (rule imageI)
  then have "''Transfer-Encoding: chunked'' @ crlf \<in> set hs" by (simp add: k(3))
  then show ?thesis using response_bytes_layout [of 1 1 meth plan hs] hs assms
    by (simp add: e body_actions_def chunked_def)
qed

lemma stream_read:
  "\<forall>c \<in> set cs. cBody c \<noteq> [] \<Longrightarrow> dechunk ((chunked cs @ last_chunk) @ rest) = Some (concat (map cBody cs), rest)"
  using dechunk_chunks [of cs "[]" "last_chunk @ rest"] dechunk_last [of rest] by (simp add: chunked_def)

lemma stream_cut:
  "\<forall>c \<in> set cs. cBody c \<noteq> [] \<Longrightarrow> cBody c = [] \<Longrightarrow>
     dechunk (chunked (cs @ c # ds) @ last_chunk) = Some (concat (map cBody cs), chunked ds @ last_chunk)"
  using dechunk_chunks [of cs "c # ds"] dechunk_empty_chunk [of c ds] by simp

context destination
begin

lemma Write_stream:
  assumes "invar s" "Write wr sel sha256 1 1 meth plan maxBytes s = (res, s')" "rError res = None"
    and "pMode plan = ''ndjson''" "\<not> no_body meth plan"
  shows "\<exists>hs. responseHeaders 1 1 meth plan = Inr hs \<and> ''Transfer-Encoding: chunked'' @ crlf \<in> set hs
    \<and> sink s' = sink s @ bytes_of (statusLine 1 1 (pStatus plan) @ concat hs @ crlf) @ chunked (pChunks plan) @ last_chunk
    \<and> rBytes res = int (length (sink s') - length (sink s))"
proof -
  have "rComplete res" using Write_effect [OF assms(1,2)] assms(3) by simp
  then have "sink s' = sink s @ response_bytes 1 1 meth plan" "rBytes res = int (length (response_bytes 1 1 meth plan))"
    using Write_effect [OF assms(1,2)] by auto
  then show ?thesis using stream_layout [OF assms(4,5)] by auto
qed

end

definition stream_plan :: plan where
  "stream_plan = \<lparr>pStatus = 200, pHeaders = [(''content-type'', ''application/x-ndjson'')], pMode = ''ndjson'',
     pDelay = 0, pBody = [], pChunks = [\<lparr>cDelay = 0, cBody = bytes_of ''{}''\<rparr>, \<lparr>cDelay = 5, cBody = bytes_of ''[1]''\<rparr>],
     pClose = False\<rparr>"

definition gap_plan :: plan where
  "gap_plan = stream_plan\<lparr>pChunks := [\<lparr>cDelay = 0, cBody = [1]\<rparr>, \<lparr>cDelay = 0, cBody = []\<rparr>, \<lparr>cDelay = 0, cBody = [2]\<rparr>]\<rparr>"

lemma responseHeaders_lines_witness:
  "\<exists>keys value. sorted keys \<and> distinct keys
    \<and> responseHeaders 1 1 ''GET'' stream_plan = Inr (map (\<lambda>k. k @ '': '' @ value k @ crlf) keys)
    \<and> ''Transfer-Encoding'' \<in> set keys \<and> value ''Transfer-Encoding'' = ''chunked''"
proof -
  have "\<exists>hs. responseHeaders 1 1 ''GET'' stream_plan = Inr hs"
    by (simp add: responseHeaders_known known_body_def stream_plan_def)
  then obtain hs where hs: "responseHeaders 1 1 ''GET'' stream_plan = Inr hs" by blast
  have "framing 1 1 stream_plan = (''Transfer-Encoding'', ''chunked'')" by (simp add: framing_def stream_plan_def)
  then show ?thesis using responseHeaders_lines [OF hs] hs by auto
qed

end
