(* ===== verification/Config.thy ===== *)
theory Config
  imports Response
begin

text \<open>
  The configuration of \<open>internal/config/config.go\<close>: its records (a nil-able pointer is an option, a
  Go map an association list with distinct keys), the checks that \<open>Load\<close> makes on the YAML tree
  before decoding, and \<open>Load\<close> itself. Reading the file, the YAML decoder and SHA-256 are arguments:
  \<open>yaml.v3\<close> is not part of the repository.
\<close>

section \<open>Data\<close>

record route_sequence =
  sqDefault :: bool
  sqNumber :: int

record chunk_config =
  ccDelayMS :: int
  ccBody :: "string option"

record response_config =
  rcSequence :: route_sequence
  rcStatus :: int
  rcHeaders :: go_map
  rcResponseMode :: string
  rcDelayMS :: int
  rcBody :: "string option"
  rcChunks :: "chunk_config list"

record fallback_response =
  fbStatus :: int
  fbHeaders :: go_map
  fbDelayMS :: int
  fbBody :: "string option"

record route_config =
  rtMethod :: string
  rtPath :: string
  rtClassification :: string
  rtResponses :: "response_config list"

record identity_config =
  idProduct :: string
  idVariant :: string

record listener_config =
  lcAddress :: string
  lcPort :: int
  lcProtocol :: string

record service_config =
  scEnabled :: bool
  scListener :: "listener_config option"
  scIdentity :: "identity_config option"
  scDefaultHeaders :: go_map
  scRoutes :: "route_config list"
  scDefaultResponse :: "fallback_response option"

record limits_config =
  MaxConnectionsTotal :: int
  MaxConnectionsPerService :: int
  MaxRequestsPerConnection :: int
  MaxConnectionLifetimeSeconds :: int
  MaxConnectionBytes :: int
  MaxHeaderBytes :: int
  MaxBodyBytes :: int
  MaxResponseBytes :: int
  MaxStructuredEventBytes :: int
  MaxStructuredHeaders :: int
  MaxQueryFields :: int
  TLSHandshakeTimeoutSeconds :: int
  HeaderTimeoutSeconds :: int
  BodyTimeoutSeconds :: int
  WriteTimeoutSeconds :: int
  IdleTimeoutSeconds :: int
  MaxStreamSeconds :: int
  MaxPostFailureCaptureBytes :: int
  PostFailureCaptureTimeoutSeconds :: int

record rotation_config =
  roDirectory :: string
  roRotateSizeBytes :: int
  roRotateSeconds :: int

record pcap_config =
  pcInterface :: string
  pcDirectory :: string
  pcRotateSizeBytes :: int
  pcRotateSeconds :: int

record evidence_config =
  evMinFreeBytes :: u64
  evPCAP :: pcap_config
  evWireJournal :: rotation_config
  evJSONL :: rotation_config

record config =
  cfVersion :: int
  cfTLSDirectory :: "string option"
  cfSensorID :: string
  cfEvidence :: evidence_config
  cfLimits :: limits_config
  cfServices :: "(string \<times> service_config) list"
  cfSQLitePath :: "string option"
  cfRaw :: "byte list"
  cfConfigSHA256 :: string
  cfSourcePath :: string

section \<open>Checks in sequence\<close>

text \<open>\<open>if cond { return err }\<close>, several in a row.\<close>

fun first_error :: "(bool \<times> go_error) list \<Rightarrow> go_error option" where
  "first_error [] = None"
| "first_error ((bad, err) # rest) = (if bad then Some err else first_error rest)"

lemma first_error_None [simp]: "first_error cs = None \<longleftrightarrow> (\<forall>(bad, err) \<in> set cs. \<not> bad)"
  by (induction cs rule: first_error.induct) auto

text \<open>\<open>if err := f(x); err != nil { return err }\<close> over the elements of a range loop.\<close>

fun first_failure :: "('a \<Rightarrow> go_error option) \<Rightarrow> 'a list \<Rightarrow> go_error option" where
  "first_failure f [] = None"
| "first_failure f (x # xs) = (case f x of Some err \<Rightarrow> Some err | None \<Rightarrow> first_failure f xs)"

lemma first_failure_None [simp]: "first_failure f xs = None \<longleftrightarrow> (\<forall>x \<in> set xs. f x = None)"
  by (induction xs) (auto split: option.splits)

lemma first_failure_cong [fundef_cong]:
  "xs = ys \<Longrightarrow> (\<And>x. x \<in> set ys \<Longrightarrow> f x = g x) \<Longrightarrow> first_failure f xs = first_failure g ys"
  by (induction ys arbitrary: xs) (auto split: option.splits)

text \<open>Early return from a sequence of checks.\<close>

definition or_else :: "go_error option \<Rightarrow> go_error option \<Rightarrow> go_error option" where
  "or_else a b = (case a of Some err \<Rightarrow> Some err | None \<Rightarrow> b)"

lemma or_else_simps [simp]: "or_else None b = b" "or_else (Some err) b = Some err"
  by (simp_all add: or_else_def)

lemma or_else_None [simp]: "or_else a b = None \<longleftrightarrow> a = None \<and> b = None"
  by (simp add: or_else_def split: option.split)

section \<open>The shape of the YAML document\<close>

datatype yaml_kind = DocumentNode | SequenceNode | MappingNode | ScalarNode | AliasNode

datatype yaml_node = Node (ynKind: yaml_kind) (ynTag: string) (ynValue: string) (ynAnchor: string)
  (ynContent: "yaml_node list")

definition allowedYAMLTag :: "string \<Rightarrow> bool" where
  "allowedYAMLTag tag \<longleftrightarrow> tag \<in> {'''', ''!!map'', ''!!seq'', ''!!str'', ''!!int'', ''!!bool'', ''!!null''}"

text \<open>The elements at even positions: the keys of a mapping node.\<close>

fun mapping_keys :: "'a list \<Rightarrow> 'a list" where
  "mapping_keys [] = []"
| "mapping_keys [k] = [k]"
| "mapping_keys (k # v # rest) = k # mapping_keys rest"

definition required_keys :: "string list" where
  "required_keys = [''version'', ''global'', ''sensor'', ''evidence'', ''limits'', ''services'']"

definition requireTopLevelKeys :: "yaml_node \<Rightarrow> go_error option" where
  "requireTopLevelKeys root =
    (let present = map ynValue (mapping_keys (ynContent root)) in
     first_error (map (\<lambda>key. (key \<notin> set present,
       Errorf ''required top-level field %q is missing'' [AStr key])) required_keys))"

fun inspect_keys :: "yaml_node list \<Rightarrow> string list \<Rightarrow> go_error option" where
  "inspect_keys [] seen = None"
| "inspect_keys (key # keys) seen =
    (if ynKind key \<noteq> ScalarNode \<or> ynTag key \<noteq> ''!!str'' then Some (Errorf ''mapping keys must be strings'' [])
     else if ynValue key = ''<<'' then Some (Errorf ''YAML merge keys are prohibited'' [])
     else if ynValue key \<in> set seen then Some (Errorf ''duplicate YAML mapping key %q'' [AStr (ynValue key)])
     else inspect_keys keys (ynValue key # seen))"

fun inspectNode :: "yaml_node \<Rightarrow> go_error option" where
  "inspectNode (Node kind tag val anchor children) =
    (if anchor \<noteq> '''' then Some (Errorf ''YAML anchors are prohibited'' [])
     else if kind = AliasNode then Some (Errorf ''YAML aliases are prohibited'' [])
     else if \<not> allowedYAMLTag tag then Some (Errorf ''custom or unsupported YAML tag %q'' [AStr tag])
     else or_else (if kind = MappingNode then inspect_keys (mapping_keys children) [] else None)
       (first_failure inspectNode children))"

text \<open>\<open>node_decode\<close> is the outcome of the next \<open>Decode\<close> into a node: \<open>io.EOF\<close> at the end.\<close>

definition inspectYAMLSyntax :: "go_error + yaml_node \<Rightarrow> go_error + yaml_node \<Rightarrow> go_error option" where
  "inspectYAMLSyntax node_decode second_decode =
    (case node_decode of Inl err \<Rightarrow> Some (Wrapf ''YAML syntax: %w'' [] err)
     | Inr doc \<Rightarrow>
       (case ynContent doc of [] \<Rightarrow> Some (Errorf ''empty YAML document'' [])
        | root # _ \<Rightarrow>
          if ynKind root \<noteq> MappingNode then Some (Errorf ''top-level YAML document must be a mapping'' [])
          else or_else (requireTopLevelKeys root) (or_else (inspectNode root)
            (case second_decode of Inl err \<Rightarrow> if err = EOF then None else Some (Wrapf ''YAML syntax: %w'' [] err)
             | Inr _ \<Rightarrow> Some (Errorf ''multiple YAML documents are prohibited'' [])))))"

text \<open>\<open>Sequence.UnmarshalYAML\<close>; \<open>decode_int\<close> is \<open>node.Decode\<close> into an int.\<close>

definition UnmarshalSequence :: "(yaml_node \<Rightarrow> int option) \<Rightarrow> yaml_node \<Rightarrow> go_error + route_sequence" where
  "UnmarshalSequence decode_int node =
    (let bad = Inl (Errorf ''sequence must be a positive integer or default'' []) in
     if ynKind node \<noteq> ScalarNode then bad
     else if ynTag node = ''!!str'' \<and> ynValue node = ''default'' then Inr \<lparr>sqDefault = True, sqNumber = 0\<rparr>
     else if ynTag node \<noteq> ''!!int'' then bad
     else case decode_int node of None \<Rightarrow> bad
       | Some n \<Rightarrow> if n \<le> 0 then bad else Inr \<lparr>sqDefault = False, sqNumber = n\<rparr>)"

text \<open>The properties of an accepted tree.\<close>

fun plain_tree :: "yaml_node \<Rightarrow> bool" where
  "plain_tree (Node kind tag val anchor children) \<longleftrightarrow> anchor = '''' \<and> kind \<noteq> AliasNode \<and> allowedYAMLTag tag
     \<and> (kind = MappingNode \<longrightarrow> distinct (map ynValue (mapping_keys children))
          \<and> (\<forall>k \<in> set (mapping_keys children). ynKind k = ScalarNode \<and> ynTag k = ''!!str'' \<and> ynValue k \<noteq> ''<<''))
     \<and> list_all plain_tree children"

lemma inspect_keys_None:
  "inspect_keys keys seen = None \<longleftrightarrow> distinct (map ynValue keys) \<and> set (map ynValue keys) \<inter> set seen = {}
     \<and> (\<forall>k \<in> set keys. ynKind k = ScalarNode \<and> ynTag k = ''!!str'' \<and> ynValue k \<noteq> ''<<'')"
  by (induction keys arbitrary: seen) auto

lemma inspectNode_plain: "inspectNode node = None \<longleftrightarrow> plain_tree node"
proof (induction node rule: inspectNode.induct)
  case (1 kind tag val anchor children)
  then show ?case by (auto simp: inspect_keys_None list_all_iff)
qed

text \<open>\<open>inspectNode\<close> accepts exactly the trees without anchors, aliases, foreign tags, merge keys,
  non-string keys and duplicate keys, at every depth.\<close>

lemma inspectNode_iff: "inspectNode node = None \<longleftrightarrow> plain_tree node"
  by (rule inspectNode_plain)

end
