(* ===== verification/Net_IP.thy ===== *)
theory Net_IP
  imports Go_Strings
begin

text \<open>
  \<open>net.ParseIP\<close> of the standard library, as \<open>config/validate.go\<close> uses it: dotted decimal and
  IPv6 text (with an ellipsis and a trailing dotted decimal part) to the 16-byte form, in which an
  IPv4 address is mapped to \<open>::ffff:a.b.c.d\<close>. Zones are refused, as \<open>ParseIP\<close> does.
\<close>

type_synonym ip = "byte list"

section \<open>Dotted decimal\<close>

fun split_on :: "char \<Rightarrow> string \<Rightarrow> string list" where
  "split_on d [] = [[]]"
| "split_on d (c # cs) = (if c = d then [] # split_on d cs
     else (case split_on d cs of [] \<Rightarrow> [[c]] | f # fs \<Rightarrow> (c # f) # fs))"

text \<open>A field: one to three decimal digits, no leading zero, at most 255.\<close>

definition decimal_digit :: "char \<Rightarrow> bool" where
  "decimal_digit c \<longleftrightarrow> (let x = of_char c :: nat in 48 \<le> x \<and> x \<le> 57)"

definition parse_octet :: "string \<Rightarrow> byte option" where
  "parse_octet f =
    (if f = [] \<or> \<not> list_all decimal_digit f \<or> (length f > 1 \<and> hd f = CHR ''0'') \<or> length f > 3 then None
     else case undigits 10 f of Some n \<Rightarrow> if n \<le> 255 then Some (of_nat n) else None | None \<Rightarrow> None)"

definition parse_ipv4 :: "string \<Rightarrow> byte list option" where
  "parse_ipv4 s = (case map parse_octet (split_on (CHR ''.'') s) of
      [Some a, Some b, Some c, Some d] \<Rightarrow> Some [a, b, c, d] | _ \<Rightarrow> None)"

definition map_ipv4 :: "byte list \<Rightarrow> ip" where
  "map_ipv4 v4 = replicate 10 0 @ [0xff, 0xff] @ v4"

section \<open>IPv6\<close>

definition hex_char :: "char \<Rightarrow> bool" where
  "hex_char c \<longleftrightarrow> digit_value c \<noteq> None"

text \<open>
  The loop of the parser: \<open>out\<close> holds the bytes so far, \<open>ell\<close> the position of the ellipsis. At
  most eight groups are read; what is left of the text comes back with the bytes.
\<close>

fun parse_groups :: "nat \<Rightarrow> string \<Rightarrow> byte list \<Rightarrow> nat option \<Rightarrow> (byte list \<times> nat option \<times> string) option" where
  "parse_groups 0 s out ell = Some (out, ell, s)"
| "parse_groups (Suc n) s out ell =
    (let group = takeWhile hex_char s; rest = dropWhile hex_char s in
     if group = [] \<or> length group > 4 then None
     else if rest \<noteq> [] \<and> hd rest = CHR ''.'' then
       (if ell = None \<and> length out \<noteq> 12 then None
        else if length out + 4 > 16 then None
        else case parse_ipv4 s of None \<Rightarrow> None | Some v4 \<Rightarrow> Some (out @ v4, ell, []))
     else case undigits 16 group of None \<Rightarrow> None
     | Some v \<Rightarrow>
       let out = out @ [of_nat (v div 256), of_nat (v mod 256)] in
       (case rest of [] \<Rightarrow> Some (out, ell, [])
        | c # more \<Rightarrow>
          if c \<noteq> CHR '':'' \<or> more = [] then None
          else if hd more = CHR '':'' then
            (if ell \<noteq> None then None
             else if tl more = [] then Some (out, Some (length out), [])
             else parse_groups n (tl more) out (Some (length out)))
          else parse_groups n more out ell))"

definition parse_ipv6 :: "string \<Rightarrow> ip option" where
  "parse_ipv6 s0 =
    (let lead = take 2 s0 = ''::''; s = (if lead then drop 2 s0 else s0) in
     if lead \<and> s = [] then Some (replicate 16 0)
     else case parse_groups 8 s [] (if lead then Some 0 else None) of
       None \<Rightarrow> None
     | Some (out, ell, rest) \<Rightarrow>
         if rest \<noteq> [] then None
         else if length out < 16 then
           (case ell of None \<Rightarrow> None
            | Some e \<Rightarrow> Some (take e out @ replicate (16 - length out) 0 @ drop e out))
         else if ell \<noteq> None then None
         else Some out)"

text \<open>\<open>netip.ParseAddr\<close> looks at the first dot, colon or percent sign; a zone makes \<open>ParseIP\<close> fail.\<close>

definition ParseIP :: "string \<Rightarrow> ip option" where
  "ParseIP s = (case filter (\<lambda>c. c \<in> set ''.:%'') s of
      [] \<Rightarrow> None
    | c # _ \<Rightarrow> if c = CHR ''.'' then map_option map_ipv4 (parse_ipv4 s)
        else if c = CHR '':'' then (if CHR ''%'' \<in> set s then None else parse_ipv6 s)
        else None)"

definition IsUnspecified :: "ip \<Rightarrow> bool" where
  "IsUnspecified a \<longleftrightarrow> a = map_ipv4 [0, 0, 0, 0] \<or> a = replicate 16 0"

section \<open>Lemmas\<close>

lemma parse_ipv4_length: "parse_ipv4 s = Some v \<Longrightarrow> length v = 4"
  by (auto simp: parse_ipv4_def split: list.splits option.splits)

lemma parse_groups_length:
  "parse_groups n s out ell = Some (out', ell', rest) \<Longrightarrow> length out + 2 * n \<le> 16 \<Longrightarrow>
     (\<forall>e. ell = Some e \<longrightarrow> e \<le> length out) \<Longrightarrow>
     length out' \<le> 16 \<and> (\<forall>e. ell' = Some e \<longrightarrow> e \<le> length out')"
proof (induction n s out ell rule: parse_groups.induct)
  case (2 n s out ell)
  then show ?case
    by (auto simp: Let_def split: if_splits option.splits list.splits dest: parse_ipv4_length)
      (meson le_SucI)+
qed auto

lemma ParseIP_length: "ParseIP s = Some a \<Longrightarrow> length a = 16"
  using parse_groups_length [of 8]
  by (fastforce simp: ParseIP_def parse_ipv6_def map_ipv4_def Let_def dest: parse_ipv4_length
      split: list.splits if_splits option.splits prod.splits)

lemma parse_examples:
  "ParseIP ''0.0.0.0'' = Some (map_ipv4 [0, 0, 0, 0])" "ParseIP ''::'' = Some (replicate 16 0)"
  "ParseIP ''127.0.0.01'' = None" "ParseIP ''::ffff:1.2.3.4'' = Some (map_ipv4 [1, 2, 3, 4])"
  "ParseIP ''2001:db8::1'' = Some ([0x20, 1, 0x0d, 0xb8] @ replicate 11 0 @ [1])"
  "ParseIP ''fe80::1%eth0'' = None" "ParseIP ''1:2:3:4:5:6:7:8::'' = None"
  by code_simp+

end
