(* ===== verification/Validate.thy ===== *)
theory Validate
  imports Config Net_IP
begin

text \<open>
  \<open>internal/config/validate.go\<close>: the checks on a decoded configuration, in the order of the code.
  A check over a Go map takes the entries in the order of the list, which stands for the order Go
  picks; the lemmas show that whether a configuration is accepted does not depend on it.
\<close>

section \<open>Bounds\<close>

abbreviation (input) "maxServices \<equiv> (64 :: nat)"
abbreviation (input) "maxRoutesPerService \<equiv> (1024 :: nat)"
abbreviation (input) "maxResponsesPerRoute \<equiv> (64 :: nat)"
abbreviation (input) "maxChunksPerResponse \<equiv> (4096 :: nat)"
abbreviation (input) "maxConfiguredHeaders \<equiv> (128 :: nat)"
abbreviation (input) "maxHeaderNameBytes \<equiv> (256 :: nat)"
abbreviation (input) "maxHeaderValueBytes \<equiv> (8192 :: nat)"
abbreviation (input) "maxStaticFixtureBytes \<equiv> (67108864 :: int)"
abbreviation (input) "maxSensorIDBytes \<equiv> (128 :: nat)"
abbreviation (input) "maxServiceIDBytes \<equiv> (64 :: nat)"
abbreviation (input) "maxProductBytes \<equiv> (128 :: nat)"
abbreviation (input) "maxVariantBytes \<equiv> (128 :: nat)"
abbreviation (input) "maxMethodBytes \<equiv> (32 :: nat)"
abbreviation (input) "maxRawPathBytes \<equiv> (4096 :: nat)"
abbreviation (input) "maxClassificationBytes \<equiv> (128 :: nat)"
abbreviation (input) "maxTimeoutSeconds \<equiv> (86400 :: int)"
abbreviation (input) "maxDelayMS \<equiv> (86400000 :: int)"

section \<open>Tokens, paths and headers\<close>

text \<open>Ranging over a string gives runes; a byte from 128 is part of a rune above ASCII (or of an
  invalid one, which reads as U+FFFD), so the test on bytes is the test on runes.\<close>

definition token_separators :: string where
  "token_separators = ''()<>@,;:'' @ [CHR 0x5C, CHR 0x22] @ ''/[]?={} '' @ [CHR 0x09]"

definition isHTTPToken :: "string \<Rightarrow> bool" where
  "isHTTPToken s \<longleftrightarrow> s \<noteq> '''' \<and> list_all (\<lambda>c. let x = of_char c :: nat in
     \<not> (x > 127 \<or> x < 32 \<or> x = 127 \<or> c \<in> set token_separators)) s"

definition validConfiguredRawPath :: "string \<Rightarrow> bool" where
  "validConfiguredRawPath path =
    (if path = ''*'' then True
     else if list_ex (\<lambda>c. c \<in> set ''?#'') path then False
     else list_all (\<lambda>c. \<not> ((of_char c :: nat) \<le> 0x20 \<or> (of_char c :: nat) = 0x7f)) path)"

definition prohibitedResponseHeaders :: "string list" where
  "prohibitedResponseHeaders = [''content-length'', ''transfer-encoding'', ''connection'', ''upgrade'', ''trailer'']"

fun check_headers :: "string \<Rightarrow> go_map \<Rightarrow> string list \<Rightarrow> go_error option" where
  "check_headers name [] seen = None"
| "check_headers name ((key, val) # hs) seen =
    (let lowerKey = to_lower key in
     or_else (first_error
       [(lowerKey \<in> set seen, Errorf ''%s contains case-insensitive duplicate header %q'' [AStr name, AStr key]),
        (key = '''' \<or> length key > maxHeaderNameBytes \<or> \<not> isHTTPToken key,
          Errorf ''%s contains invalid header name'' [AStr name]),
        (length val > maxHeaderValueBytes \<or> list_ex (\<lambda>c. c \<in> set crlf) val,
          Errorf ''%s header %q has invalid value'' [AStr name, AStr key]),
        (to_lower key \<in> set prohibitedResponseHeaders,
          Errorf ''%s may not define framing header %q'' [AStr name, AStr key])])
       (check_headers name hs (lowerKey # seen)))"

definition validateHeaders :: "go_map \<Rightarrow> string \<Rightarrow> go_error option" where
  "validateHeaders headers name =
    (if length headers > maxConfiguredHeaders
     then Some (Errorf ''%s exceeds %d headers'' [AStr name, AInt (int maxConfiguredHeaders)])
     else check_headers name headers [])"

section \<open>Responses\<close>

definition validateStatus :: "string \<Rightarrow> string \<Rightarrow> int \<Rightarrow> go_error option" where
  "validateStatus name method status = first_error
     [(status < 200 \<or> status > 599 \<or> status = 101, Errorf ''%s.status must be 200..599 and cannot be 101'' [AStr name]),
      (equal_fold method ''CONNECT'' \<and> status \<ge> 200 \<and> status < 300,
        Errorf ''%s successful CONNECT tunnel semantics are prohibited'' [AStr name])]"

fun validate_chunks :: "string \<Rightarrow> int \<Rightarrow> nat \<Rightarrow> int \<Rightarrow> chunk_config list \<Rightarrow> go_error + int" where
  "validate_chunks name responseLimit i acc [] = Inr acc"
| "validate_chunks name responseLimit i acc (chunk # chunks) =
    (if ccDelayMS chunk < 0 \<or> ccDelayMS chunk > maxDelayMS
     then Inl (Errorf ''%s.chunks[%d].delay_ms must be 0..%d'' [AStr name, AInt (int i), AInt maxDelayMS])
     else case ccBody chunk of
       None \<Rightarrow> Inl (Errorf ''%s.chunks[%d].body is required'' [AStr name, AInt (int i)])
     | Some body \<Rightarrow>
         if acc + int (length body) > responseLimit
         then Inl (Errorf ''%s chunks exceed configured max_response_bytes'' [AStr name])
         else validate_chunks name responseLimit (Suc i) (acc + int (length body)) chunks)"

definition validateResponse :: "string \<Rightarrow> string \<Rightarrow> response_config \<Rightarrow> int \<Rightarrow> go_error + int" where
  "validateResponse name method r responseLimit =
    (case or_else (validateStatus name method (rcStatus r)) (validateHeaders (rcHeaders r) (name @ ''.headers'')) of
       Some err \<Rightarrow> Inl err
     | None \<Rightarrow>
       if rcDelayMS r < 0 \<or> rcDelayMS r > maxDelayMS
       then Inl (Errorf ''%s.delay_ms must be 0..%d'' [AStr name, AInt maxDelayMS])
       else
         let mode = (if rcResponseMode r = '''' then ''immediate'' else rcResponseMode r) in
         if mode \<noteq> ''immediate'' \<and> mode \<noteq> ''ndjson''
         then Inl (Errorf ''%s.response_mode must be immediate or ndjson'' [AStr name])
         else if rcStatus r = StatusNoContent \<or> rcStatus r = StatusNotModified then
           (if rcBody r \<noteq> None \<or> length (rcChunks r) \<noteq> 0
            then Inl (Errorf ''%s status %d cannot define body or chunks'' [AStr name, AInt (rcStatus r)])
            else if mode \<noteq> ''immediate''
            then Inl (Errorf ''%s status %d must use immediate response mode'' [AStr name, AInt (rcStatus r)])
            else Inr 0)
         else if mode = ''immediate'' then
           (if length (rcChunks r) \<noteq> 0 then Inl (Errorf ''%s immediate response cannot define chunks'' [AStr name])
            else case rcBody r of
              None \<Rightarrow> Inl (Errorf ''%s immediate response requires body'' [AStr name])
            | Some body \<Rightarrow>
                if int (length body) > responseLimit
                then Inl (Errorf ''%s body exceeds configured max_response_bytes'' [AStr name])
                else Inr (int (length body)))
         else if rcBody r \<noteq> None then Inl (Errorf ''%s ndjson response cannot define body'' [AStr name])
         else if length (rcChunks r) = 0 \<or> length (rcChunks r) > maxChunksPerResponse
         then Inl (Errorf ''%s ndjson chunks count must be 1..%d'' [AStr name, AInt (int maxChunksPerResponse)])
         else validate_chunks name responseLimit 0 0 (rcChunks r))"

definition validateFallback :: "string \<Rightarrow> fallback_response \<Rightarrow> int \<Rightarrow> go_error + int" where
  "validateFallback serviceID r responseLimit =
    (let name = ''services.'' @ serviceID @ ''.default_response'' in
     case or_else (validateStatus name '''' (fbStatus r)) (validateHeaders (fbHeaders r) (name @ ''.headers'')) of
       Some err \<Rightarrow> Inl err
     | None \<Rightarrow>
       if fbDelayMS r < 0 \<or> fbDelayMS r > maxDelayMS
       then Inl (Errorf ''%s.delay_ms must be 0..%d'' [AStr name, AInt maxDelayMS])
       else if fbStatus r = StatusNoContent \<or> fbStatus r = StatusNotModified then
         (if fbBody r \<noteq> None then Inl (Errorf ''%s status %d cannot define a body'' [AStr name, AInt (fbStatus r)])
          else Inr 0)
       else case fbBody r of
         None \<Rightarrow> Inl (Errorf ''%s.body is required'' [AStr name])
       | Some body \<Rightarrow>
           if int (length body) > responseLimit
           then Inl (Errorf ''%s.body exceeds configured max_response_bytes'' [AStr name])
           else Inr (int (length body)))"

text \<open>The loop over the responses of a route: the number of defaults, the numbers, and the bytes.\<close>

definition route_name :: "string \<Rightarrow> nat \<Rightarrow> string" where
  "route_name serviceID routeIndex = ''services.'' @ serviceID @ ''.routes['' @ itoa (int routeIndex) @ '']''"

fun check_responses ::
  "string \<Rightarrow> string \<Rightarrow> int \<Rightarrow> nat \<Rightarrow> response_config list \<Rightarrow> nat \<times> int list \<times> int \<Rightarrow> go_error + nat \<times> int list \<times> int" where
  "check_responses name method responseLimit i [] acc = Inr acc"
| "check_responses name method responseLimit i (resp # resps) (defaultCount, numbers, bytes) =
    (let (defaultCount, numbers) = (if sqDefault (rcSequence resp) then (defaultCount + 1, numbers)
           else (defaultCount, numbers @ [sqNumber (rcSequence resp)]))
     in case validateResponse (name @ ''.responses['' @ itoa (int i) @ '']'') method resp responseLimit of
       Inl err \<Rightarrow> Inl err
     | Inr n \<Rightarrow> check_responses name method responseLimit (Suc i) resps (defaultCount, numbers, bytes + n))"

definition validateRouteResponses :: "string \<Rightarrow> nat \<Rightarrow> route_config \<Rightarrow> int \<Rightarrow> go_error + int" where
  "validateRouteResponses serviceID routeIndex route responseLimit =
    (let name = route_name serviceID routeIndex in
     case check_responses name (rtMethod route) responseLimit 0 (rtResponses route) (0, [], 0) of
       Inl err \<Rightarrow> Inl err
     | Inr (defaultCount, numbers, bytes) \<Rightarrow>
         if defaultCount \<noteq> 1 then Inl (Errorf ''%s must contain exactly one default response'' [AStr name])
         else if list_ex (\<lambda>(i, n). n \<noteq> int i + 1) (enumerate 0 (sort numbers))
         then Inl (Errorf ''%s numeric sequences must be contiguous 1..N'' [AStr name])
         else Inr bytes)"

section \<open>Evidence and limits\<close>

definition validateRotation :: "string \<Rightarrow> int \<Rightarrow> int \<Rightarrow> go_error option" where
  "validateRotation name sizeBytes seconds = first_error
     [(sizeBytes \<le> 0, Errorf ''%s.rotate_size_bytes must be positive'' [AStr name]),
      (seconds \<le> 0 \<or> seconds > maxTimeoutSeconds,
        Errorf ''%s.rotate_seconds must be 1..%d'' [AStr name, AInt maxTimeoutSeconds])]"

definition validateEvidence :: "evidence_config \<Rightarrow> go_error option" where
  "validateEvidence e =
    or_else (first_error
      [(evMinFreeBytes e = 0, Errorf ''evidence.min_free_bytes must be positive'' []),
       (trim_space (pcInterface (evPCAP e)) = '''' \<or> trim_space (pcDirectory (evPCAP e)) = '''',
         Errorf ''evidence.pcap.interface and directory are required'' [])])
    (or_else (validateRotation ''evidence.pcap'' (pcRotateSizeBytes (evPCAP e)) (pcRotateSeconds (evPCAP e)))
    (or_else (first_error [(trim_space (roDirectory (evWireJournal e)) = '''',
         Errorf ''evidence.wire_journal.directory is required'' [])])
    (or_else (validateRotation ''evidence.wire_journal'' (roRotateSizeBytes (evWireJournal e)) (roRotateSeconds (evWireJournal e)))
    (or_else (first_error [(trim_space (roDirectory (evJSONL e)) = '''',
         Errorf ''evidence.jsonl.directory is required'' [])])
    (validateRotation ''evidence.jsonl'' (roRotateSizeBytes (evJSONL e)) (roRotateSeconds (evJSONL e)))))))"

definition range_check :: "string \<Rightarrow> int \<Rightarrow> int \<Rightarrow> bool \<times> go_error" where
  "range_check name v maximum = (v < 1 \<or> v > maximum,
     Errorf ''limits.%s must be 1..%d'' [AStr name, AInt maximum])"

text \<open>The limits with their upper bounds, in the order of the checks.\<close>

definition limit_checks :: "limits_config \<Rightarrow> (bool \<times> go_error) list" where
  "limit_checks l =
    [range_check ''max_connections_total'' (MaxConnectionsTotal l) 8192,
     range_check ''max_connections_per_service'' (MaxConnectionsPerService l) 8192,
     (MaxConnectionsPerService l > MaxConnectionsTotal l,
       Errorf ''max_connections_per_service must be <= max_connections_total'' []),
     range_check ''max_requests_per_connection'' (MaxRequestsPerConnection l) 100000,
     range_check ''max_connection_lifetime_seconds'' (MaxConnectionLifetimeSeconds l) 86400,
     range_check ''max_connection_bytes'' (MaxConnectionBytes l) 1073741824,
     range_check ''max_header_bytes'' (MaxHeaderBytes l) 1048576,
     range_check ''max_body_bytes'' (MaxBodyBytes l) 67108864,
     range_check ''max_response_bytes'' (MaxResponseBytes l) 67108864,
     range_check ''max_structured_event_bytes'' (MaxStructuredEventBytes l) 1048576,
     range_check ''max_structured_headers'' (MaxStructuredHeaders l) 256,
     range_check ''max_query_fields'' (MaxQueryFields l) 1024,
     range_check ''max_post_failure_capture_bytes'' (MaxPostFailureCaptureBytes l) 67108864,
     range_check ''tls_handshake_timeout_seconds'' (TLSHandshakeTimeoutSeconds l) 30,
     range_check ''header_timeout_seconds'' (HeaderTimeoutSeconds l) maxTimeoutSeconds,
     range_check ''body_timeout_seconds'' (BodyTimeoutSeconds l) maxTimeoutSeconds,
     range_check ''write_timeout_seconds'' (WriteTimeoutSeconds l) maxTimeoutSeconds,
     range_check ''idle_timeout_seconds'' (IdleTimeoutSeconds l) maxTimeoutSeconds,
     range_check ''max_stream_seconds'' (MaxStreamSeconds l) maxTimeoutSeconds,
     range_check ''post_failure_capture_timeout_seconds'' (PostFailureCaptureTimeoutSeconds l) maxTimeoutSeconds]"

definition validateLimits :: "limits_config \<Rightarrow> go_error option" where
  "validateLimits l = first_error (limit_checks l)"

section \<open>Listeners\<close>

record listener_entry =
  leService :: string
  leAddr :: ip
  lePort :: int

definition ipsConflict :: "ip \<Rightarrow> ip \<Rightarrow> bool" where
  "ipsConflict a b = (if IsUnspecified a \<or> IsUnspecified b then True else a = b)"

definition entries_conflict :: "listener_entry \<Rightarrow> listener_entry \<Rightarrow> bool" where
  "entries_conflict a b = (if lePort a \<noteq> lePort b then False else ipsConflict (leAddr a) (leAddr b))"

fun validateListenerConflicts :: "listener_entry list \<Rightarrow> go_error option" where
  "validateListenerConflicts [] = None"
| "validateListenerConflicts (e # es) =
    or_else (first_failure (\<lambda>f. if entries_conflict e f
        then Some (Errorf ''listener conflict between services %s and %s on port %d''
          [AStr (leService e), AStr (leService f), AInt (lePort e)]) else None) es)
      (validateListenerConflicts es)"

section \<open>Services\<close>

text \<open>The duplicate check of \<open>Validate\<close> and of \<open>RouteState\<close>: method, NUL, path.\<close>

definition route_key :: "string \<Rightarrow> string \<Rightarrow> string" where
  "route_key method path = method @ [CHR 0x00] @ path"

definition static_error :: go_error where
  "static_error = Errorf ''aggregate static response fixtures exceed %d bytes'' [AInt maxStaticFixtureBytes]"

fun validate_routes ::
  "string \<Rightarrow> int \<Rightarrow> nat \<Rightarrow> route_config list \<Rightarrow> string list \<Rightarrow> int \<Rightarrow> go_error + int" where
  "validate_routes sid responseLimit i [] seen staticBytes = Inr staticBytes"
| "validate_routes sid responseLimit i (route # routes) seen staticBytes =
    (let key = route_key (rtMethod route) (rtPath route) in
     case first_error
       [(rtMethod route = '''' \<or> length (rtMethod route) > maxMethodBytes \<or> \<not> isHTTPToken (rtMethod route),
          Errorf ''%s.method is invalid'' [AStr (route_name sid i)]),
        (length (rtPath route) > maxRawPathBytes
           \<or> (rtPath route \<noteq> '''' \<and> rtPath route \<noteq> ''*'' \<and> hd (rtPath route) \<noteq> CHR ''/'')
           \<or> \<not> validConfiguredRawPath (rtPath route),
          Errorf ''%s.path must be an exact raw path of at most %d bytes'' [AStr (route_name sid i), AInt (int maxRawPathBytes)]),
        (length (rtClassification route) > maxClassificationBytes,
          Errorf ''%s.classification exceeds %d bytes'' [AStr (route_name sid i), AInt (int maxClassificationBytes)]),
        (key \<in> set seen,
          Errorf ''services.%s has duplicate route (%s, %s)'' [AStr sid, AStr (rtMethod route), AStr (rtPath route)]),
        (length (rtResponses route) = 0 \<or> length (rtResponses route) > maxResponsesPerRoute,
          Errorf ''%s.responses count must be 1..%d'' [AStr (route_name sid i), AInt (int maxResponsesPerRoute)])] of
       Some err \<Rightarrow> Inl err
     | None \<Rightarrow>
       (case validateRouteResponses sid i route responseLimit of
          Inl err \<Rightarrow> Inl err
        | Inr bytes \<Rightarrow>
            if staticBytes + bytes > maxStaticFixtureBytes then Inl static_error
            else validate_routes sid responseLimit (Suc i) routes (key # seen) (staticBytes + bytes)))"

record validate_state =
  vsHTTPS :: bool
  vsStaticBytes :: int
  vsListeners :: "listener_entry list"

definition check_identity :: "string \<Rightarrow> service_config \<Rightarrow> go_error option" where
  "check_identity sid service = (case scIdentity service of None \<Rightarrow> None
    | Some ident \<Rightarrow> first_error
       [(idProduct ident = '''' \<or> length (idProduct ident) > maxProductBytes,
          Errorf ''services.%s.identity.product must be 1..%d bytes'' [AStr sid, AInt (int maxProductBytes)]),
        (length (idVariant ident) > maxVariantBytes,
          Errorf ''services.%s.identity.variant exceeds %d bytes'' [AStr sid, AInt (int maxVariantBytes)])])"

definition check_listener :: "string \<Rightarrow> service_config \<Rightarrow> go_error option" where
  "check_listener sid service = (case scListener service of None \<Rightarrow> None
    | Some l \<Rightarrow> first_error
       [(ParseIP (lcAddress l) = None, Errorf ''services.%s.listener.address must be an IP literal'' [AStr sid]),
        (lcPort l < 1 \<or> lcPort l > 65535, Errorf ''services.%s.listener.port must be 1..65535'' [AStr sid]),
        (lcProtocol l \<noteq> ''http'' \<and> lcProtocol l \<noteq> ''https'',
          Errorf ''services.%s.listener.protocol must be http or https'' [AStr sid])])"

definition validate_default :: "string \<Rightarrow> service_config \<Rightarrow> int \<Rightarrow> int \<Rightarrow> go_error + int" where
  "validate_default sid service responseLimit staticBytes = (case scDefaultResponse service of
      None \<Rightarrow> Inr staticBytes
    | Some fb \<Rightarrow> (case validateFallback sid fb responseLimit of
         Inl err \<Rightarrow> Inl err
       | Inr bytes \<Rightarrow> if staticBytes + bytes > maxStaticFixtureBytes then Inl static_error
           else Inr (staticBytes + bytes)))"

text \<open>The last part of the loop body: what an enabled service needs.\<close>

definition admit_service :: "string \<Rightarrow> service_config \<Rightarrow> validate_state \<Rightarrow> go_error + validate_state" where
  "admit_service sid service st =
    (if \<not> scEnabled service then Inr st
     else case scListener service of
       None \<Rightarrow> Inl (Errorf ''services.%s.listener is required when enabled'' [AStr sid])
     | Some l \<Rightarrow>
       if scIdentity service = None then Inl (Errorf ''services.%s.identity is required when enabled'' [AStr sid])
       else if length (scRoutes service) = 0
       then Inl (Errorf ''services.%s.routes must contain at least one route when enabled'' [AStr sid])
       else if scDefaultResponse service = None
       then Inl (Errorf ''services.%s.default_response is required when enabled'' [AStr sid])
       else Inr (st\<lparr>vsHTTPS := (if lcProtocol l = ''https'' then True else vsHTTPS st),
              vsListeners := vsListeners st @ [\<lparr>leService = sid, leAddr = the (ParseIP (lcAddress l)), lePort = lcPort l\<rparr>]\<rparr>))"

text \<open>The first part of the loop body, up to the routes.\<close>

definition service_checks :: "string \<Rightarrow> service_config \<Rightarrow> go_error option" where
  "service_checks sid service =
     or_else (first_error [(sid = '''' \<or> length sid > maxServiceIDBytes,
       Errorf ''service_id %q must be 1..%d bytes'' [AStr sid, AInt (int maxServiceIDBytes)])])
     (or_else (check_identity sid service)
     (or_else (check_listener sid service)
     (or_else (validateHeaders (scDefaultHeaders service) (''services.'' @ sid @ ''.default_headers''))
     (first_error [(length (scRoutes service) > maxRoutesPerService,
       Errorf ''services.%s.routes count exceeds %d'' [AStr sid, AInt (int maxRoutesPerService)])]))))"

definition validate_service ::
  "string \<Rightarrow> service_config \<Rightarrow> int \<Rightarrow> validate_state \<Rightarrow> go_error + validate_state" where
  "validate_service sid service responseLimit st =
    (case service_checks sid service of
       Some err \<Rightarrow> Inl err
     | None \<Rightarrow>
       (case validate_routes sid responseLimit 0 (scRoutes service) [] (vsStaticBytes st) of
          Inl err \<Rightarrow> Inl err
        | Inr b1 \<Rightarrow>
          (case validate_default sid service responseLimit b1 of
             Inl err \<Rightarrow> Inl err
           | Inr b2 \<Rightarrow> admit_service sid service (st\<lparr>vsStaticBytes := b2\<rparr>))))"

fun validate_services ::
  "int \<Rightarrow> (string \<times> service_config) list \<Rightarrow> validate_state \<Rightarrow> go_error + validate_state" where
  "validate_services responseLimit [] st = Inr st"
| "validate_services responseLimit ((sid, service) # rest) st =
    (case validate_service sid service responseLimit st of Inl err \<Rightarrow> Inl err
     | Inr st' \<Rightarrow> validate_services responseLimit rest st')"

section \<open>The whole configuration\<close>

definition service_at :: "config \<Rightarrow> string \<Rightarrow> service_config" where
  "service_at cfg sid = the (map_of (cfServices cfg) sid)"

definition Validate :: "config \<Rightarrow> go_error option" where
  "Validate cfg =
    or_else (first_error
      [(cfVersion cfg \<noteq> 1, Errorf ''unsupported schema version %d'' [AInt (cfVersion cfg)]),
       (cfSensorID cfg = '''' \<or> length (cfSensorID cfg) > maxSensorIDBytes,
         Errorf ''sensor.id must be 1..%d bytes'' [AInt (int maxSensorIDBytes)]),
       (length (cfServices cfg) = 0 \<or> length (cfServices cfg) > maxServices,
         Errorf ''services count must be 1..%d'' [AInt (int maxServices)])])
    (or_else (validateEvidence (cfEvidence cfg))
    (or_else (validateLimits (cfLimits cfg))
    (let serviceIDs = sort (map fst (cfServices cfg)) in
     case validate_services (MaxResponseBytes (cfLimits cfg)) (map (\<lambda>sid. (sid, service_at cfg sid)) serviceIDs)
            \<lparr>vsHTTPS = False, vsStaticBytes = 0, vsListeners = []\<rparr> of
       Inl err \<Rightarrow> Some err
     | Inr st \<Rightarrow>
       or_else (validateListenerConflicts (vsListeners st))
       (or_else
         (if vsHTTPS st then
            (if (case cfTLSDirectory cfg of None \<Rightarrow> True | Some d \<Rightarrow> trim_space d = '''')
             then Some (Errorf ''global.tls.directory is required when HTTPS is enabled'' []) else None)
          else (case cfTLSDirectory cfg of None \<Rightarrow> None
             | Some d \<Rightarrow> if trim_space d = '''' then Some (Errorf ''global.tls.directory cannot be empty'' []) else None))
         (case cfSQLitePath cfg of None \<Rightarrow> None
          | Some p \<Rightarrow> if trim_space p = '''' then Some (Errorf ''analysis.sqlite.path cannot be empty'' []) else None)))))"

definition HasHTTPS :: "config \<Rightarrow> bool" where
  "HasHTTPS cfg \<longleftrightarrow> list_ex (\<lambda>(sid, svc). scEnabled svc
     \<and> (case scListener svc of None \<Rightarrow> False | Some l \<Rightarrow> lcProtocol l = ''https'')) (cfServices cfg)"

section \<open>Loading\<close>

text \<open>
  \<open>Load\<close>: \<open>opened\<close> and \<open>readAll\<close> are the outcomes of opening the file and of reading at most
  \<open>MaxConfigBytes + 1\<close> bytes; \<open>nodes\<close> are the first two documents as trees, \<open>decode\<close> is the
  strict decoder into the struct and \<open>decode2\<close> what follows the first document.
\<close>

abbreviation (input) "MaxConfigBytes \<equiv> (8388608 :: nat)"

record loader =
  opened_err :: "go_error option"
  readAll :: "go_error + byte list"
  nodes :: "byte list \<Rightarrow> (go_error + yaml_node) \<times> (go_error + yaml_node)"
  decode :: "byte list \<Rightarrow> go_error + config"
  decode2 :: "byte list \<Rightarrow> go_error option"

definition Load :: "(byte list \<Rightarrow> byte list) \<Rightarrow> loader \<Rightarrow> string \<Rightarrow> go_error + config" where
  "Load sha256 env path = (case opened_err env of
      Some err \<Rightarrow> Inl (Wrapf ''CONFIG_INVALID open config: %w'' [] err)
    | None \<Rightarrow>
      (case readAll env of Inl err \<Rightarrow> Inl (Wrapf ''CONFIG_INVALID read config: %w'' [] err)
       | Inr data \<Rightarrow>
         if length data > MaxConfigBytes
         then Inl (Errorf ''CONFIG_INVALID configuration exceeds %d bytes'' [AInt (int MaxConfigBytes)])
         else (case nodes env data of (n1, n2) \<Rightarrow>
          (case inspectYAMLSyntax n1 n2 of Some err \<Rightarrow> Inl (Wrapf ''CONFIG_INVALID %w'' [] err)
           | None \<Rightarrow>
            (case decode env data of Inl err \<Rightarrow> Inl (Wrapf ''CONFIG_INVALID decode: %w'' [] err)
             | Inr cfg \<Rightarrow>
              (case decode2 env data of
                 None \<Rightarrow> Inl (Errorf ''CONFIG_INVALID multiple YAML documents are prohibited'' [])
               | Some err \<Rightarrow>
                 if err \<noteq> EOF then Inl (Wrapf ''CONFIG_INVALID trailing YAML: %w'' [] err)
                 else let cfg' = cfg\<lparr>cfRaw := data, cfConfigSHA256 := hex_encode (sha256 data), cfSourcePath := path\<rparr>
                   in case Validate cfg' of Some err \<Rightarrow> Inl (Wrapf ''CONFIG_INVALID %w'' [] err)
                    | None \<Rightarrow> Inr cfg'))))))"

end
