(* ===== verification/Valid_Config.thy ===== *)
theory Valid_Config
  imports Validate "HOL-Library.Multiset"
begin

text \<open>
  What a valid configuration is, said without an order of checks, and the proof that the validator
  of \<open>internal/config/validate.go\<close> (theory Validate) accepts exactly these configurations. The
  components behind the loader rely on \<open>valid_config\<close> only.
\<close>

section \<open>Headers and status codes\<close>

definition valid_header :: "string \<times> string \<Rightarrow> bool" where
  "valid_header = (\<lambda>(key, val). isHTTPToken key \<and> length key \<le> maxHeaderNameBytes
     \<and> length val \<le> maxHeaderValueBytes \<and> set val \<inter> set crlf = {}
     \<and> to_lower key \<notin> set prohibitedResponseHeaders)"

definition valid_headers :: "go_map \<Rightarrow> bool" where
  "valid_headers hs \<longleftrightarrow> length hs \<le> maxConfiguredHeaders \<and> distinct (map (to_lower \<circ> fst) hs)
     \<and> (\<forall>h \<in> set hs. valid_header h)"

lemma token_nonempty: "isHTTPToken s \<Longrightarrow> s \<noteq> ''''"
  by (simp add: isHTTPToken_def)

lemma check_headers_iff:
  "check_headers name hs seen = None \<longleftrightarrow> distinct (map (to_lower \<circ> fst) hs)
     \<and> set (map (to_lower \<circ> fst) hs) \<inter> set seen = {} \<and> (\<forall>h \<in> set hs. valid_header h)"
proof (induction name hs seen rule: check_headers.induct)
  case (2 name key val hs seen)
  have "valid_header (key, val) \<longleftrightarrow> \<not> (key = '''' \<or> length key > maxHeaderNameBytes \<or> \<not> isHTTPToken key)
      \<and> \<not> (length val > maxHeaderValueBytes \<or> list_ex (\<lambda>c. c \<in> set crlf) val)
      \<and> to_lower key \<notin> set prohibitedResponseHeaders"
    using token_nonempty [of key] by (auto simp: valid_header_def list_ex_iff)
  then show ?case using 2 by (auto simp: Let_def)
qed simp

lemma validateHeaders_iff: "validateHeaders hs name = None \<longleftrightarrow> valid_headers hs"
  by (auto simp: validateHeaders_def valid_headers_def check_headers_iff)

definition valid_status :: "string \<Rightarrow> int \<Rightarrow> bool" where
  "valid_status meth status \<longleftrightarrow> 200 \<le> status \<and> status \<le> 599 \<and> (equal_fold meth ''CONNECT'' \<longrightarrow> 300 \<le> status)"

lemma validateStatus_iff: "validateStatus name meth status = None \<longleftrightarrow> valid_status meth status"
  by (auto simp: validateStatus_def valid_status_def)

section \<open>Responses\<close>

abbreviation (input) no_content :: "int \<Rightarrow> bool" where
  "no_content status \<equiv> status = StatusNoContent \<or> status = StatusNotModified"

definition body_size :: "string option \<Rightarrow> int" where
  "body_size b = (case b of None \<Rightarrow> 0 | Some s \<Rightarrow> int (length s))"

definition chunks_size :: "chunk_config list \<Rightarrow> int" where
  "chunks_size cs = sum_list (map (\<lambda>c. body_size (ccBody c)) cs)"

definition valid_chunk :: "chunk_config \<Rightarrow> bool" where
  "valid_chunk c \<longleftrightarrow> 0 \<le> ccDelayMS c \<and> ccDelayMS c \<le> maxDelayMS \<and> ccBody c \<noteq> None"

definition response_size :: "response_config \<Rightarrow> int" where
  "response_size r = body_size (rcBody r) + chunks_size (rcChunks r)"

definition valid_response :: "string \<Rightarrow> int \<Rightarrow> response_config \<Rightarrow> bool" where
  "valid_response meth lim r \<longleftrightarrow> valid_status meth (rcStatus r) \<and> valid_headers (rcHeaders r)
     \<and> 0 \<le> rcDelayMS r \<and> rcDelayMS r \<le> maxDelayMS
     \<and> rcResponseMode r \<in> {'''', ''immediate'', ''ndjson''}
     \<and> (if no_content (rcStatus r) then rcBody r = None \<and> rcChunks r = [] \<and> rcResponseMode r \<noteq> ''ndjson''
        else if rcResponseMode r = ''ndjson''
        then rcBody r = None \<and> rcChunks r \<noteq> [] \<and> length (rcChunks r) \<le> maxChunksPerResponse
          \<and> (\<forall>c \<in> set (rcChunks r). valid_chunk c) \<and> response_size r \<le> lim
        else rcChunks r = [] \<and> rcBody r \<noteq> None \<and> response_size r \<le> lim)"

lemma body_size_nonneg [simp]: "0 \<le> body_size b"
  by (simp add: body_size_def split: option.split)

lemma chunks_size_nonneg [simp]: "0 \<le> chunks_size cs"
  by (auto simp: chunks_size_def intro!: sum_list_nonneg)

lemma validate_chunks_iff:
  "validate_chunks name lim i acc cs = Inr n \<longleftrightarrow> (\<forall>c \<in> set cs. valid_chunk c) \<and> n = acc + chunks_size cs
     \<and> (cs \<noteq> [] \<longrightarrow> n \<le> lim)"
proof (induction name lim i acc cs rule: validate_chunks.induct)
  case (2 name lim i acc c cs)
  show ?case
  proof (cases "valid_chunk c")
    case True
    then obtain body where b: "ccBody c = Some body" "0 \<le> ccDelayMS c" "ccDelayMS c \<le> maxDelayMS"
      by (auto simp: valid_chunk_def)
    then have "chunks_size (c # cs) = int (length body) + chunks_size cs"
      by (simp add: chunks_size_def body_size_def)
    then show ?thesis using 2 b True chunks_size_nonneg [of cs] by (auto simp del: chunks_size_nonneg)
  next
    case False
    then show ?thesis by (auto simp: valid_chunk_def)
  qed
qed (auto simp: chunks_size_def)

lemma validateResponse_iff:
  "validateResponse name meth r lim = Inr n \<longleftrightarrow> valid_response meth lim r \<and> n = response_size r"
proof -
  have "validateResponse name meth r lim = Inr n \<longleftrightarrow>
      valid_status meth (rcStatus r) \<and> valid_headers (rcHeaders r) \<and> validateResponse name meth r lim = Inr n"
    using validateStatus_iff [of name meth "rcStatus r"] validateHeaders_iff [of "rcHeaders r" "name @ ''.headers''"]
    by (auto simp: validateResponse_def or_else_def split: option.splits)
  moreover have "validateResponse name meth r lim = Inr n \<longleftrightarrow> valid_response meth lim r \<and> n = response_size r"
    if ok: "valid_status meth (rcStatus r)" "valid_headers (rcHeaders r)"
  proof -
    have none: "or_else (validateStatus name meth (rcStatus r)) (validateHeaders (rcHeaders r) (name @ ''.headers'')) = None"
      using ok by (simp add: validateStatus_iff validateHeaders_iff)
    show ?thesis using ok
      by (auto simp: validateResponse_def none valid_response_def response_size_def Let_def validate_chunks_iff
          body_size_def chunks_size_def split: option.splits)
  qed
  ultimately show ?thesis by (auto simp: valid_response_def)
qed

definition valid_fallback :: "int \<Rightarrow> fallback_response \<Rightarrow> bool" where
  "valid_fallback lim r \<longleftrightarrow> valid_status '''' (fbStatus r) \<and> valid_headers (fbHeaders r)
     \<and> 0 \<le> fbDelayMS r \<and> fbDelayMS r \<le> maxDelayMS
     \<and> (if no_content (fbStatus r) then fbBody r = None else fbBody r \<noteq> None \<and> body_size (fbBody r) \<le> lim)"

lemma validateFallback_iff:
  "validateFallback sid r lim = Inr n \<longleftrightarrow> valid_fallback lim r \<and> n = body_size (fbBody r)"
proof -
  let ?name = "''services.'' @ sid @ ''.default_response''"
  have none: "or_else (validateStatus ?name '''' (fbStatus r)) (validateHeaders (fbHeaders r) (?name @ ''.headers'')) = None
      \<longleftrightarrow> valid_status '''' (fbStatus r) \<and> valid_headers (fbHeaders r)"
    by (simp only: or_else_None validateStatus_iff validateHeaders_iff)
  show ?thesis
  proof (cases "valid_status '''' (fbStatus r) \<and> valid_headers (fbHeaders r)")
    case True
    note n = none [THEN iffD2, OF True]
    show ?thesis using True unfolding validateFallback_def Let_def n option.case
      by (auto simp: valid_fallback_def body_size_def split: option.splits)
  next
    case False
    then obtain err where e: "or_else (validateStatus ?name '''' (fbStatus r)) (validateHeaders (fbHeaders r) (?name @ ''.headers''))
        = Some err" using none by blast
    have "validateFallback sid r lim = Inl err" unfolding validateFallback_def Let_def e option.case ..
    then show ?thesis using False by (auto simp: valid_fallback_def)
  qed
qed

section \<open>Routes\<close>

text \<open>The numbers of a route's sequence.\<close>

definition seq_numbers :: "response_config list \<Rightarrow> int list" where
  "seq_numbers rs = map (sqNumber \<circ> rcSequence) (filter (\<lambda>r. \<not> sqDefault (rcSequence r)) rs)"

definition default_count :: "response_config list \<Rightarrow> nat" where
  "default_count rs = length (filter (\<lambda>r. sqDefault (rcSequence r)) rs)"

definition responses_size :: "response_config list \<Rightarrow> int" where
  "responses_size rs = sum_list (map response_size rs)"

definition contiguous :: "int list \<Rightarrow> bool" where
  "contiguous ns \<longleftrightarrow> mset ns = mset (map int [1..<Suc (length ns)])"

definition valid_responses :: "string \<Rightarrow> int \<Rightarrow> response_config list \<Rightarrow> bool" where
  "valid_responses meth lim rs \<longleftrightarrow> (\<forall>r \<in> set rs. valid_response meth lim r) \<and> default_count rs = 1
     \<and> contiguous (seq_numbers rs)"

lemma check_responses_iff:
  "check_responses name meth lim i rs (d, ns, b) = Inr (d', ns', b') \<longleftrightarrow>
     (\<forall>r \<in> set rs. valid_response meth lim r) \<and> d' = d + default_count rs \<and> ns' = ns @ seq_numbers rs
     \<and> b' = b + responses_size rs"
proof (induction rs arbitrary: i d ns b)
  case (Cons r rs)
  let ?name = "name @ ''.responses['' @ itoa (int i) @ '']''"
  show ?case
  proof (cases "validateResponse ?name meth r lim")
    case (Inl err)
    then have "\<not> valid_response meth lim r"
      using validateResponse_iff [of ?name meth r lim] by auto
    then show ?thesis using Inl by simp
  next
    case (Inr n)
    then have "valid_response meth lim r \<and> n = response_size r" using validateResponse_iff by blast
    then show ?thesis using Inr Cons.IH
      by (auto simp: default_count_def seq_numbers_def responses_size_def)
  qed
qed (auto simp: default_count_def seq_numbers_def responses_size_def)

lemma contiguous_iff:
  "\<not> list_ex (\<lambda>(i, n). n \<noteq> int i + 1) (enumerate 0 (sort ns)) \<longleftrightarrow> contiguous ns"
proof -
  have "\<not> list_ex (\<lambda>(i, n). n \<noteq> int i + 1) (enumerate 0 (sort ns)) \<longleftrightarrow> (\<forall>i < length ns. sort ns ! i = int i + 1)"
    by (auto simp: list_ex_iff in_set_enumerate_eq)
  also have "\<dots> \<longleftrightarrow> sort ns = map int [1..<Suc (length ns)]"
  proof -
    have nth: "map int [1..<Suc (length ns)] ! i = int i + 1" if "i < length ns" for i
      using that by (simp del: upt_Suc)
    have len: "length (sort ns) = length (map int [1..<Suc (length ns)])" by (simp del: upt_Suc)
    show ?thesis unfolding list_eq_iff_nth_eq using len nth by (simp add: add.commute del: upt_Suc)
  qed
  also have "\<dots> \<longleftrightarrow> mset ns = mset (map int [1..<Suc (length ns)])"
  proof
    assume "sort ns = map int [1..<Suc (length ns)]"
    then show "mset ns = mset (map int [1..<Suc (length ns)])" by (metis mset_sort)
  next
    assume "mset ns = mset (map int [1..<Suc (length ns)])"
    moreover have "sorted (map int [1..<Suc (length ns)])"
      unfolding sorted_map by (rule sorted_wrt_mono_rel [OF _ sorted_upt]) simp
    ultimately show "sort ns = map int [1..<Suc (length ns)]" by (simp add: properties_for_sort)
  qed
  finally show ?thesis by (simp only: contiguous_def)
qed

lemma validateRouteResponses_iff:
  "validateRouteResponses sid i route lim = Inr n \<longleftrightarrow>
     valid_responses (rtMethod route) lim (rtResponses route) \<and> n = responses_size (rtResponses route)"
proof (cases "check_responses (route_name sid i) (rtMethod route) lim 0 (rtResponses route) (0, [], 0)")
  case (Inl err)
  then have "\<not> (\<forall>r \<in> set (rtResponses route). valid_response (rtMethod route) lim r)"
    using check_responses_iff [of "route_name sid i" "rtMethod route" lim 0 "rtResponses route" 0 "[]" 0] by auto
  then show ?thesis using Inl by (simp add: validateRouteResponses_def valid_responses_def)
next
  case (Inr res)
  obtain d ns b where res: "res = (d, ns, b)" by (cases res)
  show ?thesis using Inr [unfolded res] check_responses_iff [THEN iffD1, OF Inr [unfolded res]]
    by (auto simp: validateRouteResponses_def valid_responses_def Let_def contiguous_iff [symmetric])
qed

definition valid_route :: "int \<Rightarrow> route_config \<Rightarrow> bool" where
  "valid_route lim route \<longleftrightarrow> isHTTPToken (rtMethod route) \<and> length (rtMethod route) \<le> maxMethodBytes
     \<and> length (rtPath route) \<le> maxRawPathBytes
     \<and> (rtPath route = '''' \<or> rtPath route = ''*'' \<or> hd (rtPath route) = CHR ''/'')
     \<and> validConfiguredRawPath (rtPath route) \<and> length (rtClassification route) \<le> maxClassificationBytes
     \<and> rtResponses route \<noteq> [] \<and> length (rtResponses route) \<le> maxResponsesPerRoute
     \<and> valid_responses (rtMethod route) lim (rtResponses route)"

definition routes_size :: "route_config list \<Rightarrow> int" where
  "routes_size rs = sum_list (map (\<lambda>r. responses_size (rtResponses r)) rs)"

definition key_of :: "route_config \<Rightarrow> string" where
  "key_of route = route_key (rtMethod route) (rtPath route)"

lemma response_size_nonneg [simp]: "0 \<le> response_size r"
  by (simp add: response_size_def)

lemma responses_size_nonneg [simp]: "0 \<le> responses_size rs"
  by (auto simp: responses_size_def intro!: sum_list_nonneg)

lemma routes_size_nonneg [simp]: "0 \<le> routes_size rs"
  by (auto simp: routes_size_def intro!: sum_list_nonneg)

lemma validate_routes_iff:
  "validate_routes sid lim i routes seen b = Inr b' \<longleftrightarrow>
     (\<forall>r \<in> set routes. valid_route lim r) \<and> distinct (map key_of routes) \<and> set (map key_of routes) \<inter> set seen = {}
     \<and> b' = b + routes_size routes \<and> (routes \<noteq> [] \<longrightarrow> b' \<le> maxStaticFixtureBytes)"
proof (induction routes arbitrary: i seen b)
  case (Cons r rs)
  have split: "routes_size (r # rs) = responses_size (rtResponses r) + routes_size rs" by (simp add: routes_size_def)
  have pos: "0 \<le> routes_size rs" "routes_size [] = 0" by (simp, simp add: routes_size_def)
  let ?ok = "isHTTPToken (rtMethod r) \<and> length (rtMethod r) \<le> maxMethodBytes \<and> length (rtPath r) \<le> maxRawPathBytes
     \<and> (rtPath r = '''' \<or> rtPath r = ''*'' \<or> hd (rtPath r) = CHR ''/'')
     \<and> validConfiguredRawPath (rtPath r) \<and> length (rtClassification r) \<le> maxClassificationBytes
     \<and> rtResponses r \<noteq> [] \<and> length (rtResponses r) \<le> maxResponsesPerRoute \<and> key_of r \<notin> set seen"
  show ?case
  proof (cases ?ok)
    case True
    then have step: "validate_routes sid lim i (r # rs) seen b = (case validateRouteResponses sid i r lim of
          Inl err \<Rightarrow> Inl err
        | Inr bytes \<Rightarrow> if b + bytes > maxStaticFixtureBytes then Inl static_error
            else validate_routes sid lim (Suc i) rs (key_of r # seen) (b + bytes))"
      by (auto simp: Let_def key_of_def token_nonempty split: sum.splits)
    have vr: "valid_route lim r \<longleftrightarrow> valid_responses (rtMethod r) lim (rtResponses r)"
      using True by (auto simp: valid_route_def)
    show ?thesis
    proof (cases "validateRouteResponses sid i r lim")
      case (Inl err)
      then have "\<not> valid_route lim r" using validateRouteResponses_iff [of sid i r lim] by (auto simp: vr)
      then show ?thesis using Inl by (simp add: step del: validate_routes.simps)
    next
      case (Inr n)
      then have n: "valid_responses (rtMethod r) lim (rtResponses r)" "n = responses_size (rtResponses r)"
        using validateRouteResponses_iff [THEN iffD1, OF Inr] by auto
      show ?thesis using Inr n True pos
        by (auto simp: step Cons.IH vr split key_of_def [symmetric] simp del: routes_size_nonneg validate_routes.simps)
    qed
  next
    case False
    have "\<exists>err. validate_routes sid lim i (r # rs) seen b = Inl err"
      using False by (auto simp: Let_def key_of_def token_nonempty)
    then show ?thesis using False by (auto simp: valid_route_def)
  qed
qed (auto simp: routes_size_def)

section \<open>Services\<close>

definition valid_identity :: "identity_config \<Rightarrow> bool" where
  "valid_identity i \<longleftrightarrow> idProduct i \<noteq> '''' \<and> length (idProduct i) \<le> maxProductBytes \<and> length (idVariant i) \<le> maxVariantBytes"

definition valid_listener :: "listener_config \<Rightarrow> bool" where
  "valid_listener l \<longleftrightarrow> ParseIP (lcAddress l) \<noteq> None \<and> 1 \<le> lcPort l \<and> lcPort l \<le> 65535 \<and> lcProtocol l \<in> {''http'', ''https''}"

definition valid_service :: "int \<Rightarrow> string \<times> service_config \<Rightarrow> bool" where
  "valid_service lim = (\<lambda>(sid, s). sid \<noteq> '''' \<and> length sid \<le> maxServiceIDBytes
     \<and> pred_option valid_identity (scIdentity s) \<and> pred_option valid_listener (scListener s)
     \<and> valid_headers (scDefaultHeaders s) \<and> length (scRoutes s) \<le> maxRoutesPerService
     \<and> (\<forall>r \<in> set (scRoutes s). valid_route lim r) \<and> distinct (map key_of (scRoutes s))
     \<and> pred_option (valid_fallback lim) (scDefaultResponse s)
     \<and> (scEnabled s \<longrightarrow> scListener s \<noteq> None \<and> scIdentity s \<noteq> None \<and> scRoutes s \<noteq> [] \<and> scDefaultResponse s \<noteq> None))"

definition service_size :: "service_config \<Rightarrow> int" where
  "service_size s = routes_size (scRoutes s) + (case scDefaultResponse s of None \<Rightarrow> 0 | Some fb \<Rightarrow> body_size (fbBody fb))"

definition service_https :: "service_config \<Rightarrow> bool" where
  "service_https s \<longleftrightarrow> scEnabled s \<and> (case scListener s of None \<Rightarrow> False | Some l \<Rightarrow> lcProtocol l = ''https'')"

definition service_listeners :: "string \<times> service_config \<Rightarrow> listener_entry list" where
  "service_listeners = (\<lambda>(sid, s). if \<not> scEnabled s then [] else case scListener s of None \<Rightarrow> []
     | Some l \<Rightarrow> [\<lparr>leService = sid, leAddr = the (ParseIP (lcAddress l)), lePort = lcPort l\<rparr>])"

lemma service_size_nonneg [simp]: "0 \<le> service_size s"
  by (auto simp: service_size_def split: option.split)

definition after_service :: "validate_state \<Rightarrow> string \<times> service_config \<Rightarrow> validate_state" where
  "after_service st e = st\<lparr>vsHTTPS := (vsHTTPS st \<or> service_https (snd e)),
     vsStaticBytes := vsStaticBytes st + service_size (snd e), vsListeners := vsListeners st @ service_listeners e\<rparr>"

definition basic_service :: "string \<times> service_config \<Rightarrow> bool" where
  "basic_service = (\<lambda>(sid, s). sid \<noteq> '''' \<and> length sid \<le> maxServiceIDBytes
     \<and> pred_option valid_identity (scIdentity s) \<and> pred_option valid_listener (scListener s)
     \<and> valid_headers (scDefaultHeaders s) \<and> length (scRoutes s) \<le> maxRoutesPerService)"

lemma check_identity_iff: "check_identity sid s = None \<longleftrightarrow> pred_option valid_identity (scIdentity s)"
  by (auto simp: check_identity_def valid_identity_def split: option.split)

lemma check_listener_iff: "check_listener sid s = None \<longleftrightarrow> pred_option valid_listener (scListener s)"
  by (auto simp: check_listener_def valid_listener_def split: option.split)

lemma service_checks_iff: "service_checks sid s = None \<longleftrightarrow> basic_service (sid, s)"
  by (simp only: service_checks_def or_else_None first_error_None check_identity_iff check_listener_iff
      validateHeaders_iff basic_service_def) auto

lemma admit_service_iff:
  "admit_service sid s st = Inr st' \<longleftrightarrow>
     (scEnabled s \<longrightarrow> scListener s \<noteq> None \<and> scIdentity s \<noteq> None \<and> scRoutes s \<noteq> [] \<and> scDefaultResponse s \<noteq> None)
     \<and> st' = st\<lparr>vsHTTPS := (vsHTTPS st \<or> service_https s), vsListeners := vsListeners st @ service_listeners (sid, s)\<rparr>"
  by (auto simp: admit_service_def service_https_def service_listeners_def split: option.splits)

lemma validate_default_iff:
  "validate_default sid s lim b = Inr b' \<longleftrightarrow> pred_option (valid_fallback lim) (scDefaultResponse s)
     \<and> b' = b + (case scDefaultResponse s of None \<Rightarrow> 0 | Some fb \<Rightarrow> body_size (fbBody fb))
     \<and> (scDefaultResponse s \<noteq> None \<longrightarrow> b' \<le> maxStaticFixtureBytes)"
proof (cases "scDefaultResponse s")
  case (Some fb)
  show ?thesis
  proof (cases "validateFallback sid fb lim")
    case (Inl err)
    then have "\<not> valid_fallback lim fb" using validateFallback_iff [of sid fb lim] by auto
    then show ?thesis using Some Inl by (simp add: validate_default_def)
  next
    case (Inr n)
    then show ?thesis using Some validateFallback_iff [THEN iffD1, OF Inr] by (auto simp: validate_default_def)
  qed
qed (auto simp: validate_default_def)

lemma validate_service_iff:
  assumes b: "vsStaticBytes st \<le> maxStaticFixtureBytes"
  shows "validate_service sid s lim st = Inr st' \<longleftrightarrow> valid_service lim (sid, s) \<and> st' = after_service st (sid, s)
    \<and> vsStaticBytes st' \<le> maxStaticFixtureBytes"
proof (cases "basic_service (sid, s)")
  case False
  then obtain err where "service_checks sid s = Some err" using service_checks_iff [of sid s] by blast
  then have "validate_service sid s lim st = Inl err" by (simp add: validate_service_def)
  then show ?thesis using False by (auto simp: basic_service_def valid_service_def)
next
  case True
  note basic = service_checks_iff [THEN iffD2, OF True]
  have step: "validate_service sid s lim st = (case validate_routes sid lim 0 (scRoutes s) [] (vsStaticBytes st) of
      Inl err \<Rightarrow> Inl err | Inr b1 \<Rightarrow> (case validate_default sid s lim b1 of Inl err \<Rightarrow> Inl err
      | Inr b2 \<Rightarrow> admit_service sid s (st\<lparr>vsStaticBytes := b2\<rparr>)))"
    unfolding validate_service_def basic option.case ..
  have vs: "valid_service lim (sid, s) \<longleftrightarrow> (\<forall>r \<in> set (scRoutes s). valid_route lim r) \<and> distinct (map key_of (scRoutes s))
     \<and> pred_option (valid_fallback lim) (scDefaultResponse s)
     \<and> (scEnabled s \<longrightarrow> scListener s \<noteq> None \<and> scIdentity s \<noteq> None \<and> scRoutes s \<noteq> [] \<and> scDefaultResponse s \<noteq> None)"
    using True by (auto simp: valid_service_def basic_service_def)
  have dpos: "0 \<le> (case scDefaultResponse s of None \<Rightarrow> 0 | Some fb \<Rightarrow> body_size (fbBody fb))" (is "0 \<le> ?d")
    by (simp split: option.split)
  have empty: "routes_size [] = 0" by (simp add: routes_size_def)
  have inr: "validate_service sid s lim st = Inr st' \<longleftrightarrow> (\<exists>b1 b2. validate_routes sid lim 0 (scRoutes s) [] (vsStaticBytes st) = Inr b1
      \<and> validate_default sid s lim b1 = Inr b2 \<and> admit_service sid s (st\<lparr>vsStaticBytes := b2\<rparr>) = Inr st')"
    by (auto simp: step split: sum.splits)
  have bound: "vsStaticBytes st + routes_size (scRoutes s) + ?d \<le> maxStaticFixtureBytes \<longleftrightarrow>
      (scRoutes s \<noteq> [] \<longrightarrow> vsStaticBytes st + routes_size (scRoutes s) \<le> maxStaticFixtureBytes)
      \<and> (scDefaultResponse s \<noteq> None \<longrightarrow> vsStaticBytes st + routes_size (scRoutes s) + ?d \<le> maxStaticFixtureBytes)"
    using b dpos empty by (cases "scRoutes s = []"; cases "scDefaultResponse s") (auto simp del: body_size_nonneg)
  let ?b2 = "vsStaticBytes st + routes_size (scRoutes s) + ?d"
  define g where "g = (\<lambda>b2. st\<lparr>vsStaticBytes := b2, vsHTTPS := (vsHTTPS st \<or> service_https s),
      vsListeners := vsListeners st @ service_listeners (sid, s)\<rparr>)"
  have after: "after_service st (sid, s) = g ?b2" "vsStaticBytes (g b) = b" for b
    by (simp_all add: after_service_def service_size_def g_def)
  have adm: "admit_service sid s (st\<lparr>vsStaticBytes := b\<rparr>) = Inr st' \<longleftrightarrow>
      (scEnabled s \<longrightarrow> scListener s \<noteq> None \<and> scIdentity s \<noteq> None \<and> scRoutes s \<noteq> [] \<and> scDefaultResponse s \<noteq> None)
      \<and> st' = g b" for b
    by (simp add: admit_service_iff g_def)
  have routes: "validate_routes sid lim 0 (scRoutes s) [] b = Inr b' \<longleftrightarrow>
      ((\<forall>r \<in> set (scRoutes s). valid_route lim r) \<and> distinct (map key_of (scRoutes s)))
      \<and> b' = b + routes_size (scRoutes s) \<and> (scRoutes s \<noteq> [] \<longrightarrow> b' \<le> maxStaticFixtureBytes)" for b b'
    by (simp add: validate_routes_iff)
  have "validate_service sid s lim st = Inr st' \<longleftrightarrow> valid_service lim (sid, s) \<and> st' = after_service st (sid, s)
      \<and> ((scRoutes s \<noteq> [] \<longrightarrow> vsStaticBytes st + routes_size (scRoutes s) \<le> maxStaticFixtureBytes)
        \<and> (scDefaultResponse s \<noteq> None \<longrightarrow> ?b2 \<le> maxStaticFixtureBytes))"
    (is "_ \<longleftrightarrow> ?rhs")
  proof
    assume "validate_service sid s lim st = Inr st'"
    then obtain b1 b2 where r: "validate_routes sid lim 0 (scRoutes s) [] (vsStaticBytes st) = Inr b1"
        and d: "validate_default sid s lim b1 = Inr b2" and a: "admit_service sid s (st\<lparr>vsStaticBytes := b2\<rparr>) = Inr st'"
      using inr by blast
    note r = routes [THEN iffD1, OF r] and d = validate_default_iff [THEN iffD1, OF d] and a = adm [THEN iffD1, OF a]
    then have b1: "b1 = vsStaticBytes st + routes_size (scRoutes s)" and b2: "b2 = b1 + ?d" by simp_all
    show ?rhs unfolding vs after using r [unfolded b1] d [unfolded b2 b1] a [unfolded b2 b1]
      by - (elim conjE, intro conjI; (assumption | rule refl))
  next
    assume ?rhs
    then show "validate_service sid s lim st = Inr st'" unfolding inr vs after
      unfolding routes validate_default_iff adm
      by - (elim conjE, rule exI [of _ "vsStaticBytes st + routes_size (scRoutes s)"], rule exI [of _ ?b2],
          intro conjI; (assumption | rule refl))
  qed
  also have "\<dots> \<longleftrightarrow> valid_service lim (sid, s) \<and> st' = after_service st (sid, s) \<and> ?b2 \<le> maxStaticFixtureBytes"
    by (intro conj_cong refl bound [symmetric])
  also have "\<dots> \<longleftrightarrow> valid_service lim (sid, s) \<and> st' = after_service st (sid, s) \<and> vsStaticBytes st' \<le> maxStaticFixtureBytes"
    unfolding after(1) using after(2) [of ?b2] by (intro conj_cong refl) (simp only:)
  finally show ?thesis .
qed

lemma validate_services_iff:
  "vsStaticBytes st \<le> maxStaticFixtureBytes \<Longrightarrow>
     validate_services lim es st = Inr st' \<longleftrightarrow> (\<forall>e \<in> set es. valid_service lim e) \<and> st' = foldl after_service st es
       \<and> vsStaticBytes st' \<le> maxStaticFixtureBytes"
proof (induction es arbitrary: st)
  case (Cons e es)
  obtain sid s where e: "e = (sid, s)" by (cases e)
  have grow: "vsStaticBytes u \<le> vsStaticBytes (foldl after_service u es)" for u
  proof (induction es arbitrary: u)
    case (Cons e es)
    have "vsStaticBytes u \<le> vsStaticBytes (after_service u e)" by (simp add: after_service_def)
    then show ?case using Cons [of "after_service u e"] by simp
  qed simp
  show ?case
  proof (cases "validate_service sid s lim st")
    case (Inl err)
    then have "\<not> (valid_service lim e \<and> vsStaticBytes (after_service st e) \<le> maxStaticFixtureBytes)"
      using validate_service_iff [OF Cons.prems, of sid s lim "after_service st e"] by (auto simp: e)
    then show ?thesis using Inl grow [of "after_service st e"] by (auto simp: e)
  next
    case (Inr st1)
    then have "valid_service lim e" "st1 = after_service st e" "vsStaticBytes st1 \<le> maxStaticFixtureBytes"
      using validate_service_iff [OF Cons.prems, THEN iffD1, OF Inr] by (auto simp: e)
    then show ?thesis using Cons.IH [of st1] Inr by (simp add: e)
  qed
qed auto

lemma foldl_after_service:
  "foldl after_service st es = st\<lparr>vsHTTPS := (vsHTTPS st \<or> (\<exists>e \<in> set es. service_https (snd e))),
     vsStaticBytes := vsStaticBytes st + sum_list (map (service_size \<circ> snd) es),
     vsListeners := vsListeners st @ concat (map service_listeners es)\<rparr>"
  by (induction es arbitrary: st) (auto simp: after_service_def)

section \<open>Listeners\<close>

lemma entries_conflict_sym: "entries_conflict a b = entries_conflict b a"
  by (auto simp: entries_conflict_def ipsConflict_def)

definition separate :: "(string \<times> service_config) list \<Rightarrow> bool" where
  "separate es \<longleftrightarrow> (\<forall>d \<in> set es. \<forall>e \<in> set es. fst d \<noteq> fst e \<longrightarrow>
     (\<forall>x \<in> set (service_listeners d). \<forall>y \<in> set (service_listeners e). \<not> entries_conflict x y))"

lemma conflicts_append:
  "length xs \<le> 1 \<Longrightarrow> validateListenerConflicts (xs @ ys) = None \<longleftrightarrow>
     (\<forall>x \<in> set xs. \<forall>y \<in> set ys. \<not> entries_conflict x y) \<and> validateListenerConflicts ys = None"
  by (cases xs; cases "tl xs") (auto split: if_splits)

lemma conflicts_iff:
  "distinct (map fst es) \<Longrightarrow> validateListenerConflicts (concat (map service_listeners es)) = None \<longleftrightarrow> separate es"
proof (induction es)
  case (Cons e es)
  have one: "length (service_listeners e) \<le> 1"
    by (auto simp: service_listeners_def split: prod.split option.split)
  have "fst e \<notin> fst ` set es" using Cons.prems by simp
  then have other: "fst d \<noteq> fst e" if "d \<in> set es" for d using imageI [OF that, of fst] by metis
  have "separate (e # es) \<longleftrightarrow> (\<forall>x \<in> set (service_listeners e). \<forall>d \<in> set es. \<forall>y \<in> set (service_listeners d).
      \<not> entries_conflict x y) \<and> separate es"
    using other entries_conflict_sym by (fastforce simp: separate_def)
  then show ?case using Cons conflicts_append [OF one] by auto
qed (simp add: separate_def)

section \<open>The whole configuration\<close>

definition valid_rotation :: "int \<Rightarrow> int \<Rightarrow> bool" where
  "valid_rotation sizeBytes seconds \<longleftrightarrow> 0 < sizeBytes \<and> 0 < seconds \<and> seconds \<le> maxTimeoutSeconds"

definition given :: "string \<Rightarrow> bool" where
  "given s \<longleftrightarrow> trim_space s \<noteq> ''''"

definition valid_evidence :: "evidence_config \<Rightarrow> bool" where
  "valid_evidence e \<longleftrightarrow> evMinFreeBytes e \<noteq> 0 \<and> given (pcInterface (evPCAP e)) \<and> given (pcDirectory (evPCAP e))
     \<and> valid_rotation (pcRotateSizeBytes (evPCAP e)) (pcRotateSeconds (evPCAP e))
     \<and> given (roDirectory (evWireJournal e))
     \<and> valid_rotation (roRotateSizeBytes (evWireJournal e)) (roRotateSeconds (evWireJournal e))
     \<and> given (roDirectory (evJSONL e))
     \<and> valid_rotation (roRotateSizeBytes (evJSONL e)) (roRotateSeconds (evJSONL e))"

definition within :: "int \<Rightarrow> int \<Rightarrow> bool" where
  "within v maximum \<longleftrightarrow> 1 \<le> v \<and> v \<le> maximum"

definition valid_limits :: "limits_config \<Rightarrow> bool" where
  "valid_limits l \<longleftrightarrow> within (MaxConnectionsTotal l) 8192 \<and> within (MaxConnectionsPerService l) 8192
     \<and> MaxConnectionsPerService l \<le> MaxConnectionsTotal l
     \<and> within (MaxRequestsPerConnection l) 100000 \<and> within (MaxConnectionLifetimeSeconds l) 86400
     \<and> within (MaxConnectionBytes l) 1073741824 \<and> within (MaxHeaderBytes l) 1048576
     \<and> within (MaxBodyBytes l) 67108864 \<and> within (MaxResponseBytes l) 67108864
     \<and> within (MaxStructuredEventBytes l) 1048576 \<and> within (MaxStructuredHeaders l) 256
     \<and> within (MaxQueryFields l) 1024 \<and> within (MaxPostFailureCaptureBytes l) 67108864
     \<and> within (TLSHandshakeTimeoutSeconds l) 30 \<and> within (HeaderTimeoutSeconds l) 86400
     \<and> within (BodyTimeoutSeconds l) 86400 \<and> within (WriteTimeoutSeconds l) 86400
     \<and> within (IdleTimeoutSeconds l) 86400 \<and> within (MaxStreamSeconds l) 86400
     \<and> within (PostFailureCaptureTimeoutSeconds l) 86400"

definition valid_config :: "config \<Rightarrow> bool" where
  "valid_config cfg \<longleftrightarrow> cfVersion cfg = 1 \<and> cfSensorID cfg \<noteq> '''' \<and> length (cfSensorID cfg) \<le> maxSensorIDBytes
     \<and> cfServices cfg \<noteq> [] \<and> length (cfServices cfg) \<le> maxServices
     \<and> valid_evidence (cfEvidence cfg) \<and> valid_limits (cfLimits cfg)
     \<and> (\<forall>e \<in> set (cfServices cfg). valid_service (MaxResponseBytes (cfLimits cfg)) e)
     \<and> sum_list (map (service_size \<circ> snd) (cfServices cfg)) \<le> maxStaticFixtureBytes
     \<and> separate (cfServices cfg)
     \<and> (HasHTTPS cfg \<longrightarrow> cfTLSDirectory cfg \<noteq> None) \<and> pred_option given (cfTLSDirectory cfg)
     \<and> pred_option given (cfSQLitePath cfg)"

lemma validateEvidence_iff: "validateEvidence e = None \<longleftrightarrow> valid_evidence e"
  by (auto simp: validateEvidence_def validateRotation_def valid_evidence_def valid_rotation_def given_def)

lemma within_iff: "\<not> (v < 1 \<or> v > maximum) \<longleftrightarrow> within v maximum"
  by (auto simp: within_def)

lemma validateLimits_iff: "validateLimits l = None \<longleftrightarrow> valid_limits l"
  by (simp only: validateLimits_def limit_checks_def range_check_def first_error_None list.set ball_simps
      prod.case within_iff not_less valid_limits_def simp_thms)

lemma sorted_services:
  assumes "distinct (map fst (cfServices cfg))"
  defines "es \<equiv> map (\<lambda>sid. (sid, service_at cfg sid)) (sort (map fst (cfServices cfg)))"
  shows "mset es = mset (cfServices cfg)" "distinct (map fst es)"
proof -
  have "map (\<lambda>sid. (sid, service_at cfg sid)) (map fst (cfServices cfg)) = cfServices cfg"
    using assms(1) by (auto simp: service_at_def intro!: map_idI)
  then show "mset es = mset (cfServices cfg)"
    by (metis es_def mset_map mset_sort)
  show "distinct (map fst es)" using assms(1) by (simp add: es_def comp_def)
qed

lemma Validate_valid:
  assumes "distinct (map fst (cfServices cfg))"
  shows "Validate cfg = None \<longleftrightarrow> valid_config cfg"
proof -
  define es where "es = map (\<lambda>sid. (sid, service_at cfg sid)) (sort (map fst (cfServices cfg)))"
  let ?lim = "MaxResponseBytes (cfLimits cfg)" and ?st = "\<lparr>vsHTTPS = False, vsStaticBytes = 0, vsListeners = []\<rparr>"
  note es = sorted_services [OF assms, folded es_def]
  have set_es: "set es = set (cfServices cfg)" using es(1) by (metis set_mset_mset)
  have sum_es: "sum_list (map (service_size \<circ> snd) es) = sum_list (map (service_size \<circ> snd) (cfServices cfg))"
  proof -
    have "mset (map (service_size \<circ> snd) es) = mset (map (service_size \<circ> snd) (cfServices cfg))"
      using arg_cong [OF es(1), of "image_mset (service_size \<circ> snd)"] by (simp only: mset_map)
    then show ?thesis by (simp only: sum_mset_sum_list [symmetric])
  qed
  have https: "(\<exists>e \<in> set es. service_https (snd e)) \<longleftrightarrow> HasHTTPS cfg"
    unfolding set_es by (simp add: HasHTTPS_def service_https_def list_ex_iff split_beta)
  have sep: "validateListenerConflicts (concat (map service_listeners es)) = None \<longleftrightarrow> separate (cfServices cfg)"
    using conflicts_iff [OF es(2)] set_es by (simp only: separate_def)
  have services: "validate_services ?lim es ?st = Inr st' \<longleftrightarrow> (\<forall>e \<in> set (cfServices cfg). valid_service ?lim e)
      \<and> st' = foldl after_service ?st es \<and> vsStaticBytes st' \<le> maxStaticFixtureBytes" for st'
    using validate_services_iff [of ?st ?lim es st'] set_es by simp
  have final: "vsHTTPS (foldl after_service ?st es) = HasHTTPS cfg"
      "vsStaticBytes (foldl after_service ?st es) = sum_list (map (service_size \<circ> snd) (cfServices cfg))"
      "vsListeners (foldl after_service ?st es) = concat (map service_listeners es)"
    by (simp_all add: foldl_after_service https sum_es)
  have basic: "first_error
      [(cfVersion cfg \<noteq> 1, Errorf ''unsupported schema version %d'' [AInt (cfVersion cfg)]),
       (cfSensorID cfg = '''' \<or> length (cfSensorID cfg) > maxSensorIDBytes,
         Errorf ''sensor.id must be 1..%d bytes'' [AInt (int maxSensorIDBytes)]),
       (length (cfServices cfg) = 0 \<or> length (cfServices cfg) > maxServices,
         Errorf ''services count must be 1..%d'' [AInt (int maxServices)])] = None \<longleftrightarrow>
      cfVersion cfg = 1 \<and> cfSensorID cfg \<noteq> '''' \<and> length (cfSensorID cfg) \<le> maxSensorIDBytes
      \<and> cfServices cfg \<noteq> [] \<and> length (cfServices cfg) \<le> maxServices"
    by auto
  show ?thesis
  proof (cases "validate_services ?lim es ?st")
    case (Inl err)
    then have "\<not> ((\<forall>e \<in> set (cfServices cfg). valid_service ?lim e)
        \<and> sum_list (map (service_size \<circ> snd) (cfServices cfg)) \<le> maxStaticFixtureBytes)"
      using services [of "foldl after_service ?st es"] by (simp add: final)
    then have "\<not> valid_config cfg" unfolding valid_config_def by blast
    moreover have "Validate cfg \<noteq> None"
      unfolding Validate_def Let_def es_def [symmetric] Inl sum.case or_else_None by simp
    ultimately show ?thesis by simp
  next
    case (Inr st)
    then have s: "\<forall>e \<in> set (cfServices cfg). valid_service ?lim e" "st = foldl after_service ?st es"
        "sum_list (map (service_size \<circ> snd) (cfServices cfg)) \<le> maxStaticFixtureBytes"
      using services [of st] final by auto
    have tls: "(if vsHTTPS st then
            (if (case cfTLSDirectory cfg of None \<Rightarrow> True | Some d \<Rightarrow> trim_space d = '''')
             then Some (Errorf ''global.tls.directory is required when HTTPS is enabled'' []) else None)
          else (case cfTLSDirectory cfg of None \<Rightarrow> None
             | Some d \<Rightarrow> if trim_space d = '''' then Some (Errorf ''global.tls.directory cannot be empty'' []) else None)) = None
        \<longleftrightarrow> (HasHTTPS cfg \<longrightarrow> cfTLSDirectory cfg \<noteq> None) \<and> pred_option given (cfTLSDirectory cfg)"
      by (auto simp: s(2) final given_def split: option.splits)
    have sql: "(case cfSQLitePath cfg of None \<Rightarrow> None
          | Some p \<Rightarrow> if trim_space p = '''' then Some (Errorf ''analysis.sqlite.path cannot be empty'' []) else None) = None
        \<longleftrightarrow> pred_option given (cfSQLitePath cfg)"
      by (auto simp: given_def split: option.splits)
    have "validateListenerConflicts (vsListeners st) = None \<longleftrightarrow> separate (cfServices cfg)"
      using sep by (simp only: s(2) final)
    then show ?thesis unfolding Validate_def Let_def es_def [symmetric] Inr sum.case or_else_None basic validateEvidence_iff validateLimits_iff tls sql
      using s(1,3) by (auto simp: valid_config_def)
  qed
qed

text \<open>C31: The validator accepts exactly the valid configurations: its checks, made one after the other
  with early returns and over maps in any order, neither miss nor add a condition.\<close>

lemma Validate_iff:
  assumes "distinct (map fst (cfServices cfg))"
  shows "Validate cfg = None \<longleftrightarrow> valid_config cfg"
  by (rule Validate_valid [OF assms])

text \<open>A concrete configuration: one HTTP service with a route of two responses.\<close>

definition resp1 :: response_config where
  "resp1 = \<lparr>rcSequence = \<lparr>sqDefault = False, sqNumber = 1\<rparr>, rcStatus = 200, rcHeaders = [(''X-A'', ''2'')],
     rcResponseMode = '''', rcDelayMS = 0, rcBody = Some ''one'', rcChunks = []\<rparr>"

definition resp_rest :: response_config where
  "resp_rest = \<lparr>rcSequence = \<lparr>sqDefault = True, sqNumber = 0\<rparr>, rcStatus = 200, rcHeaders = [],
     rcResponseMode = ''ndjson'', rcDelayMS = 5, rcBody = None,
     rcChunks = [\<lparr>ccDelayMS = 1, ccBody = Some ''{}''\<rparr>]\<rparr>"

definition route0 :: route_config where
  "route0 = \<lparr>rtMethod = ''GET'', rtPath = ''/a'', rtClassification = ''probe'', rtResponses = [resp1, resp_rest]\<rparr>"

definition svc0 :: service_config where
  "svc0 = \<lparr>scEnabled = True, scListener = Some \<lparr>lcAddress = ''127.0.0.1'', lcPort = 8080, lcProtocol = ''http''\<rparr>,
     scIdentity = Some \<lparr>idProduct = ''p'', idVariant = ''''\<rparr>, scDefaultHeaders = [(''Server'', ''s'')],
     scRoutes = [route0],
     scDefaultResponse = Some \<lparr>fbStatus = 404, fbHeaders = [], fbDelayMS = 0, fbBody = Some ''no''\<rparr>\<rparr>"

definition limits0 :: limits_config where
  "limits0 = \<lparr>MaxConnectionsTotal = 10, MaxConnectionsPerService = 5, MaxRequestsPerConnection = 100,
     MaxConnectionLifetimeSeconds = 60, MaxConnectionBytes = 100000, MaxHeaderBytes = 8192, MaxBodyBytes = 4096,
     MaxResponseBytes = 4096, MaxStructuredEventBytes = 4096, MaxStructuredHeaders = 16, MaxQueryFields = 16,
     TLSHandshakeTimeoutSeconds = 5, HeaderTimeoutSeconds = 5, BodyTimeoutSeconds = 5, WriteTimeoutSeconds = 5,
     IdleTimeoutSeconds = 5, MaxStreamSeconds = 30, MaxPostFailureCaptureBytes = 100,
     PostFailureCaptureTimeoutSeconds = 5\<rparr>"

definition cfg0 :: config where
  "cfg0 = \<lparr>cfVersion = 1, cfTLSDirectory = None, cfSensorID = ''s1'',
     cfEvidence = \<lparr>evMinFreeBytes = 1, evPCAP = \<lparr>pcInterface = ''eth0'', pcDirectory = ''p'', pcRotateSizeBytes = 1, pcRotateSeconds = 1\<rparr>,
       evWireJournal = \<lparr>roDirectory = ''w'', roRotateSizeBytes = 1, roRotateSeconds = 1\<rparr>,
       evJSONL = \<lparr>roDirectory = ''j'', roRotateSizeBytes = 1, roRotateSeconds = 1\<rparr>\<rparr>,
     cfLimits = limits0, cfServices = [(''web'', svc0)], cfSQLitePath = None, cfRaw = [], cfConfigSHA256 = '''',
     cfSourcePath = ''''\<rparr>"

lemma Validate_cfg0: "Validate cfg0 = None"
  by code_simp

lemma Validate_iff_witness: "valid_config cfg0"
  using Validate_iff [of cfg0] Validate_cfg0 by (simp add: cfg0_def)

text \<open>C36: A configuration that \<open>Load\<close> returns was read from at most 8 MiB, carries these bytes and their
  SHA-256, came from one YAML mapping without anchors, aliases, foreign tags and duplicate keys that
  has every required top-level key, and passed \<open>Validate\<close>.\<close>

lemma Load_accepts:
  assumes "Load sha256 env path = Inr cfg"
  shows "readAll env = Inr (cfRaw cfg) \<and> length (cfRaw cfg) \<le> MaxConfigBytes \<and> cfSourcePath cfg = path
    \<and> cfConfigSHA256 cfg = hex_encode (sha256 (cfRaw cfg)) \<and> Validate cfg = None
    \<and> (\<exists>doc root rest. fst (nodes env (cfRaw cfg)) = Inr doc \<and> ynContent doc = root # rest
         \<and> ynKind root = MappingNode \<and> plain_tree root
         \<and> set required_keys \<subseteq> set (map ynValue (mapping_keys (ynContent root))))"
proof -
  obtain data where d: "readAll env = Inr data" "length data \<le> MaxConfigBytes"
    using assms by (auto simp: Load_def split: option.splits sum.splits if_splits)
  obtain n1 n2 where n: "nodes env data = (n1, n2)" by (cases "nodes env data")
  have ins: "inspectYAMLSyntax n1 n2 = None"
    using assms d n by (auto simp: Load_def split: option.splits)
  obtain cfg1 where cfg: "cfg = cfg1\<lparr>cfRaw := data, cfConfigSHA256 := hex_encode (sha256 data), cfSourcePath := path\<rparr>"
      "Validate cfg = None"
    using assms d n ins by (auto simp: Load_def Let_def split: option.splits sum.splits if_splits)
  obtain doc root rest where root: "n1 = Inr doc" "ynContent doc = root # rest" "ynKind root = MappingNode"
      "requireTopLevelKeys root = None" "inspectNode root = None"
    using ins by (auto simp: inspectYAMLSyntax_def split: sum.splits list.splits if_splits)
  have "set required_keys \<subseteq> set (map ynValue (mapping_keys (ynContent root)))"
    using root(4) by (auto simp: requireTopLevelKeys_def Let_def)
  moreover have "plain_tree root" using root(5) inspectNode_plain by blast
  ultimately show ?thesis using d n cfg root by auto
qed

definition tree0 :: yaml_node where
  "tree0 = Node MappingNode ''!!map'' '''' '''' (concat (map (\<lambda>k. [Node ScalarNode ''!!str'' k '''' [],
     Node ScalarNode ''!!int'' ''1'' '''' []]) required_keys))"

definition env0 :: loader where
  "env0 = \<lparr>opened_err = None, readAll = Inr [7], nodes = (\<lambda>_. (Inr (Node DocumentNode '''' '''' '''' [tree0]), Inl EOF)),
     decode = (\<lambda>_. Inr cfg0), decode2 = (\<lambda>_. Some EOF)\<rparr>"

lemma Load_accepts_witness:
  "\<exists>cfg. Load (\<lambda>bs. bs) env0 ''c.yaml'' = Inr cfg \<and> cfConfigSHA256 cfg = ''07'' \<and> Validate cfg = None"
proof -
  have "\<not> isl (Load (\<lambda>bs. bs) env0 ''c.yaml'')" by code_simp
  then obtain cfg where l: "Load (\<lambda>bs. bs) env0 ''c.yaml'' = Inr cfg"
    by (cases "Load (\<lambda>bs. bs) env0 ''c.yaml''") auto
  have "hex_encode [7] = ''07''" by code_simp
  then show ?thesis using Load_accepts [OF l] l by (auto simp: env0_def)
qed

end
