(* ===== verification/Router.thy ===== *)
theory Router
  imports Valid_Config
begin

text \<open>
  \<open>internal/engine/router.go\<close>: the choice of a response for a request and the plan made from it. A
  dereference of a nil pointer is the outcome \<^const>\<open>None\<close> (the panic of the code). The lemmas show
  that it cannot happen for a validated service, that the requests of a connection walk through a
  route's numbered responses in order and then stay on its default, and what header merging does.
\<close>

section \<open>Plans\<close>

definition merge_default :: "go_map \<Rightarrow> string \<Rightarrow> go_map \<times> go_map \<Rightarrow> go_map \<times> go_map" where
  "merge_default defaults key = (\<lambda>(result, canonicalKeys).
     let canonical = canonical_key key in
     (AList.update canonical (the (map_of defaults key)) result,
      AList.update (to_lower canonical) canonical canonicalKeys))"

definition merge_override :: "go_map \<Rightarrow> string \<Rightarrow> go_map \<times> go_map \<Rightarrow> go_map \<times> go_map" where
  "merge_override overrides key = (\<lambda>(result, canonicalKeys).
     let canonical = canonical_key key; lower = to_lower canonical;
         result = (case map_of canonicalKeys lower of
           Some old \<Rightarrow> if old \<noteq> canonical then AList.delete old result else result
         | None \<Rightarrow> result)
     in (AList.update canonical (the (map_of overrides key)) result, AList.update lower canonical canonicalKeys))"

definition mergeHeaders :: "go_map \<Rightarrow> go_map \<Rightarrow> go_map" where
  "mergeHeaders defaults overrides =
     fst (fold (merge_override overrides) (sort (map fst overrides))
       (fold (merge_default defaults) (sort (map fst defaults)) ([], [])))"

abbreviation (input) "Millisecond \<equiv> (1000000 :: int)"

definition plan_chunk :: "chunk_config \<Rightarrow> chunk" where
  "plan_chunk c = \<lparr>cDelay = ccDelayMS c * Millisecond,
     cBody = (case ccBody c of None \<Rightarrow> [] | Some b \<Rightarrow> bytes_of b)\<rparr>"

definition planFromResponse :: "go_map \<Rightarrow> response_config option \<Rightarrow> bool \<Rightarrow> plan option" where
  "planFromResponse defaults chosen closeConnection = (case chosen of None \<Rightarrow> None
    | Some r \<Rightarrow> Some \<lparr>pStatus = rcStatus r, pHeaders = mergeHeaders defaults (rcHeaders r),
        pMode = (if rcResponseMode r = '''' then ''immediate'' else rcResponseMode r),
        pDelay = rcDelayMS r * Millisecond,
        pBody = (case rcBody r of None \<Rightarrow> [] | Some b \<Rightarrow> bytes_of b),
        pChunks = map plan_chunk (rcChunks r), pClose = closeConnection\<rparr>)"

definition planFromFallback :: "go_map \<Rightarrow> fallback_response option \<Rightarrow> bool \<Rightarrow> plan option" where
  "planFromFallback defaults fallback closeConnection = (case fallback of None \<Rightarrow> None
    | Some r \<Rightarrow> Some \<lparr>pStatus = fbStatus r, pHeaders = mergeHeaders defaults (fbHeaders r), pMode = ''immediate'',
        pDelay = fbDelayMS r * Millisecond, pBody = (case fbBody r of None \<Rightarrow> [] | Some b \<Rightarrow> bytes_of b),
        pChunks = [], pClose = closeConnection\<rparr>)"

section \<open>Selection\<close>

type_synonym route_state = "string \<Rightarrow> int"

definition NewRouteState :: route_state where
  "NewRouteState = (\<lambda>_. 0)"

record selection =
  slMatchedRoute :: string
  slClassification :: string
  slSource :: string
  slSequence :: "int option"
  slPlan :: plan

definition numbered_response :: "response_config list \<Rightarrow> int \<Rightarrow> response_config option" where
  "numbered_response responses ordinal =
     List.find (\<lambda>r. \<not> sqDefault (rcSequence r) \<and> sqNumber (rcSequence r) = ordinal) responses"

definition default_response :: "response_config list \<Rightarrow> response_config option" where
  "default_response responses = List.find (\<lambda>r. sqDefault (rcSequence r)) responses"

definition find_route :: "service_config \<Rightarrow> string \<Rightarrow> string \<Rightarrow> route_config option" where
  "find_route service method rawPath =
     List.find (\<lambda>route. \<not> (rtMethod route \<noteq> method \<or> rtPath route \<noteq> rawPath)) (scRoutes service)"

definition SelectResponse ::
  "service_config \<Rightarrow> string \<Rightarrow> string \<Rightarrow> route_state \<Rightarrow> bool \<Rightarrow> selection option \<times> route_state" where
  "SelectResponse service method rawPath state closeConnection =
    (case find_route service method rawPath of
       Some route \<Rightarrow>
         (let key = route_key (rtMethod route) (rtPath route);
              state = state(key := state key + 1);
              ordinal = state key;
              numbered = numbered_response (rtResponses route) ordinal;
              chosen = (case numbered of Some r \<Rightarrow> Some r | None \<Rightarrow> default_response (rtResponses route));
              source = (if numbered \<noteq> None then ''route_sequence'' else ''route_default'')
          in (map_option (\<lambda>plan. \<lparr>slMatchedRoute = rtMethod route @ '' '' @ rtPath route,
                slClassification = rtClassification route, slSource = source,
                slSequence = map_option (\<lambda>r. sqNumber (rcSequence r)) numbered, slPlan = plan\<rparr>)
                (planFromResponse (scDefaultHeaders service) chosen closeConnection), state))
     | None \<Rightarrow>
         (map_option (\<lambda>plan. \<lparr>slMatchedRoute = '''', slClassification = '''', slSource = ''service_default'',
                slSequence = None, slPlan = plan\<rparr>)
            (planFromFallback (scDefaultHeaders service) (scDefaultResponse service) closeConnection), state))"

section \<open>Which response is chosen\<close>

lemma find_NoneI: "\<forall>x \<in> set xs. \<not> P x \<Longrightarrow> List.find P xs = None"
  by (simp add: find_None_iff)

lemma numbered_responseD:
  "numbered_response rs n = Some r \<Longrightarrow> r \<in> set rs \<and> \<not> sqDefault (rcSequence r) \<and> sqNumber (rcSequence r) = n"
  by (auto simp: numbered_response_def find_Some_iff)

lemma numbered_response_None:
  "numbered_response rs n = None \<longleftrightarrow> n \<notin> set (seq_numbers rs)"
  by (auto simp: numbered_response_def find_None_iff seq_numbers_def)

lemma contiguous_set: "contiguous ns \<Longrightarrow> n \<in> set ns \<longleftrightarrow> 1 \<le> n \<and> n \<le> int (length ns)"
proof -
  assume "contiguous ns"
  then have "set ns = set (map int [1..<Suc (length ns)])" by (metis contiguous_def set_mset_mset)
  also have "\<dots> = {n. 1 \<le> n \<and> n \<le> int (length ns)}"
  proof
    show "{n. 1 \<le> n \<and> n \<le> int (length ns)} \<subseteq> set (map int [1..<Suc (length ns)])"
    proof
      fix n assume "n \<in> {n. 1 \<le> n \<and> n \<le> int (length ns)}"
      then have "nat n \<in> set [1..<Suc (length ns)]" "n = int (nat n)" by (auto simp del: upt_Suc)
      then show "n \<in> set (map int [1..<Suc (length ns)])" by (metis image_eqI set_map)
    qed
  qed (auto simp del: upt_Suc)
  finally show "n \<in> set ns \<longleftrightarrow> 1 \<le> n \<and> n \<le> int (length ns)" by simp
qed

lemma default_exists: "default_count rs = 1 \<Longrightarrow> \<exists>r. default_response rs = Some r"
proof -
  assume "default_count rs = 1"
  then have "filter (\<lambda>r. sqDefault (rcSequence r)) rs \<noteq> []" by (auto simp: default_count_def)
  then have "default_response rs \<noteq> None" by (auto simp: default_response_def find_None_iff filter_empty_conv)
  then show ?thesis by auto
qed

lemma default_responseD: "default_response rs = Some r \<Longrightarrow> r \<in> set rs \<and> sqDefault (rcSequence r)"
  by (auto simp: default_response_def find_Some_iff)

lemma find_routeD: "find_route s m p = Some r \<Longrightarrow> r \<in> set (scRoutes s) \<and> rtMethod r = m \<and> rtPath r = p"
  by (auto simp: find_route_def find_Some_iff)

text \<open>A service that \<open>Validate\<close> accepted and that is enabled.\<close>

definition served :: "int \<Rightarrow> string \<times> service_config \<Rightarrow> bool" where
  "served lim e \<longleftrightarrow> valid_service lim e \<and> scEnabled (snd e)"

lemma served_route:
  "served lim (sid, s) \<Longrightarrow> find_route s m p = Some r \<Longrightarrow> valid_route lim r \<and> default_count (rtResponses r) = 1
     \<and> contiguous (seq_numbers (rtResponses r))"
  by (auto simp: served_def valid_service_def valid_route_def valid_responses_def dest: find_routeD)

text \<open>What the code does on the \<open>n\<close>-th request for a route.\<close>

definition nth_selection :: "service_config \<Rightarrow> route_config \<Rightarrow> int \<Rightarrow> bool \<Rightarrow> selection option" where
  "nth_selection s route n closeConnection =
    (let chosen = (if n \<le> int (length (seq_numbers (rtResponses route))) then numbered_response (rtResponses route) n
                   else default_response (rtResponses route)) in
     map_option (\<lambda>plan. \<lparr>slMatchedRoute = rtMethod route @ '' '' @ rtPath route,
         slClassification = rtClassification route,
         slSource = (if n \<le> int (length (seq_numbers (rtResponses route))) then ''route_sequence'' else ''route_default''),
         slSequence = (if n \<le> int (length (seq_numbers (rtResponses route))) then Some n else None), slPlan = plan\<rparr>)
       (planFromResponse (scDefaultHeaders s) chosen closeConnection))"

lemma SelectResponse_route:
  assumes "served lim (sid, s)" "find_route s m p = Some r" "0 \<le> st (route_key m p)"
  shows "SelectResponse s m p st c
    = (nth_selection s r (st (route_key m p) + 1) c, st(route_key m p := st (route_key m p) + 1))"
proof -
  let ?n = "st (route_key m p) + 1" and ?rs = "rtResponses r"
  have k: "rtMethod r = m" "rtPath r = p" using find_routeD [OF assms(2)] by auto
  have cont: "contiguous (seq_numbers ?rs)" using served_route [OF assms(1,2)] by simp
  have num: "numbered_response ?rs ?n = None \<longleftrightarrow> \<not> ?n \<le> int (length (seq_numbers ?rs))"
    using contiguous_set [OF cont] assms(3) by (simp add: numbered_response_None)
  show ?thesis
  proof (cases "numbered_response ?rs ?n")
    case None
    then show ?thesis using num by (simp add: SelectResponse_def assms(2) nth_selection_def k Let_def)
  next
    case (Some resp)
    then show ?thesis using num numbered_responseD [OF Some]
      by (simp add: SelectResponse_def assms(2) nth_selection_def k Let_def)
  qed
qed

lemma nth_selection_total:
  assumes "served lim (sid, s)" "find_route s m p = Some r" "1 \<le> n"
  shows "\<exists>sel. nth_selection s r n c = Some sel"
proof -
  note v = served_route [OF assms(1,2)]
  have "\<exists>resp. (if n \<le> int (length (seq_numbers (rtResponses r))) then numbered_response (rtResponses r) n
      else default_response (rtResponses r)) = Some resp"
    using v contiguous_set [of "seq_numbers (rtResponses r)" n] assms(3) default_exists [of "rtResponses r"]
      numbered_response_None [of "rtResponses r" n]
    by (cases "numbered_response (rtResponses r) n") auto
  then show ?thesis by (auto simp: nth_selection_def planFromResponse_def)
qed

section \<open>The requests of one connection\<close>

text \<open>The calls that \<open>handleConnection\<close> makes on its route state, in order.\<close>

type_synonym request = "string \<times> string \<times> bool"

primrec serve :: "service_config \<Rightarrow> request list \<Rightarrow> route_state \<Rightarrow> selection option list \<times> route_state" where
  "serve s [] st = ([], st)"
| "serve s (q # qs) st = (case SelectResponse s (fst q) (fst (snd q)) st (snd (snd q)) of (sel, st') \<Rightarrow>
     (case serve s qs st' of (sels, st'') \<Rightarrow> (sel # sels, st'')))"

definition hits :: "string \<Rightarrow> string \<Rightarrow> request list \<Rightarrow> int" where
  "hits m p qs = int (length (filter (\<lambda>q. fst q = m \<and> fst (snd q) = p) qs))"

lemma hits_simps [simp]: "hits m p [] = 0"
    "hits m p (q # qs) = (if fst q = m \<and> fst (snd q) = p then 1 else 0) + hits m p qs"
  by (simp_all add: hits_def)

lemma hits_nonneg [simp]: "0 \<le> hits m p qs"
  by (simp add: hits_def)

lemma token_no_nul: "isHTTPToken s \<Longrightarrow> CHR 0x00 \<notin> set s"
  by (auto simp: isHTTPToken_def list_all_iff Let_def)

lemma route_key_inj:
  "CHR 0x00 \<notin> set m \<Longrightarrow> CHR 0x00 \<notin> set m' \<Longrightarrow> route_key m p = route_key m' p' \<Longrightarrow> m = m' \<and> p = p'"
proof (induction m arbitrary: m')
  case Nil
  then show ?case by (cases m') (auto simp: route_key_def)
next
  case (Cons x m)
  then show ?case by (cases m') (auto simp: route_key_def)
qed

lemma SelectResponse_counts:
  assumes sv: "served lim (sid, s)" and r: "find_route s m p = Some r" and st: "\<forall>k. 0 \<le> st k"
    and op: "SelectResponse s m' p' st c = (sel, st')"
  shows "st' (route_key m p) = st (route_key m p) + (if m' = m \<and> p' = p then 1 else 0)" "\<forall>k. 0 \<le> st' k"
proof -
  have tok: "CHR 0x00 \<notin> set m" if "find_route s m p = Some r" for m p r
    using served_route [OF sv that] find_routeD [OF that] token_no_nul by (auto simp: valid_route_def)
  have "st' (route_key m p) = st (route_key m p) + (if m' = m \<and> p' = p then 1 else 0) \<and> (\<forall>k. 0 \<le> st' k)"
  proof (cases "find_route s m' p'")
    case None
    then have "\<not> (m' = m \<and> p' = p)" using r by auto
    moreover have "st' = st" using op None by (simp add: SelectResponse_def)
    ultimately show ?thesis using st by auto
  next
    case (Some r')
    then have "st' = st(route_key m' p' := st (route_key m' p') + 1)"
      using SelectResponse_route [OF sv Some, of st c] st op by simp
    moreover have "route_key m' p' = route_key m p \<longleftrightarrow> m' = m \<and> p' = p"
      using route_key_inj [OF tok [OF Some] tok [OF r], of p' p] by auto
    ultimately show ?thesis using st by (auto simp: add_nonneg_nonneg)
  qed
  then show "st' (route_key m p) = st (route_key m p) + (if m' = m \<and> p' = p then 1 else 0)" "\<forall>k. 0 \<le> st' k"
    by auto
qed

lemma serve_nth:
  assumes sv: "served lim (sid, s)" and r: "find_route s m p = Some r"
  shows "\<forall>k. 0 \<le> st k \<Longrightarrow> i < length qs \<Longrightarrow> qs ! i = (m, p, c) \<Longrightarrow>
    fst (serve s qs st) ! i = nth_selection s r (st (route_key m p) + hits m p (take i qs) + 1) c"
proof (induction qs arbitrary: st i)
  case (Cons q qs)
  obtain sel st' where step: "SelectResponse s (fst q) (fst (snd q)) st (snd (snd q)) = (sel, st')"
    by (cases "SelectResponse s (fst q) (fst (snd q)) st (snd (snd q))")
  note cnt = SelectResponse_counts [OF sv r Cons.prems(1) step]
  show ?case
  proof (cases i)
    case 0
    then have "sel = nth_selection s r (st (route_key m p) + 1) c"
      using SelectResponse_route [OF sv r, of st c] Cons.prems step by simp
    then show ?thesis using step 0 by (simp split: prod.split)
  next
    case (Suc j)
    then have "fst (serve s qs st') ! j = nth_selection s r (st' (route_key m p) + hits m p (take j qs) + 1) c"
      using Cons.IH [OF cnt(2), of j] Cons.prems by simp
    then show ?thesis using step Suc cnt(1) by (auto simp: add.commute add.left_commute split: prod.split)
  qed
qed simp

section \<open>Properties\<close>

text \<open>C32: On a connection to a validated service, the \<open>n\<close>-th request for a route gets the route's
  response number \<open>n\<close> while there is one, and the default response after that, whatever requests for
  other routes or for none come in between.\<close>

lemma nth_request_response:
  assumes "served lim (sid, s)" "find_route s m p = Some route"
    and "i < length qs" "qs ! i = (m, p, c)" and "n = hits m p (take i qs) + 1"
  shows "\<exists>sel. fst (serve s qs NewRouteState) ! i = Some sel
    \<and> (if n \<le> int (length (seq_numbers (rtResponses route)))
       then slSequence sel = Some n \<and> slSource sel = ''route_sequence''
         \<and> (\<exists>r \<in> set (rtResponses route). sqNumber (rcSequence r) = n \<and> \<not> sqDefault (rcSequence r)
              \<and> Some (slPlan sel) = planFromResponse (scDefaultHeaders s) (Some r) c)
       else slSequence sel = None \<and> slSource sel = ''route_default''
         \<and> (\<exists>r \<in> set (rtResponses route). sqDefault (rcSequence r)
              \<and> Some (slPlan sel) = planFromResponse (scDefaultHeaders s) (Some r) c))"
proof -
  have n: "1 \<le> n" using assms(5) by simp
  have nth: "fst (serve s qs NewRouteState) ! i = nth_selection s route n c"
    using serve_nth [OF assms(1,2), of NewRouteState i qs c] assms(3-5) by (simp add: NewRouteState_def)
  obtain sel where sel: "nth_selection s route n c = Some sel" using nth_selection_total [OF assms(1,2) n] by blast
  have cont: "contiguous (seq_numbers (rtResponses route))" using served_route [OF assms(1,2)] by simp
  show ?thesis
  proof (cases "n \<le> int (length (seq_numbers (rtResponses route)))")
    case True
    then obtain r where r: "numbered_response (rtResponses route) n = Some r"
      using contiguous_set [OF cont] n numbered_response_None [of "rtResponses route" n]
      by (cases "numbered_response (rtResponses route) n") auto
    then show ?thesis using nth sel True numbered_responseD [OF r]
      by (auto simp: nth_selection_def planFromResponse_def)
  next
    case False
    obtain r where r: "default_response (rtResponses route) = Some r"
      using default_exists served_route [OF assms(1,2)] by blast
    then show ?thesis using nth sel False default_responseD [OF r]
      by (auto simp: nth_selection_def planFromResponse_def)
  qed
qed

text \<open>Choosing a response for a validated, enabled service never dereferences a nil pointer: there
  is a default response on each route and one of the service.\<close>

lemma SelectResponse_total:
  assumes "served lim (sid, s)" "\<forall>k. 0 \<le> st k"
  shows "\<exists>sel. fst (SelectResponse s m p st c) = Some sel"
proof (cases "find_route s m p")
  case None
  obtain fb where "scDefaultResponse s = Some fb" using assms(1) by (auto simp: served_def valid_service_def)
  then show ?thesis using None by (simp add: SelectResponse_def planFromFallback_def)
next
  case (Some r)
  then show ?thesis
    using SelectResponse_route [OF assms(1) Some, of st c] nth_selection_total [OF assms(1) Some, of "st (route_key m p) + 1" c]
      assms(2) by auto
qed

text \<open>The service of \<^const>\<open>cfg0\<close>: two requests for its route with another request between them.\<close>

lemma svc0_served: "served 4096 (''web'', svc0)"
proof -
  have "valid_config cfg0" using Validate_valid [of cfg0] Validate_cfg0 by (simp add: cfg0_def)
  then show ?thesis by (simp add: valid_config_def cfg0_def served_def limits0_def svc0_def)
qed

lemma svc0_route: "find_route svc0 ''GET'' ''/a'' = Some route0"
  by (simp add: find_route_def svc0_def route0_def)

definition requests0 :: "request list" where
  "requests0 = [(''GET'', ''/a'', False), (''GET'', ''/b'', False), (''GET'', ''/a'', True)]"

lemma nth_request_response_witness:
  "\<exists>a b. fst (serve svc0 requests0 NewRouteState) ! 0 = Some a \<and> slSequence a = Some 1
    \<and> fst (serve svc0 requests0 NewRouteState) ! 2 = Some b \<and> slSequence b = None"
proof -
  have len: "length (seq_numbers (rtResponses route0)) = 1" by code_simp
  have h: "hits ''GET'' ''/a'' (take 2 requests0) = 1" by code_simp
  have "\<exists>a. fst (serve svc0 requests0 NewRouteState) ! 0 = Some a \<and> slSequence a = Some 1"
    using nth_request_response [OF svc0_served svc0_route, of 0 requests0 False 1] len by (auto simp: requests0_def)
  moreover have "\<exists>b. fst (serve svc0 requests0 NewRouteState) ! 2 = Some b \<and> slSequence b = None"
    using nth_request_response [OF svc0_served svc0_route, of 2 requests0 True 2] len h by (auto simp: requests0_def)
  ultimately show ?thesis by blast
qed

lemma SelectResponse_total_witness: "\<exists>sel. fst (SelectResponse svc0 ''PUT'' ''/x'' NewRouteState True) = Some sel"
  by (rule SelectResponse_total [OF svc0_served]) (simp add: NewRouteState_def)

end
