(* ===== verification/Header_Merge.thy ===== *)
theory Header_Merge
  imports Router
begin

text \<open>
  Header names: the canonical form of \<open>net/http\<close> forgets the case and nothing else, so the maps that
  \<open>mergeHeaders\<close> of \<open>internal/engine/router.go\<close> and \<open>responseHeaders\<close> of
  \<open>internal/response/response.go\<close> build from validated headers have one entry for each name, and
  a validated configuration cannot split a response.
\<close>

section \<open>Characters\<close>

lemma lower_upper [simp]: "lower_char (upper_char c) = lower_char c"
  by (auto simp: lower_char_def upper_char_def Let_def of_char_of)

lemma lower_lower [simp]: "lower_char (lower_char c) = lower_char c"
  by (auto simp: lower_char_def Let_def of_char_of)

lemma upper_lower [simp]: "upper_char (lower_char c) = upper_char c"
  by (auto simp: lower_char_def upper_char_def Let_def of_char_of)

lemma lower_dash [simp]: "lower_char c = CHR ''-'' \<longleftrightarrow> c = CHR ''-''"
proof -
  have "of_char (CHR ''-'') = (45 :: nat)" by simp
  moreover have "of_char (lower_char c) = (45 :: nat) \<longleftrightarrow> of_char c = (45 :: nat)"
    by (auto simp: lower_char_def Let_def of_char_of)
  ultimately show ?thesis by (metis of_char_eq_iff)
qed

definition token_char :: "char \<Rightarrow> bool" where
  "token_char c \<longleftrightarrow> (let x = of_char c :: nat in \<not> (x > 127 \<or> x < 32 \<or> x = 127 \<or> c \<in> set token_separators))"

lemma token_iff: "isHTTPToken s \<longleftrightarrow> s \<noteq> [] \<and> list_all token_char s"
  by (simp add: isHTTPToken_def token_char_def [abs_def])

lemma token_char_byte: "token_char c \<Longrightarrow> token_byte c"
proof -
  have "\<forall>c. token_char c \<longrightarrow> token_byte c" by code_simp
  then show "token_char c \<Longrightarrow> token_byte c" by blast
qed

lemma token_char_case: "token_char c \<Longrightarrow> token_char (lower_char c) \<and> token_char (upper_char c)"
proof -
  have "\<forall>c. token_char c \<longrightarrow> token_char (lower_char c) \<and> token_char (upper_char c)" by code_simp
  then show "token_char c \<Longrightarrow> token_char (lower_char c) \<and> token_char (upper_char c)" by blast
qed

lemma token_chars: "isHTTPToken s \<Longrightarrow> c \<in> set s \<Longrightarrow> token_byte c"
  by (auto simp: token_iff list_all_iff token_char_byte)

section \<open>Canonical names\<close>

lemma to_lower_simps [simp]: "to_lower [] = []" "to_lower (c # s) = lower_char c # to_lower s"
  by (simp_all add: to_lower_def)

lemma canonical_from_lower: "canonical_from up (to_lower s) = canonical_from up s"
  by (induction s arbitrary: up) auto

lemma lower_canonical_from: "to_lower (canonical_from up s) = to_lower s"
  by (induction s arbitrary: up) auto

lemma canonical_token: "isHTTPToken s \<Longrightarrow> canonical_key s = canonical_from True s"
  using token_chars by (auto simp: canonical_key_def list_all_iff)

lemma canonical_lower: "isHTTPToken s \<Longrightarrow> canonical_key s = canonical_from True (to_lower s)"
  by (simp add: canonical_token canonical_from_lower)

lemma lower_canonical: "isHTTPToken s \<Longrightarrow> to_lower (canonical_key s) = to_lower s"
  by (simp add: canonical_token lower_canonical_from)

lemma canonical_eq_iff: "isHTTPToken s \<Longrightarrow> isHTTPToken t \<Longrightarrow> canonical_key s = canonical_key t \<longleftrightarrow> to_lower s = to_lower t"
  by (metis canonical_lower lower_canonical)

lemma canonical_again: "isHTTPToken s \<Longrightarrow> canonical_from True (to_lower (canonical_key s)) = canonical_key s"
  using lower_canonical [of s] canonical_lower [of s] by simp

section \<open>Maps built by updates\<close>

definition put_all :: "('a \<Rightarrow> 'k) \<Rightarrow> ('a \<Rightarrow> 'v) \<Rightarrow> 'a list \<Rightarrow> ('k \<times> 'v) list \<Rightarrow> ('k \<times> 'v) list" where
  "put_all f g xs m = fold (\<lambda>x. AList.update (f x) (g x)) xs m"

lemma put_all_Cons: "put_all f g (x # xs) m = put_all f g xs (AList.update (f x) (g x) m)"
  by (simp add: put_all_def)

lemma put_all_distinct: "distinct (map fst m) \<Longrightarrow> distinct (map fst (put_all f g xs m))"
  by (induction xs arbitrary: m) (simp_all add: put_all_Cons distinct_update, simp add: put_all_def)

lemma put_all_other: "k \<notin> f ` set xs \<Longrightarrow> map_of (put_all f g xs m) k = map_of m k"
  by (induction xs arbitrary: m) (simp_all add: put_all_Cons update_conv, simp add: put_all_def)

lemma put_all_in:
  "distinct (map f xs) \<Longrightarrow> x \<in> set xs \<Longrightarrow> map_of (put_all f g xs m) (f x) = Some (g x)"
proof (induction xs arbitrary: m)
  case (Cons y ys)
  show ?case
  proof (cases "x = y")
    case True
    then have "f x \<notin> f ` set ys" using Cons.prems by auto
    then show ?thesis by (simp add: put_all_Cons put_all_other True update_conv)
  next
    case False
    then show ?thesis using Cons by (simp add: put_all_Cons)
  qed
qed simp

lemma put_all_keys: "fst ` set (put_all f g xs m) = f ` set xs \<union> fst ` set m"
  by (induction xs arbitrary: m) (simp_all add: put_all_Cons dom_update Un_commute, simp add: put_all_def)

section \<open>Merging\<close>

definition header_value :: "go_map \<Rightarrow> string \<Rightarrow> string option" where
  "header_value hs name = map_option snd (List.find (\<lambda>(k, v). to_lower k = to_lower name) hs)"

definition ck_ok :: "go_map \<Rightarrow> bool" where
  "ck_ok ck \<longleftrightarrow> (\<forall>l c. map_of ck l = Some c \<longrightarrow> c = canonical_from True l)"

lemma merge_default_fold:
  "\<forall>k \<in> set ks. isHTTPToken k \<Longrightarrow> ck_ok ck \<Longrightarrow> \<exists>ck'. ck_ok ck' \<and>
     fold (merge_default hs) ks (r, ck) = (put_all canonical_key (\<lambda>k. the (map_of hs k)) ks r, ck')"
proof (induction ks arbitrary: r ck)
  case (Cons k ks)
  have "ck_ok (AList.update (to_lower (canonical_key k)) (canonical_key k) ck)"
    using Cons.prems by (auto simp: ck_ok_def update_conv canonical_again)
  then show ?case using Cons by (simp add: merge_default_def put_all_Cons Let_def)
qed (simp add: put_all_def)

lemma merge_override_fold:
  "\<forall>k \<in> set ks. isHTTPToken k \<Longrightarrow> ck_ok ck \<Longrightarrow> \<exists>ck'. ck_ok ck' \<and>
     fold (merge_override hs) ks (r, ck) = (put_all canonical_key (\<lambda>k. the (map_of hs k)) ks r, ck')"
proof (induction ks arbitrary: r ck)
  case (Cons k ks)
  have ck: "ck_ok (AList.update (to_lower (canonical_key k)) (canonical_key k) ck)"
    using Cons.prems by (auto simp: ck_ok_def update_conv canonical_again)
  have "map_of ck (to_lower (canonical_key k)) = Some old \<Longrightarrow> old = canonical_key k" for old
    using Cons.prems canonical_again [of k] by (auto simp: ck_ok_def)
  then have "merge_override hs k (r, ck) = (AList.update (canonical_key k) (the (map_of hs k)) r,
      AList.update (to_lower (canonical_key k)) (canonical_key k) ck)"
    by (auto simp: merge_override_def Let_def split: option.split)
  then show ?case using Cons ck by (simp add: put_all_Cons)
qed (simp add: put_all_def)

lemma mergeHeaders_put:
  assumes "valid_headers d" "valid_headers ov"
  shows "mergeHeaders d ov = put_all canonical_key (\<lambda>k. the (map_of ov k)) (sort (map fst ov))
    (put_all canonical_key (\<lambda>k. the (map_of d k)) (sort (map fst d)) [])"
proof -
  have tok: "\<forall>k \<in> set (sort (map fst hs)). isHTTPToken k" if "valid_headers hs" for hs
    using that by (auto simp: valid_headers_def valid_header_def)
  have "ck_ok []" by (simp add: ck_ok_def)
  from merge_default_fold [OF tok [OF assms(1)] this, of d "[]"] obtain ck where ck: "ck_ok ck"
      "fold (merge_default d) (sort (map fst d)) ([], []) = (put_all canonical_key (\<lambda>k. the (map_of d k)) (sort (map fst d)) [], ck)"
    by blast
  obtain ck' where "fold (merge_override ov) (sort (map fst ov)) (put_all canonical_key (\<lambda>k. the (map_of d k)) (sort (map fst d)) [], ck)
      = (put_all canonical_key (\<lambda>k. the (map_of ov k)) (sort (map fst ov))
          (put_all canonical_key (\<lambda>k. the (map_of d k)) (sort (map fst d)) []), ck')"
    using merge_override_fold [OF tok [OF assms(2)] ck(1)] by blast
  then show ?thesis by (simp add: mergeHeaders_def ck(2))
qed

lemma token_canonical_from: "list_all token_char s \<Longrightarrow> list_all token_char (canonical_from up s)"
  by (induction s arbitrary: up) (auto simp: token_char_case)

lemma token_map: "isHTTPToken s \<Longrightarrow> isHTTPToken (canonical_key s)"
  by (cases s) (auto simp: canonical_token token_iff token_canonical_from token_char_case)

lemma canonical_idem: "isHTTPToken s \<Longrightarrow> canonical_key (canonical_key s) = canonical_key s"
  by (metis canonical_eq_iff lower_canonical token_map)

lemma header_value_iff:
  assumes "distinct (map (to_lower \<circ> fst) hs)"
  shows "header_value hs n = Some v \<longleftrightarrow> (\<exists>k. (k, v) \<in> set hs \<and> to_lower k = to_lower n)"
  using assms
proof (induction hs)
  case (Cons h hs)
  obtain k w where "h = (k, w)" by (cases h)
  then show ?case using Cons by (force simp: header_value_def)
qed (simp add: header_value_def)

lemma header_value_None:
  "header_value hs n = None \<longleftrightarrow> (\<forall>(k, v) \<in> set hs. to_lower k \<noteq> to_lower n)"
  by (auto simp: header_value_def find_None_iff)

lemma valid_headers_distinct: "valid_headers hs \<Longrightarrow> distinct (map fst hs)"
  by (metis distinct_map list.map_comp valid_headers_def)

lemma merged_entry:
  assumes d: "valid_headers d" and ov: "valid_headers ov"
  shows "(k, v) \<in> set (mergeHeaders d ov) \<longleftrightarrow>
    (\<exists>k'. k = canonical_key k' \<and> ((k', v) \<in> set ov \<or> (k', v) \<in> set d \<and> (\<forall>(j, w) \<in> set ov. to_lower j \<noteq> to_lower k')))"
proof -
  let ?g = "\<lambda>hs k. the (map_of hs k)"
  let ?inner = "put_all canonical_key (?g d) (sort (map fst d)) []"
  note m = mergeHeaders_put [OF d ov]
  have dist: "distinct (map fst (mergeHeaders d ov))" unfolding m by (intro put_all_distinct) simp
  have tok: "isHTTPToken k" if "(k, v) \<in> set hs" "valid_headers hs" for k v hs
    using that by (auto simp: valid_headers_def valid_header_def)
  have look: "map_of (put_all canonical_key (?g hs) (sort (map fst hs)) m0) (canonical_key k) = Some v"
    if "(k, v) \<in> set hs" "valid_headers hs" for hs k v m0
  proof -
    have "distinct (map (to_lower \<circ> fst) hs)" using that(2) by (simp add: valid_headers_def)
    then have "distinct (map (canonical_key \<circ> fst) hs)"
      unfolding distinct_map inj_on_def comp_def
      by (metis canonical_eq_iff prod.collapse that(2) tok)
    then have "distinct (map canonical_key (sort (map fst hs)))"
      by (auto simp: distinct_map intro: inj_on_imageI inj_on_imageI2)
    moreover have "?g hs k = v" using that valid_headers_distinct by simp
    ultimately show ?thesis using put_all_in [of canonical_key "sort (map fst hs)" k "?g hs" m0] that(1) by force
  qed
  have other: "map_of (mergeHeaders d ov) (canonical_key k) = map_of ?inner (canonical_key k)"
    if "isHTTPToken k" "\<forall>(j, w) \<in> set ov. to_lower j \<noteq> to_lower k" for k
    unfolding m using that by (intro put_all_other) (auto simp: canonical_eq_iff tok [OF _ ov])
  show ?thesis
  proof
    assume "(k, v) \<in> set (mergeHeaders d ov)"
    then have mk: "map_of (mergeHeaders d ov) k = Some v" using dist by simp
    have "k \<in> fst ` set (mergeHeaders d ov)" using \<open>(k, v) \<in> set (mergeHeaders d ov)\<close> by force
    then obtain k' w where k': "k = canonical_key k'" "(k', w) \<in> set ov \<or> (k', w) \<in> set d"
      unfolding m by (auto simp: put_all_keys) blast+
    then have tk: "isHTTPToken k'" using tok d ov by blast
    show "\<exists>k'. k = canonical_key k' \<and> ((k', v) \<in> set ov \<or> (k', v) \<in> set d \<and> (\<forall>(j, w) \<in> set ov. to_lower j \<noteq> to_lower k'))"
    proof (cases "\<exists>j w. (j, w) \<in> set ov \<and> to_lower j = to_lower k'")
      case True
      then obtain j w' where j: "(j, w') \<in> set ov" "to_lower j = to_lower k'" by blast
      then have "k = canonical_key j" using k'(1) tk tok [OF j(1) ov] canonical_eq_iff by simp
      moreover from this have "w' = v" using look [OF j(1) ov] mk by (simp add: m)
      ultimately show ?thesis using j(1) by blast
    next
      case False
      then have "(k', w) \<in> set d" using k'(2) by blast
      moreover have "w = v" using False other [OF tk] look [OF \<open>(k', w) \<in> set d\<close> d, of "[]"] mk k'(1) by auto
      ultimately show ?thesis using k'(1) False by blast
    qed
  next
    assume "\<exists>k'. k = canonical_key k' \<and> ((k', v) \<in> set ov \<or> (k', v) \<in> set d \<and> (\<forall>(j, w) \<in> set ov. to_lower j \<noteq> to_lower k'))"
    then obtain k' where k': "k = canonical_key k'"
        "(k', v) \<in> set ov \<or> (k', v) \<in> set d \<and> (\<forall>(j, w) \<in> set ov. to_lower j \<noteq> to_lower k')" by blast
    then have "map_of (mergeHeaders d ov) k = Some v"
    proof (cases "(k', v) \<in> set ov")
      case True
      then show ?thesis using look [OF True ov] k'(1) by (simp add: m)
    next
      case False
      then have "(k', v) \<in> set d" "\<forall>(j, w) \<in> set ov. to_lower j \<noteq> to_lower k'" using k'(2) by auto
      then show ?thesis using other look [OF _ d, of k' v "[]"] tok [OF _ d] k'(1) by metis
    qed
    then show "(k, v) \<in> set (mergeHeaders d ov)" by (rule map_of_SomeD)
  qed
qed

lemma merged_distinct:
  assumes d: "valid_headers d" and ov: "valid_headers ov"
  shows "distinct (map (to_lower \<circ> fst) (mergeHeaders d ov))" and "h \<in> set (mergeHeaders d ov) \<Longrightarrow> valid_header h \<and> canonical_key (fst h) = fst h"
proof -
  have tok: "isHTTPToken k" if "(k, v) \<in> set hs" "valid_headers hs" for k v hs
    using that by (auto simp: valid_headers_def valid_header_def)
  have ent: "\<exists>k'. isHTTPToken k' \<and> k = canonical_key k' \<and> ((k', v) \<in> set ov \<or> (k', v) \<in> set d)"
    if "(k, v) \<in> set (mergeHeaders d ov)" for k v
    using that merged_entry [OF d ov] tok d ov by blast
  have dist: "distinct (map fst (mergeHeaders d ov))"
    unfolding mergeHeaders_put [OF d ov] by (intro put_all_distinct) simp
  have "inj_on to_lower (fst ` set (mergeHeaders d ov))"
  proof (rule inj_onI)
    fix a b assume ab: "a \<in> fst ` set (mergeHeaders d ov)" "b \<in> fst ` set (mergeHeaders d ov)" "to_lower a = to_lower b"
    then obtain x y where "isHTTPToken x" "a = canonical_key x" "isHTTPToken y" "b = canonical_key y"
      using ent by (metis (no_types, lifting) imageE prod.collapse)
    then show "a = b" using ab(3) by (simp add: lower_canonical canonical_eq_iff)
  qed
  then show "distinct (map (to_lower \<circ> fst) (mergeHeaders d ov))"
    using dist by (simp add: distinct_map comp_inj_on)
  show "valid_header h \<and> canonical_key (fst h) = fst h" if h: "h \<in> set (mergeHeaders d ov)"
  proof -
    obtain k v where kv: "h = (k, v)" by (cases h)
    obtain k' where k': "isHTTPToken k'" "k = canonical_key k'" "(k', v) \<in> set ov \<or> (k', v) \<in> set d"
      using ent h kv by blast
    then have "valid_header (k', v)" using d ov by (auto simp: valid_headers_def)
    then show ?thesis using k' kv by (simp add: valid_header_def token_map canonical_idem lower_canonical)
  qed
qed

section \<open>Properties\<close>

text \<open>Merging validated headers: a name, in whatever case it is written, has the value of the
  response's own headers where they define it, and the service's default otherwise; the result
  has one entry for each name, in canonical form.\<close>

lemma mergeHeaders_value:
  assumes "valid_headers d" "valid_headers ov"
  shows "header_value (mergeHeaders d ov) name = (case header_value ov name of Some v \<Rightarrow> Some v | None \<Rightarrow> header_value d name)
    \<and> distinct (map (to_lower \<circ> fst) (mergeHeaders d ov))
    \<and> (\<forall>h \<in> set (mergeHeaders d ov). valid_header h \<and> canonical_key (fst h) = fst h)"
proof -
  have dist: "distinct (map (to_lower \<circ> fst) d)" "distinct (map (to_lower \<circ> fst) ov)"
    using assms by (simp_all add: valid_headers_def)
  note dm = merged_distinct [OF assms]
  have tok: "isHTTPToken k" if "(k, v) \<in> set hs" "valid_headers hs" for k v hs
    using that by (auto simp: valid_headers_def valid_header_def)
  have entry: "header_value (mergeHeaders d ov) name = Some v \<longleftrightarrow>
      (\<exists>k. to_lower k = to_lower name \<and> ((k, v) \<in> set ov \<or> (k, v) \<in> set d \<and> (\<forall>(j, w) \<in> set ov. to_lower j \<noteq> to_lower name)))"
    for v
  proof -
    have "header_value (mergeHeaders d ov) name = Some v \<longleftrightarrow> (\<exists>k. (k, v) \<in> set (mergeHeaders d ov) \<and> to_lower k = to_lower name)"
      by (rule header_value_iff [OF dm(1)])
    also have "\<dots> \<longleftrightarrow> (\<exists>k'. to_lower (canonical_key k') = to_lower name \<and> ((k', v) \<in> set ov \<or> (k', v) \<in> set d
        \<and> (\<forall>(j, w) \<in> set ov. to_lower j \<noteq> to_lower k')))"
      unfolding merged_entry [OF assms] by blast
    also have "\<dots> \<longleftrightarrow> (\<exists>k. to_lower k = to_lower name \<and> ((k, v) \<in> set ov \<or> (k, v) \<in> set d
        \<and> (\<forall>(j, w) \<in> set ov. to_lower j \<noteq> to_lower name)))"
    proof -
      have "to_lower (canonical_key k) = to_lower k" if "(k, v) \<in> set ov \<or> (k, v) \<in> set d" for k
        using that tok assms lower_canonical by blast
      then have "(to_lower (canonical_key k) = to_lower name \<and> ((k, v) \<in> set ov \<or> (k, v) \<in> set d
          \<and> (\<forall>(j, w) \<in> set ov. to_lower j \<noteq> to_lower k))) \<longleftrightarrow> (to_lower k = to_lower name \<and> ((k, v) \<in> set ov \<or> (k, v) \<in> set d
          \<and> (\<forall>(j, w) \<in> set ov. to_lower j \<noteq> to_lower name)))" for k
        by (cases "(k, v) \<in> set ov \<or> (k, v) \<in> set d") auto
      then show ?thesis by (simp only:)
    qed
    finally show ?thesis .
  qed
  have "header_value (mergeHeaders d ov) name = (case header_value ov name of Some v \<Rightarrow> Some v | None \<Rightarrow> header_value d name)"
  proof (cases "header_value ov name")
    case None
    then have "header_value (mergeHeaders d ov) name = Some v \<longleftrightarrow> header_value d name = Some v" for v
      unfolding entry header_value_iff [OF dist(1)] by (auto simp: header_value_None)
    then show ?thesis using None by (cases "header_value d name"; cases "header_value (mergeHeaders d ov) name") auto
  next
    case (Some v)
    then have "header_value (mergeHeaders d ov) name = Some v"
      unfolding entry using header_value_iff [OF dist(2), of name v] by blast
    then show ?thesis using Some by simp
  qed
  then show ?thesis using dm by blast
qed

definition d0 :: go_map where "d0 = [(''Server'', ''notai''), (''x-a'', ''1'')]"
definition ov0 :: go_map where "ov0 = [(''X-A'', ''2'')]"

lemma valid_d0: "valid_headers d0" "valid_headers ov0"
proof -
  have "validateHeaders d0 ''n'' = None" "validateHeaders ov0 ''n'' = None" by code_simp+
  then show "valid_headers d0" "valid_headers ov0" by (simp_all add: validateHeaders_iff)
qed

lemma mergeHeaders_value_witness:
  "header_value (mergeHeaders d0 ov0) ''x-A'' = Some ''2'' \<and> header_value (mergeHeaders d0 ov0) ''server'' = Some ''notai''"
proof -
  have v: "header_value ov0 ''x-A'' = Some ''2''" "header_value ov0 ''server'' = None" "header_value d0 ''server'' = Some ''notai''"
    by code_simp+
  show ?thesis using mergeHeaders_value [OF valid_d0, of "''x-A''"] mergeHeaders_value [OF valid_d0, of "''server''"] v by simp
qed

lemma digits_plain: "c \<in> set (digits 10 n) \<Longrightarrow> c \<notin> set crlf"
proof
  assume "c \<in> set (digits 10 n)" "c \<in> set crlf"
  then obtain d where "d < 16" "c = digit d" using digits_chars [of 10 c n] by auto
  then have "digit_value c = Some d" by simp
  then show False using \<open>c \<in> set crlf\<close> by (auto simp: crlf_def digit_value_def)
qed

lemma framing_plain:
  "set (snd (framing protoMajor protoMinor plan)) \<inter> set crlf = {} \<and> isHTTPToken (fst (framing protoMajor protoMinor plan))"
proof -
  have "isHTTPToken ''Content-Length'' \<and> isHTTPToken ''Transfer-Encoding'' \<and> set ''chunked'' \<inter> set crlf = {}" by code_simp
  then show ?thesis using digits_plain by (auto simp: framing_def itoa_def)
qed

lemma plan_headers_valid:
  assumes sv: "served lim (sid, s)" and st: "\<forall>k. 0 \<le> st k"
    and sel: "fst (SelectResponse s m p st c) = Some sel"
  shows "\<forall>h \<in> set (pHeaders (slPlan sel)). valid_header h \<and> canonical_key (fst h) = fst h"
proof -
  have d: "valid_headers (scDefaultHeaders s)" using sv by (auto simp: served_def valid_service_def)
  show ?thesis
  proof (cases "find_route s m p")
    case None
    then obtain fb where fb: "scDefaultResponse s = Some fb" "pHeaders (slPlan sel) = mergeHeaders (scDefaultHeaders s) (fbHeaders fb)"
      using sel by (auto simp: SelectResponse_def planFromFallback_def split: option.splits)
    then have "valid_headers (fbHeaders fb)" using sv by (auto simp: served_def valid_service_def valid_fallback_def)
    then show ?thesis using merged_distinct(2) [OF d] fb by simp
  next
    case (Some r)
    then have "nth_selection s r (st (route_key m p) + 1) c = Some sel"
      using SelectResponse_route [OF sv Some, of st c] st sel by simp
    then obtain resp where resp: "resp \<in> set (rtResponses r)"
        "pHeaders (slPlan sel) = mergeHeaders (scDefaultHeaders s) (rcHeaders resp)"
      by (auto simp: nth_selection_def planFromResponse_def Let_def split: option.splits if_splits
          dest: numbered_responseD default_responseD)
    have "valid_headers (rcHeaders resp)"
      using served_route [OF sv Some] resp(1) by (auto simp: valid_route_def valid_responses_def valid_response_def)
    then show ?thesis using merged_distinct(2) [OF d] resp by simp
  qed
qed

text \<open>C33: A response of a validated service cannot be split: each header line is a token, a colon and
  a space, a value without CR and LF, and one CR LF; and what frames the body and the connection is
  only what the code itself puts in (the configuration cannot add a second length or coding).\<close>

lemma header_lines_safe:
  assumes "served lim (sid, s)" "\<forall>k. 0 \<le> st k" "fst (SelectResponse s m p st c) = Some sel"
    and "responseHeaders protoMajor protoMinor method (slPlan sel) = Inr hs"
  shows "\<forall>line \<in> set hs. \<exists>k v. line = k @ '': '' @ v @ crlf \<and> isHTTPToken k \<and> set v \<inter> set crlf = {}
    \<and> (to_lower k \<in> set prohibitedResponseHeaders \<longrightarrow>
        (k, v) = framing protoMajor protoMinor (slPlan sel) \<or> k = ''Connection'' \<and> v \<in> {''close'', ''keep-alive''})"
proof -
  let ?fr = "framing protoMajor protoMinor (slPlan sel)"
  obtain table where t: "distinct (map fst table)"
    "hs = map (\<lambda>k. k @ '': '' @ the (map_of table k) @ crlf) (sort (map fst table))"
    "\<And>k v. map_of table k = Some v \<Longrightarrow> (k, v) = ?fr
       \<or> k = ''Connection'' \<and> v \<in> {''close'', ''keep-alive''} \<or> (\<exists>k'. (k', v) \<in> set (pHeaders (slPlan sel)) \<and> canonical_key k' = k)"
    using responseHeaders_table [OF assms(4)] by blast
  note ph = plan_headers_valid [OF assms(1-3)]
  have conn: "isHTTPToken ''Connection'' \<and> set ''close'' \<inter> set crlf = {} \<and> set ''keep-alive'' \<inter> set crlf = {}" by code_simp
  show ?thesis
  proof
    fix line assume "line \<in> set hs"
    then obtain k where k: "line = k @ '': '' @ the (map_of table k) @ crlf" "k \<in> fst ` set table"
      using t(2) by auto
    then obtain v where v: "map_of table k = Some v" by (metis map_of_eq_None_iff not_None_eq)
    from t(3) [OF v] have "isHTTPToken k \<and> set v \<inter> set crlf = {} \<and> (to_lower k \<in> set prohibitedResponseHeaders \<longrightarrow>
        (k, v) = ?fr \<or> k = ''Connection'' \<and> v \<in> {''close'', ''keep-alive''})"
    proof (elim disjE)
      assume "(k, v) = ?fr"
      then show ?thesis using framing_plain [of protoMajor protoMinor "slPlan sel"] by (metis fst_conv snd_conv)
    next
      assume "k = ''Connection'' \<and> v \<in> {''close'', ''keep-alive''}"
      then show ?thesis using conn by auto
    next
      assume "\<exists>k'. (k', v) \<in> set (pHeaders (slPlan sel)) \<and> canonical_key k' = k"
      then have "valid_header (k, v)" using ph by fastforce
      then show ?thesis by (simp add: valid_header_def)
    qed
    then show "\<exists>k v. line = k @ '': '' @ v @ crlf \<and> isHTTPToken k \<and> set v \<inter> set crlf = {}
      \<and> (to_lower k \<in> set prohibitedResponseHeaders \<longrightarrow> (k, v) = ?fr \<or> k = ''Connection'' \<and> v \<in> {''close'', ''keep-alive''})"
      using k(1) v by auto
  qed
qed

lemma header_lines_safe_witness:
  "\<exists>sel hs. fst (SelectResponse svc0 ''GET'' ''/a'' NewRouteState False) = Some sel
    \<and> responseHeaders 1 1 ''GET'' (slPlan sel) = Inr hs \<and> length hs = 3
    \<and> (\<forall>line \<in> set hs. \<exists>k v. line = k @ '': '' @ v @ crlf \<and> isHTTPToken k)"
proof -
  let ?sel = "fst (SelectResponse svc0 ''GET'' ''/a'' NewRouteState False)"
  have "?sel \<noteq> None \<and> (case responseHeaders 1 1 ''GET'' (slPlan (the ?sel)) of Inl err \<Rightarrow> False | Inr hs \<Rightarrow> length hs = 3)"
    by code_simp
  then obtain sel hs where e: "?sel = Some sel" "responseHeaders 1 1 ''GET'' (slPlan sel) = Inr hs" "length hs = 3"
    by (auto split: sum.splits)
  have "\<forall>k. 0 \<le> NewRouteState k" by (simp add: NewRouteState_def)
  from header_lines_safe [OF svc0_served this e(1,2)] show ?thesis using e by blast
qed

end
