(* ===== verification/Bwj_Reader.thy ===== *)
theory Bwj_Reader
  imports Bwj_Codec
begin

text \<open>
  The reader \<open>ReadBWJFile\<close> of \<open>internal/evidence/bwj.go\<close> and its laws: it inverts the writer's
  encoding, it accepts nothing else, and on a file that was cut at any byte it returns exactly the
  records that are complete in it.
\<close>

section \<open>Data\<close>

record bwj_file_header =
  CreatedTimeNS :: int
  RunSessionID :: ID
  FileSequence :: u64

record bwj_record =
  rType :: RecordType
  rDirection :: Direction
  rFlags :: byte
  TimestampNS :: int
  Sequence :: u64
  ConnectionID :: ID
  RequestID :: ID
  Payload :: "byte list"

record read_result =
  Header :: bwj_file_header
  Records :: "bwj_record list"
  TruncatedTail :: bool

section \<open>The reader\<close>

text \<open>
  \<open>io.ReadFull\<close> on what is left of the file; \<open>fin\<close> is the error the file answers with once its
  bytes are used up: \<^const>\<open>EOF\<close>, or the error of a failing disk.
\<close>

definition ReadFull :: "nat \<Rightarrow> byte list \<Rightarrow> go_error \<Rightarrow> byte list \<times> go_error option" where
  "ReadFull n bs fin = (take n bs,
     if n \<le> length bs then None else if bs = [] then Some fin
     else if fin = EOF then Some ErrUnexpectedEOF else Some fin)"

text \<open>The checks on a record header, in the order of the code; the result is the record without its
  payload and the payload's length.\<close>

definition parse_record_header :: "byte list \<Rightarrow> u64 \<Rightarrow> go_error + bwj_record \<times> u64" where
  "parse_record_header rh lastSequence =
    (if go_slice 0 4 rh \<noteq> bwjRecordMagic \<or> rh ! 4 \<noteq> of_nat bwjVersion
     then Inl (Errorf ''invalid BWJ record magic/version'' [])
     else if rh ! 7 AND reservedFlags \<noteq> 0
     then Inl (Errorf ''reserved BWJ record flags are non-zero'' [])
     else
       let sequence = get_le (go_slice 16 24 rh) :: u64 in
       if sequence = 0 \<or> sequence \<le> lastSequence
       then Inl (Errorf ''non-monotonic BWJ record sequence'' [])
       else
         let len = get_le (go_slice 56 64 rh) :: u64 in
         if len > of_nat BWJMaxDataPayload \<and> rh ! 5 = RecordData
         then Inl (Errorf ''DATA payload length exceeds %d'' [AInt (int BWJMaxDataPayload)])
         else if len > 10 \<and> rh ! 5 \<noteq> RecordData
         then Inl (Errorf ''metadata payload length is invalid'' [])
         else Inr (\<lparr>rType = rh ! 5, rDirection = rh ! 6, rFlags = rh ! 7,
                 TimestampNS = sint (get_le (go_slice 8 16 rh) :: u64), Sequence = sequence,
                 ConnectionID = go_slice 24 40 rh, RequestID = go_slice 40 56 rh, Payload = []\<rparr>, len))"

text \<open>The checks after the payload was read.\<close>

definition check_record :: "bwj_record \<Rightarrow> go_error option" where
  "check_record r = (case validatePayload (rType r) (Payload r) of Some e \<Rightarrow> Some e
    | None \<Rightarrow>
      if rType r = RecordData \<and> rDirection r \<noteq> DirectionInbound \<and> rDirection r \<noteq> DirectionOutbound
      then Some (Errorf ''invalid DATA direction'' [])
      else if rType r \<noteq> RecordData \<and> rDirection r \<noteq> DirectionNA
      then Some (Errorf ''metadata record direction must be not-applicable'' [])
      else None)"

text \<open>The loop over the records: the records and the truncated-tail flag.\<close>

function read_records :: "byte list \<Rightarrow> go_error \<Rightarrow> u64 \<Rightarrow> go_error + bwj_record list \<times> bool" where
  "read_records bs fin lastSequence =
    (case ReadFull BWJRecordHeaderSize bs fin of
       (rh, Some err) \<Rightarrow>
         if err = EOF \<and> rh = [] then Inr ([], False)
         else if err = ErrUnexpectedEOF \<or> err = EOF then Inr ([], True)
         else Inl err
     | (rh, None) \<Rightarrow>
         (case parse_record_header rh lastSequence of
            Inl err \<Rightarrow> Inl err
          | Inr (r, len) \<Rightarrow>
              let rest = drop BWJRecordHeaderSize bs in
              case (if len > 0 then ReadFull (unat len) rest fin else ([], None)) of
                (payload, Some err) \<Rightarrow>
                  if err = ErrUnexpectedEOF \<or> err = EOF then Inr ([], True) else Inl err
              | (payload, None) \<Rightarrow>
                  (case check_record (r\<lparr>Payload := payload\<rparr>) of
                     Some err \<Rightarrow> Inl err
                   | None \<Rightarrow>
                      (case read_records (drop (unat len) rest) fin (Sequence r) of
                         Inl err \<Rightarrow> Inl err
                       | Inr (rs, truncated) \<Rightarrow> Inr (r\<lparr>Payload := payload\<rparr> # rs, truncated)))))"
  by pat_completeness auto
termination
  by (relation "measure (\<lambda>(bs, fin, lst). length bs)") (auto simp: ReadFull_def split: if_splits)

declare read_records.simps [simp del]

text \<open>\<open>ReadBWJFile\<close>: \<open>opened\<close> is what \<open>os.Open\<close> answers.\<close>

definition ReadBWJFile :: "go_error + byte list \<Rightarrow> go_error \<Rightarrow> go_error + read_result" where
  "ReadBWJFile opened fin = (case opened of Inl err \<Rightarrow> Inl err | Inr bs \<Rightarrow>
     (case ReadFull BWJFileHeaderSize bs fin of
        (hb, Some err) \<Rightarrow> Inl (Wrapf ''read BWJ header: %w'' [] err)
      | (hb, None) \<Rightarrow>
        if go_slice 0 8 hb \<noteq> bwjFileMagic then Inl (Errorf ''invalid BWJ file magic'' [])
        else if (get_le (go_slice 8 10 hb) :: u16) \<noteq> of_nat bwjVersion
          \<or> (get_le (go_slice 10 12 hb) :: u16) \<noteq> of_nat BWJFileHeaderSize
        then Inl (Errorf ''unsupported BWJ header version or length'' [])
        else if list_ex (\<lambda>b. b \<noteq> 0) (go_slice 44 64 hb)
        then Inl (Errorf ''non-zero reserved BWJ file header bytes'' [])
        else
          (case read_records (drop BWJFileHeaderSize bs) fin 0 of
             Inl err \<Rightarrow> Inl err
           | Inr (rs, truncated) \<Rightarrow>
               Inr \<lparr>Header = \<lparr>CreatedTimeNS = sint (get_le (go_slice 12 20 hb) :: u64),
                       RunSessionID = go_slice 20 36 hb, FileSequence = get_le (go_slice 36 44 hb)\<rparr>,
                    Records = rs, TruncatedTail = truncated\<rparr>)))"

section \<open>Encoding a record and a file\<close>

text \<open>The bytes the writer puts in the file for a record, and for a file header.\<close>

definition encode_record :: "bwj_record \<Rightarrow> byte list" where
  "encode_record r = record_header (rType r) (rDirection r) (rFlags r) (word_of_int (TimestampNS r))
     (Sequence r) (ConnectionID r) (RequestID r) (length (Payload r)) @ Payload r"

definition encode_header :: "bwj_file_header \<Rightarrow> byte list" where
  "encode_header fh = file_header (word_of_int (CreatedTimeNS fh)) (RunSessionID fh) (FileSequence fh)"

definition encode_records :: "bwj_record list \<Rightarrow> byte list" where
  "encode_records rs = concat (map encode_record rs)"

text \<open>The records that can be written: what the writer checks, and the ranges of the Go types.\<close>

definition int64 :: "int \<Rightarrow> bool" where
  "int64 t \<longleftrightarrow> - (2 ^ 63) \<le> t \<and> t < 2 ^ 63"

definition good_record :: "bwj_record \<Rightarrow> bool" where
  "good_record r \<longleftrightarrow> rFlags r AND reservedFlags = 0 \<and> int64 (TimestampNS r)
     \<and> length (ConnectionID r) = 16 \<and> length (RequestID r) = 16 \<and> check_record r = None"

fun ascending :: "u64 \<Rightarrow> bwj_record list \<Rightarrow> bool" where
  "ascending lst [] = True"
| "ascending lst (r # rs) = (lst < Sequence r \<and> good_record r \<and> ascending (Sequence r) rs)"

definition good_header :: "bwj_file_header \<Rightarrow> bool" where
  "good_header fh \<longleftrightarrow> int64 (CreatedTimeNS fh) \<and> length (RunSessionID fh) = 16"

lemma sint_word_of_int [simp]: "int64 t \<Longrightarrow> sint (word_of_int t :: u64) = t"
  by (simp add: int64_def sint_sbintrunc' signed_take_bit_int_eq_self)

lemma int64_sint [simp]: "int64 (sint (w :: u64))"
  using sint_ge [of w] sint_lt [of w] by (simp add: int64_def)

lemma length_encode_record:
  "good_record r \<Longrightarrow> length (encode_record r) = 64 + length (Payload r)"
  by (simp add: encode_record_def record_header_layout good_record_def)

lemma length_encode_header: "good_header fh \<Longrightarrow> length (encode_header fh) = 64"
  by (simp add: encode_header_def file_header_layout good_header_def)

lemma encode_records_simps [simp]:
  "encode_records [] = []" "encode_records (r # rs) = encode_record r @ encode_records rs"
  "encode_records (rs @ ss) = encode_records rs @ encode_records ss"
  by (simp_all add: encode_records_def)

section \<open>Reading back what was written\<close>

lemma payload_update [simp]:
  "r\<lparr>Payload := x, Payload := y\<rparr> = r\<lparr>Payload := y\<rparr>" "Payload r = p \<Longrightarrow> r\<lparr>Payload := p\<rparr> = r"
  by (cases r, simp)+

lemma check_record_length:
  "check_record r = None \<Longrightarrow> length (Payload r) \<le> 65536 \<and> (rType r \<noteq> RecordData \<longrightarrow> length (Payload r) \<le> 10)"
  by (auto simp: check_record_def validatePayload_def split: option.splits if_splits)

lemma parse_encode:
  assumes g: "good_record r" and lst: "lst < Sequence r"
  shows "parse_record_header (take 64 (encode_record r)) lst
    = Inr (r\<lparr>Payload := []\<rparr>, of_nat (length (Payload r)))"
proof -
  have ids: "length (ConnectionID r) = 16" "length (RequestID r) = 16" and t: "int64 (TimestampNS r)"
    and f: "rFlags r AND 0xf0 = 0" using g by (auto simp: good_record_def)
  have len: "length (Payload r) \<le> 65536" "rType r = 2 \<or> length (Payload r) \<le> 10"
    using g check_record_length by (auto simp: good_record_def)
  have s0: "Sequence r \<noteq> 0" "\<not> Sequence r \<le> lst" using lst by auto
  have u: "unat (of_nat (length (Payload r)) :: u64) = length (Payload r)"
    using len(1) by (simp add: unat_of_nat)
  have l1: "\<not> (65536 :: u64) < of_nat (length (Payload r))"
    and l2: "(10 :: u64) < of_nat (length (Payload r)) \<longrightarrow> rType r = 2"
    using len by (auto simp: word_less_nat_alt u)
  have lay: "take 64 (encode_record r) = bwjRecordMagic @ [1, rType r, rDirection r, rFlags r]
      @ put64 (word_of_int (TimestampNS r)) @ put64 (Sequence r) @ ConnectionID r @ RequestID r
      @ put64 (of_nat (length (Payload r)))"
    using ids by (simp add: encode_record_def record_header_layout)
  show ?thesis unfolding lay parse_record_header_def
    using f l1 l2 s0 t by (simp add: go_slice_def nth_append ids Let_def)
qed

lemma unat_of_length: "good_record r \<Longrightarrow> unat (of_nat (length (Payload r)) :: u64) = length (Payload r)"
  using check_record_length [of r] by (simp add: good_record_def unat_of_nat)

lemma read_record:
  assumes g: "good_record r" and lst: "lst < Sequence r"
  shows "read_records (encode_record r @ bs) fin lst =
    (case read_records bs fin (Sequence r) of Inl e \<Rightarrow> Inl e | Inr (rs, t) \<Rightarrow> Inr (r # rs, t))"
proof -
  have len: "length (encode_record r) = 64 + length (Payload r)" using g by (rule length_encode_record)
  have tail: "drop 64 (encode_record r) = Payload r"
    using g by (simp add: encode_record_def record_header_layout good_record_def)
  have rh: "take 64 (encode_record r @ bs) = take 64 (encode_record r)" using len by simp
  have p0: "(0 :: u64) < of_nat (length (Payload r)) \<longleftrightarrow> Payload r \<noteq> []"
    using unat_of_length [OF g] by (auto simp: word_less_nat_alt)
  have ok: "check_record r = None" using g by (simp add: good_record_def)
  show ?thesis
  proof (cases "Payload r = []")
    case True
    then show ?thesis using len rh parse_encode [OF g lst] ok tail
      by (subst read_records.simps) (simp add: ReadFull_def Let_def split: sum.split)
  next
    case False
    then show ?thesis using len rh parse_encode [OF g lst] ok tail p0 unat_of_length [OF g]
      by (subst read_records.simps) (simp add: ReadFull_def Let_def split: sum.split)
  qed
qed

lemma read_torn_record:
  assumes g: "good_record r" and lst: "lst < Sequence r" and k: "k < length (encode_record r)"
  shows "read_records (take k (encode_record r)) EOF lst = Inr ([], k \<noteq> 0)"
proof (cases "k < 64")
  case True
  then show ?thesis using length_encode_record [OF g]
    by (subst read_records.simps) (auto simp: ReadFull_def)
next
  case False
  have len: "length (encode_record r) = 64 + length (Payload r)" using g by (rule length_encode_record)
  have tail: "drop 64 (encode_record r) = Payload r"
    using g by (simp add: encode_record_def record_header_layout good_record_def)
  have rest: "drop 64 (take k (encode_record r)) = take (k - 64) (Payload r)"
    by (simp add: drop_take tail)
  have "0 < length (Payload r)" using k len False by linarith
  then have p0: "(0 :: u64) < of_nat (length (Payload r))"
    using unat_of_length [OF g] by (auto simp: word_less_nat_alt)
  have rh: "take 64 (take k (encode_record r)) = take 64 (encode_record r)" using False by (simp add: min_def)
  have short: "Payload r \<noteq> []" "\<not> length (Payload r) \<le> k - 64" using k len False by auto
  show ?thesis using False k short
    by (subst read_records.simps)
       (simp add: ReadFull_def len rh parse_encode [OF g lst] p0 unat_of_length [OF g] rest Let_def)
qed

section \<open>A file cut at any byte\<close>

text \<open>The records that lie completely within the first \<open>k\<close> bytes.\<close>

fun complete :: "nat \<Rightarrow> bwj_record list \<Rightarrow> bwj_record list" where
  "complete k [] = []"
| "complete k (r # rs) =
     (if length (encode_record r) \<le> k then r # complete (k - length (encode_record r)) rs else [])"

lemma complete_prefix: "prefix (complete k rs) rs"
  by (induction k rs rule: complete.induct) auto

lemma complete_all: "length (encode_records rs) \<le> k \<Longrightarrow> complete k rs = rs"
  by (induction k rs rule: complete.induct) auto

lemma complete_fits: "length (encode_records (complete k rs)) \<le> k"
  by (induction k rs rule: complete.induct) auto

lemma read_cut:
  "ascending lst rs \<Longrightarrow> k \<le> length (encode_records rs) \<Longrightarrow>
     read_records (take k (encode_records rs)) EOF lst
       = Inr (complete k rs, length (encode_records (complete k rs)) \<noteq> k)"
proof (induction rs arbitrary: k lst)
  case Nil
  then show ?case by (simp add: read_records.simps ReadFull_def)
next
  case (Cons r rs)
  then have r: "good_record r" "lst < Sequence r" "ascending (Sequence r) rs" by auto
  let ?e = "encode_record r"
  show ?case
  proof (cases "length ?e \<le> k")
    case True
    have "take k (encode_records (r # rs)) = ?e @ take (k - length ?e) (encode_records rs)"
      using True by simp
    moreover have "read_records (take (k - length ?e) (encode_records rs)) EOF (Sequence r)
        = Inr (complete (k - length ?e) rs, length (encode_records (complete (k - length ?e) rs)) \<noteq> k - length ?e)"
      using Cons.prems True by (intro Cons.IH) (auto simp: r)
    ultimately show ?thesis using True r by (auto simp: read_record)
  next
    case False
    then have "take k (encode_records (r # rs)) = take k ?e" by simp
    then show ?thesis using False read_torn_record [OF r(1,2), of k] by simp
  qed
qed

lemma read_all: "ascending lst rs \<Longrightarrow> read_records (encode_records rs) EOF lst = Inr (rs, False)"
  using read_cut [of lst rs "length (encode_records rs)"] by (simp add: complete_all)

section \<open>What is read is the encoding of what was read\<close>

lemma parse_record_header_inv:
  assumes p: "parse_record_header rh lst = Inr (r, n)" and rh: "length rh = 64"
  shows "rh = record_header (rType r) (rDirection r) (rFlags r) (word_of_int (TimestampNS r)) (Sequence r)
      (ConnectionID r) (RequestID r) (unat n)"
    and "lst < Sequence r" "rFlags r AND 0xf0 = 0" "int64 (TimestampNS r)"
    and "length (ConnectionID r) = 16" "length (RequestID r) = 16" "Payload r = []"
proof -
  let ?r = "\<lparr>rType = rh ! 5, rDirection = rh ! 6, rFlags = rh ! 7,
      TimestampNS = sint (get_le (go_slice 8 16 rh) :: u64), Sequence = get_le (go_slice 16 24 rh) :: u64,
      ConnectionID = go_slice 24 40 rh, RequestID = go_slice 40 56 rh, Payload = []\<rparr>"
  have c: "go_slice 0 4 rh = bwjRecordMagic" "rh ! 4 = 1" "rh ! 7 AND 0xf0 = 0"
      "lst < (get_le (go_slice 16 24 rh) :: u64)" "r = ?r" "n = get_le (go_slice 56 64 rh)"
    using p by (auto simp: parse_record_header_def Let_def not_le split: if_splits)
  have cut: "rh = go_slice 0 4 rh @ [rh ! 4, rh ! 5, rh ! 6, rh ! 7] @ go_slice 8 16 rh @ go_slice 16 24 rh
      @ go_slice 24 40 rh @ go_slice 40 56 rh @ go_slice 56 64 rh"
  proof -
    have four: "[rh ! 4, rh ! 5, rh ! 6, rh ! 7] = go_slice 4 8 rh"
      using rh by (simp add: list_eq_iff_nth_eq go_slice_def nth_Cons' less_Suc_eq numeral_eq_Suc)
    have "go_slice 0 4 rh @ go_slice 4 8 rh @ go_slice 8 16 rh @ go_slice 16 24 rh @ go_slice 24 40 rh @ go_slice 40 56 rh
        @ go_slice 56 64 rh = go_slice 0 64 rh" by (simp add: go_slice_glue)
    then show ?thesis using rh by (simp add: four go_slice_def)
  qed
  have len: "length (go_slice 24 40 rh) = 16" "length (go_slice 40 56 rh) = 16"
      "length (go_slice 8 16 rh) = 8" "length (go_slice 16 24 rh) = 8" "length (go_slice 56 64 rh) = 8"
    using rh by (simp_all add: go_slice_def)
  show "rh = record_header (rType r) (rDirection r) (rFlags r) (word_of_int (TimestampNS r)) (Sequence r)
      (ConnectionID r) (RequestID r) (unat n)"
    by (subst cut) (simp add: c record_header_layout len rh)
  show "lst < Sequence r" "rFlags r AND 0xf0 = 0" "int64 (TimestampNS r)"
    "length (ConnectionID r) = 16" "length (RequestID r) = 16" "Payload r = []"
    using c len by simp_all
qed

text \<open>
  The other direction: a file that reads without error is the encoding of the records read,
  followed, exactly when the truncated-tail flag is set, by fewer bytes than one record.
\<close>

lemma read_records_inv:
  "read_records bs EOF lst = Inr (rs, t) \<Longrightarrow>
     ascending lst rs \<and> (\<exists>tail. bs = encode_records rs @ tail \<and> (t \<longleftrightarrow> tail \<noteq> []) \<and> length tail < 64 + 65536)"
proof (induction "length bs" arbitrary: bs lst rs t rule: less_induct)
  case less
  show ?case
  proof (cases "length bs < 64")
    case True
    then show ?thesis using less.prems
      by (subst (asm) read_records.simps) (auto simp: ReadFull_def split: if_splits)
  next
    case False
    let ?rh = "take 64 bs" and ?rest = "drop 64 bs"
    have rf: "ReadFull 64 bs EOF = (?rh, None)" using False by (simp add: ReadFull_def)
    obtain r0 n where p: "parse_record_header ?rh lst = Inr (r0, n)"
      using less.prems rf by (subst (asm) read_records.simps) (auto split: sum.splits)
    have len: "length ?rh = 64" using False by simp
    note inv = parse_record_header_inv [OF p len]
    have n: "unat n \<le> 65536" using p
      by (auto simp: parse_record_header_def Let_def word_less_nat_alt not_less split: if_splits)
    show ?thesis
    proof (cases "length ?rest < unat n")
      case True
      then have "0 < n" by (auto simp: word_less_nat_alt)
      then have "rs = []" "t" using less.prems rf p True
        by (subst (asm) read_records.simps; auto simp: ReadFull_def Let_def split: if_splits)+
      then show ?thesis using True n False by auto
    next
      case full: False
      let ?r = "r0\<lparr>Payload := take (unat n) ?rest\<rparr>"
      have pl: "(if 0 < n then ReadFull (unat n) ?rest EOF else ([], None)) = (take (unat n) ?rest, None)"
        using full by (auto simp: ReadFull_def word_less_nat_alt)
      obtain rs' where ok: "check_record ?r = None" "rs = ?r # rs'"
          "read_records (drop (unat n) ?rest) EOF (Sequence r0) = Inr (rs', t)"
        using less.prems rf p pl
        by (subst (asm) read_records.simps) (auto simp: Let_def split: option.splits sum.splits prod.splits)
      have "length (drop (unat n) ?rest) < length bs" using False by simp
      from less.hyps [OF this ok(3)] obtain tail where IH: "ascending (Sequence r0) rs'"
          "drop (unat n) ?rest = encode_records rs' @ tail" "t \<longleftrightarrow> tail \<noteq> []" "length tail < 64 + 65536"
        by blast
      have g: "good_record ?r" using ok(1) inv by (simp add: good_record_def)
      have enc: "encode_record ?r = ?rh @ take (unat n) ?rest"
        using full by (simp add: encode_record_def inv(1) [symmetric] min_def)
      have "bs = (?rh @ take (unat n) ?rest) @ drop (unat n) ?rest"
        by (simp only: append_assoc append_take_drop_id)
      then have "bs = encode_record ?r @ encode_records rs' @ tail"
        by (simp only: enc IH(2))
      then have "bs = encode_records rs @ tail" by (simp add: ok(2))
      then show ?thesis using ok(2) IH g inv by auto
    qed
  qed
qed

section \<open>Whole files\<close>

lemma ReadBWJFile_encoded:
  assumes fh: "good_header fh" and k: "64 \<le> k" "k \<le> 64 + length (encode_records rs)" and a: "ascending 0 rs"
  shows "ReadBWJFile (Inr (take k (encode_header fh @ encode_records rs))) EOF
    = Inr \<lparr>Header = fh, Records = complete (k - 64) rs,
           TruncatedTail = (length (encode_records (complete (k - 64) rs)) \<noteq> k - 64)\<rparr>"
proof -
  have len: "length (encode_header fh) = 64" using fh by (rule length_encode_header)
  have cut: "take k (encode_header fh @ encode_records rs) = encode_header fh @ take (k - 64) (encode_records rs)"
    using k len by simp
  have lay: "encode_header fh = bwjFileMagic @ put16 1 @ put16 64 @ put64 (word_of_int (CreatedTimeNS fh))
      @ RunSessionID fh @ put64 (FileSequence fh) @ replicate 20 0"
    using fh by (simp add: encode_header_def file_header_layout good_header_def)
  have rec: "read_records (take (k - 64) (encode_records rs)) EOF 0
      = Inr (complete (k - 64) rs, length (encode_records (complete (k - 64) rs)) \<noteq> k - 64)"
    using a k by (intro read_cut) auto
  have fields: "go_slice 0 8 (encode_header fh) = bwjFileMagic" "go_slice 8 10 (encode_header fh) = put16 1"
    "go_slice 10 12 (encode_header fh) = put16 64" "go_slice 44 64 (encode_header fh) = replicate 20 0"
    "go_slice 12 20 (encode_header fh) = put64 (word_of_int (CreatedTimeNS fh))"
    "go_slice 20 36 (encode_header fh) = RunSessionID fh" "go_slice 36 44 (encode_header fh) = put64 (FileSequence fh)"
    using fh by (simp_all add: lay go_slice_def good_header_def)
  have rf: "ReadFull 64 (encode_header fh @ take (k - 64) (encode_records rs)) EOF = (encode_header fh, None)"
    by (simp add: ReadFull_def len)
  show ?thesis unfolding cut using fh
    by (simp add: ReadBWJFile_def rf len fields rec good_header_def list_ex_iff)
qed

lemma ReadBWJFile_inv:
  assumes "ReadBWJFile (Inr bs) EOF = Inr res"
  shows "good_header (Header res) \<and> ascending 0 (Records res) \<and>
    (\<exists>tail. bs = encode_header (Header res) @ encode_records (Records res) @ tail
       \<and> (TruncatedTail res \<longleftrightarrow> tail \<noteq> []) \<and> length tail < 64 + 65536)"
proof -
  define h where "h = take 64 bs"
  have len: "64 \<le> length bs"
    using assms by (auto simp: ReadBWJFile_def ReadFull_def split: if_splits)
  then have rf: "ReadFull 64 bs EOF = (h, None)" and lh: "length h = 64"
    by (simp_all add: ReadFull_def h_def)
  have c1: "go_slice 0 8 h = bwjFileMagic"
    and c2: "(get_le (go_slice 8 10 h) :: u16) = 1 \<and> (get_le (go_slice 10 12 h) :: u16) = 64"
    and c3: "\<not> list_ex (\<lambda>b. b \<noteq> 0) (go_slice 44 64 h)"
    using assms unfolding ReadBWJFile_def sum.case rf prod.case option.case
    by (simp_all split: if_split_asm)
  obtain rs t where c4: "read_records (drop 64 bs) EOF 0 = Inr (rs, t)"
    and res: "res = \<lparr>Header = \<lparr>CreatedTimeNS = sint (get_le (go_slice 12 20 h) :: u64),
        RunSessionID = go_slice 20 36 h, FileSequence = get_le (go_slice 36 44 h)\<rparr>,
        Records = rs, TruncatedTail = t\<rparr>"
    using assms c1 c2 c3 unfolding ReadBWJFile_def sum.case rf prod.case option.case
    by (cases "read_records (drop 64 bs) EOF 0") auto
  have lens: "length (go_slice 8 10 h) = 2" "length (go_slice 10 12 h) = 2" "length (go_slice 12 20 h) = 8"
      "length (go_slice 20 36 h) = 16" "length (go_slice 36 44 h) = 8" "length (go_slice 44 64 h) = 20"
    using lh by simp_all
  have ver: "go_slice 8 10 h = put16 1" "go_slice 10 12 h = put16 64"
    using put16_get [OF lens(1)] put16_get [OF lens(2)] c2 by auto
  have zero: "go_slice 44 64 h = replicate 20 0"
    using c3 lens(6) replicate_length_same [of "go_slice 44 64 h" 0]
    by (simp add: list_ex_iff del: length_go_slice)
  have "h = go_slice 0 8 h @ go_slice 8 10 h @ go_slice 10 12 h @ go_slice 12 20 h @ go_slice 20 36 h
      @ go_slice 36 44 h @ go_slice 44 64 h"
    using lh by (simp add: go_slice_glue) (simp add: go_slice_def)
  then have h: "h = encode_header (Header res)"
    using lens c1 ver zero by (simp add: res encode_header_def file_header_layout del: length_go_slice)
  have g: "good_header (Header res)" using lens by (simp add: res good_header_def del: length_go_slice)
  obtain tail where "ascending 0 rs" "drop 64 bs = encode_records rs @ tail"
      "t \<longleftrightarrow> tail \<noteq> []" "length tail < 64 + 65536"
    using read_records_inv [OF c4] by blast
  then show ?thesis using g h by (metis append_take_drop_id append.assoc h_def read_result.select_convs(2,3) res)
qed

end
