(* ===== verification/Bwj_Writer.thy ===== *)
theory Bwj_Writer
  imports Bwj_Reader
begin

text \<open>
  The journal writer \<open>BWJWriter\<close> of \<open>internal/evidence/bwj.go\<close>. Every method holds the writer's
  mutex for its whole body, so concurrent callers amount to some sequence of complete calls, and a
  method is a function of the writer and the host. The byte counters (\<open>int64\<close>) are integers: they
  count bytes that were written to one file; the product of the rotation interval wraps at 64 bits
  as in the code. The two sequence counters are 64-bit words.
\<close>

section \<open>State\<close>

record bwj_writer =
  bwDirectory :: string
  bwRunSessionID :: ID
  bwRotateSize :: int
  bwRotateDuration :: int
  bwFile :: "path option"
  bwFileSequence :: u64
  bwRecordSequence :: u64
  bwCreatedAt :: int
  bwBytesWritten :: int
  bwClosed :: bool
  bwFailed :: "go_error option"

type_synonym bwj_result = "go_error option \<times> bwj_writer \<times> host"

abbreviation (input) "Second \<equiv> (1000000000 :: int)"

definition bwj_name :: "ID \<Rightarrow> u64 \<Rightarrow> string" where
  "bwj_name run seq = ''bwj_'' @ FormatID run @ ''_'' @ pad20 (unat seq) @ ''.bwj''"

section \<open>Opening and rotating files\<close>

definition openNextLocked :: "bwj_writer \<Rightarrow> host \<Rightarrow> bwj_result" where
  "openNextLocked w0 h =
    (let w = w0\<lparr>bwFileSequence := bwFileSequence w0 + 1\<rparr>;
         name = bwj_name (bwRunSessionID w) (bwFileSequence w);
         path = (bwDirectory w, name)
     in case open_excl path h of
          (Some err, h1) \<Rightarrow> (Some (Wrapf ''BWJ_WRITE_FAILED create %s: %w'' [AStr (path_string path)] err), w, h1)
        | (None, h1) \<Rightarrow>
          (case now h1 of (t, h2) \<Rightarrow>
            (case writeFull path h2 (file_header (word_of_int t) (bwRunSessionID w) (bwFileSequence w)) of
               (Some err, h3) \<Rightarrow>
                 (case file_close h3 of (_, h4) \<Rightarrow>
                   (Some (Wrapf ''BWJ_WRITE_FAILED file header: %w'' [] err), w, h4))
             | (None, h3) \<Rightarrow>
                 (case now h3 of (c, h4) \<Rightarrow>
                   (None, w\<lparr>bwFile := Some path, bwRecordSequence := 0, bwCreatedAt := c,
                          bwBytesWritten := int BWJFileHeaderSize\<rparr>, h4)))))"

definition NewBWJWriter ::
  "string \<Rightarrow> ID \<Rightarrow> int \<Rightarrow> int \<Rightarrow> host \<Rightarrow> (go_error + bwj_writer) \<times> host" where
  "NewBWJWriter directory runSessionID rotateSizeBytes rotateSeconds h =
    (case CheckWritable directory h of (Some err, h1) \<Rightarrow> (Inl err, h1)
     | (None, h1) \<Rightarrow>
       let w = \<lparr>bwDirectory = directory, bwRunSessionID = runSessionID, bwRotateSize = rotateSizeBytes,
                bwRotateDuration = sint (word_of_int (rotateSeconds * Second) :: u64), bwFile = None, bwFileSequence = 0,
                bwRecordSequence = 0, bwCreatedAt = 0, bwBytesWritten = 0, bwClosed = False, bwFailed = None\<rparr>
       in case openNextLocked w h1 of (Some err, w', h2) \<Rightarrow> (Inl err, h2) | (None, w', h2) \<Rightarrow> (Inr w', h2))"

definition CurrentFilename :: "bwj_writer \<Rightarrow> string" where
  "CurrentFilename w = (case bwFile w of None \<Rightarrow> '''' | Some path \<Rightarrow> snd path)"

definition failLocked :: "go_error option \<Rightarrow> bwj_writer \<Rightarrow> go_error option \<times> bwj_writer" where
  "failLocked err w = (let w' = (if err \<noteq> None \<and> bwFailed w = None then w\<lparr>bwFailed := err\<rparr> else w)
     in (bwFailed w', w'))"

definition shouldRotateLocked :: "int \<Rightarrow> bwj_writer \<Rightarrow> host \<Rightarrow> bool \<times> host" where
  "shouldRotateLocked next w h =
    (if bwFile w = None then (True, h)
     else if bwRotateSize w > 0 \<and> bwBytesWritten w > int BWJFileHeaderSize
         \<and> bwBytesWritten w + next > bwRotateSize w then (True, h)
     else if bwRotateDuration w > 0
       then (case now h of (t, h') \<Rightarrow> (t - bwCreatedAt w \<ge> bwRotateDuration w, h'))
     else (False, h))"

definition rotateLocked :: "bwj_writer \<Rightarrow> host \<Rightarrow> bwj_result" where
  "rotateLocked w h = (case bwFile w of
      Some path \<Rightarrow>
        (case file_sync h of
           (Some err, h1) \<Rightarrow> (Some (Wrapf ''BWJ_WRITE_FAILED sync before rotation: %w'' [] err), w, h1)
         | (None, h1) \<Rightarrow>
           (case file_close h1 of
              (Some err, h2) \<Rightarrow> (Some (Wrapf ''BWJ_WRITE_FAILED close before rotation: %w'' [] err), w, h2)
            | (None, h2) \<Rightarrow> openNextLocked (w\<lparr>bwFile := None\<rparr>) h2))
    | None \<Rightarrow> openNextLocked w h)"

section \<open>Writing records\<close>

text \<open>The part of \<open>writeRecord\<close> after the rotation: \<open>w.file\<close> is not nil there.\<close>

definition appendRecord ::
  "RecordType \<Rightarrow> Direction \<Rightarrow> byte \<Rightarrow> ID \<Rightarrow> ID \<Rightarrow> byte list \<Rightarrow> path \<Rightarrow> bwj_writer \<Rightarrow> host \<Rightarrow> bwj_result" where
  "appendRecord recordType direction flags connectionID requestID payload path w0 h =
    (let w = w0\<lparr>bwRecordSequence := bwRecordSequence w0 + 1\<rparr> in
     case now h of (t, h1) \<Rightarrow>
     (case writeFull path h1 (record_header recordType direction flags (word_of_int t) (bwRecordSequence w)
             connectionID requestID (length payload)) of
        (Some err, h2) \<Rightarrow>
          (case failLocked (Some (Wrapf ''BWJ_WRITE_FAILED header: %w'' [] err)) w of (r, w') \<Rightarrow> (r, w', h2))
      | (None, h2) \<Rightarrow>
        (case (if payload \<noteq> [] then writeFull path h2 payload else (None, h2)) of
           (Some err, h3) \<Rightarrow>
             (case failLocked (Some (Wrapf ''BWJ_WRITE_FAILED payload: %w'' [] err)) w of (r, w') \<Rightarrow> (r, w', h3))
         | (None, h3) \<Rightarrow>
             (None, w\<lparr>bwBytesWritten := bwBytesWritten w + int (BWJRecordHeaderSize + length payload)\<rparr>, h3))))"

definition writeRecord ::
  "RecordType \<Rightarrow> Direction \<Rightarrow> byte \<Rightarrow> ID \<Rightarrow> ID \<Rightarrow> byte list \<Rightarrow> bwj_writer \<Rightarrow> host \<Rightarrow> bwj_result" where
  "writeRecord recordType direction flags connectionID requestID payload w h =
    (if flags AND reservedFlags \<noteq> 0 then (Some (Errorf ''reserved BWJ flags set'' []), w, h)
     else case validatePayload recordType payload of Some err \<Rightarrow> (Some err, w, h) | None \<Rightarrow>
     if bwClosed w then (Some ErrClosed, w, h)
     else if bwFailed w \<noteq> None then (bwFailed w, w, h)
     else
       case shouldRotateLocked (int (BWJRecordHeaderSize + length payload)) w h of (due, h1) \<Rightarrow>
       (case (if due then rotateLocked w h1 else (None, w, h1)) of
          (Some err, w1, h2) \<Rightarrow> (case failLocked (Some err) w1 of (r, w') \<Rightarrow> (r, w', h2))
        | (None, w1, h2) \<Rightarrow>
          (case bwFile w1 of
             None \<Rightarrow>
               (case failLocked (Some (Wrapf ''BWJ_WRITE_FAILED header: %w'' [] (OsError ''invalid argument'' False)))
                       (w1\<lparr>bwRecordSequence := bwRecordSequence w1 + 1\<rparr>) of (r, w') \<Rightarrow> (r, w', h2))
           | Some path \<Rightarrow> appendRecord recordType direction flags connectionID requestID payload path w1 h2)))"

definition WriteConnectionOpen :: "ID \<Rightarrow> bwj_writer \<Rightarrow> host \<Rightarrow> bwj_result" where
  "WriteConnectionOpen connectionID = writeRecord RecordConnectionOpen DirectionNA 0 connectionID zero_id []"

definition WriteConnectionClose :: "ID \<Rightarrow> CloseReason \<Rightarrow> bwj_writer \<Rightarrow> host \<Rightarrow> bwj_result" where
  "WriteConnectionClose connectionID reason =
     writeRecord RecordConnectionClose DirectionNA 0 connectionID zero_id (put16 (close_code reason))"

definition WriteParserError :: "ID \<Rightarrow> ParserCode \<Rightarrow> u64 \<Rightarrow> bwj_writer \<Rightarrow> host \<Rightarrow> bwj_result" where
  "WriteParserError connectionID code position =
     writeRecord RecordParserError DirectionNA 0 connectionID zero_id (put16 (parser_code code) @ put64 position)"

definition WriteLimit :: "ID \<Rightarrow> LimitCode \<Rightarrow> u64 \<Rightarrow> bwj_writer \<Rightarrow> host \<Rightarrow> bwj_result" where
  "WriteLimit connectionID code observed =
     writeRecord RecordLimitReached DirectionNA FlagLimit connectionID zero_id (put16 (limit_code code) @ put64 observed)"

text \<open>The loop of \<open>WriteData\<close>: records of at most \<^term>\<open>BWJMaxDataPayload\<close> bytes.\<close>

function write_data_loop ::
  "ID \<Rightarrow> ID \<Rightarrow> Direction \<Rightarrow> byte \<Rightarrow> byte list \<Rightarrow> bwj_writer \<Rightarrow> host \<Rightarrow> bwj_result" where
  "write_data_loop connectionID requestID direction flags data w h =
    (if data = [] then (None, w, h)
     else let n = min (length data) BWJMaxDataPayload in
       case writeRecord RecordData direction flags connectionID requestID (take n data) w h of
         (Some err, w', h') \<Rightarrow> (Some err, w', h')
       | (None, w', h') \<Rightarrow> write_data_loop connectionID requestID direction flags (drop n data) w' h')"
  by pat_completeness auto
termination
  by (relation "measure (\<lambda>(c, r, d, f, data, w, h). length data)") auto

declare write_data_loop.simps [simp del]

definition WriteData ::
  "ID \<Rightarrow> ID \<Rightarrow> Direction \<Rightarrow> byte \<Rightarrow> byte list \<Rightarrow> bwj_writer \<Rightarrow> host \<Rightarrow> bwj_result" where
  "WriteData connectionID requestID direction flags data w h =
    (if direction \<noteq> DirectionInbound \<and> direction \<noteq> DirectionOutbound
     then (Some (Errorf ''invalid DATA direction %d'' [AInt (uint direction)]), w, h)
     else write_data_loop connectionID requestID direction flags data w h)"

section \<open>Sync and close\<close>

definition BWJWriter_Sync :: "bwj_writer \<Rightarrow> host \<Rightarrow> bwj_result" where
  "BWJWriter_Sync w h = (if bwFile w = None then (bwFailed w, w, h)
     else case file_sync h of (e, h') \<Rightarrow> (errors_Join [bwFailed w, e], w, h'))"

definition BWJWriter_Close :: "bwj_writer \<Rightarrow> host \<Rightarrow> bwj_result" where
  "BWJWriter_Close w h = (if bwClosed w then (None, w, h)
     else let w1 = w\<lparr>bwClosed := True\<rparr> in
       if bwFile w1 = None then (bwFailed w1, w1, h)
       else case file_sync h of (syncErr, h1) \<Rightarrow>
         (case file_close h1 of (closeErr, h2) \<Rightarrow>
           (errors_Join [bwFailed w1, syncErr, closeErr], w1\<lparr>bwFile := None\<rparr>, h2)))"

end
