(* ===== verification/Bwj_Journal.thy ===== *)
theory Bwj_Journal
  imports Bwj_Writer
begin

text \<open>
  The contract of the journal. \<open>journal_log\<close> is what the reader recovers from the files of a
  run, in file order, without sequence numbers and time stamps; the locale \<open>journal\<close> says what a
  client of the writer relies on: an acknowledged record is in the log, once and at its end; a
  refused record leaves the log as it was or (when the failure came after the last byte) in it
  once; a writer that failed stays failed. The invariant \<open>journal_inv\<close> relates the writer's fields
  to the files, every operation keeps it, and the writer is proved to satisfy the contract.
\<close>

section \<open>Entries and the recovered log\<close>

datatype entry = Entry (eType: RecordType) (eDirection: Direction) (eFlags: byte)
  (eConnection: ID) (eRequest: ID) (ePayload: "byte list")

definition entry_of :: "bwj_record \<Rightarrow> entry" where
  "entry_of r = Entry (rType r) (rDirection r) (rFlags r) (ConnectionID r) (RequestID r) (Payload r)"

definition file_log :: "path \<Rightarrow> host \<Rightarrow> entry list" where
  "file_log p h = (case ReadBWJFile (Inr (content p h)) EOF of Inl _ \<Rightarrow> []
     | Inr res \<Rightarrow> map entry_of (Records res))"

definition bwj_path :: "bwj_writer \<Rightarrow> nat \<Rightarrow> path" where
  "bwj_path w i = (bwDirectory w, bwj_name (bwRunSessionID w) (of_nat (Suc i)))"

definition journal_log :: "bwj_writer \<times> host \<Rightarrow> entry list" where
  "journal_log = (\<lambda>(w, h). concat (map (\<lambda>i. file_log (bwj_path w i) h) [0..<unat (bwFileSequence w)]))"

text \<open>What the callers in \<open>bwj.go\<close> pass to \<open>writeRecord\<close>: 16-byte identifiers, and a direction
  exactly for DATA records.\<close>

definition good_entry :: "entry \<Rightarrow> bool" where
  "good_entry e \<longleftrightarrow> length (eConnection e) = 16 \<and> length (eRequest e) = 16 \<and>
     (if eType e = RecordData then eDirection e = DirectionInbound \<or> eDirection e = DirectionOutbound
      else eDirection e = DirectionNA)"

definition put_entry :: "entry \<Rightarrow> bwj_writer \<times> host \<Rightarrow> go_error option \<times> bwj_writer \<times> host" where
  "put_entry e s = (case s of (w, h) \<Rightarrow>
     writeRecord (eType e) (eDirection e) (eFlags e) (eConnection e) (eRequest e) (ePayload e) w h)"

section \<open>The contract\<close>

fun put_seq :: "('e \<Rightarrow> 's \<Rightarrow> go_error option \<times> 's) \<Rightarrow> 'e list \<Rightarrow> 's \<Rightarrow> go_error option \<times> 's" where
  "put_seq put [] s = (None, s)"
| "put_seq put (e # es) s = (case put e s of (Some err, s') \<Rightarrow> (Some err, s') | (None, s') \<Rightarrow> put_seq put es s')"

locale journal =
  fixes put :: "'e \<Rightarrow> 's \<Rightarrow> go_error option \<times> 's"
    and log :: "'s \<Rightarrow> 'e list"
    and live :: "nat \<Rightarrow> 's \<Rightarrow> bool"
    and stuck :: "'s \<Rightarrow> bool"
    and good :: "'e \<Rightarrow> bool"
  assumes put_ok: "live (Suc n) s \<Longrightarrow> good e \<Longrightarrow> put e s = (None, s') \<Longrightarrow> live n s' \<and> log s' = log s @ [e]"
    and put_err: "live (Suc n) s \<Longrightarrow> good e \<Longrightarrow> put e s = (Some err, s') \<Longrightarrow>
      s' = s \<or> stuck s' \<and> (log s' = log s \<or> log s' = log s @ [e])"
    and put_stuck: "stuck s \<Longrightarrow> \<exists>err. put e s = (Some err, s)"
begin

lemma seq_ok:
  "live (length es + n) s \<Longrightarrow> list_all good es \<Longrightarrow> put_seq put es s = (None, s') \<Longrightarrow>
     live n s' \<and> log s' = log s @ es"
proof (induction es arbitrary: s)
  case (Cons e es)
  then obtain t where t: "put e s = (None, t)" "put_seq put es t = (None, s')"
    by (auto split: prod.splits option.splits)
  with Cons.prems put_ok [of "length es + n" s e t] have "live (length es + n) t" "log t = log s @ [e]" by auto
  with Cons.IH [of t] Cons.prems t show ?case by simp
qed simp

lemma seq_prefix:
  "live (length es + n) s \<Longrightarrow> list_all good es \<Longrightarrow> put_seq put es s = (r, s') \<Longrightarrow>
     \<exists>k \<le> length es. log s' = log s @ take k es \<and> (r = None \<longrightarrow> k = length es)"
proof (induction es arbitrary: s)
  case (Cons e es)
  obtain o1 t where p: "put e s = (o1, t)" by (cases "put e s")
  show ?case
  proof (cases o1)
    case (Some err)
    then have "r = Some err" "s' = t" using Cons.prems p by auto
    moreover have "log t = log s \<or> log t = log s @ [e]"
      using put_err [of "length es + n" s e err t] Cons.prems p Some by auto
    ultimately show ?thesis
      by (auto intro: exI [of _ 0] exI [of _ 1])
  next
    case None
    then have t: "live (length es + n) t" "log t = log s @ [e]"
      using put_ok [of "length es + n" s e t] Cons.prems p by auto
    moreover have "put_seq put es t = (r, s')" using Cons.prems(3) p None by simp
    ultimately obtain k where "k \<le> length es" "log s' = log t @ take k es" "r = None \<longrightarrow> k = length es"
      using Cons.IH [of t] Cons.prems(2) by auto
    then show ?thesis using t by (intro exI [of _ "Suc k"]) auto
  qed
qed simp

lemma seq_stuck: "stuck s \<Longrightarrow> es \<noteq> [] \<Longrightarrow> \<exists>err. put_seq put es s = (Some err, s)"
  using put_stuck [of s "hd es"] by (cases es) auto

end

section \<open>The invariant of the writer\<close>

type_synonym journal_file = "bwj_file_header \<times> bwj_record list"

definition file_bytes :: "journal_file \<Rightarrow> byte list" where
  "file_bytes f = encode_header (fst f) @ encode_records (snd f)"

definition numbered :: "bwj_record list \<Rightarrow> bool" where
  "numbered rs \<longleftrightarrow> (\<forall>i < length rs. Sequence (rs ! i) = of_nat (Suc i))"

definition good_file :: "ID \<Rightarrow> nat \<Rightarrow> journal_file \<Rightarrow> bool" where
  "good_file run i f \<longleftrightarrow> good_header (fst f) \<and> RunSessionID (fst f) = run
     \<and> FileSequence (fst f) = of_nat (Suc i) \<and> ascending 0 (snd f) \<and> numbered (snd f)"

definition journal_files :: "bwj_writer \<Rightarrow> host \<Rightarrow> journal_file list \<Rightarrow> bool" where
  "journal_files w h J \<longleftrightarrow> (\<forall>i < length J. good_file (bwRunSessionID w) i (J ! i)
      \<and> exists_file (bwj_path w i) h \<and> content (bwj_path w i) h = file_bytes (J ! i))
    \<and> (\<forall>i. length J \<le> i \<and> i < 2 ^ 64 - 1 \<longrightarrow> \<not> exists_file (bwj_path w i) h)"

definition journal_inv :: "bwj_writer \<Rightarrow> host \<Rightarrow> journal_file list \<Rightarrow> bool" where
  "journal_inv w h J \<longleftrightarrow> length (bwRunSessionID w) = 16 \<and> J \<noteq> []
     \<and> length J < 2 ^ 64 \<and> bwFileSequence w = of_nat (length J)
     \<and> length (snd (last J)) < 2 ^ 64 \<and> bwRecordSequence w = of_nat (length (snd (last J)))
     \<and> bwFile w = Some (bwj_path w (length J - 1))
     \<and> bwBytesWritten w = int (length (file_bytes (last J)))
     \<and> \<not> bwClosed w \<and> bwFailed w = None \<and> journal_files w h J"

text \<open>Room for \<open>n\<close> more records before a 64-bit counter would wrap.\<close>

definition room :: "nat \<Rightarrow> bwj_writer \<Rightarrow> bool" where
  "room n w \<longleftrightarrow> unat (bwFileSequence w) + n < 2 ^ 64 \<and> unat (bwRecordSequence w) + n < 2 ^ 64"

definition bwj_live :: "nat \<Rightarrow> bwj_writer \<times> host \<Rightarrow> bool" where
  "bwj_live n s \<longleftrightarrow> (\<exists>J. journal_inv (fst s) (snd s) J) \<and> room n (fst s)"

definition bwj_stuck :: "bwj_writer \<times> host \<Rightarrow> bool" where
  "bwj_stuck s \<longleftrightarrow> bwClosed (fst s) \<or> bwFailed (fst s) \<noteq> None"

section \<open>File names\<close>

lemma FormatID_hex:
  "length i = 16 \<Longrightarrow> filter (\<lambda>c. c \<noteq> CHR ''-'') (FormatID i) = hex_encode i"
proof -
  assume i: "length i = 16"
  have f: "filter (\<lambda>c. c \<noteq> CHR ''-'') (go_slice a b (hex_encode i)) = go_slice a b (hex_encode i)" for a b
    using hex_encode_no_dash [of i] by (intro filter_True) (auto simp: go_slice_def dest!: in_set_takeD in_set_dropD)
  have "go_slice 0 32 (hex_encode i) = hex_encode i" using i by (simp add: go_slice_def)
  then show ?thesis by (simp add: FormatID_def Let_def f go_slice_glue)
qed

lemma ParseID_FormatID: "length i = 16 \<Longrightarrow> ParseID (FormatID i) = Inr i"
  by (simp add: ParseID_def FormatID_hex)

lemma FormatID_inj: "length i = 16 \<Longrightarrow> length j = 16 \<Longrightarrow> FormatID i = FormatID j \<longleftrightarrow> i = j"
  by (metis ParseID_FormatID sum.inject(2))

lemma length_FormatID: "length i = 16 \<Longrightarrow> length (FormatID i) = 36"
  by (simp add: FormatID_def Let_def)

lemma bwj_name_inj: "bwj_name run s = bwj_name run t \<longleftrightarrow> s = t"
  by (auto simp: bwj_name_def word_unat_eq_iff dest: pad20_inj)

lemma bwj_path_inj: "i < 2 ^ 64 - 1 \<Longrightarrow> j < 2 ^ 64 - 1 \<Longrightarrow> bwj_path w i = bwj_path w j \<longleftrightarrow> i = j"
proof -
  assume "i < 2 ^ 64 - 1" "j < 2 ^ 64 - 1"
  then have "unat (of_nat (Suc i) :: u64) = Suc i" "unat (of_nat (Suc j) :: u64) = Suc j"
    by (simp_all add: unat_of_nat del: of_nat_Suc)
  then have "(of_nat (Suc i) :: u64) = of_nat (Suc j) \<longleftrightarrow> i = j" by (metis nat.inject)
  then show ?thesis by (simp add: bwj_path_def bwj_name_inj del: of_nat_Suc)
qed

lemma bwj_path_cong:
  "bwDirectory w' = bwDirectory w \<Longrightarrow> bwRunSessionID w' = bwRunSessionID w \<Longrightarrow> bwj_path w' = bwj_path w"
  by (simp add: bwj_path_def fun_eq_iff)

lemma journal_filesD:
  "journal_files w h J \<Longrightarrow> i < length J \<Longrightarrow> good_file (bwRunSessionID w) i (J ! i)
     \<and> exists_file (bwj_path w i) h \<and> content (bwj_path w i) h = file_bytes (J ! i)"
  by (simp add: journal_files_def)

lemma journal_files_cong:
  "bwDirectory w' = bwDirectory w \<Longrightarrow> bwRunSessionID w' = bwRunSessionID w \<Longrightarrow> files h' = files h \<Longrightarrow>
     journal_files w' h' J = journal_files w h J"
  by (simp add: journal_files_def bwj_path_cong [of w' w] same_files [of h' h])

section \<open>What the reader recovers\<close>

definition Jlog :: "journal_file list \<Rightarrow> entry list" where
  "Jlog J = concat (map (\<lambda>f. map entry_of (snd f)) J)"

lemma complete_append:
  "complete (length (encode_records rs) + k) (rs @ ss) = rs @ complete k ss"
  by (induction rs) simp_all

lemma file_log_cut:
  assumes f: "good_header fh" "ascending 0 (rs @ ss)" and k: "k \<le> length (encode_records ss)"
    and c: "content p h = encode_header fh @ encode_records rs @ take k (encode_records ss)"
  shows "file_log p h = map entry_of (rs @ complete k ss)"
proof -
  let ?n = "64 + length (encode_records rs) + k"
  have "content p h = take ?n (encode_header fh @ encode_records (rs @ ss))"
    by (simp add: c length_encode_header [OF f(1)])
  then show ?thesis
    using ReadBWJFile_encoded [of fh ?n "rs @ ss"] f k by (simp add: file_log_def complete_append)
qed

lemma file_log_file: "good_file run i f \<Longrightarrow> content p h = file_bytes f \<Longrightarrow> file_log p h = map entry_of (snd f)"
  using file_log_cut [of "fst f" "snd f" "[]" 0 p h] by (simp add: good_file_def file_bytes_def)

lemma file_log_absent: "\<not> exists_file p h \<Longrightarrow> file_log p h = []"
  by (simp add: file_log_def absent_content ReadBWJFile_def ReadFull_def)

lemma file_log_torn_header:
  assumes "good_header fh" "content p h = take k (encode_header fh)"
  shows "file_log p h = []"
proof (cases "k < 64")
  case True
  then show ?thesis using assms length_encode_header [of fh]
    by (simp add: file_log_def ReadBWJFile_def ReadFull_def)
next
  case False
  then show ?thesis using assms length_encode_header [of fh] file_log_cut [of fh "[]" "[]" 0 p h] by simp
qed

lemma journal_log_files:
  assumes "journal_files w h J" "length J < 2 ^ 64" "bwFileSequence w = of_nat (length J)"
  shows "journal_log (w, h) = Jlog J"
proof -
  have u: "unat (bwFileSequence w) = length J" using assms by (simp add: unat_of_nat)
  have "map (\<lambda>i. file_log (bwj_path w i) h) [0..<length J] = map (\<lambda>i. map entry_of (snd (J ! i))) [0..<length J]"
    using assms(1) by (auto simp: journal_files_def intro!: file_log_file)
  also have "\<dots> = map (\<lambda>f. map entry_of (snd f)) J" by (rule nth_equalityI) simp_all
  finally show ?thesis by (simp add: journal_log_def u Jlog_def)
qed

text \<open>The log when a last file, not in \<open>J\<close>, is on disk in some state.\<close>

lemma journal_log_last:
  assumes "\<And>i. i < length J \<Longrightarrow> file_log (bwj_path w i) h = map entry_of (snd (J ! i))"
    and "file_log (bwj_path w (length J)) h = es" "Suc (length J) < 2 ^ 64" "bwFileSequence w = of_nat (Suc (length J))"
  shows "journal_log (w, h) = Jlog J @ es"
proof -
  have u: "unat (bwFileSequence w) = Suc (length J)" using assms by (simp add: unat_of_nat del: of_nat_Suc)
  have "map (\<lambda>i. file_log (bwj_path w i) h) [0..<length J] = map (\<lambda>i. map entry_of (snd (J ! i))) [0..<length J]"
    using assms(1) by simp
  also have "\<dots> = map (\<lambda>f. map entry_of (snd f)) J" by (rule nth_equalityI) simp_all
  finally show ?thesis using assms(2) by (simp add: journal_log_def u Jlog_def)
qed

section \<open>Opening the next file\<close>

definition journal_base :: "bwj_writer \<Rightarrow> host \<Rightarrow> journal_file list \<Rightarrow> bool" where
  "journal_base w h J \<longleftrightarrow> length (bwRunSessionID w) = 16 \<and> Suc (length J) < 2 ^ 64
     \<and> bwFileSequence w = of_nat (length J) \<and> \<not> bwClosed w \<and> bwFailed w = None \<and> journal_files w h J"

lemma openNext_disk:
  assumes run: "length (bwRunSessionID w) = 16" and op: "openNextLocked w h = (r, w', h')"
    and p: "p = (bwDirectory w, bwj_name (bwRunSessionID w) (bwFileSequence w + 1))"
  obtains fh k c where "good_header fh" "RunSessionID fh = bwRunSessionID w" "FileSequence fh = bwFileSequence w + 1"
    "disk_step p (take k (encode_header fh)) c h h'"
    "r \<noteq> None \<Longrightarrow> w' = w\<lparr>bwFileSequence := bwFileSequence w + 1\<rparr>"
    "r = None \<Longrightarrow> c \<and> 64 \<le> k \<and> (\<exists>t. w' = w\<lparr>bwFileSequence := bwFileSequence w + 1, bwFile := Some p,
        bwRecordSequence := 0, bwCreatedAt := t, bwBytesWritten := 64\<rparr>)"
proof -
  obtain e h1 where o1: "open_excl p h = (e, h1)" by (cases "open_excl p h")
  obtain t h2 where n1: "now h1 = (t, h2)" by (cases "now h1")
  define fh where "fh = \<lparr>CreatedTimeNS = sint (word_of_int t :: u64), RunSessionID = bwRunSessionID w,
      FileSequence = bwFileSequence w + 1\<rparr>"
  have fh: "good_header fh" "RunSessionID fh = bwRunSessionID w" "FileSequence fh = bwFileSequence w + 1"
    using run by (simp_all add: fh_def good_header_def)
  have hdr: "file_header (word_of_int t) (bwRunSessionID w) (bwFileSequence w + 1) = encode_header fh"
    by (simp add: fh_def encode_header_def)
  obtain e2 h3 where wf: "writeFull p h2 (encode_header fh) = (e2, h3)" by (cases "writeFull p h2 (encode_header fh)")
  obtain e4 h4 where fc: "file_close h3 = (e4, h4)" by (cases "file_close h3")
  obtain c4 h5 where n3: "now h3 = (c4, h5)" by (cases "now h3")
  note steps = op [unfolded openNextLocked_def Let_def, simplified, folded p, unfolded o1 prod.case]
  show thesis
  proof (cases e)
    case (Some err)
    then have "r \<noteq> None" "w' = w\<lparr>bwFileSequence := bwFileSequence w + 1\<rparr>" "h' = h1" using steps by auto
    moreover have d0: "disk_step p (take 0 (encode_header fh)) False h h1"
      using o1 Some open_excl_fail [of p h err h1] same_files [of h1 h] by (simp add: disk_step_def)
    ultimately show thesis using that [OF fh, of 0 False] by auto
  next
    case None
    have f2: "files h2 = files h1" using now_frame [of h1] n1 by simp
    have d2: "disk_step p [] True h h2" using open_excl_disk [of p h h1] o1 None disk_step_files f2 by blast
    then obtain k where k: "k \<le> length (encode_header fh)" "disk_step p (take k (encode_header fh)) False h2 h3"
        "e2 = None \<longrightarrow> k = length (encode_header fh)"
      using writeFull_disk [OF _ wf] disk_stepD(3) [OF d2, of p] by blast
    have d3: "disk_step p (take k (encode_header fh)) True h h3"
      using disk_step_trans [OF d2 k(2)] by simp
    have "files h4 = files h3" "files h5 = files h3"
      using file_close_frame [of h3] fc now_frame [of h3] n3 by simp_all
    then have d45: "disk_step p (take k (encode_header fh)) True h h4" "disk_step p (take k (encode_header fh)) True h h5"
      using d3 disk_step_files by blast+
    show thesis
    proof (cases e2)
      case (Some err)
      then show thesis using steps None n1 hdr wf fc d45(1) that [OF fh, of k True] by (auto simp: p [symmetric])
    next
      case n: None
      then show thesis using steps None n1 hdr wf n3 k(3) length_encode_header [OF fh(1)] d45(2) that [OF fh, of k True] by (auto simp: p [symmetric])
    qed
  qed
qed

lemma journal_files_extend:
  assumes jf: "journal_files w h J" and len: "Suc (length J) < 2 ^ 64"
    and cong: "bwDirectory w' = bwDirectory w" "bwRunSessionID w' = bwRunSessionID w"
    and d: "disk_step (bwj_path w (length J)) (file_bytes f) True h h'"
    and f: "good_file (bwRunSessionID w) (length J) f"
  shows "journal_files w' h' (J @ [f])"
proof -
  have other: "bwj_path w i \<noteq> bwj_path w (length J)" if "i < 2 ^ 64 - 1" "i \<noteq> length J" for i
    using that len bwj_path_inj [of i "length J" w] by simp
  have "\<not> exists_file (bwj_path w (length J)) h" using jf len by (simp add: journal_files_def)
  then have new: "content (bwj_path w (length J)) h' = file_bytes f" "exists_file (bwj_path w (length J)) h'"
    using disk_stepD [OF d] by (simp_all add: absent_content)
  have old: "content (bwj_path w i) h' = content (bwj_path w i) h"
      "exists_file (bwj_path w i) h' = exists_file (bwj_path w i) h" if "i < 2 ^ 64 - 1" "i \<noteq> length J" for i
    using disk_stepD [OF d] other [OF that] by simp_all
  show ?thesis unfolding journal_files_def bwj_path_cong [OF cong] cong(2)
    using jf new old len f by (auto simp: journal_files_def nth_append less_Suc_eq)
qed

lemma openNext_effect:
  assumes base: "journal_base w h J" and op: "openNextLocked w h = (r, w', h')"
  shows "(case r of None \<Rightarrow> \<exists>fh. journal_inv w' h' (J @ [(fh, [])])
      | Some err \<Rightarrow> w' = w\<lparr>bwFileSequence := bwFileSequence w + 1\<rparr> \<and> journal_log (w', h') = Jlog J)"
proof -
  let ?p = "bwj_path w (length J)"
  have seq: "bwFileSequence w + 1 = of_nat (Suc (length J))" and len: "Suc (length J) < 2 ^ 64"
    and run: "length (bwRunSessionID w) = 16" and jf: "journal_files w h J"
    using base by (simp_all add: journal_base_def)
  have p: "?p = (bwDirectory w, bwj_name (bwRunSessionID w) (bwFileSequence w + 1))" unfolding seq by (simp add: bwj_path_def)
  obtain fh k c where fh: "good_header fh" "RunSessionID fh = bwRunSessionID w" "FileSequence fh = bwFileSequence w + 1"
    and d: "disk_step ?p (take k (encode_header fh)) c h h'"
    and err: "r \<noteq> None \<Longrightarrow> w' = w\<lparr>bwFileSequence := bwFileSequence w + 1\<rparr>"
    and ok: "r = None \<Longrightarrow> c \<and> 64 \<le> k \<and> (\<exists>t. w' = w\<lparr>bwFileSequence := bwFileSequence w + 1, bwFile := Some ?p,
        bwRecordSequence := 0, bwCreatedAt := t, bwBytesWritten := 64\<rparr>)"
    using openNext_disk [OF run op p] by metis
  have absent: "content ?p h = []" using jf len by (simp add: journal_files_def absent_content)
  show ?thesis
  proof (cases r)
    case None
    with ok obtain t where c: "c" "64 \<le> k" and w': "w' = w\<lparr>bwFileSequence := bwFileSequence w + 1, bwFile := Some ?p,
        bwRecordSequence := 0, bwCreatedAt := t, bwBytesWritten := 64\<rparr>" by auto
    have "disk_step ?p (file_bytes (fh, [])) True h h'"
      using d c length_encode_header [OF fh(1)] by (simp add: file_bytes_def)
    moreover have "good_file (bwRunSessionID w) (length J) (fh, [])"
      using fh by (simp add: good_file_def numbered_def seq)
    ultimately have "journal_files w' h' (J @ [(fh, [])])"
      using jf len by (intro journal_files_extend [of w h J w']) (simp_all add: w')
    then have "journal_inv w' h' (J @ [(fh, [])])"
      using base fh len run length_encode_header [OF fh(1)]
      by (simp add: journal_inv_def journal_base_def file_bytes_def seq bwj_path_def w' add.commute)
    then show ?thesis using None by auto
  next
    case (Some err)
    have old: "bwj_path w i \<noteq> ?p" if "i < length J" for i using that len bwj_path_inj [of i "length J" w] by simp
    have "file_log (bwj_path w i) h' = map entry_of (snd (J ! i))" if "i < length J" for i
      using jf that disk_stepD(2) [OF d old [OF that]]
      by (intro file_log_file [where run = "bwRunSessionID w" and i = i]) (auto simp: journal_files_def)
    moreover have "file_log ?p h' = []" using fh absent disk_stepD(1) [OF d] by (intro file_log_torn_header) auto
    ultimately have "journal_log (w\<lparr>bwFileSequence := bwFileSequence w + 1\<rparr>, h') = Jlog J @ []"
      using len seq bwj_path_cong [of "w\<lparr>bwFileSequence := bwFileSequence w + 1\<rparr>" w] by (intro journal_log_last) simp_all
    then show ?thesis using err Some by simp
  qed
qed

section \<open>Rotating\<close>

lemma rotate_effect:
  assumes inv: "journal_inv w h J" and len: "Suc (length J) < 2 ^ 64" and op: "rotateLocked w h = (r, w', h')"
  shows "(case r of None \<Rightarrow> \<exists>fh. journal_inv w' h' (J @ [(fh, [])])
      | Some err \<Rightarrow> bwFailed w' = None \<and> journal_log (w', h') = Jlog J)"
proof -
  have jf: "journal_files w h J" and seq: "bwFileSequence w = of_nat (length J)" and len0: "length J < 2 ^ 64"
    and clean: "bwFailed w = None" "\<not> bwClosed w" and run: "length (bwRunSessionID w) = 16"
    and f: "bwFile w = Some (bwj_path w (length J - 1))" using inv by (simp_all add: journal_inv_def)
  have keep: "journal_log (w, g) = Jlog J" if "files g = files h" for g
    using journal_files_cong [of w w g h J] that jf len0 seq by (intro journal_log_files) simp_all
  obtain e1 h1 where s1: "file_sync h = (e1, h1)" by (cases "file_sync h")
  obtain e2 h2 where s2: "file_close h1 = (e2, h2)" by (cases "file_close h1")
  have fs: "files h1 = files h" "files h2 = files h"
    using file_sync_frame [of h] file_close_frame [of h1] s1 s2 by simp_all
  show ?thesis
  proof (cases "e1 = None \<and> e2 = None")
    case True
    have "journal_base (w\<lparr>bwFile := None\<rparr>) h2 J"
      using clean len run seq jf fs journal_files_cong [of "w\<lparr>bwFile := None\<rparr>" w h2 h J]
      by (simp add: journal_base_def)
    moreover have "openNextLocked (w\<lparr>bwFile := None\<rparr>) h2 = (r, w', h')"
      using op f s1 s2 True by (simp add: rotateLocked_def)
    ultimately show ?thesis using openNext_effect clean by (fastforce split: option.splits)
  next
    case False
    then have "r \<noteq> None" "w' = w" "h' = h1 \<or> h' = h2"
      using op f s1 s2 by (auto simp: rotateLocked_def split: option.splits)
    then show ?thesis using keep fs clean by auto
  qed
qed

section \<open>Appending a record\<close>

definition new_record :: "entry \<Rightarrow> u64 \<Rightarrow> int \<Rightarrow> bwj_record" where
  "new_record e seq t = \<lparr>rType = eType e, rDirection = eDirection e, rFlags = eFlags e,
     TimestampNS = sint (word_of_int t :: u64), Sequence = seq, ConnectionID = eConnection e,
     RequestID = eRequest e, Payload = ePayload e\<rparr>"

lemma entry_of_new_record [simp]: "entry_of (new_record e s t) = e"
  by (cases e) (simp add: entry_of_def new_record_def)

definition acceptable :: "entry \<Rightarrow> bool" where
  "acceptable e \<longleftrightarrow> eFlags e AND 0xf0 = 0 \<and> validatePayload (eType e) (ePayload e) = None"

lemma good_new_record: "good_entry e \<Longrightarrow> acceptable e \<Longrightarrow> good_record (new_record e s t)"
  by (auto simp: good_record_def new_record_def good_entry_def acceptable_def check_record_def split: if_splits)

lemma append_disk:
  assumes ids: "length (eConnection e) = 16" "length (eRequest e) = 16" and ex: "exists_file p h"
    and clean: "bwFailed w = None"
    and op: "appendRecord (eType e) (eDirection e) (eFlags e) (eConnection e) (eRequest e) (ePayload e) p w h = (r, w', h')"
  obtains t k where "k \<le> length (encode_record (new_record e (bwRecordSequence w + 1) t))"
    "disk_step p (take k (encode_record (new_record e (bwRecordSequence w + 1) t))) False h h'"
    "r \<noteq> None \<Longrightarrow> bwFailed w' \<noteq> None \<and> w' = w\<lparr>bwRecordSequence := bwRecordSequence w + 1, bwFailed := bwFailed w'\<rparr>"
    "r = None \<Longrightarrow> k = length (encode_record (new_record e (bwRecordSequence w + 1) t)) \<and>
       w' = w\<lparr>bwRecordSequence := bwRecordSequence w + 1,
              bwBytesWritten := bwBytesWritten w + int (64 + length (ePayload e))\<rparr>"
proof -
  note goal = that
  obtain t h1 where n1: "now h = (t, h1)" by (cases "now h")
  define hd where "hd = record_header (eType e) (eDirection e) (eFlags e) (word_of_int t) (bwRecordSequence w + 1)
      (eConnection e) (eRequest e) (length (ePayload e))"
  have enc: "encode_record (new_record e (bwRecordSequence w + 1) t) = hd @ ePayload e"
    by (simp add: encode_record_def new_record_def hd_def)
  have f1: "files h1 = files h" using now_frame [of h] n1 by simp
  have ex1: "exists_file p h1" using ex same_files [OF f1] by simp
  have d1: "disk_step p [] False h h1" using same_files [OF f1] by (simp add: disk_step_def)
  obtain e2 h2 where wf: "writeFull p h1 hd = (e2, h2)" by (cases "writeFull p h1 hd")
  obtain k where k: "k \<le> length hd" "disk_step p (take k hd) False h1 h2" "e2 = None \<longrightarrow> k = length hd"
    using writeFull_disk [OF ex1 wf] .
  have d2: "disk_step p (take k hd) False h h2" using disk_step_trans [OF d1 k(2)] by simp
  have fin: thesis
    if "k' \<le> length (hd @ ePayload e)" "disk_step p (take k' (hd @ ePayload e)) False h h'"
      "r \<noteq> None \<Longrightarrow> bwFailed w' \<noteq> None \<and> w' = w\<lparr>bwRecordSequence := bwRecordSequence w + 1, bwFailed := bwFailed w'\<rparr>"
      "r = None \<Longrightarrow> k' = length (hd @ ePayload e) \<and>
         w' = w\<lparr>bwRecordSequence := bwRecordSequence w + 1,
                bwBytesWritten := bwBytesWritten w + int (64 + length (ePayload e))\<rparr>" for k'
    using that by (intro goal [of k' t, unfolded enc]) blast+
  show thesis
  proof (cases e2)
    case (Some err)
    then have "h' = h2" "r \<noteq> None" "bwFailed w' \<noteq> None \<and> w' = w\<lparr>bwRecordSequence := bwRecordSequence w + 1, bwFailed := bwFailed w'\<rparr>"
      using op n1 wf clean by (auto simp: appendRecord_def Let_def hd_def failLocked_def)
    then show thesis using d2 k(1) by (intro fin [of k]) auto
  next
    case None
    have ex2: "exists_file p h2" using ex disk_stepD(3) [OF d2] by simp
    obtain e3 h3 where wp: "(if ePayload e \<noteq> [] then writeFull p h2 (ePayload e) else (None, h2)) = (e3, h3)"
      by (cases "if ePayload e \<noteq> [] then writeFull p h2 (ePayload e) else (None, h2)")
    obtain m where m: "m \<le> length (ePayload e)" "disk_step p (take m (ePayload e)) False h2 h3"
        "e3 = None \<longrightarrow> m = length (ePayload e)"
    proof (cases "ePayload e = []")
      case True
      then show thesis using wp that [of 0] by (simp add: disk_step_def)
    next
      case False
      then show thesis using wp writeFull_disk [OF ex2, of "ePayload e" e3 h3] that by (auto split: if_splits)
    qed
    have d3: "disk_step p (take (length hd + m) (hd @ ePayload e)) False h h3"
      using disk_step_trans [OF d2 m(2)] k(3) None by simp
    have "h' = h3" and "e3 = None \<Longrightarrow> r = None \<and> w' = w\<lparr>bwRecordSequence := bwRecordSequence w + 1,
                bwBytesWritten := bwBytesWritten w + int (64 + length (ePayload e))\<rparr>"
      and "e3 \<noteq> None \<Longrightarrow> r \<noteq> None \<and> bwFailed w' \<noteq> None \<and> w' = w\<lparr>bwRecordSequence := bwRecordSequence w + 1, bwFailed := bwFailed w'\<rparr>"
      using op n1 wf wp clean None by (auto simp: appendRecord_def Let_def hd_def failLocked_def split: option.splits)
    then show thesis using d3 m by (intro fin [of "length hd + m"]) auto
  qed
qed

lemma ascending_snoc:
  "ascending lst (rs @ [r]) \<longleftrightarrow> ascending lst rs \<and> good_record r
     \<and> (if rs = [] then lst else Sequence (last rs)) < Sequence r"
  by (induction rs arbitrary: lst) auto

lemma word_less_Suc: "Suc n < 2 ^ 64 \<Longrightarrow> (of_nat n :: u64) < of_nat (Suc n)"
  by (simp add: word_less_nat_alt unat_of_nat del: of_nat_Suc)

lemma good_file_snoc:
  assumes f: "good_file run i (fh, rs)" and r: "good_record r" "Sequence r = of_nat (Suc (length rs))"
    and len: "Suc (length rs) < 2 ^ 64"
  shows "good_file run i (fh, rs @ [r])"
proof -
  have n: "numbered rs" and a: "ascending 0 rs" using f by (simp_all add: good_file_def)
  have "Sequence (last rs) = of_nat (length rs)" if "rs \<noteq> []"
    using n that by (cases "length rs") (auto simp: last_conv_nth numbered_def)
  moreover have "(of_nat (length rs) :: u64) < Sequence r" using len word_less_Suc r(2) by metis
  ultimately have "ascending 0 (rs @ [r])" using a r(1) by (auto simp: ascending_snoc)
  moreover have "numbered (rs @ [r])" using n r(2) by (auto simp: numbered_def nth_append less_Suc_eq)
  ultimately show ?thesis using f by (simp add: good_file_def)
qed

lemma Jlog_snoc: "Jlog (K @ [(fh, rs)]) = Jlog K @ map entry_of rs"
  by (simp add: Jlog_def)

lemma journal_files_snoc:
  assumes jf: "journal_files w h (K @ [(fh, rs)])" and len: "Suc (length K) < 2 ^ 64"
    and cong: "bwDirectory w' = bwDirectory w" "bwRunSessionID w' = bwRunSessionID w"
    and d: "disk_step (bwj_path w (length K)) (encode_record r) False h h'"
    and f: "good_file (bwRunSessionID w) (length K) (fh, rs @ [r])"
  shows "journal_files w' h' (K @ [(fh, rs @ [r])])"
proof -
  let ?p = "bwj_path w (length K)"
  have old: "bwj_path w i \<noteq> ?p" if "i < 2 ^ 64 - 1" "i \<noteq> length K" for i
    using that len bwj_path_inj [of i "length K" w] by simp
  have cur: "content ?p h = file_bytes (fh, rs)" "exists_file ?p h" using jf by (auto simp: journal_files_def nth_append)
  have new: "content ?p h' = file_bytes (fh, rs @ [r])" "exists_file ?p h'"
    using disk_stepD [OF d] cur by (simp_all add: file_bytes_def)
  have same: "content (bwj_path w i) h' = content (bwj_path w i) h"
      "exists_file (bwj_path w i) h' = exists_file (bwj_path w i) h" if "i < 2 ^ 64 - 1" "i \<noteq> length K" for i
    using disk_stepD [OF d] old [OF that] by simp_all
  show ?thesis unfolding journal_files_def bwj_path_cong [OF cong] cong(2)
    using jf new same len f by (auto simp: journal_files_def nth_append less_Suc_eq)
qed

lemma append_effect:
  assumes inv: "journal_inv w h J" and len: "Suc (length (snd (last J))) < 2 ^ 64"
    and e: "good_entry e" "acceptable e"
    and op: "appendRecord (eType e) (eDirection e) (eFlags e) (eConnection e) (eRequest e) (ePayload e)
      (bwj_path w (length J - 1)) w h = (r, w', h')"
  shows "(case r of
      None \<Rightarrow> bwFileSequence w' = bwFileSequence w \<and> bwRecordSequence w' = bwRecordSequence w + 1
        \<and> (\<exists>J'. journal_inv w' h' J' \<and> Jlog J' = Jlog J @ [e])
    | Some err \<Rightarrow> bwFailed w' \<noteq> None \<and> (journal_log (w', h') = Jlog J \<or> journal_log (w', h') = Jlog J @ [e]))"
proof -
  obtain K fh rs where J: "J = K @ [(fh, rs)]" using inv by (metis append_butlast_last_id journal_inv_def surj_pair)
  let ?p = "bwj_path w (length K)"
  have jf: "journal_files w h (K @ [(fh, rs)])" and lenK: "Suc (length K) < 2 ^ 64"
    and seq: "bwFileSequence w = of_nat (Suc (length K))" "bwRecordSequence w + 1 = of_nat (Suc (length rs))"
    and clean: "bwFailed w = None" using inv by (simp_all add: journal_inv_def J)
  have ids: "length (eConnection e) = 16" "length (eRequest e) = 16" using e(1) by (simp_all add: good_entry_def)
  have cur: "content ?p h = file_bytes (fh, rs)" "exists_file ?p h" "good_file (bwRunSessionID w) (length K) (fh, rs)"
    using jf by (auto simp: journal_files_def nth_append)
  have op': "appendRecord (eType e) (eDirection e) (eFlags e) (eConnection e) (eRequest e) (ePayload e) ?p w h = (r, w', h')"
    using op by (simp add: J)
  obtain t k where k: "k \<le> length (encode_record (new_record e (bwRecordSequence w + 1) t))"
    and d: "disk_step ?p (take k (encode_record (new_record e (bwRecordSequence w + 1) t))) False h h'"
    and err: "r \<noteq> None \<Longrightarrow> bwFailed w' \<noteq> None \<and> w' = w\<lparr>bwRecordSequence := bwRecordSequence w + 1, bwFailed := bwFailed w'\<rparr>"
    and ok: "r = None \<Longrightarrow> k = length (encode_record (new_record e (bwRecordSequence w + 1) t)) \<and>
       w' = w\<lparr>bwRecordSequence := bwRecordSequence w + 1, bwBytesWritten := bwBytesWritten w + int (64 + length (ePayload e))\<rparr>"
    using append_disk [OF ids cur(2) clean op'] by metis
  define rc where "rc = new_record e (bwRecordSequence w + 1) t"
  have g: "good_record rc" by (simp add: rc_def good_new_record [OF e])
  have pl: "Payload rc = ePayload e" "Sequence rc = bwRecordSequence w + 1" by (simp_all add: rc_def new_record_def)
  have en: "entry_of rc = e" by (simp add: rc_def)
  have rc: "good_record rc" "Sequence rc = of_nat (Suc (length rs))" "entry_of rc = e" "length (encode_record rc) = 64 + length (ePayload e)"
    by (fact g, simp only: pl(2) seq(2), fact en, simp only: length_encode_record [OF g] pl(1))
  have gf: "good_file (bwRunSessionID w) (length K) (fh, rs @ [rc])"
    using good_file_snoc [OF cur(3) rc(1,2)] len by (simp add: J)
  show ?thesis
  proof (cases r)
    case None
    with ok have kk: "k = length (encode_record rc)" and w': "w' = w\<lparr>bwRecordSequence := bwRecordSequence w + 1,
        bwBytesWritten := bwBytesWritten w + int (64 + length (ePayload e))\<rparr>" by (simp_all add: rc_def)
    have "journal_files w' h' (K @ [(fh, rs @ [rc])])"
      using d kk gf lenK by (intro journal_files_snoc [OF jf]) (simp_all add: w' rc_def)
    then have "journal_inv w' h' (K @ [(fh, rs @ [rc])])"
      using inv len rc(4) bwj_path_cong [of w' w] by (simp add: journal_inv_def J file_bytes_def w' add.commute)
    moreover have "Jlog (K @ [(fh, rs @ [rc])]) = Jlog J @ [e]" by (simp add: J Jlog_snoc rc(3))
    ultimately show ?thesis using None by (auto simp: w')
  next
    case (Some x)
    have w': "bwDirectory w' = bwDirectory w" "bwRunSessionID w' = bwRunSessionID w" "bwFileSequence w' = bwFileSequence w"
      using err Some by (metis bwj_writer.surjective bwj_writer.select_convs bwj_writer.update_convs option.distinct(1))+
    have "content ?p h' = encode_header fh @ encode_records rs @ take k (encode_records [rc])"
      using disk_stepD(1) [OF d] cur(1) by (simp add: file_bytes_def rc_def)
    then have tail: "file_log ?p h' = map entry_of (rs @ complete k [rc])"
      using gf k by (intro file_log_cut) (simp_all add: good_file_def rc_def)
    have "file_log (bwj_path w i) h' = map entry_of (snd (K ! i))" if "i < length K" for i
    proof -
      have "bwj_path w i \<noteq> ?p" using that lenK bwj_path_inj [of i "length K" w] by simp
      then show ?thesis using that disk_stepD(2) [OF d, of "bwj_path w i"] journal_filesD [OF jf, of i]
        by (intro file_log_file [where run = "bwRunSessionID w" and i = i]) (simp_all add: nth_append)
    qed
    then have "journal_log (w', h') = Jlog K @ map entry_of (rs @ complete k [rc])"
      using tail lenK seq w' bwj_path_cong [OF w'(1,2)] by (intro journal_log_last) simp_all
    then show ?thesis using err Some rc(3) by (auto simp: J Jlog_snoc)
  qed
qed

section \<open>\<open>writeRecord\<close> keeps the invariant and the log\<close>

lemma journal_inv_nonfatal:
  "journal_inv w h J \<Longrightarrow> bwFailed w = None \<and> \<not> bwClosed w \<and> bwFile w = Some (bwj_path w (length J - 1))
     \<and> unat (bwFileSequence w) = length J \<and> unat (bwRecordSequence w) = length (snd (last J))
     \<and> journal_log (w, h) = Jlog J"
  using journal_log_files [of w h J] by (simp add: journal_inv_def unat_of_nat)

lemma journal_inv_clock: "files h' = files h \<Longrightarrow> journal_inv w h' J = journal_inv w h J"
  using journal_files_cong [of w w h' h J] by (simp add: journal_inv_def)

lemma shouldRotate_frame:
  assumes "shouldRotateLocked n w h = (b, h')"
  shows "files h' = files h"
proof -
  have "h' = h \<or> h' = snd (now h)"
    using assms by (auto simp: shouldRotateLocked_def split: prod.splits if_splits)
  then show ?thesis by auto
qed

lemma unat_inc_le: "unat (x + 1 :: u64) \<le> Suc (unat x)"
  using unat_word_ariths(1) [of x 1] mod_less_eq_dividend [of "unat x + 1" "2 ^ 64"] by simp

lemma refused: "\<not> acceptable e \<Longrightarrow> \<exists>err. put_entry e (w, h) = (Some err, w, h)"
  by (cases "eFlags e AND 0xf0 = 0"; cases "validatePayload (eType e) (ePayload e)")
     (simp_all add: put_entry_def writeRecord_def acceptable_def)

lemma put_entry_effect:
  assumes inv: "journal_inv w h J" and room: "room (Suc n) w" and e: "good_entry e"
    and op: "put_entry e (w, h) = (r, w', h')"
  shows "(case r of
      None \<Rightarrow> bwj_live n (w', h') \<and> journal_log (w', h') = journal_log (w, h) @ [e]
    | Some err \<Rightarrow> (w', h') = (w, h) \<or> bwFailed w' \<noteq> None \<and>
        (journal_log (w', h') = journal_log (w, h) \<or> journal_log (w', h') = journal_log (w, h) @ [e]))"
proof (cases "acceptable e")
  case False
  then obtain err where "put_entry e (w, h) = (Some err, w, h)" using refused by blast
  then show ?thesis using op by simp
next
  case True
  note base = journal_inv_nonfatal [OF inv]
  obtain due h1 where sr: "shouldRotateLocked (int (64 + length (ePayload e))) w h = (due, h1)"
    by (cases "shouldRotateLocked (int (64 + length (ePayload e))) w h")
  have inv1: "journal_inv w h1 J" using inv shouldRotate_frame [OF sr] journal_inv_clock by blast
  obtain r2 w2 h2 where rot: "(if due then rotateLocked w h1 else (None, w, h1)) = (r2, w2, h2)"
    by (cases "if due then rotateLocked w h1 else (None, w, h1)") auto
  have len: "Suc (length J) < 2 ^ 64" "Suc (length (snd (last J))) < 2 ^ 64"
    using room base by (simp_all add: room_def)
  have mid: "case r2 of
      None \<Rightarrow> \<exists>J2. journal_inv w2 h2 J2 \<and> Jlog J2 = Jlog J \<and> Suc (length (snd (last J2))) < 2 ^ 64
        \<and> unat (bwFileSequence w2) + n < 2 ^ 64 \<and> unat (bwRecordSequence w2) + Suc n < 2 ^ 64
    | Some err \<Rightarrow> bwFailed w2 = None \<and> journal_log (w2, h2) = Jlog J"
  proof (cases due)
    case False
    then show ?thesis using rot inv1 room len by (auto simp: room_def)
  next
    case d: True
    then have ro: "rotateLocked w h1 = (r2, w2, h2)" using rot by simp
    show ?thesis
    proof (cases r2)
      case None
      then obtain fh where i2: "journal_inv w2 h2 (J @ [(fh, [])])" using rotate_effect [OF inv1 len(1) ro] by auto
      moreover have "Jlog (J @ [(fh, [])]) = Jlog J" by (simp add: Jlog_snoc)
      ultimately show ?thesis using None room base journal_inv_nonfatal [OF i2]
        by (auto simp: room_def intro!: exI [of _ "J @ [(fh, [])]"])
    next
      case (Some err)
      then show ?thesis using rotate_effect [OF inv1 len(1) ro] by auto
    qed
  qed
  show ?thesis
  proof (cases r2)
    case (Some err)
    then have "bwFailed w2 = None" "journal_log (w2, h2) = Jlog J" using mid by auto
    moreover have "r = Some err" "w' = w2\<lparr>bwFailed := Some err\<rparr>" "h' = h2"
      using op True base sr rot Some \<open>bwFailed w2 = None\<close>
      by (auto simp: put_entry_def writeRecord_def acceptable_def failLocked_def)
    moreover have "journal_log (w2\<lparr>bwFailed := Some err\<rparr>, h2) = journal_log (w2, h2)"
      using bwj_path_cong [of "w2\<lparr>bwFailed := Some err\<rparr>" w2] by (simp add: journal_log_def)
    ultimately show ?thesis using base by simp
  next
    case None
    then obtain J2 where J2: "journal_inv w2 h2 J2" "Jlog J2 = Jlog J" "Suc (length (snd (last J2))) < 2 ^ 64"
        "unat (bwFileSequence w2) + n < 2 ^ 64" "unat (bwRecordSequence w2) + Suc n < 2 ^ 64" using mid by auto
    have ap: "appendRecord (eType e) (eDirection e) (eFlags e) (eConnection e) (eRequest e) (ePayload e)
        (bwj_path w2 (length J2 - 1)) w2 h2 = (r, w', h')"
      using op True base sr rot None journal_inv_nonfatal [OF J2(1)]
      by (simp add: put_entry_def writeRecord_def acceptable_def)
    note eff = append_effect [OF J2(1,3) e True ap]
    show ?thesis
    proof (cases r)
      case None
      then obtain J' where J': "journal_inv w' h' J'" "Jlog J' = Jlog J @ [e]"
          "bwFileSequence w' = bwFileSequence w2" "bwRecordSequence w' = bwRecordSequence w2 + 1"
        using eff J2(2) by auto
      have "unat (bwRecordSequence w2 + 1) \<le> Suc (unat (bwRecordSequence w2))"
        by (rule unat_inc_le)
      then have "room n w'" using J2(4,5) J'(3,4) by (simp add: room_def)
      then have "bwj_live n (w', h')" using J'(1) by (auto simp: bwj_live_def)
      then show ?thesis using None J' base journal_inv_nonfatal [OF J'(1)] by simp
    next
      case (Some err)
      then show ?thesis using eff base J2(2) by auto
    qed
  qed
qed

section \<open>The writer satisfies the contract\<close>

lemma put_entry_stuck: "bwj_stuck s \<Longrightarrow> \<exists>err. put_entry e s = (Some err, s)"
proof (cases s)
  case (Pair w h)
  assume "bwj_stuck s"
  then show ?thesis
  proof (cases "acceptable e")
    case True
    then show ?thesis using \<open>bwj_stuck s\<close> Pair
      by (auto simp: put_entry_def writeRecord_def acceptable_def bwj_stuck_def)
  qed (simp add: Pair refused)
qed

lemma put_entry_live:
  assumes live: "bwj_live (Suc n) s" and e: "good_entry e" and op: "put_entry e s = (r, s')"
  shows "case r of None \<Rightarrow> bwj_live n s' \<and> journal_log s' = journal_log s @ [e]
    | Some err \<Rightarrow> s' = s \<or> bwj_stuck s' \<and> (journal_log s' = journal_log s \<or> journal_log s' = journal_log s @ [e])"
proof -
  obtain w h w' h' where s: "s = (w, h)" "s' = (w', h')" by (metis surj_pair)
  obtain J where J: "journal_inv w h J" "room (Suc n) w" using live s by (auto simp: bwj_live_def)
  show ?thesis using put_entry_effect [OF J e, of r w' h'] op
    by (auto simp: s bwj_stuck_def split: option.splits)
qed

interpretation bwj: journal put_entry journal_log bwj_live bwj_stuck good_entry
proof
  fix n :: nat and s s' :: "bwj_writer \<times> host" and e :: entry and err :: go_error
  assume live: "bwj_live (Suc n) s" and e: "good_entry e"
  show "bwj_live n s' \<and> journal_log s' = journal_log s @ [e]" if "put_entry e s = (None, s')"
    using put_entry_live [OF live e that] by simp
  show "s' = s \<or> bwj_stuck s' \<and> (journal_log s' = journal_log s \<or> journal_log s' = journal_log s @ [e])"
    if "put_entry e s = (Some err, s')"
    using put_entry_live [OF live e that] by simp
qed (rule put_entry_stuck)

text \<open>\<open>WriteData\<close> puts one DATA entry per chunk of at most 65536 bytes.\<close>

function chunks :: "byte list \<Rightarrow> byte list list" where
  "chunks data = (if data = [] then [] else take BWJMaxDataPayload data # chunks (drop BWJMaxDataPayload data))"
  by pat_completeness auto
termination
  by (relation "measure length") auto

declare chunks.simps [simp del]

lemma concat_chunks: "concat (chunks data) = data"
  by (induction data rule: chunks.induct) (subst chunks.simps, simp)

definition data_entries :: "ID \<Rightarrow> ID \<Rightarrow> Direction \<Rightarrow> byte \<Rightarrow> byte list \<Rightarrow> entry list" where
  "data_entries cid rid d f data = map (Entry RecordData d f cid rid) (chunks data)"

lemma writeRecord_put: "writeRecord t d f cid rid p w h = put_entry (Entry t d f cid rid p) (w, h)"
  by (simp add: put_entry_def)

lemma write_data_loop_seq:
  "write_data_loop cid rid d f data w h = put_seq put_entry (data_entries cid rid d f data) (w, h)"
proof (induction data arbitrary: w h rule: chunks.induct)
  case (1 data)
  show ?case
  proof (cases "data = []")
    case True
    then show ?thesis by (simp add: write_data_loop.simps data_entries_def chunks.simps)
  next
    case False
    have take: "take (min (length data) 65536) data = take 65536 data"
      and drop: "drop (min (length data) 65536) data = drop 65536 data" by (simp_all add: min_def)
    show ?thesis using False 1
      by (subst write_data_loop.simps)
         (simp add: data_entries_def chunks.simps [of data] writeRecord_put take drop Let_def
            split: prod.split option.split)
  qed
qed

end
