(* ===== verification/Json.thy ===== *)
theory Json
  imports Go_Strings
begin

text \<open>
  What the program uses of \<open>encoding/json\<close> for writing: values as a tree, and \<open>json.Marshal\<close> of
  it, with Go's escapes (HTML characters, control characters, the line separators U+2028 and U+2029,
  and a replacement character for bytes that are not UTF-8). Also \<open>strings.Fields\<close> and the query escapes of
  \<open>net/url\<close>.
\<close>

section \<open>UTF-8\<close>

definition within :: "nat \<Rightarrow> nat \<Rightarrow> nat \<Rightarrow> bool" where
  "within lo hi x \<longleftrightarrow> lo \<le> x \<and> x \<le> hi"

text \<open>Bounds of the second byte and the width of a sequence, by its first byte.\<close>

definition utf8_lead :: "nat \<Rightarrow> (nat \<times> nat \<times> nat) option" where
  "utf8_lead b =
    (if within 0xC2 0xDF b then Some (2, 0x80, 0xBF)
     else if b = 0xE0 then Some (3, 0xA0, 0xBF)
     else if b = 0xED then Some (3, 0x80, 0x9F)
     else if within 0xE1 0xEF b then Some (3, 0x80, 0xBF)
     else if b = 0xF0 then Some (4, 0x90, 0xBF)
     else if within 0xF1 0xF3 b then Some (4, 0x80, 0xBF)
     else if b = 0xF4 then Some (4, 0x80, 0x8F)
     else None)"

text \<open>\<open>utf8.DecodeRuneInString\<close> beyond ASCII: the width of a valid encoding, 0 for an invalid one.\<close>

definition utf8_width :: "string \<Rightarrow> nat" where
  "utf8_width s = (case map of_char s of [] \<Rightarrow> 0
     | b # bs \<Rightarrow> (case utf8_lead b of None \<Rightarrow> 0
         | Some (n, lo, hi) \<Rightarrow>
             if n \<le> length s \<and> within lo hi (bs ! 0) \<and> list_all (within 0x80 0xBF) (take (n - 2) (drop 1 bs))
             then n else 0))"

section \<open>Values and their encoding\<close>

datatype json = JNull | JBool bool | JInt int | JStr string | JArr "json list" | JObj "(string \<times> json) list"

abbreviation (input) "quote_char \<equiv> CHR 0x22"
abbreviation (input) "backslash \<equiv> CHR 0x5C"

definition unicode_escape :: "nat \<Rightarrow> string" where
  "unicode_escape n = [backslash, CHR ''u'', digit (n div 4096 mod 16), digit (n div 256 mod 16),
     digit (n div 16 mod 16), digit (n mod 16)]"

text \<open>One byte below 0x80, as \<open>appendString\<close> with \<open>escapeHTML\<close> writes it.\<close>

definition escape_ascii :: "char \<Rightarrow> string" where
  "escape_ascii c = (let b = of_char c :: nat in
     if c = quote_char \<or> c = backslash then [backslash, c]
     else if b = 8 then [backslash, CHR ''b''] else if b = 12 then [backslash, CHR ''f'']
     else if b = 10 then [backslash, CHR ''n''] else if b = 13 then [backslash, CHR ''r'']
     else if b = 9 then [backslash, CHR ''t'']
     else if b < 0x20 \<or> c \<in> set ''<>&'' then unicode_escape b
     else [c])"

definition line_separators :: "(string \<times> nat) list" where
  "line_separators = [([CHR 0xE2, CHR 0x80, CHR 0xA8], 0x2028), ([CHR 0xE2, CHR 0x80, CHR 0xA9], 0x2029)]"

function escape_string :: "string \<Rightarrow> string" where
  "escape_string [] = []"
| "escape_string (c # cs) =
    (if of_char c < (0x80 :: nat) then escape_ascii c @ escape_string cs
     else (let n = utf8_width (c # cs) in
       if n = 0 then unicode_escape 0xFFFD @ escape_string cs
       else (case map_of line_separators (take n (c # cs)) of
           Some code \<Rightarrow> unicode_escape code | None \<Rightarrow> take n (c # cs)) @ escape_string (drop n (c # cs))))"
  by pat_completeness auto
termination
  by (relation "measure length") auto

declare escape_string.simps [simp del]

definition encode_string :: "string \<Rightarrow> string" where
  "encode_string s = quote_char # escape_string s @ [quote_char]"

fun encode_json :: "json \<Rightarrow> string" where
  "encode_json JNull = ''null''"
| "encode_json (JBool b) = (if b then ''true'' else ''false'')"
| "encode_json (JInt i) = itoa i"
| "encode_json (JStr s) = encode_string s"
| "encode_json (JArr js) = ''['' @ join_strings '','' (map encode_json js) @ '']''"
| "encode_json (JObj kvs) =
     ''{'' @ join_strings '','' (map (\<lambda>(k, v). encode_string k @ '':'' @ encode_json v) kvs) @ ''}''"

section \<open>An encoding is one line\<close>

definition printable :: "string \<Rightarrow> bool" where
  "printable s \<longleftrightarrow> (\<forall>c \<in> set s. (0x20 :: nat) \<le> of_char c)"

lemma printable_simps [simp]: "printable []" "printable (c # s) \<longleftrightarrow> (0x20 :: nat) \<le> of_char c \<and> printable s"
    "printable (s @ t) \<longleftrightarrow> printable s \<and> printable t"
  by (auto simp: printable_def)

lemma digit_printable [simp]: "d < 16 \<Longrightarrow> (0x20 :: nat) \<le> of_char (digit d)"
  by (simp add: digit_def)

lemma unicode_escape_printable [simp]: "printable (unicode_escape n)"
  by (simp add: unicode_escape_def)

lemma escape_ascii_printable [simp]: "printable (escape_ascii c)"
  by (simp add: escape_ascii_def Let_def)

lemma utf8_width_high:
  assumes "utf8_width s = n" "c \<in> set (take n s)"
  shows "(0x80 :: nat) \<le> of_char c"
proof (cases s)
  case (Cons d ds)
  let ?bs = "map of_char ds :: nat list"
  show ?thesis
  proof (cases "utf8_lead (of_char d)")
    case None
    then show ?thesis using assms Cons by (simp add: utf8_width_def)
  next
    case (Some p)
    obtain m lo hi where p: "p = (m, lo, hi)" by (cases p)
    have lead: "(0x80 :: nat) \<le> of_char d" "0x80 \<le> lo" "2 \<le> m"
      using Some by (auto simp: utf8_lead_def within_def p split: if_splits)
    show ?thesis
    proof (cases "n = 0")
      case False
      then have ok: "m \<le> length s" "within lo hi (?bs ! 0)" "list_all (within 0x80 0xBF) (take (m - 2) (drop 1 ?bs))" "n = m"
        using assms(1) Some p Cons by (auto simp: utf8_width_def split: if_splits)
      obtain e es where ds: "ds = e # es" using ok(1) lead(3) Cons by (cases ds) auto
      have "take n s = d # e # take (m - 2) es" using ok(4) lead(3) Cons ds by (simp add: take_Cons' numeral_2_eq_2)
      then have "c = d \<or> c = e \<or> c \<in> set (take (m - 2) es)" using assms(2) by simp
      then show ?thesis
      proof (elim disjE)
        assume "c \<in> set (take (m - 2) es)"
        then have "(of_char c :: nat) \<in> set (take (m - 2) (drop 1 ?bs))" by (simp add: ds take_map)
        then show ?thesis using ok(3) by (auto simp: list_all_iff within_def)
      qed (use lead ok(2) ds in \<open>auto simp: within_def\<close>)
    qed (use assms in simp)
  qed
qed (use assms in simp)

lemma escape_string_printable [simp]: "printable (escape_string s)"
proof (induction s rule: escape_string.induct)
  case (2 c cs)
  have "printable (take (utf8_width (c # cs)) (c # cs))"
    using utf8_width_high [OF refl, of _ "c # cs"] by (fastforce simp: printable_def)
  with 2 show ?case by (auto simp: escape_string.simps Let_def split: option.split)
qed (simp add: escape_string.simps)

lemma digits_printable: "2 \<le> b \<Longrightarrow> b \<le> 16 \<Longrightarrow> printable (digits b n)"
proof (induction b n rule: digits.induct)
  case (1 b n)
  show ?case
  proof (cases "n < b")
    case True
    then show ?thesis using 1(3) by (subst digits.simps) (auto intro: less_le_trans)
  next
    case False
    moreover have "n mod b < 16" using 1(2,3) by (auto intro: less_le_trans [of _ b])
    ultimately show ?thesis using 1 by (subst digits.simps) auto
  qed
qed

lemma itoa_printable [simp]: "printable (itoa i)"
  by (simp add: itoa_def digits_printable)

lemma encode_string_printable [simp]: "printable (encode_string s)"
  by (simp add: encode_string_def)

lemma join_printable: "printable sep \<Longrightarrow> (\<And>s. s \<in> set ss \<Longrightarrow> printable s) \<Longrightarrow> printable (join_strings sep ss)"
  by (induction sep ss rule: join_strings.induct) auto

lemma encode_json_printable [simp]: "printable (encode_json j)"
proof (induction j rule: encode_json.induct)
  case (6 kvs)
  then show ?case by (auto intro!: join_printable)
qed (auto intro!: join_printable)

end
