(* ===== verification/Events.thy ===== *)
theory Events
  imports Json
begin

text \<open>
  The structured events of \<open>internal/evidence/jsonl.go\<close>: their fields, \<open>Event.MarshalJSON\<close> and the
  bound on an encoded event. A slice is an option: \<^const>\<open>None\<close> is the nil slice, which JSON shows
  as \<open>null\<close>. Pointers to integers are options. Marshalling these types cannot fail.
\<close>

section \<open>Data\<close>

record header_metadata =
  hmName :: string
  hmPresent :: bool
  hmScheme :: string
  hmLength :: int
  hmSHA256 :: string
  hmValue :: string
  hmTruncated :: bool

record query_metadata =
  qmName :: string
  qmLength :: int
  qmSHA256 :: string

record event =
  evEventSchemaVersion :: int
  evEventType :: string
  evTimestampNS :: int
  evSensorID :: string
  evRunSessionID :: string
  evConfigSchemaVersion :: int
  evConfigSHA256 :: string
  evServiceID :: string
  evConnectionID :: string
  evRequestID :: string
  evSourceIP :: string
  evSourcePort :: int
  evDestinationIP :: string
  evDestinationPort :: int
  evListenerProtocol :: string
  evTimestampStartNS :: int
  evTimestampEndNS :: int
  evHTTPVersion :: string
  evMethod :: string
  evRequestTargetSanitized :: string
  evRawPath :: string
  evQueryFields :: "query_metadata list option"
  evSanitizedHeaders :: "header_metadata list option"
  evContentType :: string
  evDeclaredContentLength :: "int option"
  evMatchedRoute :: string
  evClassification :: string
  evResponseSource :: string
  evResponseSequence :: "int option"
  evResponseStatus :: int
  evRequestBytes :: int
  evRequestStreamStart :: int
  evRequestStreamLength :: int
  evRequestComplete :: bool
  evResponseBytes :: int
  evResponseStreamStart :: int
  evResponseStreamLength :: int
  evResponseSHA256 :: string
  evResponseComplete :: bool
  evWriteError :: string
  evMetadataTruncated :: bool
  evApplicationVersion :: string
  evGoVersion :: string
  evBuildID :: string
  evTLSEnabled :: bool
  evTLSCertificateSHA256 :: string
  evTLSCertificateNotBefore :: string
  evTLSCertificateNotAfter :: string
  evTLSErrorCode :: string
  evHandshakeElapsedMS :: int
  evOperationalCode :: string
  evOperationalAction :: string
  evCloseReason :: string
  evBytesIn :: int
  evBytesOut :: int
  evRequestCount :: int

section \<open>Marshalling\<close>

definition omit_string :: "string \<Rightarrow> json option" where
  "omit_string s = (if s = '''' then None else Some (JStr s))"

definition omit_int :: "int \<Rightarrow> json option" where
  "omit_int i = (if i = 0 then None else Some (JInt i))"

definition omit_bool :: "bool \<Rightarrow> json option" where
  "omit_bool b = (if b then Some (JBool b) else None)"

definition omit_slice :: "('a \<Rightarrow> json) \<Rightarrow> 'a list option \<Rightarrow> json option" where
  "omit_slice f xs = (case xs of None \<Rightarrow> None | Some ys \<Rightarrow> if ys = [] then None else Some (JArr (map f ys)))"

definition omit_pointer :: "int option \<Rightarrow> json option" where
  "omit_pointer p = map_option JInt p"

definition json_slice :: "('a \<Rightarrow> json) \<Rightarrow> 'a list option \<Rightarrow> json" where
  "json_slice f xs = (case xs of None \<Rightarrow> JNull | Some ys \<Rightarrow> JArr (map f ys))"

text \<open>The fields of an object that are present.\<close>

definition present :: "(string \<times> json option) list \<Rightarrow> (string \<times> json) list" where
  "present kvs = concat (map (\<lambda>(k, v). case v of None \<Rightarrow> [] | Some j \<Rightarrow> [(k, j)]) kvs)"

definition header_json :: "header_metadata \<Rightarrow> json" where
  "header_json m = JObj (present
    [(''name'', Some (JStr (hmName m))),
     (''present'', Some (JBool (hmPresent m))),
     (''scheme'', omit_string (hmScheme m)),
     (''length'', Some (JInt (hmLength m))),
     (''sha256'', Some (JStr (hmSHA256 m))),
     (''value'', omit_string (hmValue m)),
     (''truncated'', omit_bool (hmTruncated m))])"

definition query_json :: "query_metadata \<Rightarrow> json" where
  "query_json m = JObj (present
    [(''name'', Some (JStr (qmName m))),
     (''length'', Some (JInt (qmLength m))),
     (''sha256'', Some (JStr (qmSHA256 m)))])"

text \<open>The fields of \<open>eventAlias\<close>, with their \<open>omitempty\<close> options.\<close>

definition event_fields :: "event \<Rightarrow> (string \<times> json option) list" where
  "event_fields e =
    [(''event_schema_version'', Some (JInt (evEventSchemaVersion e))),
     (''event_type'', Some (JStr (evEventType e))),
     (''timestamp_ns'', Some (JInt (evTimestampNS e))),
     (''sensor_id'', Some (JStr (evSensorID e))),
     (''run_session_id'', Some (JStr (evRunSessionID e))),
     (''config_schema_version'', Some (JInt (evConfigSchemaVersion e))),
     (''config_sha256'', Some (JStr (evConfigSHA256 e))),
     (''service_id'', omit_string (evServiceID e)),
     (''connection_id'', omit_string (evConnectionID e)),
     (''request_id'', omit_string (evRequestID e)),
     (''source_ip'', omit_string (evSourceIP e)),
     (''source_port'', omit_int (evSourcePort e)),
     (''destination_ip'', omit_string (evDestinationIP e)),
     (''destination_port'', omit_int (evDestinationPort e)),
     (''listener_protocol'', omit_string (evListenerProtocol e)),
     (''timestamp_start_ns'', omit_int (evTimestampStartNS e)),
     (''timestamp_end_ns'', omit_int (evTimestampEndNS e)),
     (''http_version'', omit_string (evHTTPVersion e)),
     (''method'', omit_string (evMethod e)),
     (''request_target_sanitized'', omit_string (evRequestTargetSanitized e)),
     (''raw_path'', omit_string (evRawPath e)),
     (''query_fields'', omit_slice query_json (evQueryFields e)),
     (''sanitized_headers'', omit_slice header_json (evSanitizedHeaders e)),
     (''content_type'', omit_string (evContentType e)),
     (''declared_content_length'', omit_pointer (evDeclaredContentLength e)),
     (''matched_route'', omit_string (evMatchedRoute e)),
     (''classification'', omit_string (evClassification e)),
     (''response_source'', omit_string (evResponseSource e)),
     (''response_sequence'', omit_pointer (evResponseSequence e)),
     (''response_status'', omit_int (evResponseStatus e)),
     (''request_bytes'', omit_int (evRequestBytes e)),
     (''request_stream_start'', omit_int (evRequestStreamStart e)),
     (''request_stream_length'', omit_int (evRequestStreamLength e)),
     (''request_complete'', omit_bool (evRequestComplete e)),
     (''response_bytes'', omit_int (evResponseBytes e)),
     (''response_stream_start'', omit_int (evResponseStreamStart e)),
     (''response_stream_length'', omit_int (evResponseStreamLength e)),
     (''response_sha256'', omit_string (evResponseSHA256 e)),
     (''response_complete'', omit_bool (evResponseComplete e)),
     (''write_error'', omit_string (evWriteError e)),
     (''metadata_truncated'', omit_bool (evMetadataTruncated e)),
     (''application_version'', omit_string (evApplicationVersion e)),
     (''go_version'', omit_string (evGoVersion e)),
     (''build_id'', omit_string (evBuildID e)),
     (''tls_enabled'', omit_bool (evTLSEnabled e)),
     (''tls_certificate_sha256'', omit_string (evTLSCertificateSHA256 e)),
     (''tls_certificate_not_before'', omit_string (evTLSCertificateNotBefore e)),
     (''tls_certificate_not_after'', omit_string (evTLSCertificateNotAfter e)),
     (''bounded_tls_error_code'', omit_string (evTLSErrorCode e)),
     (''handshake_elapsed_ms'', omit_int (evHandshakeElapsedMS e)),
     (''operational_code'', omit_string (evOperationalCode e)),
     (''action'', omit_string (evOperationalAction e)),
     (''close_reason'', omit_string (evCloseReason e)),
     (''bytes_in'', omit_int (evBytesIn e)),
     (''bytes_out'', omit_int (evBytesOut e)),
     (''request_count'', omit_int (evRequestCount e))]"

text \<open>The fields \<open>exchangeEvent\<close> declares itself: they shadow the embedded ones of the same name.\<close>

definition exchange_fields :: "event \<Rightarrow> (string \<times> json) list" where
  "exchange_fields e =
    [(''timestamp_start_ns'', JInt (evTimestampStartNS e)),
     (''timestamp_end_ns'', JInt (evTimestampEndNS e)),
     (''http_version'', JStr (evHTTPVersion e)),
     (''method'', JStr (evMethod e)),
     (''request_target_sanitized'', JStr (evRequestTargetSanitized e)),
     (''raw_path'', JStr (evRawPath e)),
     (''query_fields'', json_slice query_json (evQueryFields e)),
     (''sanitized_headers'', json_slice header_json (evSanitizedHeaders e)),
     (''matched_route'', JStr (evMatchedRoute e)),
     (''classification'', JStr (evClassification e)),
     (''response_source'', JStr (evResponseSource e)),
     (''response_status'', JInt (evResponseStatus e)),
     (''request_bytes'', JInt (evRequestBytes e)),
     (''request_stream_start'', JInt (evRequestStreamStart e)),
     (''request_stream_length'', JInt (evRequestStreamLength e)),
     (''request_complete'', JBool (evRequestComplete e)),
     (''response_bytes'', JInt (evResponseBytes e)),
     (''response_stream_start'', JInt (evResponseStreamStart e)),
     (''response_stream_length'', JInt (evResponseStreamLength e)),
     (''response_sha256'', JStr (evResponseSHA256 e)),
     (''response_complete'', JBool (evResponseComplete e)),
     (''write_error'', JStr (evWriteError e))]"

definition event_json :: "event \<Rightarrow> json" where
  "event_json e =
    (if evEventType e \<noteq> ''exchange'' then JObj (present (event_fields e))
     else JObj (present (filter (\<lambda>(k, v). k \<notin> set (map fst (exchange_fields e))) (event_fields e))
            @ exchange_fields e))"

definition MarshalJSON :: "event \<Rightarrow> string" where
  "MarshalJSON e = encode_json (event_json e)"

text \<open>The zero value \<open>Event{}\<close>.\<close>

definition no_event :: event where
  "no_event =
     \<lparr>evEventSchemaVersion = 0,
       evEventType = '''',
       evTimestampNS = 0,
       evSensorID = '''',
       evRunSessionID = '''',
       evConfigSchemaVersion = 0,
       evConfigSHA256 = '''',
       evServiceID = '''',
       evConnectionID = '''',
       evRequestID = '''',
       evSourceIP = '''',
       evSourcePort = 0,
       evDestinationIP = '''',
       evDestinationPort = 0,
       evListenerProtocol = '''',
       evTimestampStartNS = 0,
       evTimestampEndNS = 0,
       evHTTPVersion = '''',
       evMethod = '''',
       evRequestTargetSanitized = '''',
       evRawPath = '''',
       evQueryFields = None,
       evSanitizedHeaders = None,
       evContentType = '''',
       evDeclaredContentLength = None,
       evMatchedRoute = '''',
       evClassification = '''',
       evResponseSource = '''',
       evResponseSequence = None,
       evResponseStatus = 0,
       evRequestBytes = 0,
       evRequestStreamStart = 0,
       evRequestStreamLength = 0,
       evRequestComplete = False,
       evResponseBytes = 0,
       evResponseStreamStart = 0,
       evResponseStreamLength = 0,
       evResponseSHA256 = '''',
       evResponseComplete = False,
       evWriteError = '''',
       evMetadataTruncated = False,
       evApplicationVersion = '''',
       evGoVersion = '''',
       evBuildID = '''',
       evTLSEnabled = False,
       evTLSCertificateSHA256 = '''',
       evTLSCertificateNotBefore = '''',
       evTLSCertificateNotAfter = '''',
       evTLSErrorCode = '''',
       evHandshakeElapsedMS = 0,
       evOperationalCode = '''',
       evOperationalAction = '''',
       evCloseReason = '''',
       evBytesIn = 0,
       evBytesOut = 0,
       evRequestCount = 0\<rparr>"

section \<open>Bounded encodings\<close>

definition slice_len :: "'a list option \<Rightarrow> nat" where
  "slice_len xs = (case xs of None \<Rightarrow> 0 | Some ys \<Rightarrow> length ys)"

lemma slice_len_simps [simp]: "slice_len None = 0" "slice_len (Some ys) = length ys"
    "slice_len (map_option butlast xs) = slice_len xs - 1"
  by (simp_all add: slice_len_def split: option.split)

text \<open>One round of the loop: the longer of the two lists loses its last element.\<close>

definition drop_one :: "event \<Rightarrow> event" where
  "drop_one e =
    (if slice_len (evSanitizedHeaders e) \<ge> slice_len (evQueryFields e) \<and> slice_len (evSanitizedHeaders e) > 0
     then e\<lparr>evSanitizedHeaders := map_option butlast (evSanitizedHeaders e)\<rparr>
     else if slice_len (evQueryFields e) > 0 then e\<lparr>evQueryFields := map_option butlast (evQueryFields e)\<rparr>
     else e)"

function drop_metadata :: "int \<Rightarrow> event \<Rightarrow> event + string" where
  "drop_metadata maximum e =
    (if slice_len (evSanitizedHeaders e) > 0 \<or> slice_len (evQueryFields e) > 0
     then (let e' = drop_one e; b = MarshalJSON e'
           in if int (length b) \<le> maximum then Inr b else drop_metadata maximum e')
     else Inl e)"
  by pat_completeness auto
termination
  by (relation "measure (\<lambda>(m, e). slice_len (evSanitizedHeaders e) + slice_len (evQueryFields e))")
     (auto simp: drop_one_def)

declare drop_metadata.simps [simp del]

definition clip256 :: "string \<Rightarrow> string" where
  "clip256 s = (if length s > 256 then take 256 s else s)"

definition clip_event :: "event \<Rightarrow> event" where
  "clip_event e = e\<lparr>evRequestTargetSanitized := clip256 (evRequestTargetSanitized e), evRawPath := clip256 (evRawPath e),
     evContentType := clip256 (evContentType e), evMatchedRoute := clip256 (evMatchedRoute e),
     evClassification := clip256 (evClassification e), evWriteError := clip256 (evWriteError e)\<rparr>"

definition minimal_base :: "event \<Rightarrow> event" where
  "minimal_base e = no_event\<lparr>evEventSchemaVersion := evEventSchemaVersion e, evEventType := evEventType e,
     evTimestampNS := evTimestampNS e, evSensorID := evSensorID e, evRunSessionID := evRunSessionID e,
     evConfigSchemaVersion := evConfigSchemaVersion e, evConfigSHA256 := evConfigSHA256 e,
     evServiceID := evServiceID e, evConnectionID := evConnectionID e, evRequestID := evRequestID e,
     evMetadataTruncated := True\<rparr>"

definition minimal_event :: "event \<Rightarrow> event" where
  "minimal_event e = (if evEventType e = ''exchange''
     then (minimal_base e)\<lparr>evTimestampStartNS := evTimestampStartNS e, evTimestampEndNS := evTimestampEndNS e,
       evHTTPVersion := evHTTPVersion e, evMethod := evMethod e, evResponseSource := evResponseSource e,
       evResponseSequence := evResponseSequence e, evResponseStatus := evResponseStatus e,
       evRequestBytes := evRequestBytes e, evRequestStreamStart := evRequestStreamStart e,
       evRequestStreamLength := evRequestStreamLength e, evRequestComplete := evRequestComplete e,
       evResponseBytes := evResponseBytes e, evResponseStreamStart := evResponseStreamStart e,
       evResponseStreamLength := evResponseStreamLength e, evResponseSHA256 := evResponseSHA256 e,
       evResponseComplete := evResponseComplete e, evWriteError := evWriteError e\<rparr>
     else minimal_base e)"

definition boundedEventJSON :: "event \<Rightarrow> int \<Rightarrow> go_error + string" where
  "boundedEventJSON e0 maximum =
    (if maximum \<le> 0 then Inl (Errorf ''invalid structured event bound'' [])
     else if int (length (MarshalJSON e0)) \<le> maximum then Inr (MarshalJSON e0)
     else (case drop_metadata maximum (e0\<lparr>evMetadataTruncated := True\<rparr>) of Inr b \<Rightarrow> Inr b
       | Inl e1 \<Rightarrow>
         let e = clip_event e1 in
         if int (length (MarshalJSON e)) \<le> maximum then Inr (MarshalJSON e)
         else let minimal = minimal_event e in
           if int (length (MarshalJSON minimal)) > maximum
           then Inl (Errorf ''structured event mandatory fields exceed max_structured_event_bytes'' [])
           else Inr (MarshalJSON minimal)))"

subsection \<open>What a bounded encoding keeps\<close>

text \<open>The fields that tie an event to its run, configuration, connection and request, and for an
  exchange those that tie it to the recorded streams.\<close>

definition correlation :: "event \<Rightarrow> int \<times> string \<times> int \<times> string \<times> string \<times> int \<times> string \<times> string \<times> string \<times> string" where
  "correlation e = (evEventSchemaVersion e, evEventType e, evTimestampNS e, evSensorID e, evRunSessionID e,
     evConfigSchemaVersion e, evConfigSHA256 e, evServiceID e, evConnectionID e, evRequestID e)"

definition stream_ranges :: "event \<Rightarrow> int \<times> int \<times> bool \<times> int \<times> int \<times> string \<times> bool" where
  "stream_ranges e = (evRequestStreamStart e, evRequestStreamLength e, evRequestComplete e,
     evResponseStreamStart e, evResponseStreamLength e, evResponseSHA256 e, evResponseComplete e)"

definition same_identity :: "event \<Rightarrow> event \<Rightarrow> bool" where
  "same_identity e e' \<longleftrightarrow> correlation e' = correlation e
     \<and> (evEventType e = ''exchange'' \<longrightarrow> stream_ranges e' = stream_ranges e)
     \<and> (evMetadataTruncated e \<longrightarrow> evMetadataTruncated e')"

lemmas identity_defs = same_identity_def correlation_def stream_ranges_def

lemma same_identity_refl [simp]: "same_identity e e"
  by (simp add: same_identity_def)

lemma same_identity_trans: "same_identity a b \<Longrightarrow> same_identity b c \<Longrightarrow> same_identity a c"
  by (auto simp: identity_defs)

lemma identity_steps [simp]: "same_identity e (e\<lparr>evMetadataTruncated := True\<rparr>)" "same_identity e (drop_one e)"
    "same_identity e (clip_event e)" "same_identity e (minimal_event e)"
  by (simp_all add: identity_defs drop_one_def clip_event_def minimal_event_def minimal_base_def)

lemma drop_metadata_identity:
  "(drop_metadata m e = Inr b \<longrightarrow> int (length b) \<le> m \<and> (\<exists>e'. b = MarshalJSON e' \<and> same_identity e e'))
   \<and> (drop_metadata m e = Inl e1 \<longrightarrow> same_identity e e1)"
proof (induction m e rule: drop_metadata.induct)
  case (1 m e)
  show ?case
  proof (cases "slice_len (evSanitizedHeaders e) > 0 \<or> slice_len (evQueryFields e) > 0")
    case more: True
    show ?thesis
    proof (cases "int (length (MarshalJSON (drop_one e))) \<le> m")
      case True
      then show ?thesis using more by (auto simp: drop_metadata.simps [of m e] Let_def intro!: exI [of _ "drop_one e"])
    next
      case False
      then have "drop_metadata m e = drop_metadata m (drop_one e)"
        using more by (simp add: drop_metadata.simps [of m e] Let_def)
      with 1 [OF more refl refl False] same_identity_trans [of e "drop_one e"] show ?thesis by auto
    qed
  qed (simp add: drop_metadata.simps [of m e])
qed

lemma bounded_identity:
  assumes "boundedEventJSON e m = Inr b"
  shows "int (length b) \<le> m
    \<and> (\<exists>e'. b = MarshalJSON e' \<and> (e' = e \<or> same_identity (e\<lparr>evMetadataTruncated := True\<rparr>) e'))"
proof (cases "m \<le> 0 \<or> int (length (MarshalJSON e)) \<le> m")
  case True
  then show ?thesis using assms by (auto simp: boundedEventJSON_def split: if_splits intro!: exI [of _ e])
next
  case False
  note big = this
  let ?t = "e\<lparr>evMetadataTruncated := True\<rparr>"
  show ?thesis
  proof (cases "drop_metadata m ?t")
    case (Inr c)
    then have "b = c" using assms big by (simp add: boundedEventJSON_def)
    then show ?thesis using drop_metadata_identity [of m ?t b] Inr by blast
  next
    case (Inl e1)
    have e1: "same_identity ?t (clip_event e1)" "same_identity ?t (minimal_event (clip_event e1))"
      using drop_metadata_identity [of m ?t _ e1] Inl identity_steps same_identity_trans by meson+
    have "b = MarshalJSON (clip_event e1) \<or> b = MarshalJSON (minimal_event (clip_event e1))" "int (length b) \<le> m"
      using assms big Inl by (auto simp: boundedEventJSON_def Let_def split: if_splits)
    then show ?thesis using e1 by blast
  qed
qed

lemma MarshalJSON_printable [simp]: "printable (MarshalJSON e)"
  by (simp add: MarshalJSON_def)

end
