(* ===== verification/Paths.thy ===== *)
theory Paths
  imports Go_Strings
begin

text \<open>
  The lexical functions of \<open>path/filepath\<close> that the program uses, on Unix paths.
\<close>

fun split_slash :: "string \<Rightarrow> string list" where
  "split_slash [] = [[]]"
| "split_slash (c # s) = (if c = CHR ''/'' then [] # split_slash s
     else (case split_slash s of [] \<Rightarrow> [[c]] | p # ps \<Rightarrow> (c # p) # ps))"

text \<open>\<open>filepath.Clean\<close> and \<open>filepath.Dir\<close>.\<close>

fun clean_parts :: "bool \<Rightarrow> string list \<Rightarrow> string list \<Rightarrow> string list" where
  "clean_parts rooted out [] = out"
| "clean_parts rooted out (p # ps) =
    (if p = '''' \<or> p = ''.'' then clean_parts rooted out ps
     else if p = ''..'' then
       (if out \<noteq> [] \<and> last out \<noteq> ''..'' then clean_parts rooted (butlast out) ps
        else if rooted then clean_parts rooted out ps
        else clean_parts rooted (out @ [p]) ps)
     else clean_parts rooted (out @ [p]) ps)"

definition filepath_Clean :: "string \<Rightarrow> string" where
  "filepath_Clean path =
    (let rooted = (path \<noteq> '''' \<and> hd path = CHR ''/''); parts = clean_parts rooted [] (split_slash path)
     in if rooted then ''/'' @ join_strings ''/'' parts
        else if parts = [] then ''.'' else join_strings ''/'' parts)"

definition filepath_Dir :: "string \<Rightarrow> string" where
  "filepath_Dir path = filepath_Clean (rev (dropWhile (\<lambda>c. c \<noteq> CHR ''/'') (rev path)))"

text \<open>\<open>filepath.Join\<close> of two parts.\<close>

definition filepath_Join :: "string \<Rightarrow> string \<Rightarrow> string" where
  "filepath_Join dir name =
    (if dir = '''' then (if name = '''' then '''' else filepath_Clean name) else filepath_Clean (dir @ ''/'' @ name))"

end
