(* ===== verification/Index.thy ===== *)
theory Index
  imports Bwj_Journal Events Config "HOL-Library.Product_Lexorder" Paths
begin

text \<open>
  The offline index, \<open>internal/index/index.go\<close>: reading the structured events, reconstructing the two
  byte streams of every connection from the wire journal, checking every exchange against its
  streams, and the rows that are written. The JSON decoder, SHA-256 and the SQLite driver are
  arguments.
\<close>

section \<open>Files at rest\<close>

text \<open>The evidence files, and what \<open>os.Open\<close>, the end of reading and \<open>Close\<close> answer for each.\<close>

record evidence_files =
  efFiles :: "(path \<times> byte list) list"
  efOpen :: "path \<Rightarrow> go_error option"
  efEnd :: "path \<Rightarrow> go_error"
  efClose :: "path \<Rightarrow> go_error option"

definition at_rest :: "host \<Rightarrow> evidence_files" where
  "at_rest h = \<lparr>efFiles = files h, efOpen = (\<lambda>p. None), efEnd = (\<lambda>p. EOF), efClose = (\<lambda>p. None)\<rparr>"

definition opened_file :: "evidence_files \<Rightarrow> path \<Rightarrow> go_error + byte list" where
  "opened_file fs p = (case efOpen fs p of Some err \<Rightarrow> Inl err
     | None \<Rightarrow> Inr (case map_of (efFiles fs) p of None \<Rightarrow> [] | Some c \<Rightarrow> c))"

text \<open>\<open>filepath.Glob\<close> of a directory without pattern characters and a name pattern: the names that
  match, sorted.\<close>

definition glob :: "(string \<Rightarrow> bool) \<Rightarrow> string \<Rightarrow> evidence_files \<Rightarrow> path list" where
  "glob matches directory fs = map (Pair directory)
     (sort (remdups (map snd (filter (\<lambda>p. fst p = directory \<and> matches (snd p)) (map fst (efFiles fs))))))"

definition jsonl_file :: "string \<Rightarrow> bool" where
  "jsonl_file name = suffix ''.jsonl'' name"

definition bwj_file :: "string \<Rightarrow> bool" where
  "bwj_file name \<longleftrightarrow> prefix ''bwj_'' name \<and> suffix ''.bwj'' name \<and> 8 \<le> length name"

section \<open>Lines\<close>

text \<open>\<open>bufio.Scanner\<close> with \<open>ScanLines\<close> and a buffer of at most 2 MiB: the lines without their ends, and
  whether a line was too long.\<close>

abbreviation (input) "maxTokenSize \<equiv> (2097152 :: nat)"
abbreviation (input) "newline \<equiv> (10 :: byte)"

definition drop_cr :: "byte list \<Rightarrow> byte list" where
  "drop_cr bs = (if bs \<noteq> [] \<and> last bs = 13 then butlast bs else bs)"

function scan_lines :: "byte list \<Rightarrow> byte list list \<times> bool" where
  "scan_lines bs =
    (if bs = [] then ([], False)
     else let line = takeWhile (\<lambda>b. b \<noteq> newline) bs in
       if length line < length bs then
         (if length line < maxTokenSize
          then (case scan_lines (drop (Suc (length line)) bs) of (ls, long) \<Rightarrow> (drop_cr line # ls, long))
          else ([], True))
       else if length bs < maxTokenSize then ([drop_cr bs], False)
       else ([], True))"
  by pat_completeness auto
termination
  by (relation "measure length") auto

declare scan_lines.simps [simp del]

definition ErrTooLong :: go_error where
  "ErrTooLong = Errorf ''bufio.Scanner: token too long'' []"

section \<open>Rows\<close>

record connection_row =
  crConnectionID :: string
  crSensorID :: string
  crRunSessionID :: string
  crConfigSHA256 :: string
  crServiceID :: string
  crOpenedAt :: int
  crClosedAt :: "int option"
  crSrcIP :: string
  crSrcPort :: int
  crDstIP :: string
  crDstPort :: int
  crProtocol :: string
  crBytesIn :: int
  crBytesOut :: int
  crRequestCount :: int
  crCloseReason :: string

record exchange_row =
  xrEvent :: event
  xrRequestSHA256 :: string

definition zero_row :: connection_row where
  "zero_row = \<lparr>crConnectionID = '''', crSensorID = '''', crRunSessionID = '''', crConfigSHA256 = '''', crServiceID = '''',
     crOpenedAt = 0, crClosedAt = None, crSrcIP = '''', crSrcPort = 0, crDstIP = '''', crDstPort = 0, crProtocol = '''',
     crBytesIn = 0, crBytesOut = 0, crRequestCount = 0, crCloseReason = ''''\<rparr>"

definition identified_row :: "event \<Rightarrow> int \<Rightarrow> connection_row \<Rightarrow> connection_row" where
  "identified_row e openedAt row = row\<lparr>crConnectionID := evConnectionID e, crSensorID := evSensorID e,
     crRunSessionID := evRunSessionID e, crConfigSHA256 := evConfigSHA256 e, crServiceID := evServiceID e,
     crOpenedAt := openedAt\<rparr>"

definition opened_row :: "event \<Rightarrow> connection_row" where
  "opened_row e = (identified_row e (evTimestampNS e) zero_row)\<lparr>crSrcIP := evSourceIP e, crSrcPort := evSourcePort e,
     crDstIP := evDestinationIP e, crDstPort := evDestinationPort e, crProtocol := evListenerProtocol e\<rparr>"

definition closed_row :: "event \<Rightarrow> connection_row \<Rightarrow> connection_row" where
  "closed_row e row0 =
    (let row = (if crConnectionID row0 = '''' then identified_row e (evTimestampNS e) row0 else row0)
     in row\<lparr>crClosedAt := Some (evTimestampNS e), crBytesIn := evBytesIn e, crBytesOut := evBytesOut e,
          crRequestCount := evRequestCount e, crCloseReason := evCloseReason e\<rparr>)"

text \<open>The map of the connections, and the exchanges.\<close>

type_synonym connection_rows = "(string \<times> connection_row) list"

definition index_event :: "event \<Rightarrow> connection_rows \<times> exchange_row list \<Rightarrow> connection_rows \<times> exchange_row list" where
  "index_event e = (\<lambda>(cs, xs).
     if evEventType e = ''connection_open'' then (AList.update (evConnectionID e) (opened_row e) cs, xs)
     else if evEventType e = ''connection_close'' then
       (let row = (case map_of cs (evConnectionID e) of None \<Rightarrow> zero_row | Some r \<Rightarrow> r)
        in (AList.update (evConnectionID e) (closed_row e row) cs, xs))
     else if evEventType e = ''exchange'' then (cs, xs @ [\<lparr>xrEvent = e, xrRequestSHA256 = ''''\<rparr>])
     else (cs, xs))"

fun index_lines :: "(byte list \<Rightarrow> go_error + event) \<Rightarrow> path \<Rightarrow> byte list list
    \<Rightarrow> connection_rows \<times> exchange_row list \<Rightarrow> go_error + connection_rows \<times> exchange_row list" where
  "index_lines unmarshal p [] st = Inr st"
| "index_lines unmarshal p (l # ls) st = (case unmarshal l of
     Inl err \<Rightarrow> Inl (Wrapf ''decode JSONL %s: %w'' [AStr (path_string p)] err)
   | Inr e \<Rightarrow> index_lines unmarshal p ls (index_event e st))"

definition index_file :: "(byte list \<Rightarrow> go_error + event) \<Rightarrow> evidence_files \<Rightarrow> path
    \<Rightarrow> connection_rows \<times> exchange_row list \<Rightarrow> go_error + connection_rows \<times> exchange_row list" where
  "index_file unmarshal fs p st = (case opened_file fs p of Inl err \<Rightarrow> Inl err
     | Inr bs \<Rightarrow> (case scan_lines bs of (ls, long) \<Rightarrow>
         (case index_lines unmarshal p ls st of Inl err \<Rightarrow> Inl err
          | Inr st' \<Rightarrow> if long then Inl ErrTooLong
              else if efEnd fs p \<noteq> EOF then Inl (efEnd fs p)
              else (case efClose fs p of Some err \<Rightarrow> Inl err | None \<Rightarrow> Inr st'))))"

fun index_files :: "(byte list \<Rightarrow> go_error + event) \<Rightarrow> evidence_files \<Rightarrow> path list
    \<Rightarrow> connection_rows \<times> exchange_row list \<Rightarrow> go_error + connection_rows \<times> exchange_row list" where
  "index_files unmarshal fs [] st = Inr st"
| "index_files unmarshal fs (p # ps) st = (case index_file unmarshal fs p st of Inl err \<Rightarrow> Inl err
     | Inr st' \<Rightarrow> index_files unmarshal fs ps st')"

definition readStructuredEvents :: "(byte list \<Rightarrow> go_error + event) \<Rightarrow> evidence_files \<Rightarrow> string
    \<Rightarrow> go_error + connection_rows \<times> exchange_row list" where
  "readStructuredEvents unmarshal fs directory = index_files unmarshal fs (glob jsonl_file directory fs) ([], [])"

section \<open>Streams\<close>

type_synonym stream_key = "string \<times> string"

record streams =
  siInbound :: "byte list"
  siOutbound :: "byte list"

type_synonym wire_map = "stream_key \<rightharpoonup> streams"

text \<open>A missing key reads as the zero value.\<close>

definition stream_of :: "wire_map \<Rightarrow> stream_key \<Rightarrow> streams" where
  "stream_of m key = (case m key of None \<Rightarrow> \<lparr>siInbound = [], siOutbound = []\<rparr> | Some s \<Rightarrow> s)"

definition add_record :: "string \<Rightarrow> bwj_record \<Rightarrow> wire_map \<Rightarrow> wire_map" where
  "add_record runID r m =
    (if rType r \<noteq> RecordData then m
     else let key = (runID, FormatID (ConnectionID r)); s = stream_of m key in
       m(key \<mapsto> (if rDirection r = DirectionInbound then s\<lparr>siInbound := siInbound s @ Payload r\<rparr>
                  else if rDirection r = DirectionOutbound then s\<lparr>siOutbound := siOutbound s @ Payload r\<rparr>
                  else s)))"

definition add_file :: "read_result \<Rightarrow> wire_map \<Rightarrow> wire_map" where
  "add_file res = fold (add_record (FormatID (RunSessionID (Header res)))) (Records res)"

fun read_journals :: "evidence_files \<Rightarrow> path list \<Rightarrow> go_error + read_result list" where
  "read_journals fs [] = Inr []"
| "read_journals fs (p # ps) = (case ReadBWJFile (opened_file fs p) (efEnd fs p) of
     Inl err \<Rightarrow> Inl (Wrapf ''read BWJ %s: %w'' [AStr (path_string p)] err)
   | Inr res \<Rightarrow> (case read_journals fs ps of Inl err \<Rightarrow> Inl err | Inr rest \<Rightarrow> Inr (res # rest)))"

text \<open>\<open>sort.Slice\<close> by the text of the run identifier, then by the number of the file.\<close>

definition journal_order :: "read_result \<Rightarrow> string \<times> u64" where
  "journal_order res = (FormatID (RunSessionID (Header res)), FileSequence (Header res))"

definition reconstructStreams :: "evidence_files \<Rightarrow> string \<Rightarrow> go_error + wire_map" where
  "reconstructStreams fs directory = (case read_journals fs (glob bwj_file directory fs) of Inl err \<Rightarrow> Inl err
     | Inr items \<Rightarrow> Inr (fold add_file (sort_key journal_order items) Map.empty))"

text \<open>\<open>SortBWJResults\<close> of \<open>internal/evidence/bwj.go\<close> puts results in the same order.\<close>

definition SortBWJResults :: "read_result list \<Rightarrow> read_result list" where
  "SortBWJResults results = sort_key journal_order results"

lemma reconstructStreams_sorts:
  "read_journals fs (glob bwj_file directory fs) = Inr items \<Longrightarrow>
     reconstructStreams fs directory = Inr (fold add_file (SortBWJResults items) Map.empty)"
  by (simp add: reconstructStreams_def SortBWJResults_def)

section \<open>Checking the exchanges\<close>

definition streamSliceSHA256 :: "(byte list \<Rightarrow> byte list) \<Rightarrow> byte list \<Rightarrow> int \<Rightarrow> int \<Rightarrow> go_error + string" where
  "streamSliceSHA256 sha256 stream start len =
    (if start < 0 \<or> len < 0 \<or> start > int (length stream) \<or> len > int (length stream) - start
     then Inl (Errorf ''stream range out of bounds start=%d length=%d stream_length=%d''
       [AInt start, AInt len, AInt (int (length stream))])
     else Inr (hex_encode (sha256 (take (nat len) (drop (nat start) stream)))))"

definition check_exchange :: "(byte list \<Rightarrow> byte list) \<Rightarrow> wire_map \<Rightarrow> exchange_row \<Rightarrow> go_error + exchange_row" where
  "check_exchange sha256 wire x =
    (let e = xrEvent x; stream = stream_of wire (evRunSessionID e, evConnectionID e) in
     case (if evRequestComplete e
           then (case streamSliceSHA256 sha256 (siInbound stream) (evRequestStreamStart e) (evRequestStreamLength e) of
               Inl err \<Rightarrow> Inl (Wrapf ''offline request range request_id=%s: %w'' [AStr (evRequestID e)] err)
             | Inr hash \<Rightarrow> Inr (x\<lparr>xrRequestSHA256 := hash\<rparr>))
           else Inr x) of
       Inl err \<Rightarrow> Inl err
     | Inr x' \<Rightarrow>
         if evResponseSHA256 e \<noteq> '''' then
           (case streamSliceSHA256 sha256 (siOutbound stream) (evResponseStreamStart e) (evResponseStreamLength e) of
              Inl err \<Rightarrow> Inl (Wrapf ''offline response range request_id=%s: %w'' [AStr (evRequestID e)] err)
            | Inr actual \<Rightarrow> if actual \<noteq> evResponseSHA256 e
                then Inl (Errorf ''response SHA-256 mismatch request_id=%s'' [AStr (evRequestID e)]) else Inr x')
         else Inr x')"

text \<open>A connection only known from an exchange gets a row.\<close>

definition ensure_row :: "event \<Rightarrow> connection_rows \<Rightarrow> connection_rows" where
  "ensure_row e cs = (if map_of cs (evConnectionID e) = None
     then AList.update (evConnectionID e) (identified_row e (evTimestampStartNS e) zero_row) cs else cs)"

fun check_exchanges :: "(byte list \<Rightarrow> byte list) \<Rightarrow> wire_map \<Rightarrow> exchange_row list \<Rightarrow> connection_rows
    \<Rightarrow> go_error + exchange_row list \<times> connection_rows" where
  "check_exchanges sha256 wire [] cs = Inr ([], cs)"
| "check_exchanges sha256 wire (x # xs) cs = (case check_exchange sha256 wire x of Inl err \<Rightarrow> Inl err
     | Inr x' \<Rightarrow> (case check_exchanges sha256 wire xs (ensure_row (xrEvent x) cs) of Inl err \<Rightarrow> Inl err
         | Inr (xs', cs') \<Rightarrow> Inr (x' # xs', cs')))"

section \<open>The statements\<close>

datatype sql_value = Null | Integer int | Text string

definition nullableInt :: "int option \<Rightarrow> sql_value" where
  "nullableInt v = (case v of None \<Rightarrow> Null | Some i \<Rightarrow> Integer i)"

definition nullableInt64 :: "int option \<Rightarrow> sql_value" where
  "nullableInt64 v = (case v of None \<Rightarrow> Null | Some i \<Rightarrow> Integer i)"

definition nullableTimestamp :: "int \<Rightarrow> sql_value" where
  "nullableTimestamp v = (if v = 0 then Null else Integer v)"

definition nullableString :: "string \<Rightarrow> sql_value" where
  "nullableString v = (if v = '''' then Null else Text v)"

definition boolInt :: "bool \<Rightarrow> int" where
  "boolInt v = (if v then 1 else 0)"

text \<open>\<open>tx.Exec\<close> of the two \<open>INSERT ... ON CONFLICT ... DO UPDATE\<close> statements with their values.\<close>

datatype sql_stmt = InsertConnection "sql_value list" | InsertExchange "sql_value list"

definition connection_values :: "connection_row \<Rightarrow> sql_value list" where
  "connection_values r = [Text (crConnectionID r), Text (crSensorID r), Text (crRunSessionID r), Text (crConfigSHA256 r),
     Text (crServiceID r), Integer (crOpenedAt r), nullableInt64 (crClosedAt r), Text (crSrcIP r), Integer (crSrcPort r),
     Text (crDstIP r), Integer (crDstPort r), Text (crProtocol r), Integer (crBytesIn r), Integer (crBytesOut r),
     Integer (crRequestCount r), nullableString (crCloseReason r)]"

definition exchange_values :: "exchange_row \<Rightarrow> sql_value list" where
  "exchange_values x = (let e = xrEvent x in
     [Text (evRequestID e), Text (evConnectionID e), Integer (evTimestampStartNS e), nullableTimestamp (evTimestampEndNS e),
      Text (evHTTPVersion e), Text (evMethod e), Text (evRawPath e), Text (encode_json (json_slice query_json (evQueryFields e))),
      Text (evContentType e), nullableInt64 (evDeclaredContentLength e),
      Text (encode_json (json_slice header_json (evSanitizedHeaders e))), Text (evMatchedRoute e), Text (evClassification e),
      Text (evResponseSource e), nullableInt (evResponseSequence e), Integer (evResponseStatus e),
      Integer (evRequestBytes e), Integer (evResponseBytes e), nullableString (xrRequestSHA256 x),
      nullableString (evResponseSHA256 e), Integer (evRequestStreamStart e), Integer (evRequestStreamLength e),
      Integer (evResponseStreamStart e), Integer (evResponseStreamLength e), Integer (boolInt (evRequestComplete e)),
      Integer (boolInt (evResponseComplete e)), nullableString (evWriteError e)])"

definition index_statements :: "connection_rows \<Rightarrow> exchange_row list \<Rightarrow> sql_stmt list" where
  "index_statements cs xs =
     map (\<lambda>id. InsertConnection (connection_values (the (map_of cs id)))) (sort (map fst cs)) @ map (InsertExchange \<circ> exchange_values) xs"

text \<open>What is used of \<open>database/sql\<close> and the driver.\<close>

record 'db sql_lib =
  sqOpen :: "string \<Rightarrow> go_error + 'db"
  sqSchema :: "'db \<Rightarrow> go_error option \<times> 'db"
  sqBegin :: "'db \<Rightarrow> go_error option \<times> 'db"
  sqExec :: "sql_stmt \<Rightarrow> 'db \<Rightarrow> go_error option \<times> 'db"
  sqCommit :: "'db \<Rightarrow> go_error option \<times> 'db"
  sqRollback :: "'db \<Rightarrow> 'db"
  sqClose :: "'db \<Rightarrow> 'db"

fun exec_all :: "'db sql_lib \<Rightarrow> sql_stmt list \<Rightarrow> 'db \<Rightarrow> go_error option \<times> 'db" where
  "exec_all sql [] db = (None, db)"
| "exec_all sql (s # ss) db = (case sqExec sql s db of (Some err, db') \<Rightarrow> (Some err, db') | (None, db') \<Rightarrow> exec_all sql ss db')"

text \<open>The deferred \<open>Rollback\<close> and \<open>Close\<close> run on every way out; \<open>None\<close> when no database was opened.\<close>

definition writeSQLite :: "'db sql_lib \<Rightarrow> string \<Rightarrow> connection_rows \<Rightarrow> exchange_row list \<Rightarrow> go_error option \<times> 'db option" where
  "writeSQLite sql path cs xs = (case sqOpen sql path of Inl err \<Rightarrow> (Some err, None)
     | Inr db \<Rightarrow> (case sqSchema sql db of (Some err, db1) \<Rightarrow> (Some err, Some (sqClose sql db1))
       | (None, db1) \<Rightarrow> (case sqBegin sql db1 of (Some err, db2) \<Rightarrow> (Some err, Some (sqClose sql db2))
         | (None, db2) \<Rightarrow> (case exec_all sql (index_statements cs xs) db2 of
             (Some err, db3) \<Rightarrow> (Some err, Some (sqClose sql (sqRollback sql db3)))
           | (None, db3) \<Rightarrow> (case sqCommit sql db3 of (err, db4) \<Rightarrow> (err, Some (sqClose sql (sqRollback sql db4))))))))"


section \<open>\<open>index.Run\<close>\<close>

definition SQLitePath :: "config \<Rightarrow> string" where
  "SQLitePath cfg = (case cfSQLitePath cfg of None \<Rightarrow> '''' | Some path \<Rightarrow> filepath_Clean path)"

text \<open>\<open>mkdirs\<close> is what \<open>os.MkdirAll\<close> answers. The result is the error and the database.\<close>

definition index_Run :: "'db sql_lib \<Rightarrow> (byte list \<Rightarrow> go_error + event) \<Rightarrow> (byte list \<Rightarrow> byte list)
    \<Rightarrow> (string \<Rightarrow> go_error option) \<Rightarrow> evidence_files \<Rightarrow> config \<Rightarrow> go_error option \<times> 'db option" where
  "index_Run sql unmarshal sha256 mkdirs fs cfg =
    (let path = SQLitePath cfg in
     if path = '''' then (Some (Errorf ''CONFIG_INVALID analysis.sqlite.path is required for index mode'' []), None)
     else (case mkdirs (filepath_Dir path) of Some err \<Rightarrow> (Some (Wrapf ''create SQLite directory: %w'' [] err), None)
     | None \<Rightarrow> (case readStructuredEvents unmarshal fs (roDirectory (evJSONL (cfEvidence cfg))) of Inl err \<Rightarrow> (Some err, None)
       | Inr (cs, xs) \<Rightarrow>
         (case reconstructStreams fs (roDirectory (evWireJournal (cfEvidence cfg))) of Inl err \<Rightarrow> (Some err, None)
          | Inr wire \<Rightarrow>
            (case check_exchanges sha256 wire xs cs of Inl err \<Rightarrow> (Some err, None)
             | Inr (xs', cs') \<Rightarrow> writeSQLite sql path cs' xs')))))"

end
