(* ===== verification/Http.thy ===== *)
theory Http
  imports Go_Strings
begin

text \<open>
  \<open>internal/engine/http.go\<close> and the part of \<open>net/http\<close> it reads: a parsed request as far as the
  engine looks at it, header access, the raw path of a request target, the protocol versions each
  listener serves and the \<open>Expect\<close> header. \<open>http.ReadRequest\<close> itself is a parameter of the
  connection handler (theory Exchange).
\<close>

section \<open>Requests\<close>

text \<open>\<open>http.Header\<close>: distinct names; the order of the list is the iteration order of the Go map.\<close>

type_synonym http_header = "(string \<times> string list) list"

record http_request =
  rqProtoMajor :: int
  rqProtoMinor :: int
  rqMethod :: string
  rqRequestURI :: string
  rqHost :: string
  rqHeader :: http_header
  rqContentLength :: int
  rqTransferEncoding :: "string list"
  rqClose :: bool
  rqRawQuery :: "string option"
  rqNoBody :: bool

definition header_values :: "http_header \<Rightarrow> string \<Rightarrow> string list" where
  "header_values h key = (case map_of h (canonical_key key) of None \<Rightarrow> [] | Some vs \<Rightarrow> vs)"

definition header_get :: "http_header \<Rightarrow> string \<Rightarrow> string" where
  "header_get h key = (case header_values h key of [] \<Rightarrow> '''' | v # vs \<Rightarrow> v)"

section \<open>\<open>http.go\<close>\<close>

definition cut_query :: "string \<Rightarrow> string" where
  "cut_query target = (case index_byte target (CHR ''?'') of Some i \<Rightarrow> take i target | None \<Rightarrow> target)"

text \<open>The loop over the runes of \<open>rest\<close> stops at the first slash or question mark.\<close>

definition rawPathFromTarget :: "string \<Rightarrow> string" where
  "rawPathFromTarget target =
    (if target = ''*'' then ''*''
     else if prefix ''/'' target then cut_query target
     else case index_str target ''://'' of
         Some scheme \<Rightarrow>
           (let rest = drop (scheme + 3) target;
                endAuthority = length (takeWhile (\<lambda>r. r \<noteq> CHR ''/'' \<and> r \<noteq> CHR ''?'') rest)
            in if endAuthority = length rest \<or> rest ! endAuthority = CHR ''?'' then ''''
               else cut_query (drop endAuthority rest))
       | None \<Rightarrow> '''')"

definition supportedPlainHTTP :: "http_request \<Rightarrow> bool" where
  "supportedPlainHTTP req \<longleftrightarrow> rqProtoMajor req = 1 \<and> (rqProtoMinor req = 0 \<or> rqProtoMinor req = 1)"

definition supportedHTTPSHTTP :: "http_request \<Rightarrow> bool" where
  "supportedHTTPSHTTP req \<longleftrightarrow> rqProtoMajor req = 1 \<and> rqProtoMinor req = 1"

definition expectMode :: "http_request \<Rightarrow> bool \<times> bool" where
  "expectMode req = (let val = trim_space (header_get (rqHeader req) ''Expect'') in
     if val = '''' then (False, False)
     else if equal_fold val ''100-continue'' then (True, False)
     else (False, True))"

definition interimContinueBytes :: "byte list" where
  "interimContinueBytes = bytes_of (''HTTP/1.1 100 Continue'' @ [CHR 0x0D, CHR 0x0A, CHR 0x0D, CHR 0x0A])"

definition requestProtocol :: "http_request \<Rightarrow> string" where
  "requestProtocol req = ''HTTP/'' @ itoa (rqProtoMajor req) @ ''.'' @ itoa (rqProtoMinor req)"

section \<open>The raw path\<close>

lemma cut_query_split: "\<exists>q. s = cut_query s @ q \<and> (q = [] \<or> hd q = CHR ''?'') \<and> CHR ''?'' \<notin> set (cut_query s)"
proof (cases "index_byte s (CHR ''?'')")
  case None
  then have "CHR ''?'' \<notin> set s" by simp
  then show ?thesis by (simp add: cut_query_def iffD2 [OF index_byte_None])
next
  case (Some i)
  note i = index_byte_Some [OF Some]
  then have "hd (drop i s) = CHR ''?''" by (simp add: hd_drop_conv_nth)
  then show ?thesis using i Some by (auto simp: cut_query_def intro!: exI [of _ "drop i s"])
qed

lemma cut_query_slash: "prefix ''/'' s \<Longrightarrow> prefix ''/'' (cut_query s)"
proof -
  assume s: "prefix ''/'' s"
  obtain q where q: "s = cut_query s @ q" "q = [] \<or> hd q = CHR ''?''" using cut_query_split by blast
  have "cut_query s \<noteq> []"
  proof
    assume "cut_query s = []"
    then have "s = q" using q(1) by simp
    then show False using s q(2) by (auto simp: prefix_def)
  qed
  then obtain c cs where c: "cut_query s = c # cs" by (cases "cut_query s") auto
  then have "s = c # cs @ q" using q(1) by simp
  then have "c = CHR ''/''" using s by (auto simp: prefix_def)
  then show ?thesis by (simp add: c prefix_def)
qed

text \<open>The raw path of a request target is \<open>*\<close>, empty, or starts with a slash and holds no query;
  it is a part of the target as it was sent, ended by the query or the end of the target: nothing is
  decoded, cleaned or added.\<close>

lemma rawPathFromTarget_shape:
  "rawPathFromTarget target \<in> {''*'', ''''}
   \<or> (prefix ''/'' (rawPathFromTarget target) \<and> CHR ''?'' \<notin> set (rawPathFromTarget target)
      \<and> (\<exists>a q. target = a @ rawPathFromTarget target @ q \<and> (q = [] \<or> hd q = CHR ''?'')))"
proof (cases "target = ''*'' \<or> \<not> prefix ''/'' target \<and> index_str target ''://'' = None")
  case True
  then show ?thesis by (auto simp: rawPathFromTarget_def)
next
  case notstar: False
  show ?thesis
  proof (cases "prefix ''/'' target")
    case True
    then have r: "rawPathFromTarget target = cut_query target" using notstar by (simp add: rawPathFromTarget_def)
    show ?thesis unfolding r using cut_query_slash [OF True] cut_query_split [of target]
      by (metis append_Nil)
  next
    case False
    then obtain i where i: "index_str target ''://'' = Some i" using notstar by auto
    define rest where "rest = drop (i + 3) target"
    define e where "e = length (takeWhile (\<lambda>r. r \<noteq> CHR ''/'' \<and> r \<noteq> CHR ''?'') rest)"
    have r: "rawPathFromTarget target = (if e = length rest \<or> rest ! e = CHR ''?'' then '''' else cut_query (drop e rest))"
      using i notstar False by (simp add: rawPathFromTarget_def rest_def e_def Let_def)
    show ?thesis
    proof (cases "e = length rest \<or> rest ! e = CHR ''?''")
      case True
      then show ?thesis by (simp add: r)
    next
      case inside: False
      have "e < length rest" using inside length_takeWhile_le [of _ rest] by (simp add: e_def le_neq_implies_less)
      then have "rest ! e = CHR ''/''" using nth_length_takeWhile [of _ rest] inside unfolding e_def by blast
      then have p: "prefix ''/'' (drop e rest)" using \<open>e < length rest\<close>
        by (simp add: Cons_nth_drop_Suc [symmetric])
      obtain q where q: "drop e rest = cut_query (drop e rest) @ q" "q = [] \<or> hd q = CHR ''?''"
          "CHR ''?'' \<notin> set (cut_query (drop e rest))" using cut_query_split by blast
      have "target = take (i + 3 + e) target @ drop e rest" by (simp add: rest_def add.commute)
      then have "target = take (i + 3 + e) target @ cut_query (drop e rest) @ q" using q(1) by simp
      then show ?thesis using cut_query_slash [OF p] q(2,3) inside by (auto simp: r)
    qed
  qed
qed

end
