(* ===== verification/Sanitize.thy ===== *)
theory Sanitize
  imports Events Http
begin

text \<open>
  What structured events show of a request (\<open>internal/evidence/jsonl.go\<close>): header metadata, query
  metadata and the sanitized target, with the parts of \<open>strings\<close> and \<open>net/url\<close> they use. SHA-256 is
  an argument. The theorems say what cannot leak: the value of a credential header and the value
  of a query field reach an event only through their length and their digest.
\<close>

section \<open>\<open>strings.Fields\<close>, \<open>url.QueryUnescape\<close>, \<open>url.QueryEscape\<close>\<close>

text \<open>The bytes up to the first white space.\<close>

fun take_word :: "string \<Rightarrow> string" where
  "take_word [] = []"
| "take_word (c # cs) = (if space_width spaces (c # cs) \<noteq> 0 then [] else c # take_word cs)"

function go_fields :: "string \<Rightarrow> string list" where
  "go_fields s = (let t = trim_left spaces s in
     if t = [] \<or> take_word t = [] then [] else take_word t # go_fields (drop (length (take_word t)) t))"
  by pat_completeness auto
termination
proof (relation "measure length")
  fix s t
  assume t: "t = trim_left spaces s" "\<not> (t = [] \<or> take_word t = [])"
  have "length (trim_left sps s) \<le> length s" for sps s
    by (induction sps s rule: trim_left.induct) (subst trim_left.simps, auto)
  then have "length t \<le> length s" by (simp add: t(1))
  moreover have "length (drop (length (take_word t)) t) < length t" using t(2) by simp
  ultimately show "(drop (length (take_word t)) t, s) \<in> measure length" by simp
qed simp

declare go_fields.simps [simp del]

text \<open>\<open>None\<close> stands for the \<open>EscapeError\<close> of a broken percent escape.\<close>

fun query_unescape :: "string \<Rightarrow> string option" where
  "query_unescape [] = Some []"
| "query_unescape (c # cs) =
    (if c = CHR ''%'' then
       (case cs of x # y # rest \<Rightarrow>
          (case (digit_value x, digit_value y) of
             (Some a, Some b) \<Rightarrow> map_option (\<lambda>t. char_of (16 * a + b) # t) (query_unescape rest)
           | _ \<Rightarrow> None)
        | _ \<Rightarrow> None)
     else map_option (\<lambda>t. (if c = CHR ''+'' then CHR '' '' else c) # t) (query_unescape cs))"

definition query_plain :: "char \<Rightarrow> bool" where
  "query_plain c = (let x = of_char c :: nat in
     48 \<le> x \<and> x \<le> 57 \<or> 65 \<le> x \<and> x \<le> 90 \<or> 97 \<le> x \<and> x \<le> 122 \<or> c \<in> set ''-_.~'')"

definition query_escape :: "string \<Rightarrow> string" where
  "query_escape s = concat (map (\<lambda>c. if query_plain c then [c] else if c = CHR '' '' then ''+''
     else [CHR ''%'', upper_char (digit (of_char c div 16)), upper_char (digit (of_char c mod 16))]) s)"

section \<open>Headers\<close>

definition credential_header :: "string \<Rightarrow> bool" where
  "credential_header lower \<longleftrightarrow>
     lower = ''authorization'' \<or> lower = ''proxy-authorization'' \<or> lower = ''cookie'' \<or> lower = ''set-cookie''"

definition authorization_header :: "string \<Rightarrow> bool" where
  "authorization_header lower \<longleftrightarrow> lower = ''authorization'' \<or> lower = ''proxy-authorization''"

text \<open>The body of the loop over the names.\<close>

definition header_meta :: "(byte list \<Rightarrow> byte list) \<Rightarrow> http_header \<Rightarrow> string \<Rightarrow> header_metadata" where
  "header_meta sha256 headers name =
    (let joined = join_strings '', '' (header_values headers name);
         meta = \<lparr>hmName = name, hmPresent = True, hmScheme = '''', hmLength = int (length joined),
           hmSHA256 = hex_encode (sha256 (bytes_of joined)), hmValue = '''', hmTruncated = False\<rparr>;
         lower = to_lower name
     in if credential_header lower then
          (let words = go_fields joined in
           if words \<noteq> [] \<and> authorization_header lower then meta\<lparr>hmScheme := hd words\<rparr> else meta)
        else if length joined > 1024 then meta\<lparr>hmValue := take 1024 joined, hmTruncated := True\<rparr>
        else meta\<lparr>hmValue := joined\<rparr>)"

definition SanitizeHeaders :: "(byte list \<Rightarrow> byte list) \<Rightarrow> http_header \<Rightarrow> int \<Rightarrow> header_metadata list \<times> bool" where
  "SanitizeHeaders sha256 headers maxHeaders =
    (let names = sort (map fst headers);
         truncated = (int (length names) > maxHeaders);
         names = (if int (length names) > maxHeaders then take (nat maxHeaders) names else names);
         out = map (header_meta sha256 headers) names
     in (out, truncated \<or> list_ex hmTruncated out))"

section \<open>Queries\<close>

definition cut_byte :: "char \<Rightarrow> string \<Rightarrow> string \<times> string option" where
  "cut_byte c s = (case index_byte s c of Some i \<Rightarrow> (take i s, Some (drop (Suc i) s)) | None \<Rightarrow> (s, None))"

text \<open>One field of the query, with the flag it adds.\<close>

definition query_field :: "(byte list \<Rightarrow> byte list) \<Rightarrow> string \<Rightarrow> query_metadata \<times> bool" where
  "query_field sha256 part =
    (let (nameRaw, rest) = cut_byte (CHR ''='') part;
         valueRaw = (case rest of Some v \<Rightarrow> v | None \<Rightarrow> '''');
         name = (case query_unescape nameRaw of Some n \<Rightarrow> n | None \<Rightarrow> ''<invalid-encoding>'');
         val = (case query_unescape valueRaw of Some v \<Rightarrow> v | None \<Rightarrow> valueRaw);
         truncated = (query_unescape nameRaw = None \<or> query_unescape valueRaw = None \<or> length name > 256);
         name = (if length name > 256 then take 256 name else name)
     in (\<lparr>qmName = name, qmLength = int (length val), qmSHA256 = hex_encode (sha256 (bytes_of val))\<rparr>, truncated))"

lemma cut_byte_shorter: "raw \<noteq> [] \<Longrightarrow> cut_byte c raw = (part, rest) \<Longrightarrow>
    length (case rest of Some r \<Rightarrow> r | None \<Rightarrow> '''') < length raw"
  by (cases "index_byte raw c") (auto simp: cut_byte_def)

function query_loop :: "(byte list \<Rightarrow> byte list) \<Rightarrow> int \<Rightarrow> string \<Rightarrow> query_metadata list \<Rightarrow> bool
    \<Rightarrow> query_metadata list \<times> bool" where
  "query_loop sha256 maxFields raw out truncated =
    (if raw = '''' then (out, truncated)
     else case cut_byte (CHR ''&'') raw of (part, rest) \<Rightarrow>
       let raw' = (case rest of Some r \<Rightarrow> r | None \<Rightarrow> '''') in
       if part = '''' then query_loop sha256 maxFields raw' out truncated
       else if int (length out) \<ge> maxFields then (out, True)
       else case query_field sha256 part of (meta, t) \<Rightarrow>
         query_loop sha256 maxFields raw' (out @ [meta]) (truncated \<or> t))"
  by pat_completeness auto
termination
proof (relation "measure (\<lambda>(s, m, raw, out, t). length raw)", goal_cases)
  case 1
  show ?case by simp
next
  case 2
  then show ?case using cut_byte_shorter [OF 2(1) 2(2) [symmetric]] by simp
next
  case 3
  then show ?case using cut_byte_shorter [OF 3(1) 3(2) [symmetric]] by simp
qed

declare query_loop.simps [simp del]

text \<open>The URL is given by its raw query, \<^const>\<open>None\<close> when the URL is nil.\<close>

definition QueryMetadataFromURL ::
  "(byte list \<Rightarrow> byte list) \<Rightarrow> string option \<Rightarrow> int \<Rightarrow> query_metadata list option \<times> bool" where
  "QueryMetadataFromURL sha256 u maxFields =
    (case u of None \<Rightarrow> (None, False)
     | Some raw \<Rightarrow> if raw = '''' \<or> maxFields \<le> 0 then (None, raw \<noteq> '''')
         else (case query_loop sha256 maxFields raw [] False of (out, t) \<Rightarrow> (Some out, t)))"

definition SanitizeRequestTarget ::
  "(byte list \<Rightarrow> byte list) \<Rightarrow> string \<Rightarrow> string option \<Rightarrow> int \<Rightarrow> string \<times> bool" where
  "SanitizeRequestTarget sha256 rawPath u maxFields =
    (case QueryMetadataFromURL sha256 u maxFields of (metas, truncated) \<Rightarrow>
       if slice_len metas = 0 then (rawPath, truncated)
       else (rawPath @ ''?'' @ join_strings ''&'' (map (\<lambda>f. query_escape (qmName f)) (the metas)), truncated))"

section \<open>What structured events may show\<close>

definition joined_values :: "http_header \<Rightarrow> string \<Rightarrow> string" where
  "joined_values headers name = join_strings '', '' (header_values headers name)"

text \<open>What is taken from the value of a credential header: its length, its digest and, for
  authorization headers, the first word (the scheme).\<close>

definition credential_view :: "(byte list \<Rightarrow> byte list) \<Rightarrow> http_header \<Rightarrow> string \<Rightarrow> nat \<times> byte list \<times> string option" where
  "credential_view sha256 headers name = (let joined = joined_values headers name in
     (length joined, sha256 (bytes_of joined),
      if authorization_header (to_lower name) \<and> go_fields joined \<noteq> [] then Some (hd (go_fields joined)) else None))"

lemma header_meta_view:
  assumes "credential_header (to_lower name) \<Longrightarrow> credential_view sha256 h' name = credential_view sha256 h name"
    and "\<not> credential_header (to_lower name) \<Longrightarrow> joined_values h' name = joined_values h name"
  shows "header_meta sha256 h' name = header_meta sha256 h name"
  using assms by (cases "credential_header (to_lower name)")
    (auto simp: header_meta_def credential_view_def joined_values_def Let_def split: if_splits)

definition shown_names :: "int \<Rightarrow> string list \<Rightarrow> string list" where
  "shown_names m names = (let ns = sort names in if int (length ns) > m then take (nat m) ns else ns)"

lemma SanitizeHeaders_names:
  "SanitizeHeaders sha256 h m = (let out = map (header_meta sha256 h) (shown_names m (map fst h))
     in (out, int (length h) > m \<or> list_ex hmTruncated out))"
  by (simp add: SanitizeHeaders_def shown_names_def Let_def)

lemma shown_names_subset: "set (shown_names m names) \<subseteq> set names"
  using set_take_subset [of "nat m" "sort names"] by (auto simp: shown_names_def Let_def)

lemma header_meta_name: "hmName (header_meta sha256 h name) = name"
  by (simp add: header_meta_def Let_def)

lemma header_meta_value:
  "length (hmValue (header_meta sha256 h name)) \<le> 1024
   \<and> (credential_header (to_lower name) \<longrightarrow> hmValue (header_meta sha256 h name) = '''')
   \<and> (\<not> hmTruncated (header_meta sha256 h name) \<longrightarrow> \<not> credential_header (to_lower name) \<longrightarrow>
        hmValue (header_meta sha256 h name) = joined_values h name)"
  by (simp add: header_meta_def joined_values_def Let_def)

text \<open>C37: The secret part of a credential header does not reach an event: two requests whose
  credentials have the same length, digest and authorization scheme are shown alike.\<close>

lemma SanitizeHeaders_conceals:
  assumes names: "map fst h' = map fst h"
    and secret: "\<forall>name \<in> fst ` set h. credential_header (to_lower name) \<longrightarrow>
        credential_view sha256 h' name = credential_view sha256 h name"
    and other: "\<forall>name \<in> fst ` set h. \<not> credential_header (to_lower name) \<longrightarrow>
        joined_values h' name = joined_values h name"
  shows "SanitizeHeaders sha256 h' m = SanitizeHeaders sha256 h m"
proof -
  have meta: "header_meta sha256 h' name = header_meta sha256 h name" if "name \<in> fst ` set h" for name
    using that secret other by (intro header_meta_view) auto
  have "set (shown_names m (map fst h)) \<subseteq> fst ` set h" using shown_names_subset [of m "map fst h"] by simp
  then have eq: "map (header_meta sha256 h') (shown_names m (map fst h)) = map (header_meta sha256 h) (shown_names m (map fst h))"
    using meta by auto
  have "length h' = length h" using arg_cong [OF names, of length] by simp
  then show ?thesis by (simp only: SanitizeHeaders_names names eq)
qed

text \<open>Two requests with different cookies of the same length, under a digest that does not tell them
  apart.\<close>

definition cookie_header :: "string \<Rightarrow> http_header" where
  "cookie_header v = [(''Accept'', [''*/*'']), (''Cookie'', [v])]"

lemma SanitizeHeaders_conceals_witness:
  "SanitizeHeaders (\<lambda>bs. [0]) (cookie_header ''sid=1'') 8 = SanitizeHeaders (\<lambda>bs. [0]) (cookie_header ''sid=2'') 8
   \<and> fst (SanitizeHeaders (\<lambda>bs. [0]) (cookie_header ''sid=1'') 8) \<noteq> []"
proof (rule conjI)
  show "SanitizeHeaders (\<lambda>bs. [0]) (cookie_header ''sid=1'') 8 = SanitizeHeaders (\<lambda>bs. [0]) (cookie_header ''sid=2'') 8"
  proof (rule SanitizeHeaders_conceals)
    show "map fst (cookie_header ''sid=1'') = map fst (cookie_header ''sid=2'')" by (simp add: cookie_header_def)
    show "\<forall>name \<in> fst ` set (cookie_header ''sid=2''). credential_header (to_lower name) \<longrightarrow>
        credential_view (\<lambda>bs. [0]) (cookie_header ''sid=1'') name = credential_view (\<lambda>bs. [0]) (cookie_header ''sid=2'') name"
      by code_simp
    show "\<forall>name \<in> fst ` set (cookie_header ''sid=2''). \<not> credential_header (to_lower name) \<longrightarrow>
        joined_values (cookie_header ''sid=1'') name = joined_values (cookie_header ''sid=2'') name"
      by code_simp
  qed
qed code_simp

text \<open>Headers shown are sorted, at most as many as configured, with values of at most 1024 bytes and
  none for credentials; when nothing is reported truncated, every header is there with its value.\<close>

lemma SanitizeHeaders_shows:
  assumes m: "0 \<le> m" and s: "SanitizeHeaders sha256 h m = (out, t)"
  shows "int (length out) \<le> m \<and> sorted (map hmName out)
    \<and> (\<forall>x \<in> set out. length (hmValue x) \<le> 1024 \<and> (credential_header (to_lower (hmName x)) \<longrightarrow> hmValue x = ''''))
    \<and> (\<not> t \<longrightarrow> map hmName out = sort (map fst h) \<and>
         (\<forall>x \<in> set out. \<not> credential_header (to_lower (hmName x)) \<longrightarrow> hmValue x = joined_values h (hmName x)))"
proof -
  define names where "names = shown_names m (map fst h)"
  have out: "out = map (header_meta sha256 h) names"
    and t: "t \<longleftrightarrow> int (length h) > m \<or> list_ex hmTruncated out"
    using s by (auto simp: SanitizeHeaders_names names_def Let_def)
  have ns: "map hmName out = names" by (simp add: out header_meta_name comp_def)
  have len: "int (length names) \<le> m" "sorted names"
    using m by (auto simp: names_def shown_names_def Let_def intro: sorted_wrt_take)
  have all: "names = sort (map fst h)" "x \<in> set out \<Longrightarrow> \<not> hmTruncated x" if "\<not> t" for x
    using that by (auto simp: t names_def shown_names_def Let_def list_ex_iff)
  have val: "length (hmValue x) \<le> 1024" "credential_header (to_lower (hmName x)) \<Longrightarrow> hmValue x = ''''"
      "\<not> hmTruncated x \<Longrightarrow> \<not> credential_header (to_lower (hmName x)) \<Longrightarrow> hmValue x = joined_values h (hmName x)"
    if "x \<in> set out" for x
    using that header_meta_value [of sha256 h "hmName x"] by (auto simp: out header_meta_name)
  have "length out = length names" by (simp add: out)
  then show ?thesis using len ns val all by simp
qed

text \<open>An authorization header without a scheme is shown whole: its only word is taken for the
  scheme.\<close>

lemma authorization_token_shown:
  assumes "joined_values h name = token" "authorization_header (to_lower name)" "token \<noteq> ''''" "take_word token = token"
  shows "hmScheme (header_meta sha256 h name) = token"
proof -
  have no: "space_width spaces token = 0" using assms(3,4) by (cases token) (auto split: if_splits)
  then have "trim_left spaces token = token" by (subst trim_left.simps) simp
  then have "go_fields token = token # go_fields ''''" using assms(3,4) by (subst go_fields.simps) (simp add: Let_def)
  moreover have "credential_header (to_lower name)" using assms(2) by (auto simp: credential_header_def authorization_header_def)
  ultimately show ?thesis using assms(1,2) by (simp add: header_meta_def joined_values_def Let_def)
qed

lemma authorization_token_shown_witness:
  "hmScheme (header_meta (\<lambda>bs. []) [(''Authorization'', [''sk-secret''])] ''Authorization'') = ''sk-secret''"
  by (rule authorization_token_shown; code_simp)

section \<open>Query fields\<close>

lemma cut_byte_found: "c \<notin> set p \<Longrightarrow> cut_byte c (p @ c # rest) = (p, Some rest)"
proof -
  assume "c \<notin> set p"
  then have "index_byte (p @ c # rest) c = Some (length p)" by (induction p) auto
  then show ?thesis by (simp add: cut_byte_def)
qed

lemma cut_byte_absent: "c \<notin> set p \<Longrightarrow> cut_byte c p = (p, None)"
proof -
  assume "c \<notin> set p"
  then have "index_byte p c = None" by simp
  then show ?thesis by (simp only: cut_byte_def option.case)
qed

text \<open>A query of named fields, and what is taken from a value.\<close>

definition query_of :: "(string \<times> string) list \<Rightarrow> string" where
  "query_of kvs = join_strings ''&'' (map (\<lambda>(n, v). n @ ''='' @ v) kvs)"

definition plain_pair :: "string \<times> string \<Rightarrow> bool" where
  "plain_pair = (\<lambda>(n, v). CHR ''&'' \<notin> set n \<and> CHR ''='' \<notin> set n \<and> CHR ''&'' \<notin> set v)"

definition decoded :: "string \<Rightarrow> string" where
  "decoded v = (case query_unescape v of Some t \<Rightarrow> t | None \<Rightarrow> v)"

definition value_view :: "(byte list \<Rightarrow> byte list) \<Rightarrow> string \<Rightarrow> nat \<times> byte list" where
  "value_view sha256 v = (length (decoded v), sha256 (bytes_of (decoded v)))"

definition broken :: "string \<Rightarrow> bool" where
  "broken v \<longleftrightarrow> query_unescape v = None"

lemma query_field_view:
  assumes "CHR ''='' \<notin> set n" "value_view sha256 v = value_view sha256 v'"
  shows "fst (query_field sha256 (n @ ''='' @ v)) = fst (query_field sha256 (n @ ''='' @ v'))"
    and "broken v = broken v' \<Longrightarrow> query_field sha256 (n @ ''='' @ v) = query_field sha256 (n @ ''='' @ v')"
  using assms by (cases "query_unescape v"; cases "query_unescape v'";
    simp add: query_field_def cut_byte_found value_view_def decoded_def broken_def Let_def)+

lemma query_loop_cons:
  assumes "plain_pair (n, v)"
  shows "query_loop sha256 m (query_of ((n, v) # kvs)) out t =
    (if int (length out) \<ge> m then (out, True)
     else case query_field sha256 (n @ ''='' @ v) of (meta, t') \<Rightarrow>
       query_loop sha256 m (query_of kvs) (out @ [meta]) (t \<or> t'))"
proof -
  let ?p = "n @ ''='' @ v"
  have p: "CHR ''&'' \<notin> set ?p" "?p \<noteq> ''''" using assms by (auto simp: plain_pair_def)
  have "cut_byte (CHR ''&'') (query_of ((n, v) # kvs)) = (?p, if kvs = [] then None else Some (query_of kvs))"
  proof (cases kvs)
    case Nil
    then show ?thesis using cut_byte_absent [OF p(1)] by (simp add: query_of_def)
  next
    case (Cons kv ks)
    then have "query_of ((n, v) # kvs) = ?p @ CHR ''&'' # query_of kvs" by (simp add: query_of_def split: prod.split)
    then show ?thesis using cut_byte_found [OF p(1)] Cons by simp
  qed
  moreover have "query_of ((n, v) # kvs) \<noteq> ''''" using p(2) by (cases kvs) (auto simp: query_of_def)
  moreover have "query_of [] = ''''" by (simp add: query_of_def)
  ultimately show ?thesis using p(2)
    by (subst query_loop.simps) (simp add: Let_def del: append_assoc split: prod.split)
qed

lemma query_loop_view:
  "list_all plain_pair kvs \<Longrightarrow> list_all plain_pair kvs' \<Longrightarrow>
   list_all2 (\<lambda>(n, v) (n', v'). n = n' \<and> value_view sha256 v = value_view sha256 v') kvs kvs' \<Longrightarrow>
   fst (query_loop sha256 m (query_of kvs) out t) = fst (query_loop sha256 m (query_of kvs') out t')
   \<and> (map (broken \<circ> snd) kvs = map (broken \<circ> snd) kvs' \<longrightarrow>
        query_loop sha256 m (query_of kvs) out t = query_loop sha256 m (query_of kvs') out t)"
proof (induction kvs kvs' arbitrary: out t t' rule: list_induct2')
  case 1
  then show ?case by (simp add: query_of_def query_loop.simps)
next
  case (4 kv kvs kv' kvs')
  obtain n v v' where kv: "kv = (n, v)" "kv' = (n, v')" "value_view sha256 v = value_view sha256 v'"
    using "4.prems"(3) by (cases kv, cases kv') auto
  have "CHR ''='' \<notin> set n" using "4.prems"(1) kv by (simp add: plain_pair_def)
  note same = query_field_view [OF this kv(3)]
  obtain x a b where x: "query_field sha256 (n @ ''='' @ v) = (x, a)" "query_field sha256 (n @ ''='' @ v') = (x, b)"
    using same(1) by (cases "query_field sha256 (n @ ''='' @ v)"; cases "query_field sha256 (n @ ''='' @ v')") simp
  have p: "plain_pair (n, v)" "plain_pair (n, v')" using "4.prems"(1,2) by (simp_all add: kv)
  note IH = "4.IH" [of "out @ [x]"]
  show ?case
  proof (cases "int (length out) \<ge> m")
    case True
    then show ?thesis by (simp add: kv(1,2) query_loop_cons [OF p(1)] query_loop_cons [OF p(2)])
  next
    case False
    then show ?thesis using IH "4.prems" same(2) x
      by (auto simp: kv(1,2) query_loop_cons [OF p(1)] query_loop_cons [OF p(2)])
  qed
qed simp_all

text \<open>C40: The value of a query field reaches an event and the sanitized target only through its length and
  digest: for queries with the same names whose values have the same decoded length and digest (of the
  value itself when its percent encoding is broken), the field metadata and the sanitized target are
  the same. The flag that says metadata is incomplete can tell one thing more, whether an encoding is
  broken: when the same values are broken the flags are the same too.\<close>

lemma query_values_concealed:
  assumes "list_all plain_pair kvs" "list_all plain_pair kvs'"
    and "list_all2 (\<lambda>(n, v) (n', v'). n = n' \<and> value_view sha256 v = value_view sha256 v') kvs kvs'"
  shows "fst (QueryMetadataFromURL sha256 (Some (query_of kvs)) m) = fst (QueryMetadataFromURL sha256 (Some (query_of kvs')) m)
    \<and> fst (SanitizeRequestTarget sha256 path (Some (query_of kvs)) m) = fst (SanitizeRequestTarget sha256 path (Some (query_of kvs')) m)
    \<and> (map (broken \<circ> snd) kvs = map (broken \<circ> snd) kvs' \<longrightarrow>
         QueryMetadataFromURL sha256 (Some (query_of kvs)) m = QueryMetadataFromURL sha256 (Some (query_of kvs')) m
         \<and> SanitizeRequestTarget sha256 path (Some (query_of kvs)) m = SanitizeRequestTarget sha256 path (Some (query_of kvs')) m)"
proof -
  have "query_of kvs = '''' \<longleftrightarrow> kvs = []" for kvs
    by (cases kvs rule: list.exhaust; cases "tl kvs") (auto simp: query_of_def split: prod.splits)
  then have e: "query_of kvs = '''' \<longleftrightarrow> query_of kvs' = ''''" using assms(3) by (auto dest: list_all2_lengthD)
  note loop = query_loop_view [OF assms, of m "[]" False False]
  have meta: "fst (QueryMetadataFromURL sha256 (Some (query_of kvs)) m) = fst (QueryMetadataFromURL sha256 (Some (query_of kvs')) m)"
    using loop e by (auto simp: QueryMetadataFromURL_def split: prod.splits)
  have flag: "QueryMetadataFromURL sha256 (Some (query_of kvs)) m = QueryMetadataFromURL sha256 (Some (query_of kvs')) m"
    if "map (broken \<circ> snd) kvs = map (broken \<circ> snd) kvs'"
    using loop e that by (simp add: QueryMetadataFromURL_def)
  have target: "fst (SanitizeRequestTarget sha256 path u m)
      = (let metas = fst (QueryMetadataFromURL sha256 u m) in if slice_len metas = 0 then path
         else path @ ''?'' @ join_strings ''&'' (map (\<lambda>f. query_escape (qmName f)) (the metas)))" for u
    by (simp add: SanitizeRequestTarget_def Let_def split: prod.split)
  have targets: "fst (SanitizeRequestTarget sha256 path (Some (query_of kvs)) m) = fst (SanitizeRequestTarget sha256 path (Some (query_of kvs')) m)"
    by (simp only: target meta)
  show ?thesis using meta flag targets by (simp add: SanitizeRequestTarget_def)
qed

text \<open>Two logins with different passwords; and a value with a broken encoding against one that decodes to
  it, which only the flag tells apart.\<close>

lemma query_values_concealed_witness:
  "SanitizeRequestTarget (\<lambda>bs. []) ''/login'' (Some (query_of [(''user'', ''bob''), (''pw'', ''a+b'')])) 4
     = SanitizeRequestTarget (\<lambda>bs. []) ''/login'' (Some (query_of [(''user'', ''eve''), (''pw'', ''xyz'')])) 4
   \<and> fst (SanitizeRequestTarget (\<lambda>bs. []) ''/login'' (Some (query_of [(''user'', ''bob''), (''pw'', ''a+b'')])) 4)
     = ''/login?user&pw''
   \<and> fst (QueryMetadataFromURL (\<lambda>bs. bs) (Some (query_of [(''a'', ''%zz'')])) 4)
     = fst (QueryMetadataFromURL (\<lambda>bs. bs) (Some (query_of [(''a'', ''%25zz'')])) 4)
   \<and> snd (QueryMetadataFromURL (\<lambda>bs. bs) (Some (query_of [(''a'', ''%zz'')])) 4)
   \<and> \<not> snd (QueryMetadataFromURL (\<lambda>bs. bs) (Some (query_of [(''a'', ''%25zz'')])) 4)"
proof (intro conjI)
  show "SanitizeRequestTarget (\<lambda>bs. []) ''/login'' (Some (query_of [(''user'', ''bob''), (''pw'', ''a+b'')])) 4
     = SanitizeRequestTarget (\<lambda>bs. []) ''/login'' (Some (query_of [(''user'', ''eve''), (''pw'', ''xyz'')])) 4"
    by (rule conjunct2 [OF mp [OF conjunct2 [OF conjunct2 [OF query_values_concealed]]]]; code_simp)
  show "fst (QueryMetadataFromURL (\<lambda>bs. bs) (Some (query_of [(''a'', ''%zz'')])) 4)
     = fst (QueryMetadataFromURL (\<lambda>bs. bs) (Some (query_of [(''a'', ''%25zz'')])) 4)"
    by (rule conjunct1 [OF query_values_concealed]; code_simp)
qed code_simp+

end
