(* ===== verification/Jsonl.thy ===== *)
theory Jsonl
  imports Sanitize Bwj_Codec
begin

text \<open>
  The structured event log \<open>JSONLWriter\<close> of \<open>internal/evidence/jsonl.go\<close>, over the host of theory
  Host: \<open>os.File\<close> handles that can be closed, \<open>bufio.Writer\<close> with its sticky error, and every
  method of the writer. Each method holds the writer's mutex, so it is a function of the writer and
  the host.
\<close>

section \<open>\<open>os.File\<close> and \<open>bufio.Writer\<close>\<close>

record os_file =
  ofPath :: path
  ofOpen :: bool

record bufio_writer =
  bfBuf :: "byte list"
  bfErr :: "go_error option"

text \<open>\<open>(*os.File).Write\<close> never returns a short count without an error.\<close>

definition os_write :: "os_file \<Rightarrow> host \<Rightarrow> byte list \<Rightarrow> (nat \<times> go_error option) \<times> host" where
  "os_write f h bs =
    (if \<not> ofOpen f then ((0, Some ErrClosed), h)
     else case file_write (ofPath f) h bs of ((n, e), h') \<Rightarrow>
       ((n, if e = None \<and> n \<noteq> length bs then Some ErrShortWrite else e), h'))"

definition os_sync :: "os_file \<Rightarrow> host \<Rightarrow> go_error option \<times> host" where
  "os_sync f h = (if ofOpen f then file_sync h else (Some ErrClosed, h))"

text \<open>A file is closed whatever \<open>Close\<close> reports.\<close>

definition os_close :: "os_file \<Rightarrow> host \<Rightarrow> go_error option \<times> os_file \<times> host" where
  "os_close f h = (if ofOpen f then (case file_close h of (e, h') \<Rightarrow> (e, f\<lparr>ofOpen := False\<rparr>, h'))
     else (Some ErrClosed, f, h))"

abbreviation (input) "bufioSize \<equiv> (65536 :: nat)"

definition bufio_flush :: "os_file \<Rightarrow> bufio_writer \<Rightarrow> host \<Rightarrow> go_error option \<times> bufio_writer \<times> host" where
  "bufio_flush f b h =
    (if bfErr b \<noteq> None then (bfErr b, b, h)
     else if bfBuf b = [] then (None, b, h)
     else case os_write f h (bfBuf b) of
       ((n, Some err), h') \<Rightarrow> (Some err, \<lparr>bfBuf = drop n (bfBuf b), bfErr = Some err\<rparr>, h')
     | ((n, None), h') \<Rightarrow> (None, b\<lparr>bfBuf := []\<rparr>, h'))"

lemma os_write_full: "os_write f h bs = ((n, None), h') \<Longrightarrow> n = length bs"
  by (auto simp: os_write_def split: if_splits prod.splits)

lemma bufio_flush_None: "bufio_flush f b h = (None, b', h') \<Longrightarrow> bfBuf b' = [] \<and> bfErr b' = None"
  by (auto simp: bufio_flush_def split: if_splits prod.splits option.splits)

lemma bufio_flush_Some: "bufio_flush f b h = (Some err, b', h') \<Longrightarrow> bfErr b' = Some err"
  by (auto simp: bufio_flush_def split: if_splits prod.splits option.splits)

function bufio_write :: "os_file \<Rightarrow> byte list \<Rightarrow> bufio_writer \<Rightarrow> host \<Rightarrow> go_error option \<times> bufio_writer \<times> host" where
  "bufio_write f p b h =
    (if bfErr b \<noteq> None then (bfErr b, b, h)
     else if length p \<le> bufioSize - length (bfBuf b) then (None, b\<lparr>bfBuf := bfBuf b @ p\<rparr>, h)
     else if bfBuf b = [] then
       (case os_write f h p of ((n, e), h') \<Rightarrow> bufio_write f (drop n p) (b\<lparr>bfErr := e\<rparr>) h')
     else
       (let k = bufioSize - length (bfBuf b) in
        case bufio_flush f (b\<lparr>bfBuf := bfBuf b @ take k p\<rparr>) h of (e, b', h') \<Rightarrow> bufio_write f (drop k p) b' h'))"
  by pat_completeness auto
termination
proof (relation "measure (\<lambda>(f, p, b, h). (if bfErr b = None then Suc (length p + length (bfBuf b)) else 0))", goal_cases)
  case 1
  show ?case by simp
next
  case (2 f p b h x h' n e)
  then show ?case using os_write_full [of f h p n h'] by (cases e) auto
next
  case (3 f p b h k e y b' h')
  let ?b = "b\<lparr>bfBuf := bfBuf b @ take k p\<rparr>"
  have op: "bufio_flush f ?b h = (e, b', h')" using 3 by simp
  show ?case
  proof (cases e)
    case None
    then have "bfBuf b' = []" using bufio_flush_None op by blast
    moreover have "bfErr b = None" "bfBuf b \<noteq> []" using 3 by simp_all
    ultimately show ?thesis by (cases "bfBuf b") auto
  next
    case (Some err)
    then have "bfErr b' = Some err" using bufio_flush_Some op by blast
    moreover have "bfErr b = None" using 3 by simp
    ultimately show ?thesis by simp
  qed
qed

declare bufio_write.simps [simp del]

section \<open>The writer\<close>

record jsonl_writer =
  jwDirectory :: string
  jwRunSessionID :: ID
  jwRotateSize :: int
  jwRotateDuration :: int
  jwMaxEventBytes :: int
  jwFile :: "os_file option"
  jwBuffer :: bufio_writer
  jwSequence :: u64
  jwCreatedAt :: int
  jwBytesWritten :: int
  jwClosed :: bool

type_synonym jsonl_result = "go_error option \<times> jsonl_writer \<times> host"

definition jsonl_name :: "ID \<Rightarrow> u64 \<Rightarrow> string" where
  "jsonl_name run seq = ''events_'' @ FormatID run @ ''_'' @ pad20 (unat seq) @ ''.jsonl''"

definition empty_buffer :: bufio_writer where
  "empty_buffer = \<lparr>bfBuf = [], bfErr = None\<rparr>"

definition jsonl_openNextLocked :: "jsonl_writer \<Rightarrow> host \<Rightarrow> jsonl_result" where
  "jsonl_openNextLocked w0 h =
    (let w = w0\<lparr>jwSequence := jwSequence w0 + 1\<rparr>;
         path = (jwDirectory w, jsonl_name (jwRunSessionID w) (jwSequence w))
     in case open_excl path h of (Some err, h1) \<Rightarrow> (Some err, w, h1)
        | (None, h1) \<Rightarrow> (case now h1 of (t, h2) \<Rightarrow>
            (None, w\<lparr>jwFile := Some \<lparr>ofPath = path, ofOpen = True\<rparr>, jwBuffer := empty_buffer, jwCreatedAt := t,
               jwBytesWritten := 0\<rparr>, h2)))"

definition NewJSONLWriter ::
  "string \<Rightarrow> ID \<Rightarrow> int \<Rightarrow> int \<Rightarrow> int \<Rightarrow> host \<Rightarrow> (go_error + jsonl_writer) \<times> host" where
  "NewJSONLWriter directory runSessionID rotateSizeBytes rotateSeconds maxEventBytes h =
    (case CheckWritable directory h of (Some err, h1) \<Rightarrow> (Inl err, h1)
     | (None, h1) \<Rightarrow>
       let w = \<lparr>jwDirectory = directory, jwRunSessionID = runSessionID, jwRotateSize = rotateSizeBytes,
                jwRotateDuration = sint (word_of_int (rotateSeconds * 1000000000) :: u64),
                jwMaxEventBytes = maxEventBytes, jwFile = None, jwBuffer = empty_buffer, jwSequence = 0,
                jwCreatedAt = 0, jwBytesWritten = 0, jwClosed = False\<rparr>
       in case jsonl_openNextLocked w h1 of (Some err, w', h2) \<Rightarrow> (Inl err, h2) | (None, w', h2) \<Rightarrow> (Inr w', h2))"

definition jsonl_shouldRotateLocked :: "int \<Rightarrow> jsonl_writer \<Rightarrow> host \<Rightarrow> bool \<times> host" where
  "jsonl_shouldRotateLocked next w h =
    (if jwFile w = None then (True, h)
     else if jwRotateSize w > 0 \<and> jwBytesWritten w > 0 \<and> jwBytesWritten w + next > jwRotateSize w then (True, h)
     else if jwRotateDuration w > 0 then (case now h of (t, h') \<Rightarrow> (t - jwCreatedAt w \<ge> jwRotateDuration w, h'))
     else (False, h))"

text \<open>\<open>w.buffer\<close> and \<open>w.file\<close> are set together, so they are nil together.\<close>

definition jsonl_rotateLocked :: "jsonl_writer \<Rightarrow> host \<Rightarrow> jsonl_result" where
  "jsonl_rotateLocked w h = (case jwFile w of None \<Rightarrow> jsonl_openNextLocked w h
     | Some f \<Rightarrow>
       (case bufio_flush f (jwBuffer w) h of
          (Some err, b, h1) \<Rightarrow> (Some err, w\<lparr>jwBuffer := b\<rparr>, h1)
        | (None, b, h1) \<Rightarrow>
          (case os_sync f h1 of (Some err, h2) \<Rightarrow> (Some err, w\<lparr>jwBuffer := b\<rparr>, h2)
           | (None, h2) \<Rightarrow>
             (case os_close f h2 of
                (Some err, f', h3) \<Rightarrow> (Some err, w\<lparr>jwBuffer := b, jwFile := Some f'\<rparr>, h3)
              | (None, f', h3) \<Rightarrow> jsonl_openNextLocked (w\<lparr>jwBuffer := b, jwFile := Some f'\<rparr>) h3))))"

abbreviation (input) "EventSchemaVersion \<equiv> (1 :: int)"

definition stamp_event :: "event \<Rightarrow> host \<Rightarrow> event \<times> host" where
  "stamp_event e0 h =
    (let e = (if evEventSchemaVersion e0 = 0 then e0\<lparr>evEventSchemaVersion := EventSchemaVersion\<rparr> else e0)
     in if evTimestampNS e = 0 then (case now h of (t, h') \<Rightarrow> (e\<lparr>evTimestampNS := t\<rparr>, h')) else (e, h))"

text \<open>The write and the flush of an encoded line; \<open>w.file\<close> is not nil there.\<close>

definition append_line :: "byte list \<Rightarrow> os_file \<Rightarrow> jsonl_writer \<Rightarrow> host \<Rightarrow> jsonl_result" where
  "append_line line f w h =
    (case bufio_write f line (jwBuffer w) h of
       (Some err, b, h1) \<Rightarrow> (Some (Wrapf ''JSONL write: %w'' [] err), w\<lparr>jwBuffer := b\<rparr>, h1)
     | (None, b, h1) \<Rightarrow>
       (case bufio_flush f b h1 of
          (Some err, b', h2) \<Rightarrow> (Some (Wrapf ''JSONL flush: %w'' [] err), w\<lparr>jwBuffer := b'\<rparr>, h2)
        | (None, b', h2) \<Rightarrow> (None, w\<lparr>jwBuffer := b', jwBytesWritten := jwBytesWritten w + int (length line)\<rparr>, h2)))"

definition WriteEvent :: "event \<Rightarrow> jsonl_writer \<Rightarrow> host \<Rightarrow> jsonl_result" where
  "WriteEvent e0 w h =
    (if jwClosed w then (Some ErrClosed, w, h)
     else case stamp_event e0 h of (e, h1) \<Rightarrow>
       if jwMaxEventBytes w \<le> 1 then (Some (Errorf ''max_structured_event_bytes is too small'' []), w, h1)
       else (case boundedEventJSON e (jwMaxEventBytes w - 1) of Inl err \<Rightarrow> (Some err, w, h1)
        | Inr encoded \<Rightarrow>
          let line = bytes_of (encoded @ [CHR 0x0A]) in
          case jsonl_shouldRotateLocked (int (length line)) w h1 of (due, h2) \<Rightarrow>
          (case (if due then jsonl_rotateLocked w h2 else (None, w, h2)) of
             (Some err, w1, h3) \<Rightarrow> (Some err, w1, h3)
           | (None, w1, h3) \<Rightarrow>
             (case jwFile w1 of None \<Rightarrow> (Some (Errorf ''nil file'' []), w1, h3)
              | Some f \<Rightarrow> append_line line f w1 h3))))"

definition JSONLWriter_Close :: "jsonl_writer \<Rightarrow> host \<Rightarrow> jsonl_result" where
  "JSONLWriter_Close w0 h =
    (if jwClosed w0 then (None, w0, h)
     else let w = w0\<lparr>jwClosed := True\<rparr> in
       (case jwFile w of None \<Rightarrow> (None, w, h)
        | Some f \<Rightarrow>
          (case bufio_flush f (jwBuffer w) h of
             (Some err, b, h1) \<Rightarrow> (case os_close f h1 of (_, f', h2) \<Rightarrow> (Some err, w\<lparr>jwBuffer := b, jwFile := Some f'\<rparr>, h2))
           | (None, b, h1) \<Rightarrow>
             (case os_sync f h1 of
                (Some err, h2) \<Rightarrow> (case os_close f h2 of (_, f', h3) \<Rightarrow> (Some err, w\<lparr>jwBuffer := b, jwFile := Some f'\<rparr>, h3))
              | (None, h2) \<Rightarrow> (case os_close f h2 of (e, f', h3) \<Rightarrow> (e, w\<lparr>jwBuffer := b, jwFile := None\<rparr>, h3))))))"

end
