(* ===== verification/Bwj_Spec.thy ===== *)
theory Bwj_Spec
  imports Bwj_Journal
begin

text \<open>
  What the users of the Binary Wire Journal (\<open>internal/evidence/bwj.go\<close>) may rely on: the
  properties of identifiers, of the file format and its reader, and of the writer, each with an
  application to a concrete run on a host where nothing fails.
\<close>

section \<open>A host on which nothing fails\<close>

definition quiet :: host where
  "quiet = \<lparr>clock = 7, ticks = [], randoms = [], files = [], writes = [], opens = [], syncs = [],
     closes = [], removes = [], stats = (\<lambda>_. Inr True), frees = []\<rparr>"

lemmas host_ops = now_def rand_read_def open_excl_def file_write_def file_sync_def file_close_def
  file_remove_def fs_append_def content_def

definition run0 :: ID where "run0 = replicate 16 1"

definition writer0 :: bwj_writer where
  "writer0 = \<lparr>bwDirectory = ''d'', bwRunSessionID = run0, bwRotateSize = 0, bwRotateDuration = 0,
     bwFile = None, bwFileSequence = 0, bwRecordSequence = 0, bwCreatedAt = 0, bwBytesWritten = 0,
     bwClosed = False, bwFailed = None\<rparr>"

section \<open>Opening a journal\<close>

lemma CheckWritable_files:
  assumes "CheckWritable path h = (None, h')"
  shows "files h' = files h"
proof -
  obtain nonce h1 where r: "rand_read 8 h = (Inr nonce, h1)"
    using assms by (auto simp: CheckWritable_def split: option.splits prod.splits sum.splits)
  let ?p = "(path, ''.notaihoney-write-probe-'' @ hex_encode nonce)"
  obtain h2 h3 where o: "open_excl ?p h1 = (None, h2)" "file_close h2 = (None, h3)" "file_remove ?p h3 = (None, h')"
    using assms r by (auto simp: CheckWritable_def Let_def split: option.splits prod.splits sum.splits)
  have "files h1 = files h" using rand_read_frame [of 8 h] r by simp
  moreover have "\<not> exists_file ?p h1" "files h2 = files h1 @ [(?p, [])]" using open_excl_ok [OF o(1)] by auto
  moreover have "files h3 = files h2" using file_close_frame [of h2] o(2) by simp
  moreover have "files h' = filter (\<lambda>(q, c). q \<noteq> ?p) (files h3)"
    using o(3) by (auto simp: file_remove_def Let_def split: prod.splits option.splits)
  ultimately show ?thesis
    by (auto simp: exists_file_def filter_id_conv image_iff split_def)
qed

lemma NewBWJWriter_inv:
  assumes run: "length run = 16" and fresh: "\<And>s. \<not> exists_file (dir, bwj_name run s) h"
    and op: "NewBWJWriter dir run rsize secs h = (Inr w, h')"
  shows "\<exists>fh. journal_inv w h' [(fh, [])]" "bwRotateSize w = rsize"
proof -
  let ?w = "\<lparr>bwDirectory = dir, bwRunSessionID = run, bwRotateSize = rsize,
      bwRotateDuration = sint (word_of_int (secs * Second) :: u64), bwFile = None, bwFileSequence = 0,
      bwRecordSequence = 0, bwCreatedAt = 0, bwBytesWritten = 0, bwClosed = False, bwFailed = None\<rparr>"
  obtain h1 where cw: "CheckWritable dir h = (None, h1)" and op1: "openNextLocked ?w h1 = (None, w, h')"
    using op by (auto simp: NewBWJWriter_def Let_def split: option.splits prod.splits)
  have "\<not> exists_file (dir, bwj_name run s) h1" for s
    using fresh by (simp add: same_files(2) [OF CheckWritable_files [OF cw]])
  then have "journal_base ?w h1 []"
    using run by (simp add: journal_base_def journal_files_def bwj_path_def)
  from openNext_effect [OF this op1] show "\<exists>fh. journal_inv w h' [(fh, [])]" by auto
  show "bwRotateSize w = rsize"
    using op1 by (auto simp: openNextLocked_def Let_def split: option.splits prod.splits)
qed

lemma journal_inv_single:
  assumes "journal_inv w h [(fh, [])]" "Suc n < 2 ^ 64"
  shows "bwj_live n (w, h)" "journal_log (w, h) = []"
proof -
  have "bwFileSequence w = 1" "bwRecordSequence w = 0" using assms(1) by (simp_all add: journal_inv_def)
  then show "bwj_live n (w, h)" using assms by (auto simp: bwj_live_def room_def)
  show "journal_log (w, h) = []" using journal_inv_nonfatal [OF assms(1)] by (simp add: Jlog_def)
qed


text \<open>A writer that was opened for a fresh run identifier holds the empty journal: its first
  file exists with a complete header, and (up to the width of the 64-bit counters) any number of
  records can follow.\<close>

lemma NewBWJWriter_fresh:
  assumes "length run = 16" "\<forall>s. \<not> exists_file (dir, bwj_name run s) h"
    and "NewBWJWriter dir run rsize secs h = (Inr w, h')" and "Suc n < 2 ^ 64"
  shows "bwj_live n (w, h') \<and> journal_log (w, h') = []
    \<and> CurrentFilename w = bwj_name run 1 \<and> length (content (dir, bwj_name run 1) h') = 64"
proof -
  obtain fh where i: "journal_inv w h' [(fh, [])]" using NewBWJWriter_inv(1) assms(1-3) by blast
  have w: "bwRunSessionID w = run" "bwDirectory w = dir"
    using assms(3) by (auto simp: NewBWJWriter_def openNextLocked_def Let_def split: option.splits prod.splits)
  have "good_header fh" using i by (simp add: journal_inv_def journal_files_def good_file_def)
  then have "length (content (bwj_path w 0) h') = 64"
    using i by (simp add: journal_inv_def journal_files_def file_bytes_def encode_records_def length_encode_header)
  then show ?thesis using journal_inv_single [OF i assms(4)] journal_inv_nonfatal [OF i] w
    by (simp add: CurrentFilename_def bwj_path_def)
qed

text \<open>The concrete run of the examples: a journal in an empty directory.\<close>

definition opened :: "(go_error + bwj_writer) \<times> host" where
  "opened = NewBWJWriter ''d'' run0 200 0 quiet"

definition oW :: bwj_writer where "oW = projr (fst opened)"
definition oH :: host where "oH = snd opened"

lemma opened: "NewBWJWriter ''d'' run0 200 0 quiet = (Inr oW, oH)"
proof -
  have "\<not> isl (fst opened)" by code_simp
  then show ?thesis by (simp add: oW_def oH_def opened_def [symmetric] prod_eq_iff sum.collapse)
qed

lemma quiet_fresh: "\<not> exists_file p quiet"
  by (simp add: exists_file_def quiet_def)

lemma opened_inv: "\<exists>fh. journal_inv oW oH [(fh, [])]"
  by (rule NewBWJWriter_inv(1) [OF _ _ opened]) (simp_all add: run0_def quiet_fresh)

lemma opened_live: "Suc n < 2 ^ 64 \<Longrightarrow> bwj_live n (oW, oH)"
  using opened_inv journal_inv_single by blast

lemma NewBWJWriter_fresh_witness:
  "bwj_live 5 (oW, oH) \<and> journal_log (oW, oH) = [] \<and> CurrentFilename oW = bwj_name run0 1
    \<and> length (content (''d'', bwj_name run0 1) oH) = 64"
  by (rule NewBWJWriter_fresh [OF _ _ opened]) (simp_all add: run0_def quiet_fresh)

section \<open>Writing\<close>

lemma good_data_entries:
  "length cid = 16 \<Longrightarrow> length rid = 16 \<Longrightarrow> d = DirectionInbound \<or> d = DirectionOutbound \<Longrightarrow>
     list_all good_entry (data_entries cid rid d f data)"
  by (auto simp: data_entries_def list_all_iff good_entry_def)

lemma chunk_sizes: "c \<in> set (chunks data) \<Longrightarrow> c \<noteq> [] \<and> length c \<le> 65536"
proof (induction data rule: chunks.induct)
  case (1 data)
  then show ?case by (subst (asm) (2) chunks.simps) (auto split: if_splits)
qed

lemma WriteData_seq:
  assumes "WriteData cid rid d f data w h = (r, w', h')"
  shows "d \<noteq> DirectionInbound \<and> d \<noteq> DirectionOutbound \<and> r \<noteq> None \<and> (w', h') = (w, h)
    \<or> (d = DirectionInbound \<or> d = DirectionOutbound)
      \<and> put_seq put_entry (data_entries cid rid d f data) (w, h) = (r, w', h')"
  using assms by (auto simp: WriteData_def write_data_loop_seq split: if_splits)

text \<open>C24: What \<open>WriteData\<close> acknowledged is on disk: the journal that the reader recovers has grown
  by exactly the data, cut into DATA records of at most 65536 bytes under the given connection,
  request, direction and flags, in order and once.\<close>

lemma WriteData_acknowledged:
  assumes "bwj_live (length (chunks data) + n) (w, h)" "length cid = 16" "length rid = 16"
    and "WriteData cid rid d f data w h = (None, w', h')"
  shows "bwj_live n (w', h')
    \<and> journal_log (w', h') = journal_log (w, h) @ map (Entry RecordData d f cid rid) (chunks data)
    \<and> concat (chunks data) = data \<and> (\<forall>c \<in> set (chunks data). c \<noteq> [] \<and> length c \<le> 65536)"
proof -
  have d: "d = DirectionInbound \<or> d = DirectionOutbound"
    and p: "put_seq put_entry (data_entries cid rid d f data) (w, h) = (None, w', h')"
    using WriteData_seq [OF assms(4)] by auto
  have "bwj_live n (w', h') \<and> journal_log (w', h') = journal_log (w, h) @ data_entries cid rid d f data"
    by (rule bwj.seq_ok [OF _ good_data_entries [OF assms(2,3) d] p]) (simp add: data_entries_def assms(1))
  then show ?thesis by (simp add: data_entries_def concat_chunks chunk_sizes)
qed

lemma WriteData_acknowledged_witness:
  "\<exists>w' h'. WriteData run0 zero_id DirectionInbound 0 [1, 2, 3] oW oH = (None, w', h')
    \<and> journal_log (w', h') = [Entry RecordData DirectionInbound 0 run0 zero_id [1, 2, 3]]"
proof -
  have ok: "fst (WriteData run0 zero_id DirectionInbound 0 [1, 2, 3] oW oH) = None" by code_simp
  have c: "chunks [1, 2, 3] = [[1, 2, 3]]" by (simp add: chunks.simps)
  obtain w' h' where w: "WriteData run0 zero_id DirectionInbound 0 [1, 2, 3] oW oH = (None, w', h')"
    using ok by (metis prod.collapse)
  have "journal_log (oW, oH) = []" using opened_inv journal_inv_single(2) [of oW oH _ 0] by auto
  then show ?thesis
    using WriteData_acknowledged [OF _ _ _ w, of 5] opened_live [of 6] w by (simp add: c run0_def)
qed

text \<open>C25: Whatever the disk does (short writes, errors at any byte, a failed rotation), after
  \<open>WriteData\<close> the journal that the reader recovers is the old one followed by some of the chunks,
  in order and without a gap; so the recovered bytes are a prefix of the data, and all of it when
  nil was returned.\<close>

lemma WriteData_prefix:
  assumes "bwj_live (length (chunks data) + n) (w, h)" "length cid = 16" "length rid = 16"
    and "WriteData cid rid d f data w h = (r, w', h')"
  shows "\<exists>cs. journal_log (w', h') = journal_log (w, h) @ map (Entry RecordData d f cid rid) cs
    \<and> prefix cs (chunks data) \<and> prefix (concat cs) data \<and> (r = None \<longrightarrow> concat cs = data)"
  using WriteData_seq [OF assms(4)]
proof
  assume "d \<noteq> DirectionInbound \<and> d \<noteq> DirectionOutbound \<and> r \<noteq> None \<and> (w', h') = (w, h)"
  then show ?thesis by (intro exI [of _ "[]"]) auto
next
  assume p: "(d = DirectionInbound \<or> d = DirectionOutbound)
      \<and> put_seq put_entry (data_entries cid rid d f data) (w, h) = (r, w', h')"
  have "\<exists>k \<le> length (data_entries cid rid d f data).
      journal_log (w', h') = journal_log (w, h) @ take k (data_entries cid rid d f data)
      \<and> (r = None \<longrightarrow> k = length (data_entries cid rid d f data))"
    using p assms(1-3) by (intro bwj.seq_prefix [of _ n] good_data_entries) (simp_all add: data_entries_def)
  then obtain k where k: "journal_log (w', h') = journal_log (w, h) @ take k (data_entries cid rid d f data)"
      "r = None \<longrightarrow> k = length (chunks data)" by (auto simp: data_entries_def)
  have "chunks data = take k (chunks data) @ drop k (chunks data)" by simp
  then have "concat (chunks data) = concat (take k (chunks data)) @ concat (drop k (chunks data))"
    by (metis concat_append)
  then have "prefix (concat (take k (chunks data))) data" by (metis concat_chunks prefixI)
  moreover have "r = None \<Longrightarrow> concat (take k (chunks data)) = data" using k(2) by (simp add: concat_chunks)
  ultimately show ?thesis using k(1)
    by (intro exI [of _ "take k (chunks data)"]) (simp add: data_entries_def take_map take_is_prefix)
qed

text \<open>The concrete failure: the disk takes 65 bytes of a record (one byte of its payload) and then
  reports an error.\<close>

definition broken :: host where
  "broken = oH\<lparr>writes := [(64, None), (1, Some (OsError ''no space left on device'' False))]\<rparr>"

lemma broken_live: "Suc n < 2 ^ 64 \<Longrightarrow> bwj_live n (oW, broken)" "journal_log (oW, broken) = []"
proof -
  have "files broken = files oH" by (simp add: broken_def)
  then obtain fh where "journal_inv oW broken [(fh, [])]" using opened_inv journal_inv_clock by blast
  then show "Suc n < 2 ^ 64 \<Longrightarrow> bwj_live n (oW, broken)" "journal_log (oW, broken) = []"
    using journal_inv_single [of oW broken fh n] journal_inv_single(2) [of oW broken fh 0] by auto
qed

lemma WriteData_prefix_witness:
  "\<exists>err w' h' cs. WriteData run0 zero_id DirectionInbound 0 [1, 2, 3] oW broken = (Some err, w', h')
    \<and> journal_log (w', h') = map (Entry RecordData DirectionInbound 0 run0 zero_id) cs
    \<and> prefix (concat cs) [1, 2, 3]"
proof -
  have bad: "fst (WriteData run0 zero_id DirectionInbound 0 [1, 2, 3] oW broken) \<noteq> None" by code_simp
  have c: "chunks [1, 2, 3] = [[1, 2, 3]]" by (simp add: chunks.simps)
  obtain err w' h' where w: "WriteData run0 zero_id DirectionInbound 0 [1, 2, 3] oW broken = (Some err, w', h')"
    using bad by (cases "WriteData run0 zero_id DirectionInbound 0 [1, 2, 3] oW broken") auto
  show ?thesis
    using WriteData_prefix [OF _ _ _ w, of 5] broken_live(1) [of 6] w by (simp add: c run0_def broken_live(2)) blast
qed

text \<open>A writer that failed once or was closed refuses every further record, with an error and
  without touching the disk: no record can follow a torn one in the same file.\<close>

lemma writeRecord_refused:
  assumes "bwFailed w \<noteq> None \<or> bwClosed w"
  shows "\<exists>err. writeRecord t d f cid rid p w h = (Some err, w, h)"
  using put_entry_stuck [of "(w, h)" "Entry t d f cid rid p"] assms
  by (auto simp: bwj_stuck_def writeRecord_put)

lemma writeRecord_refused_witness:
  "\<exists>err. writeRecord RecordConnectionOpen DirectionNA 0 run0 zero_id []
     (oW\<lparr>bwFailed := Some ErrShortWrite\<rparr>) oH = (Some err, oW\<lparr>bwFailed := Some ErrShortWrite\<rparr>, oH)"
  by (rule writeRecord_refused) simp

text \<open>C28: An error of \<open>writeRecord\<close> either changed nothing at all (the record was refused) or marks the
  writer failed; and then the recovered journal is the old one, or the old one and the whole record
  (the disk took every byte and reported an error with the last).\<close>

lemma writeRecord_fail_stop:
  assumes "bwj_live (Suc n) (w, h)" "good_entry e"
    and "writeRecord (eType e) (eDirection e) (eFlags e) (eConnection e) (eRequest e) (ePayload e) w h = (Some err, w', h')"
  shows "(w', h') = (w, h) \<or> bwFailed w' \<noteq> None
    \<and> (journal_log (w', h') = journal_log (w, h) \<or> journal_log (w', h') = journal_log (w, h) @ [e])"
proof -
  obtain J where J: "journal_inv w h J" "room (Suc n) w" using assms(1) by (auto simp: bwj_live_def)
  have "put_entry e (w, h) = (Some err, w', h')" using assms(3) by (simp add: put_entry_def)
  from put_entry_effect [OF J assms(2) this] show ?thesis by simp
qed

lemma writeRecord_fail_stop_witness:
  "\<exists>err w' h'. writeRecord RecordData DirectionInbound 0 run0 zero_id [1, 2, 3] oW broken = (Some err, w', h')
    \<and> ((w', h') = (oW, broken) \<or> bwFailed w' \<noteq> None)"
proof -
  have bad: "fst (writeRecord RecordData DirectionInbound 0 run0 zero_id [1, 2, 3] oW broken) \<noteq> None" by code_simp
  then obtain err w' h' where w: "writeRecord RecordData DirectionInbound 0 run0 zero_id [1, 2, 3] oW broken = (Some err, w', h')"
    by (cases "writeRecord RecordData DirectionInbound 0 run0 zero_id [1, 2, 3] oW broken") auto
  then show ?thesis
    using writeRecord_fail_stop [OF broken_live(1), of 5 "Entry RecordData DirectionInbound 0 run0 zero_id [1, 2, 3]"]
    by (simp add: good_entry_def run0_def) blast
qed

section \<open>Reading\<close>

lemma complete_max:
  "prefix ss rs \<Longrightarrow> length (encode_records ss) \<le> k \<Longrightarrow> length ss \<le> length (complete k rs)"
proof (induction rs arbitrary: ss k)
  case (Cons r rs)
  then show ?case by (cases ss) (auto simp: prefix_Cons)
qed simp

text \<open>C26: A journal file cut at any byte after its header (a crash in the middle of a write) is read
  without error: the result is the longest run of records that is whole in it, and the truncated
  tail is reported exactly when bytes of a further record are left.\<close>

lemma ReadBWJFile_cut:
  assumes "good_file run i f" "64 \<le> k" "k \<le> length (file_bytes f)"
  shows "\<exists>res. ReadBWJFile (Inr (take k (file_bytes f))) EOF = Inr res \<and> Header res = fst f
    \<and> prefix (Records res) (snd f)
    \<and> (\<forall>rs. prefix rs (snd f) \<and> 64 + length (encode_records rs) \<le> k \<longrightarrow> length rs \<le> length (Records res))
    \<and> (TruncatedTail res \<longleftrightarrow> 64 + length (encode_records (Records res)) \<noteq> k)"
proof -
  have g: "good_header (fst f)" "ascending 0 (snd f)" using assms(1) by (simp_all add: good_file_def)
  have k: "k \<le> 64 + length (encode_records (snd f))"
    using assms(3) g(1) by (simp add: file_bytes_def length_encode_header)
  note rd = ReadBWJFile_encoded [OF g(1) assms(2) k g(2)]
  have "length rs \<le> length (complete (k - 64) (snd f))"
    if "prefix rs (snd f) \<and> 64 + length (encode_records rs) \<le> k" for rs
    using that by (intro complete_max) auto
  then show ?thesis using rd assms(2)
    by (simp add: file_bytes_def complete_prefix) linarith
qed

definition file0 :: journal_file where
  "file0 = (\<lparr>CreatedTimeNS = 7, RunSessionID = run0, FileSequence = 1\<rparr>,
     [\<lparr>rType = 1, rDirection = 0, rFlags = 0, TimestampNS = 7, Sequence = 1, ConnectionID = run0,
       RequestID = zero_id, Payload = []\<rparr>,
      \<lparr>rType = 2, rDirection = 1, rFlags = 0, TimestampNS = 8, Sequence = 2, ConnectionID = run0,
       RequestID = zero_id, Payload = [1, 2, 3]\<rparr>])"

lemma ReadBWJFile_cut_witness:
  "\<exists>res. ReadBWJFile (Inr (take 193 (file_bytes file0))) EOF = Inr res \<and> prefix (Records res) (snd file0)"
proof -
  have "good_file run0 0 file0"
    by (auto simp: good_file_def file0_def good_header_def good_record_def numbered_def run0_def int64_def
        check_record_def validatePayload_def nth_Cons' less_Suc_eq)
  moreover have "length (file_bytes file0) = 195" by code_simp
  ultimately show ?thesis using ReadBWJFile_cut [of run0 0 file0 193] by auto
qed

text \<open>C27: The reader accepts a file as complete exactly when it is the encoding of the header and the
  records it returns; nothing else passes the checks, and a file has at most one reading.\<close>

lemma ReadBWJFile_complete_iff:
  "ReadBWJFile (Inr bs) EOF = Inr \<lparr>Header = fh, Records = rs, TruncatedTail = False\<rparr>
    \<longleftrightarrow> good_header fh \<and> ascending 0 rs \<and> bs = encode_header fh @ encode_records rs"
proof
  assume "ReadBWJFile (Inr bs) EOF = Inr \<lparr>Header = fh, Records = rs, TruncatedTail = False\<rparr>"
  from ReadBWJFile_inv [OF this] show "good_header fh \<and> ascending 0 rs \<and> bs = encode_header fh @ encode_records rs"
    by auto
next
  assume a: "good_header fh \<and> ascending 0 rs \<and> bs = encode_header fh @ encode_records rs"
  from a have "ReadBWJFile (Inr (take (64 + length (encode_records rs)) bs)) EOF
      = Inr \<lparr>Header = fh, Records = rs, TruncatedTail = False\<rparr>"
    using ReadBWJFile_encoded [of fh "64 + length (encode_records rs)" rs] by (simp add: complete_all)
  moreover have "take (64 + length (encode_records rs)) bs = bs" using a by (simp add: length_encode_header)
  ultimately show "ReadBWJFile (Inr bs) EOF = Inr \<lparr>Header = fh, Records = rs, TruncatedTail = False\<rparr>" by simp
qed

section \<open>Rotation\<close>

lemma openNext_bytes: "openNextLocked w h = (None, w', h') \<Longrightarrow> bwBytesWritten w' = 64 \<and> bwRotateSize w' = bwRotateSize w"
  by (auto simp: openNextLocked_def Let_def split: option.splits prod.splits)

lemma rotate_bytes: "rotateLocked w h = (None, w', h') \<Longrightarrow> bwBytesWritten w' = 64 \<and> bwRotateSize w' = bwRotateSize w"
  by (auto simp: rotateLocked_def split: option.splits prod.splits dest!: openNext_bytes)

lemma failLocked_error: "failLocked (Some err) w = (r, w') \<Longrightarrow> r \<noteq> None"
  by (auto simp: failLocked_def Let_def split: if_splits)

lemma append_bytes:
  "appendRecord t d f cid rid p pth w h = (None, w', h') \<Longrightarrow>
     bwBytesWritten w' = bwBytesWritten w + 64 + int (length p)"
  by (auto simp: appendRecord_def Let_def split: option.splits prod.splits if_splits dest: failLocked_error)

lemma not_due_bytes:
  "shouldRotateLocked n w h = (False, h') \<Longrightarrow> bwRotateSize w > 0 \<Longrightarrow>
     bwBytesWritten w \<le> 64 \<or> bwBytesWritten w + n \<le> bwRotateSize w"
  by (auto simp: shouldRotateLocked_def split: if_splits prod.splits)

lemma writeRecord_bytes:
  assumes "bwRotateSize w > 0" and op: "writeRecord t d f cid rid p w h = (None, w', h')"
  shows "bwBytesWritten w' \<le> max (bwRotateSize w) (64 + 64 + int (length p))"
proof -
  obtain due h1 where sr: "shouldRotateLocked (int (64 + length p)) w h = (due, h1)"
    by (cases "shouldRotateLocked (int (64 + length p)) w h")
  obtain w2 h2 pth where rot: "(if due then rotateLocked w h1 else (None, w, h1)) = (None, w2, h2)"
    and ap: "appendRecord t d f cid rid p pth w2 h2 = (None, w', h')"
    using op sr by (auto simp: writeRecord_def split: if_splits option.splits prod.splits dest: failLocked_error)
  have "bwBytesWritten w' = bwBytesWritten w2 + 64 + int (length p)" by (rule append_bytes [OF ap])
  moreover have "bwBytesWritten w2 = 64" if due using rot that rotate_bytes [of w h1 w2 h2] by simp
  moreover have "bwBytesWritten w2 \<le> 64 \<or> bwBytesWritten w2 + (64 + int (length p)) \<le> bwRotateSize w" if "\<not> due"
    using rot that not_due_bytes [of "int (64 + length p)" w h h1] sr assms(1) by auto
  ultimately show ?thesis by (cases due) auto
qed

lemma bytes_are_size:
  assumes J: "journal_inv w h J"
  shows "\<exists>p. bwFile w = Some p \<and> bwBytesWritten w = int (length (content p h))"
proof -
  have ne: "J \<noteq> []" using J by (simp add: journal_inv_def)
  then have "journal_files w h J" "length J - 1 < length J" using J by (simp_all add: journal_inv_def)
  from journal_filesD [OF this] J ne show ?thesis
    by (auto simp: journal_inv_def last_conv_nth)
qed

text \<open>C29: With a rotation size configured, no acknowledged record makes a journal file larger than
  that size, unless the file holds this one record only.\<close>

lemma writeRecord_file_size:
  assumes "bwj_live (Suc n) (w, h)" "good_entry e" "bwRotateSize w > 0"
    and "writeRecord (eType e) (eDirection e) (eFlags e) (eConnection e) (eRequest e) (ePayload e) w h = (None, w', h')"
  shows "\<exists>p. bwFile w' = Some p
    \<and> int (length (content p h')) \<le> max (bwRotateSize w) (64 + 64 + int (length (ePayload e)))"
proof -
  have "put_entry e (w, h) = (None, w', h')" using assms(4) by (simp add: put_entry_def)
  then have "bwj_live n (w', h')" using put_entry_live [OF assms(1,2)] by simp
  then obtain J where J: "journal_inv w' h' J" by (auto simp: bwj_live_def)
  show ?thesis using bytes_are_size [OF J] writeRecord_bytes [OF assms(3,4)] by auto
qed

lemma writeRecord_file_size_witness:
  "\<exists>w' h' p. writeRecord RecordData DirectionInbound 0 run0 zero_id [1, 2, 3] oW oH = (None, w', h')
    \<and> bwFile w' = Some p \<and> length (content p h') \<le> 200"
proof -
  have ok: "fst (writeRecord RecordData DirectionInbound 0 run0 zero_id [1, 2, 3] oW oH) = None" by code_simp
  then obtain w' h' where w: "writeRecord RecordData DirectionInbound 0 run0 zero_id [1, 2, 3] oW oH = (None, w', h')"
    by (metis prod.collapse)
  have "bwRotateSize oW = 200" by code_simp
  then show ?thesis
    using writeRecord_file_size [OF opened_live, of 5 "Entry RecordData DirectionInbound 0 run0 zero_id [1, 2, 3]"] w
    by (auto simp: good_entry_def run0_def)
qed

section \<open>Closing\<close>

lemma Close_effect:
  assumes "BWJWriter_Close w h = (r, w', h')"
  shows "bwClosed w'" "bwDirectory w' = bwDirectory w" "bwRunSessionID w' = bwRunSessionID w"
    "bwFileSequence w' = bwFileSequence w" "files h' = files h"
    "r = None \<Longrightarrow> bwClosed w \<or> bwFailed w = None"
  using assms
  by (auto simp: BWJWriter_Close_def Let_def file_sync_def file_close_def split: if_splits prod.splits)

text \<open>\<open>Close\<close> reports an error of the earlier writes, of the sync or of the close, leaves the
  recovered journal as it was, and is final: every later record is refused, and closing again
  does nothing and returns nil.\<close>

lemma BWJWriter_Close_final:
  assumes "BWJWriter_Close w h = (r, w', h')"
  shows "journal_log (w', h') = journal_log (w, h) \<and> BWJWriter_Close w' h'' = (None, w', h'')
    \<and> (\<exists>err. writeRecord t d f cid rid p w' h'' = (Some err, w', h''))
    \<and> (r = None \<longrightarrow> bwClosed w \<or> bwFailed w = None)"
proof -
  note c = Close_effect [OF assms]
  have "file_log (bwj_path w' i) h' = file_log (bwj_path w i) h" for i
    using bwj_path_cong [OF c(2,3)] by (simp add: file_log_def same_files(1) [OF c(5)])
  then have "journal_log (w', h') = journal_log (w, h)" by (simp add: journal_log_def c)
  then show ?thesis using c(1,6) put_entry_stuck [of "(w', h'')" "Entry t d f cid rid p"]
    by (auto simp: BWJWriter_Close_def bwj_stuck_def writeRecord_put)
qed

lemma BWJWriter_Close_final_witness:
  "\<exists>r w' h'. BWJWriter_Close oW oH = (r, w', h') \<and> journal_log (w', h') = journal_log (oW, oH)"
  using BWJWriter_Close_final [of oW oH "fst (BWJWriter_Close oW oH)"
      "fst (snd (BWJWriter_Close oW oH))" "snd (snd (BWJWriter_Close oW oH))"] by (metis prod.collapse)

section \<open>Identifiers\<close>

lemma byte_bits:
  "((b :: byte) AND 0x0f OR 0x40) AND 0xf0 = 0x40" "((b :: byte) AND 0x3f OR 0x80) AND 0xc0 = 0x80"
proof -
  have below: "n \<in> {0, 1, 2, 3, 4, 5, 6, 7}" if "n < LENGTH(8)" for n :: nat using that by auto
  show "(b AND 0x0f OR 0x40) AND 0xf0 = 0x40"
    by (rule bit_word_eqI, drule below) (auto simp: bit_simps)
  show "(b AND 0x3f OR 0x80) AND 0xc0 = 0x80"
    by (rule bit_word_eqI, drule below) (auto simp: bit_simps)
qed

text \<open>C30: A generated identifier is a version-4 UUID: 16 bytes, version nibble 4, variant bits 10;
  its text form has the 36 characters of a UUID, and \<open>ParseID\<close> reads it back.\<close>

lemma NewID_uuid4:
  assumes "NewID h = (Inr i, h')"
  shows "length i = 16 \<and> i ! 6 AND 0xf0 = 0x40 \<and> i ! 8 AND 0xc0 = 0x80
    \<and> length (FormatID i) = 36 \<and> ParseID (FormatID i) = Inr i"
proof -
  obtain raw where r: "rand_read 16 h = (Inr raw, h')"
    and i: "i = raw[6 := (raw ! 6 AND 0x0f) OR 0x40, 8 := (raw ! 8 AND 0x3f) OR 0x80]"
    using assms by (auto simp: NewID_def Let_def split: prod.splits sum.splits)
  have len: "length raw = 16" by (rule rand_read_length [OF r])
  then have "length i = 16" by (simp add: i)
  then show ?thesis using len by (simp add: i byte_bits ParseID_FormatID length_FormatID)
qed

lemma NewID_uuid4_witness:
  "\<exists>i h'. NewID quiet = (Inr i, h') \<and> i = [0, 0, 0, 0, 0, 0, 0x40, 0, 0x80, 0, 0, 0, 0, 0, 0, 0]
    \<and> ParseID (FormatID i) = Inr i"
proof -
  have n: "fst (NewID quiet) = Inr [0, 0, 0, 0, 0, 0, 0x40, 0, 0x80, 0, 0, 0, 0, 0, 0, 0]" by code_simp
  then obtain h' where "NewID quiet = (Inr [0, 0, 0, 0, 0, 0, 0x40, 0, 0x80, 0, 0, 0, 0, 0, 0, 0], h')"
    by (metis prod.collapse)
  then show ?thesis using NewID_uuid4 by blast
qed

end
