(* ===== verification/Jsonl_Spec.thy ===== *)
theory Jsonl_Spec
  imports Jsonl Bwj_Spec
begin

text \<open>
  What the structured log promises: an acknowledged event is one more line at the end of the log
  and nothing else changes; a failed write leaves at most the beginning of one line; files that are
  not event files are never touched (so the journal of theory Bwj_Journal is not disturbed).
\<close>

lemma printable_no_newline: "printable s \<Longrightarrow> CHR 0x0A \<notin> set s"
  by (auto simp: printable_def)

section \<open>Only event files are written\<close>

definition foreign :: "path \<Rightarrow> bool" where
  "foreign q \<longleftrightarrow> \<not> prefix ''events_'' (snd q)"

definition jsonl_own :: "jsonl_writer \<Rightarrow> bool" where
  "jsonl_own w \<longleftrightarrow> (\<forall>f. jwFile w = Some f \<longrightarrow> \<not> foreign (ofPath f))"

lemma jsonl_name_own [simp]: "\<not> foreign (d, jsonl_name run s)"
  by (simp add: foreign_def jsonl_name_def prefix_def)

lemma host_files:
  "now h = (t, h') \<Longrightarrow> files h' = files h" "file_sync h = (e, h') \<Longrightarrow> files h' = files h"
  "file_close h = (e, h') \<Longrightarrow> files h' = files h"
  using now_frame [of h] file_sync_frame [of h] file_close_frame [of h] by simp_all

lemma file_write_leaves: "\<not> P p \<Longrightarrow> file_write p h bs = (r, h') \<Longrightarrow> leaves P h h'"
proof -
  assume "\<not> P p" and op: "file_write p h bs = (r, h')"
  then obtain cs where f: "files h' = fs_append p cs (files h)" by (auto simp: file_write_def Let_def split: prod.splits)
  have "content q h' = content q h \<and> exists_file q h' = exists_file q h" if "q \<noteq> p" for q
    using that by (simp add: content_def exists_file_def f map_of_fs_append)
  with \<open>\<not> P p\<close> show ?thesis by (metis leaves_def)
qed

lemma os_write_leaves: "\<not> P (ofPath f) \<Longrightarrow> os_write f h bs = (r, h') \<Longrightarrow> leaves P h h'"
  by (auto simp: os_write_def split: if_splits prod.splits intro: file_write_leaves [of P])

lemma os_sync_leaves: "os_sync f h = (e, h') \<Longrightarrow> leaves P h h'"
  by (auto simp: os_sync_def split: if_splits intro: leaves_files dest: host_files)

lemma os_close_leaves: "os_close f h = (e, f', h') \<Longrightarrow> leaves P h h' \<and> ofPath f' = ofPath f"
  by (auto simp: os_close_def split: if_splits prod.splits intro: leaves_files dest: host_files)

lemma now_leaves: "now h = (t, h') \<Longrightarrow> leaves P h h'"
  by (rule leaves_files [OF host_files(1)])

lemma open_excl_leaves: "\<not> P p \<Longrightarrow> open_excl p h = (e, h') \<Longrightarrow> leaves P h h'"
  using open_excl_disk [of p h h'] open_excl_fail [of p h _ h'] leaves_disk leaves_files by (cases e) blast+

lemma flush_leaves: "\<not> P (ofPath f) \<Longrightarrow> bufio_flush f b h = (e, b', h') \<Longrightarrow> leaves P h h'"
  using os_write_leaves by (auto simp: bufio_flush_def split: if_splits prod.splits option.splits)

lemma bufio_write_leaves: "\<not> P (ofPath f) \<Longrightarrow> bufio_write f p b h = (e, b', h') \<Longrightarrow> leaves P h h'"
proof (induction f p b h rule: bufio_write.induct)
  case (1 f p b h)
  show ?case
  proof (cases "bfErr b \<noteq> None \<or> length p \<le> bufioSize - length (bfBuf b)")
    case True
    then show ?thesis using "1.prems"(2) by (auto simp: bufio_write.simps [of f p] split: if_splits)
  next
    case full: False
    then have c: "\<not> bfErr b \<noteq> None" "\<not> length p \<le> bufioSize - length (bfBuf b)" by simp_all
    show ?thesis
    proof (cases "bfBuf b = []")
      case True
      obtain n e2 h2 where w: "os_write f h p = ((n, e2), h2)" by (metis surj_pair)
      then have "bufio_write f (drop n p) (b\<lparr>bfErr := e2\<rparr>) h2 = (e, b', h')"
        using "1.prems"(2) c True by (simp add: bufio_write.simps [of f p])
      then show ?thesis using "1.IH"(1) [OF c True w [symmetric] refl "1.prems"(1)] os_write_leaves [of P f h p _ h2] w "1.prems"(1)
        leaves_trans by blast
    next
      case False
      obtain e2 b2 h2 where w: "bufio_flush f (b\<lparr>bfBuf := bfBuf b @ take (bufioSize - length (bfBuf b)) p\<rparr>) h = (e2, b2, h2)"
        by (metis surj_pair)
      then have "bufio_write f (drop (bufioSize - length (bfBuf b)) p) b2 h2 = (e, b', h')"
        using "1.prems"(2) c False by (simp add: bufio_write.simps [of f p] Let_def)
      then show ?thesis using "1.IH"(2) [OF c False refl w [symmetric] refl "1.prems"(1)] flush_leaves [of P, OF "1.prems"(1) w]
        leaves_trans by blast
    qed
  qed
qed

lemma openNext_leaves:
  "jsonl_own w \<Longrightarrow> jsonl_openNextLocked w h = (e, w', h') \<Longrightarrow> leaves foreign h h' \<and> jsonl_own w'"
  using open_excl_leaves [of foreign "(jwDirectory w, jsonl_name (jwRunSessionID w) (jwSequence w + 1))" h] now_leaves leaves_trans
  by (force simp: jsonl_openNextLocked_def jsonl_own_def Let_def split: prod.splits option.splits)

lemma rotate_leaves:
  assumes own: "jsonl_own w" and op: "jsonl_rotateLocked w h = (e, w', h')"
  shows "leaves foreign h h' \<and> jsonl_own w'"
proof (cases "jwFile w")
  case None
  then show ?thesis using openNext_leaves [OF own] op by (simp add: jsonl_rotateLocked_def)
next
  case (Some f)
  have f: "\<not> foreign (ofPath f)" using own Some by (simp add: jsonl_own_def)
  obtain e1 b h1 where s1: "bufio_flush f (jwBuffer w) h = (e1, b, h1)" by (metis surj_pair)
  obtain e2 h2 where s2: "os_sync f h1 = (e2, h2)" by (metis surj_pair)
  obtain e3 f' h3 where s3: "os_close f h2 = (e3, f', h3)" by (metis surj_pair)
  have l: "leaves foreign h h1" "leaves foreign h1 h2" "leaves foreign h2 h3" "ofPath f' = ofPath f"
    using flush_leaves [where P = foreign, OF f s1] os_sync_leaves [OF s2] os_close_leaves [OF s3] by blast+
  then have l3: "leaves foreign h h2" "leaves foreign h h3" using leaves_trans by blast+
  have own3: "jsonl_own (w\<lparr>jwBuffer := b, jwFile := Some f'\<rparr>)" "jsonl_own (w\<lparr>jwBuffer := b\<rparr>)"
    using f l(4) own by (simp_all add: jsonl_own_def)
  show ?thesis
    using op Some s1 s2 s3 l l3 own3 openNext_leaves [OF own3(1), of h3 e w' h'] leaves_trans [OF l3(2)]
    by (auto simp: jsonl_rotateLocked_def split: option.splits)
qed

lemma append_line_leaves:
  assumes "\<not> P (ofPath f)" "append_line line f w h = (e, w', h')"
  shows "leaves P h h' \<and> jwFile w' = jwFile w"
  using assms bufio_write_leaves [of P f] flush_leaves [of P f] leaves_trans
  by (auto simp: append_line_def split: prod.splits option.splits) blast+

lemma stamp_leaves: "stamp_event e h = (e', h') \<Longrightarrow> files h' = files h"
  by (auto simp: stamp_event_def Let_def split: if_splits prod.splits dest: host_files)

lemma jsonl_shouldRotate_files: "jsonl_shouldRotateLocked n w h = (due, h') \<Longrightarrow> files h' = files h"
  by (auto simp: jsonl_shouldRotateLocked_def split: if_splits prod.splits dest: host_files)

lemma WriteEvent_leaves:
  assumes own: "jsonl_own w" and op: "WriteEvent e w h = (r, w', h')"
  shows "leaves foreign h h' \<and> jsonl_own w'"
proof -
  obtain ev h1 where s: "stamp_event e h = (ev, h1)" by (metis surj_pair)
  have l1: "leaves foreign h h1" using stamp_leaves [OF s] by (rule leaves_files)
  show ?thesis
  proof (cases "jwClosed w \<or> jwMaxEventBytes w \<le> 1 \<or> isl (boundedEventJSON ev (jwMaxEventBytes w - 1))")
    case True
    then show ?thesis using op s own l1 by (auto simp: WriteEvent_def split: if_splits sum.splits)
  next
    case False
    then obtain b where b: "boundedEventJSON ev (jwMaxEventBytes w - 1) = Inr b"
      by (cases "boundedEventJSON ev (jwMaxEventBytes w - 1)") auto
    define line where "line = bytes_of (b @ [CHR 0x0A])"
    obtain due h2 where d: "jsonl_shouldRotateLocked (int (length line)) w h1 = (due, h2)" by (metis surj_pair)
    have l2: "leaves foreign h h2"
      using l1 leaves_files [OF jsonl_shouldRotate_files [OF d]] by (rule leaves_trans)
    obtain e3 w3 h3 where rot: "(if due then jsonl_rotateLocked w h2 else (None, w, h2)) = (e3, w3, h3)" by (metis surj_pair)
    have l3: "leaves foreign h h3" "jsonl_own w3"
      using rot rotate_leaves [OF own, of h2 e3 w3 h3] l2 own leaves_trans by (auto split: if_splits)
    have op': "(case e3 of Some err \<Rightarrow> (Some err, w3, h3)
        | None \<Rightarrow> (case jwFile w3 of None \<Rightarrow> (Some (Errorf ''nil file'' []), w3, h3) | Some f \<Rightarrow> append_line line f w3 h3)) = (r, w', h')"
      using op False s b d rot
      by (cases e3) (auto simp: WriteEvent_def Let_def line_def [symmetric] simp del: bytes_of_append)
    show ?thesis
    proof (cases "e3 = None \<and> jwFile w3 \<noteq> None")
      case True
      then obtain f where f: "jwFile w3 = Some f" "append_line line f w3 h3 = (r, w', h')" using op' by auto
      have "\<not> foreign (ofPath f)" using l3(2) f(1) by (simp add: jsonl_own_def)
      from append_line_leaves [where P = foreign, OF this f(2)] show ?thesis using l3 f(1) leaves_trans [OF l3(1)] by (simp add: jsonl_own_def)
    qed (use op' l3 in \<open>auto split: option.splits\<close>)
  qed
qed

section \<open>The structured log\<close>

definition jsonl_path :: "jsonl_writer \<Rightarrow> nat \<Rightarrow> path" where
  "jsonl_path w i = (jwDirectory w, jsonl_name (jwRunSessionID w) (of_nat (Suc i)))"

definition jsonl_log :: "jsonl_writer \<times> host \<Rightarrow> byte list" where
  "jsonl_log = (\<lambda>(w, h). concat (map (\<lambda>i. content (jsonl_path w i) h) [0..<unat (jwSequence w)]))"

definition jsonl_inv :: "jsonl_writer \<Rightarrow> host \<Rightarrow> bool" where
  "jsonl_inv w h \<longleftrightarrow> 0 < unat (jwSequence w) \<and> jwBuffer w = empty_buffer \<and> \<not> jwClosed w
     \<and> jwFile w = Some \<lparr>ofPath = jsonl_path w (unat (jwSequence w) - 1), ofOpen = True\<rparr>
     \<and> exists_file (jsonl_path w (unat (jwSequence w) - 1)) h
     \<and> jwBytesWritten w = int (length (content (jsonl_path w (unat (jwSequence w) - 1)) h))
     \<and> (\<forall>i. unat (jwSequence w) \<le> i \<and> i < 2 ^ 64 - 1 \<longrightarrow> \<not> exists_file (jsonl_path w i) h)"

lemma jsonl_path_inj: "i < 2 ^ 64 - 1 \<Longrightarrow> j < 2 ^ 64 - 1 \<Longrightarrow> jsonl_path w i = jsonl_path w j \<longleftrightarrow> i = j"
proof -
  assume "i < 2 ^ 64 - 1" "j < 2 ^ 64 - 1"
  then have "unat (of_nat (Suc i) :: u64) = Suc i" "unat (of_nat (Suc j) :: u64) = Suc j"
    by (simp_all add: unat_of_nat del: of_nat_Suc)
  then show ?thesis by (auto simp: jsonl_path_def jsonl_name_def simp del: of_nat_Suc dest: pad20_inj)
qed

lemma jsonl_path_cong:
  "jwDirectory w' = jwDirectory w \<Longrightarrow> jwRunSessionID w' = jwRunSessionID w \<Longrightarrow> jsonl_path w' = jsonl_path w"
  by (simp add: jsonl_path_def fun_eq_iff)

text \<open>Appending to the last file appends to the log.\<close>

lemma jsonl_log_append:
  assumes w: "jwDirectory w' = jwDirectory w" "jwRunSessionID w' = jwRunSessionID w" "jwSequence w' = jwSequence w"
    and n: "unat (jwSequence w) = Suc n" and d: "disk_step (jsonl_path w n) bs c h h'"
  shows "jsonl_log (w', h') = jsonl_log (w, h) @ bs"
proof -
  have "Suc n < 2 ^ 64" using n unsigned_less [of "jwSequence w", where 'a = nat] by simp
  then have "jsonl_path w i \<noteq> jsonl_path w n" if "i < n" for i using that jsonl_path_inj [of i n w] by simp
  then have e: "map (\<lambda>i. content (jsonl_path w i) h') [0..<n] = map (\<lambda>i. content (jsonl_path w i) h) [0..<n]"
    using disk_stepD(2) [OF d] by (intro map_cong) auto
  have u: "[0..<Suc n] = [0..<n] @ [n]" by simp
  show ?thesis unfolding jsonl_log_def prod.case w(3) n u jsonl_path_cong [OF w(1,2)] map_append concat_append e
    using disk_stepD(1) [OF d] by simp
qed

text \<open>A new file adds nothing to the log.\<close>

lemma jsonl_log_new:
  assumes w: "jwDirectory w' = jwDirectory w" "jwRunSessionID w' = jwRunSessionID w" "jwSequence w' = jwSequence w + 1"
    and n: "Suc (unat (jwSequence w)) < 2 ^ 64" and l: "\<And>q. content q h' = content q h"
    and e: "\<not> exists_file (jsonl_path w (unat (jwSequence w))) h"
  shows "jsonl_log (w', h') = jsonl_log (w, h)"
proof -
  have u: "unat (jwSequence w') = Suc (unat (jwSequence w))" using n by (simp add: w unat_word_ariths)
  show ?thesis using absent_content [OF e] by (simp add: jsonl_log_def u l jsonl_path_cong [OF w(1,2)])
qed

lemma os_write_disk:
  assumes "ofOpen f" "exists_file (ofPath f) h" "os_write f h bs = ((n, e), h')"
  shows "n \<le> length bs \<and> disk_step (ofPath f) (take n bs) False h h' \<and> (e = None \<longrightarrow> n = length bs)"
proof -
  obtain e2 where w: "file_write (ofPath f) h bs = ((n, e2), h')"
    using assms(1,3) by (auto simp: os_write_def split: prod.splits)
  have o: "other_files (ofPath f) h' = other_files (ofPath f) h"
    using osfile.write_rest assms(2) w by blast
  then have m: "(map_of (files h'))(ofPath f := None) = (map_of (files h))(ofPath f := None)"
    and k: "map fst (files h') = map fst (files h)" by (simp_all add: other_files_def)
  have "content q h' = content q h" if "q \<noteq> ofPath f" for q
    using that fun_cong [OF m, of q] by (simp add: content_def)
  moreover have "exists_file q h' = exists_file q h" for q
    using arg_cong [OF k, of set] by (simp add: exists_file_def)
  moreover have "content (ofPath f) h' = content (ofPath f) h @ take n bs" "n \<le> length bs"
    using osfile.write_sink osfile.write_le assms(2) w by blast+
  ultimately show ?thesis using os_write_full assms(3) by (auto simp: disk_step_def)
qed

lemma append_line_disk:
  assumes b: "jwBuffer w = empty_buffer" and f: "ofOpen f" "exists_file (ofPath f) h" and ne: "line \<noteq> []"
    and op: "append_line line f w h = (r, w', h')"
  obtains n where "n \<le> length line" "disk_step (ofPath f) (take n line) False h h'"
    "r = None \<longrightarrow> n = length line \<and> w' = w\<lparr>jwBytesWritten := jwBytesWritten w + int (length line)\<rparr>"
    "r \<noteq> None \<longrightarrow> w' = w\<lparr>jwBuffer := jwBuffer w'\<rparr> \<and> bfErr (jwBuffer w') \<noteq> None"
proof -
  obtain n e h1 where w: "os_write f h line = ((n, e), h1)" by (metis surj_pair)
  have d: "n \<le> length line" "disk_step (ofPath f) (take n line) False h h1" "e = None \<longrightarrow> n = length line"
    using os_write_disk [OF f w] by blast+
  show thesis
  proof (cases "length line \<le> bufioSize")
    case True
    then have "bufio_write f line empty_buffer h = (None, \<lparr>bfBuf = line, bfErr = None\<rparr>, h)"
      by (simp add: bufio_write.simps [of f line] empty_buffer_def)
    then have "h' = h1 \<and> (e = None \<longrightarrow> r = None \<and> w' = w\<lparr>jwBytesWritten := jwBytesWritten w + int (length line)\<rparr>)
        \<and> (e \<noteq> None \<longrightarrow> r \<noteq> None \<and> w' = w\<lparr>jwBuffer := jwBuffer w'\<rparr> \<and> bfErr (jwBuffer w') \<noteq> None)"
      using op w b ne by (cases e) (auto simp: append_line_def bufio_flush_def empty_buffer_def)
    then show thesis using that [of n] d by blast
  next
    case False
    have "bufio_write f line empty_buffer h = bufio_write f (drop n line) \<lparr>bfBuf = [], bfErr = e\<rparr> h1"
      using False w by (simp add: bufio_write.simps [of f line] empty_buffer_def)
    also have "\<dots> = (e, \<lparr>bfBuf = [], bfErr = e\<rparr>, h1)"
      using d(3) by (cases e) (simp_all add: bufio_write.simps [of f "drop n line"] bufio_write.simps [of f "[]"])
    finally have "h' = h1 \<and> (e = None \<longrightarrow> r = None \<and> w' = w\<lparr>jwBytesWritten := jwBytesWritten w + int (length line)\<rparr>)
        \<and> (e \<noteq> None \<longrightarrow> r \<noteq> None \<and> w' = w\<lparr>jwBuffer := jwBuffer w'\<rparr> \<and> bfErr (jwBuffer w') \<noteq> None)"
      using op b by (cases e) (auto simp: append_line_def bufio_flush_def empty_buffer_def)
    then show thesis using that [of n] d by blast
  qed
qed

lemma jsonl_files:
  "files h' = files h \<Longrightarrow> jsonl_inv w h' = jsonl_inv w h" "files h' = files h \<Longrightarrow> jsonl_log (w, h') = jsonl_log (w, h)"
  by (simp_all add: jsonl_inv_def jsonl_log_def same_files [of h' h])

text \<open>What rotation and appending do to the fields the caller does not see.\<close>

definition same_setup :: "jsonl_writer \<Rightarrow> jsonl_writer \<Rightarrow> bool" where
  "same_setup w w' \<longleftrightarrow> jwDirectory w' = jwDirectory w \<and> jwRunSessionID w' = jwRunSessionID w
     \<and> jwRotateSize w' = jwRotateSize w \<and> jwMaxEventBytes w' = jwMaxEventBytes w"

lemma jsonl_openNext_effect:
  assumes op: "jsonl_openNextLocked w h = (r, w', h')" and room: "Suc (unat (jwSequence w)) < 2 ^ 64"
    and open_: "\<not> jwClosed w" and free: "\<forall>i. unat (jwSequence w) \<le> i \<and> i < 2 ^ 64 - 1 \<longrightarrow> \<not> exists_file (jsonl_path w i) h"
  shows "jsonl_log (w', h') = jsonl_log (w, h) \<and> same_setup w w'
    \<and> (r = None \<longrightarrow> jsonl_inv w' h' \<and> jwBytesWritten w' = 0)"
proof -
  define n where "n = unat (jwSequence w)"
  define p where "p = jsonl_path w n"
  have n64: "n < 2 ^ 64 - 1" using room by (simp add: n_def)
  have u: "unat (jwSequence w + 1) = Suc n" using room by (simp add: n_def unat_word_ariths)
  have p: "(jwDirectory w, jsonl_name (jwRunSessionID w) (jwSequence w + 1)) = p"
    by (simp add: p_def jsonl_path_def n_def add.commute)
  have new: "\<not> exists_file p h" using free n64 by (simp add: p_def n_def)
  obtain e h1 where o1: "open_excl p h = (e, h1)" by (metis surj_pair)
  show ?thesis
  proof (cases e)
    case (Some err)
    then have w': "r = Some err" "w' = w\<lparr>jwSequence := jwSequence w + 1\<rparr>" "h' = h1"
      using op o1 by (simp_all add: jsonl_openNextLocked_def Let_def p)
    have "files h1 = files h" using open_excl_fail o1 Some by blast
    then have "jsonl_log (w', h') = jsonl_log (w, h)"
      by (intro jsonl_log_new [of w' w]) (use w' room new in \<open>simp_all add: same_files [of h1 h] p_def n_def\<close>)
    then show ?thesis using w' by (simp add: same_setup_def)
  next
    case None
    obtain t h2 where t: "now h1 = (t, h2)" by (metis surj_pair)
    have w': "r = None" "h' = h2" "w' = w\<lparr>jwSequence := jwSequence w + 1, jwFile := Some \<lparr>ofPath = p, ofOpen = True\<rparr>,
        jwBuffer := empty_buffer, jwCreatedAt := t, jwBytesWritten := 0\<rparr>"
      using op o1 None t by (simp_all add: jsonl_openNextLocked_def Let_def p)
    have "disk_step p [] True h h1" using open_excl_disk o1 None by blast
    then have d: "disk_step p [] True h h2" using host_files(1) [OF t] disk_step_files by blast
    have c: "content q h2 = content q h" for q
      using disk_stepD(1) [OF d] disk_stepD(2) [OF d, of q] by (cases "q = p") simp_all
    have log: "jsonl_log (w', h2) = jsonl_log (w, h)"
      by (rule jsonl_log_new [of w' w]) (use w' room new c in \<open>simp_all add: p_def n_def\<close>)
    have paths: "jsonl_path w' = jsonl_path w" by (rule jsonl_path_cong) (simp_all add: w')
    have later: "\<not> exists_file (jsonl_path w i) h2" if "Suc n \<le> i" "i < 2 ^ 64 - 1" for i
      using that free jsonl_path_inj [of i n w] n64 by (simp add: disk_stepD(3) [OF d] p_def n_def)
    have "jsonl_inv w' h2" unfolding jsonl_inv_def paths
      using later open_ absent_content [OF new] c [of p] disk_stepD(3) [OF d, of p] by (simp add: w' u p_def [symmetric])
    then show ?thesis using w' log by (simp add: same_setup_def)
  qed
qed

lemma jsonl_rotate_effect:
  assumes inv: "jsonl_inv w h" and room: "Suc (unat (jwSequence w)) < 2 ^ 64" and op: "jsonl_rotateLocked w h = (r, w', h')"
  shows "jsonl_log (w', h') = jsonl_log (w, h) \<and> same_setup w w'
    \<and> (r = None \<longrightarrow> jsonl_inv w' h' \<and> jwBytesWritten w' = 0)"
proof -
  define f where "f = \<lparr>ofPath = jsonl_path w (unat (jwSequence w) - 1), ofOpen = True\<rparr>"
  have w: "jwFile w = Some f" "jwBuffer w = empty_buffer" "\<not> jwClosed w" "ofOpen f" using inv by (simp_all add: jsonl_inv_def f_def)
  have flush: "bufio_flush f (jwBuffer w) h = (None, empty_buffer, h)" by (simp add: bufio_flush_def w empty_buffer_def)
  obtain e2 h2 where s2: "os_sync f h = (e2, h2)" by (metis surj_pair)
  obtain e3 f' h3 where s3: "os_close f h2 = (e3, f', h3)" by (metis surj_pair)
  have files2: "files h2 = files h" "files h3 = files h"
    using s2 s3 w(4) by (auto simp: os_sync_def os_close_def split: prod.splits dest!: host_files)
  let ?w = "w\<lparr>jwBuffer := empty_buffer, jwFile := Some f'\<rparr>"
  have log: "jsonl_log (w\<lparr>jwBuffer := b, jwFile := g\<rparr>, h') = jsonl_log (w, h)" if "files h' = files h" for b g h'
    using jsonl_files(2) [OF that, of w] by (simp add: jsonl_log_def jsonl_path_def)
  note steps = op [unfolded jsonl_rotateLocked_def w(1) option.case flush prod.case s2]
  show ?thesis
  proof (cases "e2 = None \<and> e3 = None")
    case True
    then have "jsonl_openNextLocked ?w h3 = (r, w', h')" using steps s3 by simp
    moreover have "\<forall>i. unat (jwSequence ?w) \<le> i \<and> i < 2 ^ 64 - 1 \<longrightarrow> \<not> exists_file (jsonl_path ?w i) h3"
      using inv by (simp add: jsonl_inv_def jsonl_path_def same_files [OF files2(2)])
    ultimately have "jsonl_log (w', h') = jsonl_log (?w, h3) \<and> same_setup ?w w'
        \<and> (r = None \<longrightarrow> jsonl_inv w' h' \<and> jwBytesWritten w' = 0)"
      using room w(3) by (intro jsonl_openNext_effect) simp_all
    then show ?thesis using log [OF files2(2)] by (simp add: same_setup_def)
  next
    case False
    then have "r \<noteq> None \<and> (w' = w\<lparr>jwBuffer := empty_buffer\<rparr> \<or> w' = ?w) \<and> files h' = files h"
      using steps s3 files2 by (auto split: option.splits)
    moreover have "jsonl_log (w\<lparr>jwBuffer := empty_buffer\<rparr>, h') = jsonl_log (w, h)" if "files h' = files h"
      using jsonl_files(2) [OF that, of w] by (simp add: jsonl_log_def jsonl_path_def)
    ultimately show ?thesis using log by (auto simp: same_setup_def)
  qed
qed

text \<open>C39: An event is written as one line at the end of the log, without touching what is there, and when
  it is acknowledged the file stays within the rotation size or holds nothing else; when the write
  fails, the log holds the old lines and at most a beginning of the new one.\<close>

lemma WriteEvent_one_line:
  assumes inv: "jsonl_inv w h" and room: "Suc (unat (jwSequence w)) < 2 ^ 64" and op: "WriteEvent e w h = (r, w', h')"
  shows "(r = None \<longrightarrow> jsonl_inv w' h' \<and> (\<exists>b. boundedEventJSON (fst (stamp_event e h)) (jwMaxEventBytes w - 1) = Inr b
        \<and> CHR 0x0A \<notin> set b \<and> jsonl_log (w', h') = jsonl_log (w, h) @ bytes_of (b @ [CHR 0x0A])
        \<and> (0 < jwRotateSize w \<longrightarrow> jwBytesWritten w' \<le> jwRotateSize w \<or> jwBytesWritten w' = int (Suc (length b)))))
    \<and> (r \<noteq> None \<longrightarrow> (\<exists>b n. CHR 0x0A \<notin> set b \<and> n \<le> Suc (length b)
        \<and> jsonl_log (w', h') = jsonl_log (w, h) @ take n (bytes_of (b @ [CHR 0x0A]))))"
proof -
  obtain ev h1 where s: "stamp_event e h = (ev, h1)" by (metis surj_pair)
  have open_: "\<not> jwClosed w" using inv by (simp add: jsonl_inv_def)
  have f1: "files h1 = files h" by (rule stamp_leaves [OF s])
  show ?thesis
  proof (cases "jwMaxEventBytes w \<le> 1 \<or> isl (boundedEventJSON ev (jwMaxEventBytes w - 1))")
    case True
    then have "r \<noteq> None \<and> w' = w \<and> h' = h1" using op s open_ by (auto simp: WriteEvent_def split: if_splits sum.splits)
    then have r: "r \<noteq> None" and eq: "jsonl_log (w', h') = jsonl_log (w, h)" using jsonl_files(2) [OF f1] by simp_all
    have "\<exists>b n. CHR 0x0A \<notin> set b \<and> n \<le> Suc (length b)
        \<and> jsonl_log (w', h') = jsonl_log (w, h) @ take n (bytes_of (b @ [CHR 0x0A]))" by (intro exI [of _ "[]"] exI [of _ 0]) (simp add: eq)
    with r show ?thesis by blast
  next
    case False
    then obtain b where b: "boundedEventJSON ev (jwMaxEventBytes w - 1) = Inr b"
      by (cases "boundedEventJSON ev (jwMaxEventBytes w - 1)") auto
    have nl: "CHR 0x0A \<notin> set b"
      using bounded_identity [OF b] MarshalJSON_printable printable_no_newline by metis
    define line where "line = bytes_of (b @ [CHR 0x0A])"
    have "length line = Suc (length b)" by (simp add: line_def)
    then have ll: "length line = Suc (length b)" "line \<noteq> []" by auto
    obtain due h2 where d: "jsonl_shouldRotateLocked (int (length line)) w h1 = (due, h2)" by (metis surj_pair)
    have f2: "files h2 = files h" using jsonl_shouldRotate_files [OF d] f1 by simp
    obtain e3 w3 h3 where rot: "(if due then jsonl_rotateLocked w h2 else (None, w, h2)) = (e3, w3, h3)" by (metis surj_pair)
    have r3: "jsonl_log (w3, h3) = jsonl_log (w, h) \<and> same_setup w w3 \<and> (e3 = None \<longrightarrow> jsonl_inv w3 h3 \<and> (due \<longrightarrow> jwBytesWritten w3 = 0))"
      using rot jsonl_rotate_effect [of w h2 e3 w3 h3] inv room jsonl_files [OF f2, of w] by (auto simp: same_setup_def split: if_splits)
    have op': "(case e3 of Some err \<Rightarrow> (Some err, w3, h3)
        | None \<Rightarrow> (case jwFile w3 of None \<Rightarrow> (Some (Errorf ''nil file'' []), w3, h3) | Some f \<Rightarrow> append_line line f w3 h3)) = (r, w', h')"
      using op False open_ s b d rot
      by (cases e3) (auto simp: WriteEvent_def Let_def line_def [symmetric] simp del: bytes_of_append)
    show ?thesis
    proof (cases e3)
      case (Some err)
      then have r: "r \<noteq> None" and eq: "jsonl_log (w', h') = jsonl_log (w, h)" using op' r3 by auto
      have "\<exists>b n. CHR 0x0A \<notin> set b \<and> n \<le> Suc (length b)
          \<and> jsonl_log (w', h') = jsonl_log (w, h) @ take n (bytes_of (b @ [CHR 0x0A]))" by (intro exI [of _ "[]"] exI [of _ 0]) (simp add: eq)
      with r show ?thesis by blast
    next
      case None
      define n3 where "n3 = unat (jwSequence w3) - 1"
      define f where "f = \<lparr>ofPath = jsonl_path w3 n3, ofOpen = True\<rparr>"
      have i3: "jsonl_inv w3 h3" using r3 None by blast
      then have w3: "jwFile w3 = Some f" "jwBuffer w3 = empty_buffer" "unat (jwSequence w3) = Suc n3" "ofOpen f" "ofPath f = jsonl_path w3 n3"
          "exists_file (jsonl_path w3 n3) h3" by (simp_all add: jsonl_inv_def f_def n3_def)
      have "append_line line f w3 h3 = (r, w', h')" using op' None w3(1) by simp
      then obtain n where n: "n \<le> length line" "disk_step (jsonl_path w3 n3) (take n line) False h3 h'"
          "r = None \<longrightarrow> n = length line \<and> w' = w3\<lparr>jwBytesWritten := jwBytesWritten w3 + int (length line)\<rparr>"
          "r \<noteq> None \<longrightarrow> w' = w3\<lparr>jwBuffer := jwBuffer w'\<rparr> \<and> bfErr (jwBuffer w') \<noteq> None"
        using append_line_disk [of w3 f h3 line r w' h'] w3 ll by metis
      have "(\<exists>k. w' = w3\<lparr>jwBytesWritten := k\<rparr>) \<or> (\<exists>b. w' = w3\<lparr>jwBuffer := b\<rparr>)" using n(3,4) by (cases r) blast+
      then have same: "jwDirectory w' = jwDirectory w3" "jwRunSessionID w' = jwRunSessionID w3" "jwSequence w' = jwSequence w3"
        by (elim disjE exE; simp)+
      have log: "jsonl_log (w', h') = jsonl_log (w, h) @ take n line"
        using jsonl_log_append [OF same w3(3) n(2)] r3 by simp
      show ?thesis
      proof (cases r)
        case (Some err)
        then show ?thesis using log n(1) nl ll by (auto simp: line_def simp del: bytes_of_append)
      next
        case none: None
        have w': "w' = w3\<lparr>jwBytesWritten := jwBytesWritten w3 + int (length line)\<rparr>" "n = length line" using n(3) none by auto
        have "jsonl_inv w' h'" using i3 disk_stepD(1,3) [OF n(2)]
          by (simp add: jsonl_inv_def jsonl_path_cong [OF same(1,2)] w' w3(3)) (simp add: jsonl_path_def)
        moreover have "jwBytesWritten w' \<le> jwRotateSize w \<or> jwBytesWritten w' = int (Suc (length b))" if "0 < jwRotateSize w"
        proof (cases due)
          case True
          then show ?thesis using r3 None by (simp add: w' ll)
        next
          case no: False
          then have "w3 = w" "jwFile w \<noteq> None" using rot inv by (auto simp: jsonl_inv_def)
          moreover have "\<not> (jwBytesWritten w > 0 \<and> jwBytesWritten w + int (length line) > jwRotateSize w)"
            using d no that calculation by (auto simp: jsonl_shouldRotateLocked_def split: if_splits)
          moreover have "0 \<le> jwBytesWritten w" using inv by (simp add: jsonl_inv_def)
          ultimately show ?thesis using ll by (auto simp: w')
        qed
        ultimately show ?thesis using log b nl none s by (simp add: w'(2) line_def del: bytes_of_append)
      qed
    qed
  qed
qed

section \<open>Opening the structured log\<close>

lemma NewJSONLWriter_inv:
  assumes fresh: "\<And>s. \<not> exists_file (dir, jsonl_name run s) h"
    and op: "NewJSONLWriter dir run rsize secs m h = (Inr w, h')"
  shows "jsonl_inv w h' \<and> jsonl_log (w, h') = [] \<and> leaves foreign h h' \<and> jsonl_own w \<and> unat (jwSequence w) = 1"
proof -
  let ?w = "\<lparr>jwDirectory = dir, jwRunSessionID = run, jwRotateSize = rsize,
      jwRotateDuration = sint (word_of_int (secs * 1000000000) :: u64), jwMaxEventBytes = m, jwFile = None,
      jwBuffer = empty_buffer, jwSequence = 0, jwCreatedAt = 0, jwBytesWritten = 0, jwClosed = False\<rparr>"
  obtain h1 where cw: "CheckWritable dir h = (None, h1)" and op1: "jsonl_openNextLocked ?w h1 = (None, w, h')"
    using op by (auto simp: NewJSONLWriter_def Let_def split: option.splits prod.splits)
  have f1: "files h1 = files h" by (rule CheckWritable_files [OF cw])
  have free: "\<forall>i. unat (jwSequence ?w) \<le> i \<and> i < 2 ^ 64 - 1 \<longrightarrow> \<not> exists_file (jsonl_path ?w i) h1"
    using fresh by (simp add: jsonl_path_def same_files(2) [OF f1])
  have "jsonl_own ?w" by (simp add: jsonl_own_def)
  then have own: "leaves foreign h1 h'" "jsonl_own w" using openNext_leaves [OF _ op1] by blast+
  have "jwSequence w = 1" using op1 by (auto simp: jsonl_openNextLocked_def Let_def split: prod.splits option.splits)
  then show ?thesis using jsonl_openNext_effect [OF op1 _ _ free] own leaves_trans [OF leaves_files [OF f1]]
    by (simp add: jsonl_log_def)
qed

text \<open>The structured log of the concrete run, beside its journal.\<close>

definition jopened :: "(go_error + jsonl_writer) \<times> host" where
  "jopened = NewJSONLWriter ''j'' run0 0 0 700 oH"

definition jW :: jsonl_writer where "jW = projr (fst jopened)"
definition jH :: host where "jH = snd jopened"

lemma jopened: "NewJSONLWriter ''j'' run0 0 0 700 oH = (Inr jW, jH)"
proof -
  have "\<not> isl (fst jopened)" by code_simp
  then show ?thesis by (simp add: jW_def jH_def jopened_def [symmetric] prod_eq_iff sum.collapse)
qed

lemma oH_no_events: "\<not> exists_file (''j'', s) oH"
proof -
  have "list_all (\<lambda>(q, c). fst q = ''d'') (files oH)" by code_simp
  then show ?thesis by (auto simp: exists_file_def list_all_iff)
qed

lemma jopened_inv: "jsonl_inv jW jH" "jsonl_log (jW, jH) = []" "leaves foreign oH jH" "jsonl_own jW" "unat (jwSequence jW) = 1"
  using NewJSONLWriter_inv [OF oH_no_events jopened] by auto

definition start_event :: event where
  "start_event = no_event\<lparr>evEventType := ''sensor_state'', evSensorID := ''s''\<rparr>"

lemma WriteEvent_one_line_witness:
  "\<exists>r w' h'. WriteEvent start_event jW jH = (r, w', h') \<and> r = None \<and> jsonl_inv w' h'
     \<and> (\<exists>b. CHR 0x0A \<notin> set b \<and> jsonl_log (w', h') = bytes_of (b @ [CHR 0x0A]))"
proof -
  obtain r w' h' where op: "WriteEvent start_event jW jH = (r, w', h')" by (metis surj_pair)
  have "fst (WriteEvent start_event jW jH) = None" by code_simp
  then have "r = None" using op by simp
  moreover have "Suc (unat (jwSequence jW)) < 2 ^ 64" by (simp add: jopened_inv)
  ultimately show ?thesis using WriteEvent_one_line [OF jopened_inv(1) _ op] op jopened_inv(2) by auto
qed

end
