(* ===== verification/Runtime.thy ===== *)
theory Runtime
  imports Router Jsonl_Spec Bwj_Journal "HOL-Library.State_Monad"
begin

text \<open>
  The state a connection handler works on and its primitive effects: the host with the two evidence
  writers, the \<open>serverRuntime\<close> of \<open>internal/engine/engine.go\<close> with \<open>fail\<close>, \<open>decorateEvent\<close> and
  \<open>emit\<close>, a network connection, and the counters of \<open>internal/engine/connection.go\<close>. Effects are
  computations of the state monad of the library over the record \<open>world\<close>. What the environment
  decides is read from scripts, as in theory Host.
\<close>

section \<open>Error texts\<close>

text \<open>\<open>fmt.Sprintf\<close> for the verbs the code uses; \<open>%w\<close> stands for the text of the wrapped error.\<close>

fun go_format :: "string \<Rightarrow> arg list \<Rightarrow> string \<Rightarrow> string" where
  "go_format (a # b # f) as e =
    (if a = CHR ''%'' \<and> b = CHR ''w'' then e @ go_format f as e
     else if a = CHR ''%'' \<and> b \<in> set ''sdq'' then
       (case as of [] \<Rightarrow> ''%!'' @ [b] @ ''(MISSING)'' @ go_format f [] e
        | AStr s # rest \<Rightarrow> (if b = CHR ''q'' then [CHR 0x22] @ s @ [CHR 0x22] else s) @ go_format f rest e
        | AInt i # rest \<Rightarrow> itoa i @ go_format f rest e)
     else a # go_format (b # f) as e)"
| "go_format f as e = f"

fun error_text :: "go_error \<Rightarrow> string" where
  "error_text ErrClosed = ''file already closed''"
| "error_text ErrShortWrite = ''short write''"
| "error_text EOF = ''EOF''"
| "error_text ErrUnexpectedEOF = ''unexpected EOF''"
| "error_text ErrHeaderLimit = ''header byte limit reached''"
| "error_text ErrConnectionLimit = ''connection byte limit reached''"
| "error_text ErrBodyLimit = ''body byte limit reached''"
| "error_text ErrResponseLimit = ''response byte limit reached''"
| "error_text DeadlineExceeded = ''context deadline exceeded''"
| "error_text Canceled = ''context canceled''"
| "error_text (OsError m t) = m"
| "error_text (Errorf m as) = go_format m as []"
| "error_text (Wrapf m as e) = go_format m as (error_text e)"
| "error_text (Joined es) = join_strings [CHR 0x0A] (map error_text es)"

section \<open>State\<close>

text \<open>
  A \<open>net.Conn\<close>: what the peer will send, what was read, what was sent. The scripts give the outcome
  of each \<open>Read\<close>, \<open>Write\<close> and \<open>Set...Deadline\<close>, and of each \<open>select\<close> of \<open>wait\<close>.
\<close>

record net_conn =
  ncIn :: "byte list"
  ncTaken :: "byte list"
  ncSent :: "byte list"
  ncReads :: "(nat \<times> go_error option) list"
  ncWrites :: "(nat \<times> go_error option) list"
  ncDeadlines :: "go_error option list"
  ncSelects :: "go_error option list"
  ncClosed :: bool

record counters =
  bytesIn :: int
  bytesOut :: int
  requests :: int

text \<open>\<open>rtFatal\<close> is the error in \<open>fatalCh\<close>, sent once; \<open>rtEvents\<close> is a history of the events that were
  handed to \<open>emit\<close>, which no code reads.\<close>

record server_runtime =
  rtCfg :: config
  rtRunSessionID :: ID
  rtBwj :: bwj_writer
  rtJsonl :: jsonl_writer
  rtHealthy :: bool
  rtFatal :: "go_error option"
  rtEvents :: "event list"

record recording_reader =
  rrConnectionID :: ID
  rrMaxConnBytes :: int
  rrLifetimeEnd :: int
  rrParserFailed :: bool
  rrHeaderPhase :: bool
  rrHeaderStarted :: bool
  rrHeaderBytesRead :: int
  rrHeaderReadCap :: int
  rrHeaderTimeout :: int

text \<open>\<open>xwHasher\<close> holds the bytes given to the hash.\<close>

record exchange_writer =
  xwConnectionID :: ID
  xwRequestID :: ID
  xwMaxConnBytes :: int
  xwWriteTimeout :: int
  xwLifetimeEnd :: int
  xwStreaming :: bool
  xwHasher :: "byte list"

text \<open>\<open>wBuf\<close> and \<open>wPending\<close> are the unread bytes and the pending error of the \<open>bufio.Reader\<close>;
  \<open>wDone\<close> and \<open>wStreams\<close> answer \<open>ctx.Done()\<close> and \<open>streamCtx.Err()\<close>.\<close>

record world =
  wHost :: host
  wRt :: server_runtime
  wConn :: net_conn
  wCounters :: counters
  wReader :: recording_reader
  wBuf :: "byte list"
  wPending :: "go_error option"
  wWriter :: exchange_writer
  wRoutes :: route_state
  wDone :: "bool list"
  wStreams :: "go_error option list"

type_synonym 'a io = "(world, 'a) state"

abbreviation (input) "ret \<equiv> State_Monad.return"

definition gets :: "(world \<Rightarrow> 'a) \<Rightarrow> 'a io" where
  "gets f = State (\<lambda>w. (f w, w))"

definition modify :: "(world \<Rightarrow> world) \<Rightarrow> unit io" where
  "modify f = State (\<lambda>w. ((), f w))"

lemma run_state_gets [simp]: "run_state (gets f) w = (f w, w)"
  by (simp add: gets_def)

lemma run_state_modify [simp]: "run_state (modify f) w = ((), f w)"
  by (simp add: modify_def)

section \<open>The host\<close>

definition on_host :: "(host \<Rightarrow> 'a \<times> host) \<Rightarrow> 'a io" where
  "on_host f = State (\<lambda>w. case f (wHost w) of (x, h) \<Rightarrow> (x, w\<lparr>wHost := h\<rparr>))"

abbreviation time_now :: "int io" where "time_now \<equiv> on_host now"

section \<open>\<open>serverRuntime\<close>\<close>

definition rt_fail :: "go_error \<Rightarrow> unit io" where
  "rt_fail err = modify (\<lambda>w. if rtFatal (wRt w) = None then w\<lparr>wRt := (wRt w)\<lparr>rtFatal := Some err\<rparr>\<rparr> else w)"

definition fail_if :: "go_error option \<Rightarrow> unit io" where
  "fail_if err = (case err of None \<Rightarrow> ret () | Some e \<Rightarrow> rt_fail e)"

definition bwj_op :: "(bwj_writer \<Rightarrow> host \<Rightarrow> bwj_result) \<Rightarrow> go_error option io" where
  "bwj_op f = State (\<lambda>w. case f (rtBwj (wRt w)) (wHost w) of
     (err, b, h) \<Rightarrow> (err, w\<lparr>wRt := (wRt w)\<lparr>rtBwj := b\<rparr>, wHost := h\<rparr>))"

definition jsonl_op :: "(jsonl_writer \<Rightarrow> host \<Rightarrow> jsonl_result) \<Rightarrow> go_error option io" where
  "jsonl_op f = State (\<lambda>w. case f (rtJsonl (wRt w)) (wHost w) of
     (err, j, h) \<Rightarrow> (err, w\<lparr>wRt := (wRt w)\<lparr>rtJsonl := j\<rparr>, wHost := h\<rparr>))"

definition decorateEvent :: "event \<Rightarrow> event io" where
  "decorateEvent e = do {
     rt \<leftarrow> gets wRt;
     t \<leftarrow> (if evTimestampNS e = 0 then time_now else ret (evTimestampNS e));
     ret (e\<lparr>evTimestampNS := t, evSensorID := cfSensorID (rtCfg rt), evRunSessionID := FormatID (rtRunSessionID rt),
       evConfigSchemaVersion := cfVersion (rtCfg rt), evConfigSHA256 := cfConfigSHA256 (rtCfg rt)\<rparr>) }"

definition rt_emit :: "event \<Rightarrow> unit io" where
  "rt_emit e = do {
     _ \<leftarrow> modify (\<lambda>w. w\<lparr>wRt := (wRt w)\<lparr>rtEvents := rtEvents (wRt w) @ [e]\<rparr>\<rparr>);
     healthy \<leftarrow> gets (\<lambda>w. rtHealthy (wRt w));
     if \<not> healthy then ret ()
     else do {
       e \<leftarrow> decorateEvent e;
       err \<leftarrow> jsonl_op (WriteEvent e);
       (case err of None \<Rightarrow> ret () | Some _ \<Rightarrow> modify (\<lambda>w. w\<lparr>wRt := (wRt w)\<lparr>rtHealthy := False\<rparr>\<rparr>)) } }"

section \<open>The connection\<close>

definition on_conn :: "(net_conn \<Rightarrow> 'a \<times> net_conn) \<Rightarrow> 'a io" where
  "on_conn f = State (\<lambda>w. case f (wConn w) of (x, c) \<Rightarrow> (x, w\<lparr>wConn := c\<rparr>))"

text \<open>\<open>Read\<close> into \<open>len\<close> bytes: by default all that is there, \<open>io.EOF\<close> at the end.\<close>

definition conn_Read :: "nat \<Rightarrow> net_conn \<Rightarrow> (byte list \<times> go_error option) \<times> net_conn" where
  "conn_Read len c =
    (let ((n, e), rs) = pop (length (ncIn c), if ncIn c = [] then Some EOF else None) (ncReads c);
         bs = take (min n len) (ncIn c)
     in ((bs, e), c\<lparr>ncReads := rs, ncIn := drop (length bs) (ncIn c), ncTaken := ncTaken c @ bs\<rparr>))"

definition conn_Write :: "byte list \<Rightarrow> net_conn \<Rightarrow> (nat \<times> go_error option) \<times> net_conn" where
  "conn_Write p c =
    (let ((n, e), ws) = pop (length p, None) (ncWrites c); m = min n (length p)
     in ((m, e), c\<lparr>ncWrites := ws, ncSent := ncSent c @ take m p\<rparr>))"

text \<open>\<open>SetReadDeadline\<close> and the like: when it expires is left to the scripts of \<open>Read\<close> and \<open>Write\<close>.\<close>

definition set_deadline :: "int option \<Rightarrow> net_conn \<Rightarrow> go_error option \<times> net_conn" where
  "set_deadline t c = (let (e, es) = pop None (ncDeadlines c) in (e, c\<lparr>ncDeadlines := es\<rparr>))"

definition conn_Close :: "net_conn \<Rightarrow> net_conn" where
  "conn_Close c = c\<lparr>ncClosed := True\<rparr>"

definition select_wait :: "int \<Rightarrow> net_conn \<Rightarrow> go_error option \<times> net_conn" where
  "select_wait delay c = (let (e, es) = pop None (ncSelects c) in (e, c\<lparr>ncSelects := es\<rparr>))"

section \<open>Times\<close>

text \<open>The zero \<open>time.Time\<close>, in nanoseconds since the epoch.\<close>

definition zero_time :: int where "zero_time = -62135596800 * 1000000000"

definition limitDeadline :: "int \<Rightarrow> int \<Rightarrow> int" where
  "limitDeadline candidate lifetime = (if lifetime = zero_time \<or> candidate < lifetime then candidate else lifetime)"

section \<open>\<open>connectionCounters\<close>\<close>

definition remaining :: "int \<Rightarrow> int io" where
  "remaining maximum = gets (\<lambda>w. maximum - bytesIn (wCounters w) - bytesOut (wCounters w))"

definition addIn :: "int \<Rightarrow> unit io" where
  "addIn n = modify (\<lambda>w. w\<lparr>wCounters := (wCounters w)\<lparr>bytesIn := bytesIn (wCounters w) + n\<rparr>\<rparr>)"

definition addOut :: "int \<Rightarrow> unit io" where
  "addOut n = modify (\<lambda>w. w\<lparr>wCounters := (wCounters w)\<lparr>bytesOut := bytesOut (wCounters w) + n\<rparr>\<rparr>)"

definition addRequest :: "int io" where
  "addRequest = do {
     _ \<leftarrow> modify (\<lambda>w. w\<lparr>wCounters := (wCounters w)\<lparr>requests := requests (wCounters w) + 1\<rparr>\<rparr>);
     gets (\<lambda>w. requests (wCounters w)) }"

definition snapshot :: "(int \<times> int \<times> int) io" where
  "snapshot = gets (\<lambda>w. (bytesIn (wCounters w), bytesOut (wCounters w), requests (wCounters w)))"

definition currentBytesOut :: "int io" where
  "currentBytesOut = do { (_, out, _) \<leftarrow> snapshot; ret out }"

section \<open>What a computation leaves alone\<close>

named_theorems frame_intros \<open>rules for what a computation leaves unchanged\<close>

definition frame :: "(world \<Rightarrow> 'b) \<Rightarrow> 'a io \<Rightarrow> bool" where
  "frame f m \<longleftrightarrow> (\<forall>w. f (snd (run_state m w)) = f w)"

lemma frameD: "frame f m \<Longrightarrow> run_state m w = (x, w') \<Longrightarrow> f w' = f w"
  by (auto simp: frame_def dest!: spec [of _ w])

lemma frame_ret [frame_intros]: "frame f (ret x)"
  by (simp add: frame_def)

lemma frame_gets [frame_intros]: "frame f (gets g)"
  by (simp add: frame_def)

lemma frame_bind [frame_intros]: "frame f m \<Longrightarrow> (\<And>x. frame f (k x)) \<Longrightarrow> frame f (m \<bind> k)"
  unfolding frame_def by (auto split: prod.split) (metis snd_conv)

lemma frame_if [frame_intros]: "frame f a \<Longrightarrow> frame f b \<Longrightarrow> frame f (if c then a else b)"
  by simp

lemma frame_option [frame_intros]:
  "frame f a \<Longrightarrow> (\<And>x. frame f (b x)) \<Longrightarrow> frame f (case z of None \<Rightarrow> a | Some x \<Rightarrow> b x)"
  by (simp split: option.split)

lemma frame_sum [frame_intros]:
  "(\<And>x. frame f (a x)) \<Longrightarrow> (\<And>x. frame f (b x)) \<Longrightarrow> frame f (case z of Inl x \<Rightarrow> a x | Inr x \<Rightarrow> b x)"
  by (simp split: sum.split)

lemma frame_prod [frame_intros]: "(\<And>x y. frame f (a x y)) \<Longrightarrow> frame f (case z of (x, y) \<Rightarrow> a x y)"
  by (simp split: prod.split)

lemma frame_let [frame_intros]: "(\<And>x. frame f (a x)) \<Longrightarrow> frame f (let x = z in a x)"
  by simp

lemma frame_modify [frame_intros]: "(\<And>w. f (g w) = f w) \<Longrightarrow> frame f (modify g)"
  by (simp add: frame_def)

lemma frame_on_host [frame_intros]: "(\<And>w h. f (w\<lparr>wHost := h\<rparr>) = f w) \<Longrightarrow> frame f (on_host g)"
  by (simp add: frame_def on_host_def split: prod.split)

lemma frame_on_conn [frame_intros]: "(\<And>w c. f (w\<lparr>wConn := c\<rparr>) = f w) \<Longrightarrow> frame f (on_conn g)"
  by (simp add: frame_def on_conn_def split: prod.split)

lemma frame_bwj_op [frame_intros]:
  "(\<And>w b h. f (w\<lparr>wRt := (wRt w)\<lparr>rtBwj := b\<rparr>, wHost := h\<rparr>) = f w) \<Longrightarrow> frame f (bwj_op g)"
  by (simp add: frame_def bwj_op_def split: prod.split)

lemma frame_jsonl_op [frame_intros]:
  "(\<And>w b h. f (w\<lparr>wRt := (wRt w)\<lparr>rtJsonl := b\<rparr>, wHost := h\<rparr>) = f w) \<Longrightarrow> frame f (jsonl_op g)"
  by (simp add: frame_def jsonl_op_def split: prod.split)

lemma frame_rt_fail [frame_intros]:
  "(\<And>w e. f (w\<lparr>wRt := (wRt w)\<lparr>rtFatal := e\<rparr>\<rparr>) = f w) \<Longrightarrow> frame f (rt_fail err)"
  by (simp add: rt_fail_def frame_def)

text \<open>The server's part of the state: whatever only looks at the connection is not disturbed.\<close>

definition blind_rt :: "(world \<Rightarrow> 'b) \<Rightarrow> bool" where
  "blind_rt f \<longleftrightarrow> (\<forall>w r h. f (w\<lparr>wRt := r, wHost := h\<rparr>) = f w)"

lemma blind_rtD: "blind_rt f \<Longrightarrow> f (w\<lparr>wRt := r\<rparr>) = f w" "blind_rt f \<Longrightarrow> f (w\<lparr>wHost := h\<rparr>) = f w"
    "blind_rt f \<Longrightarrow> f (w\<lparr>wRt := r, wHost := h\<rparr>) = f w"
proof -
  assume f: "blind_rt f"
  have "w\<lparr>wRt := r\<rparr> = w\<lparr>wRt := r, wHost := wHost w\<rparr>" "w\<lparr>wHost := h\<rparr> = w\<lparr>wRt := wRt w, wHost := h\<rparr>" by simp_all
  then show "f (w\<lparr>wRt := r\<rparr>) = f w" "f (w\<lparr>wHost := h\<rparr>) = f w" "f (w\<lparr>wRt := r, wHost := h\<rparr>) = f w"
    using f unfolding blind_rt_def by metis+
qed

lemma frame_rt [frame_intros]:
  assumes "blind_rt f"
  shows "frame f (rt_emit e)" "frame f (fail_if err)"
  unfolding rt_emit_def decorateEvent_def fail_if_def
  by (intro frame_intros; simp add: blind_rtD [OF assms])+

end
