(* ===== verification/Exchange.thy ===== *)
theory Exchange
  imports Runtime Http
begin

text \<open>
  The input and output of a connection in \<open>internal/engine/connection.go\<close>: \<open>recordingReader\<close>,
  which journals every byte it reads before handing it on, \<open>exchangeWriter\<close>, which journals and
  hashes every byte the peer took, the \<open>bufio.Reader\<close> between the connection and the HTTP parser,
  \<open>consumeBody\<close>, \<open>postFailureCapture\<close> and the helpers that report limits and errors.
\<close>

section \<open>\<open>recordingReader\<close>\<close>

definition set_reader :: "(recording_reader \<Rightarrow> recording_reader) \<Rightarrow> unit io" where
  "set_reader f = modify (\<lambda>w. w\<lparr>wReader := f (wReader w)\<rparr>)"

definition set_read_deadline :: "int \<Rightarrow> go_error option io" where
  "set_read_deadline timeout = do {
     t \<leftarrow> time_now;
     r \<leftarrow> gets wReader;
     on_conn (set_deadline (Some (limitDeadline (t + timeout) (rrLifetimeEnd r)))) }"

definition beginHeaderPhase :: "int \<Rightarrow> int \<Rightarrow> bool \<Rightarrow> go_error option io" where
  "beginHeaderPhase idleTimeout headerTimeout alreadyBuffered = do {
     _ \<leftarrow> set_reader (\<lambda>r. r\<lparr>rrHeaderPhase := True, rrHeaderStarted := alreadyBuffered, rrHeaderBytesRead := 0,
            rrHeaderTimeout := headerTimeout\<rparr>);
     set_read_deadline (if alreadyBuffered then headerTimeout else idleTimeout) }"

definition beginBodyPhase :: "int \<Rightarrow> go_error option io" where
  "beginBodyPhase timeout = do { _ \<leftarrow> set_reader (\<lambda>r. r\<lparr>rrHeaderPhase := False\<rparr>); set_read_deadline timeout }"

definition beginPostFailure :: "int \<Rightarrow> go_error option io" where
  "beginPostFailure timeout = do {
     _ \<leftarrow> set_reader (\<lambda>r. r\<lparr>rrHeaderPhase := False, rrParserFailed := True\<rparr>); set_read_deadline timeout }"

definition clearReadDeadline :: "unit io" where
  "clearReadDeadline = do { _ \<leftarrow> on_conn (set_deadline None); ret () }"

text \<open>\<open>Read\<close> into a buffer of \<open>len\<close> bytes: the bytes read and the error.\<close>

definition header_started :: "unit io" where
  "header_started = do {
     r \<leftarrow> gets wReader;
     if rrHeaderPhase r \<and> \<not> rrHeaderStarted r then do {
       _ \<leftarrow> set_reader (\<lambda>r. r\<lparr>rrHeaderStarted := True\<rparr>);
       _ \<leftarrow> set_read_deadline (rrHeaderTimeout r);
       ret () }
     else ret () }"

definition record_in :: "byte list \<Rightarrow> go_error option io" where
  "record_in bs = do {
     r \<leftarrow> gets wReader;
     bwj_op (WriteData (rrConnectionID r) zero_id DirectionInbound (if rrParserFailed r then FlagParserFailed else 0) bs) }"

definition count_in :: "byte list \<Rightarrow> unit io" where
  "count_in bs = do {
     _ \<leftarrow> addIn (int (length bs));
     set_reader (\<lambda>r. if rrHeaderPhase r then r\<lparr>rrHeaderBytesRead := rrHeaderBytesRead r + int (length bs)\<rparr> else r) }"

definition read_limit :: "int \<Rightarrow> int \<Rightarrow> recording_reader \<Rightarrow> go_error + int" where
  "read_limit len rem r =
    (if rem \<le> 0 then Inl ErrConnectionLimit
     else let limit = (if len > rem then rem else len) in
       if rrHeaderPhase r then
         (let remainingHeader = rrHeaderReadCap r - rrHeaderBytesRead r in
          if remainingHeader \<le> 0 then Inl ErrHeaderLimit
          else let limit = (if limit > remainingHeader then remainingHeader else limit) in
            if limit \<le> 0 then Inl ErrConnectionLimit else Inr limit)
       else if limit \<le> 0 then Inl ErrConnectionLimit else Inr limit)"

definition rr_Read :: "int \<Rightarrow> (byte list \<times> go_error option) io" where
  "rr_Read len = do {
     r \<leftarrow> gets wReader;
     rem \<leftarrow> remaining (rrMaxConnBytes r);
     (case read_limit len rem r of Inl err \<Rightarrow> ret ([], Some err)
      | Inr limit \<Rightarrow> do {
          (bs, readErr) \<leftarrow> on_conn (conn_Read (nat limit));
          if bs \<noteq> [] then do {
            _ \<leftarrow> header_started;
            err \<leftarrow> record_in bs;
            (case err of Some e \<Rightarrow> do { _ \<leftarrow> rt_fail e; ret ([], Some e) }
             | None \<Rightarrow> do { _ \<leftarrow> count_in bs; ret (bs, readErr) }) }
          else ret (bs, readErr) }) }"

section \<open>\<open>exchangeWriter\<close>\<close>

definition newExchangeWriter :: "ID \<Rightarrow> ID \<Rightarrow> int \<Rightarrow> int \<Rightarrow> int \<Rightarrow> unit io" where
  "newExchangeWriter connectionID requestID maxConnBytes writeTimeout lifetimeEnd =
     modify (\<lambda>w. w\<lparr>wWriter := \<lparr>xwConnectionID = connectionID, xwRequestID = requestID, xwMaxConnBytes = maxConnBytes,
       xwWriteTimeout = writeTimeout, xwLifetimeEnd = lifetimeEnd, xwStreaming = False, xwHasher = []\<rparr>\<rparr>)"

definition record_out :: "byte list \<Rightarrow> go_error option io" where
  "record_out bs = do {
     x \<leftarrow> gets wWriter;
     bwj_op (WriteData (xwConnectionID x) (xwRequestID x) DirectionOutbound (if xwStreaming x then FlagStreaming else 0) bs) }"

definition count_out :: "byte list \<Rightarrow> unit io" where
  "count_out bs = do {
     _ \<leftarrow> addOut (int (length bs));
     modify (\<lambda>w. w\<lparr>wWriter := (wWriter w)\<lparr>xwHasher := xwHasher (wWriter w) @ bs\<rparr>\<rparr>) }"

text \<open>The end of \<open>Write\<close>, after the bytes the peer took were recorded.\<close>

definition write_outcome :: "nat \<Rightarrow> nat \<Rightarrow> bool \<Rightarrow> go_error option \<Rightarrow> nat \<times> go_error option" where
  "write_outcome n len limited writeErr =
    (if writeErr \<noteq> None then (n, writeErr)
     else if limited \<and> n = len then (n, Some ErrConnectionLimit)
     else if n = 0 \<and> len > 0 then (0, Some ErrShortWrite)
     else (n, None))"

definition xw_Write :: "byte list \<Rightarrow> (nat \<times> go_error option) io" where
  "xw_Write p0 = do {
     x \<leftarrow> gets wWriter;
     rem \<leftarrow> remaining (xwMaxConnBytes x);
     if rem \<le> 0 then ret (0, Some ErrConnectionLimit)
     else do {
       let limited = (int (length p0) > rem);
       let p = (if limited then take (nat rem) p0 else p0);
       t \<leftarrow> time_now;
       derr \<leftarrow> on_conn (set_deadline (Some (limitDeadline (t + xwWriteTimeout x) (xwLifetimeEnd x))));
       (case derr of Some e \<Rightarrow> ret (0, Some e)
        | None \<Rightarrow> do {
            (n, writeErr) \<leftarrow> on_conn (conn_Write p);
            if n > 0 then do {
              err \<leftarrow> record_out (take n p);
              (case err of
                 Some e \<Rightarrow> do { _ \<leftarrow> rt_fail e; _ \<leftarrow> count_out (take n p); ret (n, Some e) }
               | None \<Rightarrow> do { _ \<leftarrow> count_out (take n p); ret (write_outcome n (length p) limited writeErr) }) }
            else ret (write_outcome n (length p) limited writeErr) }) } }"

definition xw_Sum :: "(byte list \<Rightarrow> byte list) \<Rightarrow> string io" where
  "xw_Sum sha256 = gets (\<lambda>w. hex_encode (sha256 (xwHasher (wWriter w))))"

definition clearDeadline :: "unit io" where
  "clearDeadline = do { _ \<leftarrow> on_conn (set_deadline None); ret () }"

text \<open>The writer as the \<open>io.Writer\<close> that \<open>response.Write\<close> is given, with the select of its waits.\<close>

definition exchangeWriter_Write :: "world writer_op" where
  "exchangeWriter_Write w p = run_state (xw_Write p) w"

definition exchange_select :: "world select_op" where
  "exchange_select delay w = run_state (on_conn (select_wait delay)) w"

section \<open>The buffered reader and the HTTP parser\<close>

text \<open>
  \<open>net/http\<close> reads requests and bodies through a \<open>bufio.Reader\<close>. Its parser is a parameter: given
  the bytes received since it began, it has a result, or it has consumed some of them and asks for
  more into a buffer of a given size; \<open>plEnd\<close> is its result when reading fails instead. The first
  component is the number of bytes consumed.
\<close>

datatype 'a pull_step = More nat nat | Done nat 'a

record 'a puller =
  plStep :: "byte list \<Rightarrow> 'a pull_step"
  plEnd :: "byte list \<Rightarrow> go_error \<Rightarrow> nat \<times> 'a"

definition ErrNoProgress :: go_error where
  "ErrNoProgress = OsError ''multiple Read calls return no data or error'' False"

text \<open>\<open>(*bufio.Reader).fill\<close>: up to 100 reads; an error is kept for later.\<close>

primrec buf_fill :: "nat \<Rightarrow> nat \<Rightarrow> unit io" where
  "buf_fill 0 len = modify (\<lambda>w. w\<lparr>wPending := Some ErrNoProgress\<rparr>)"
| "buf_fill (Suc k) len = do {
     (bs, err) \<leftarrow> rr_Read (int len);
     _ \<leftarrow> modify (\<lambda>w. w\<lparr>wBuf := wBuf w @ bs, wPending := err\<rparr>);
     if err \<noteq> None \<or> bs \<noteq> [] then ret () else buf_fill k len }"

definition consume :: "nat \<Rightarrow> world \<Rightarrow> world" where
  "consume n w = w\<lparr>wBuf := drop n (wBuf w)\<rparr>"

lemma consume_simps [simp]:
  "wHost (consume n w) = wHost w" "wRt (consume n w) = wRt w" "wConn (consume n w) = wConn w"
  "wCounters (consume n w) = wCounters w" "wReader (consume n w) = wReader w" "wWriter (consume n w) = wWriter w"
  "wPending (consume n w) = wPending w" "wRoutes (consume n w) = wRoutes w"
  by (simp_all add: consume_def)

subsection \<open>Progress of a read\<close>

definition in_room :: "world \<Rightarrow> int" where
  "in_room w = rrMaxConnBytes (wReader w) - bytesIn (wCounters w) - bytesOut (wCounters w)"

lemma read_limit_le: "read_limit len rem r = Inr limit \<Longrightarrow> 0 < limit \<and> limit \<le> len \<and> limit \<le> rem"
  by (auto simp: read_limit_def Let_def split: if_splits)

lemma conn_Read_length: "conn_Read n c = ((bs, e), c') \<Longrightarrow> length bs \<le> n"
  by (auto simp: conn_Read_def Let_def split: prod.splits)

lemma record_in_frame: "frame wCounters (record_in bs)" "frame wReader (record_in bs)" "frame wConn (record_in bs)"
  unfolding record_in_def by (intro frame_intros; simp)+

lemma header_started_frame: "frame wCounters header_started" "frame (\<lambda>w. rrMaxConnBytes (wReader w)) header_started"
    "frame (\<lambda>w. rrConnectionID (wReader w)) header_started"
  unfolding header_started_def set_reader_def set_read_deadline_def by (intro frame_intros; simp)+

lemma rr_Read_cases:
  assumes "run_state (rr_Read len) w = ((bs, e), w')"
  obtains (refused) "bs = []" "e \<noteq> None" "w' = w"
  | (read) limit w1 cs err where "read_limit len (in_room w) (wReader w) = Inr limit"
      "run_state (on_conn (conn_Read (nat limit))) w = ((cs, err), w1)" "cs = []" "bs = []" "e = err" "w' = w1"
  | (failed) limit w1 cs err w2 e1 w3 where "read_limit len (in_room w) (wReader w) = Inr limit"
      "run_state (on_conn (conn_Read (nat limit))) w = ((cs, err), w1)" "cs \<noteq> []" "run_state header_started w1 = ((), w2)"
      "run_state (record_in cs) w2 = (Some e1, w3)" "bs = []" "e = Some e1" "run_state (rt_fail e1) w3 = ((), w')"
  | (ok) limit w1 err w2 w3 where "read_limit len (in_room w) (wReader w) = Inr limit"
      "run_state (on_conn (conn_Read (nat limit))) w = ((bs, err), w1)" "bs \<noteq> []" "run_state header_started w1 = ((), w2)"
      "run_state (record_in bs) w2 = (None, w3)" "e = err" "run_state (count_in bs) w3 = ((), w')"
proof (cases "read_limit len (in_room w) (wReader w)")
  case (Inl a)
  then show thesis using assms refused by (auto simp: rr_Read_def remaining_def in_room_def)
next
  case (Inr limit)
  obtain cs err w1 where r: "run_state (on_conn (conn_Read (nat limit))) w = ((cs, err), w1)" by (metis surj_pair)
  obtain w2 where h: "run_state header_started w1 = ((), w2)" by (metis surj_pair unit.exhaust)
  obtain e1 w3 where rec: "run_state (record_in cs) w2 = (e1, w3)" by (metis surj_pair)
  note steps = assms [unfolded rr_Read_def, simplified, unfolded remaining_def, simplified, folded in_room_def,
      unfolded Inr, simplified, unfolded r, simplified]
  show thesis
  proof (cases "cs = []")
    case True
    then show thesis using read [OF Inr r] steps by simp
  next
    case False
    show thesis
    proof (cases e1)
      case None
      then have "bs = cs" "e = err" "run_state (count_in cs) w3 = ((), w')"
        using steps False h rec by (auto split: prod.splits)
      then show thesis using ok [OF Inr] r False h rec None by simp
    next
      case (Some a)
      then show thesis using failed [OF Inr r False h] rec steps False h by (auto split: prod.splits)
    qed
  qed
qed

lemma rr_Read_progress:
  assumes "run_state (rr_Read len) w = ((bs, e), w')"
  shows "in_room w' = in_room w - int (length bs) \<and> (bs = [] \<or> int (length bs) \<le> in_room w)"
  using assms
proof (cases rule: rr_Read_cases)
  case refused
  then show ?thesis by simp
next
  case (read limit w1 cs err)
  then show ?thesis by (simp add: in_room_def on_conn_def split: prod.splits) auto
next
  case (failed limit w1 cs err w2 e1 w3)
  have "in_room w1 = in_room w" using failed(2) by (auto simp: in_room_def on_conn_def split: prod.splits)
  moreover have "in_room w2 = in_room w1" using frameD [OF header_started_frame(1) failed(4)] frameD [OF header_started_frame(2) failed(4)]
    by (simp add: in_room_def)
  moreover have "in_room w3 = in_room w2" using frameD [OF record_in_frame(1) failed(5)] frameD [OF record_in_frame(2) failed(5)]
    by (simp add: in_room_def)
  moreover have "in_room w' = in_room w3" using failed(8) by (auto simp: in_room_def rt_fail_def split: if_splits)
  ultimately show ?thesis using failed(6) by simp
next
  case (ok limit w1 err w2 w3)
  have "in_room w1 = in_room w" using ok(2) by (auto simp: in_room_def on_conn_def split: prod.splits)
  moreover have "in_room w2 = in_room w1" using frameD [OF header_started_frame(1) ok(4)] frameD [OF header_started_frame(2) ok(4)]
    by (simp add: in_room_def)
  moreover have "in_room w3 = in_room w2" using frameD [OF record_in_frame(1) ok(5)] frameD [OF record_in_frame(2) ok(5)]
    by (simp add: in_room_def)
  moreover have "in_room w' = in_room w3 - int (length bs)"
    using ok(7) by (auto simp: in_room_def count_in_def addIn_def set_reader_def)
  moreover have "length bs \<le> nat limit" using ok(2) by (auto simp: on_conn_def dest: conn_Read_length split: prod.splits)
  moreover have "int (nat limit) = limit" "limit \<le> in_room w" using read_limit_le [OF ok(1)] by simp_all
  ultimately show ?thesis by linarith
qed

text \<open>A read that returns neither bytes nor an error used up an outcome of the connection's script.\<close>

lemma frame_set_deadline [frame_intros]:
  "(\<And>w d. f (w\<lparr>wConn := (wConn w)\<lparr>ncDeadlines := d\<rparr>\<rparr>) = f w) \<Longrightarrow> frame f (on_conn (set_deadline t))"
  by (simp add: frame_def on_conn_def set_deadline_def split: prod.split)

lemma header_started_reads: "frame (\<lambda>w. ncReads (wConn w)) header_started"
  unfolding header_started_def set_reader_def set_read_deadline_def by (intro frame_intros; simp)

lemma pop_length: "pop d xs = (x, ys) \<Longrightarrow> length ys = length xs - 1"
  by (cases xs) auto

lemma conn_Read_reads:
  assumes "conn_Read n c = ((bs, e), c')"
  shows "length (ncReads c') \<le> length (ncReads c) \<and> (bs = [] \<and> e = None \<and> 0 < n \<longrightarrow> length (ncReads c') < length (ncReads c))"
  using assms by (cases "ncReads c") (auto simp: conn_Read_def Let_def min_def split: prod.splits if_splits)

definition reads_left :: "world \<Rightarrow> nat" where
  "reads_left w = length (ncReads (wConn w))"

lemma rr_Read_reads:
  assumes "run_state (rr_Read len) w = ((bs, e), w')"
  shows "reads_left w' \<le> reads_left w \<and> (bs = [] \<and> e = None \<longrightarrow> reads_left w' < reads_left w)"
  using assms
proof (cases rule: rr_Read_cases)
  case refused
  then show ?thesis by simp
next
  case (read limit w1 cs err)
  have "0 < nat limit" using read_limit_le [OF read(1)] by simp
  then show ?thesis using read conn_Read_reads [of "nat limit" "wConn w" cs err]
    by (auto simp: reads_left_def on_conn_def split: prod.splits)
next
  case (failed limit w1 cs err w2 e1 w3)
  have "reads_left w1 \<le> reads_left w" using failed(2) conn_Read_reads [of "nat limit" "wConn w" cs err]
    by (auto simp: reads_left_def on_conn_def split: prod.splits)
  moreover have "reads_left w3 = reads_left w1" using frameD [OF header_started_reads failed(4)] frameD [OF record_in_frame(3) failed(5)]
    by (simp add: reads_left_def)
  moreover have "reads_left w' = reads_left w3" using failed(8) by (auto simp: reads_left_def rt_fail_def split: if_splits)
  ultimately show ?thesis using failed(7) by simp
next
  case (ok limit w1 err w2 w3)
  have "reads_left w1 \<le> reads_left w" using ok(2) conn_Read_reads [of "nat limit" "wConn w" bs err]
    by (auto simp: reads_left_def on_conn_def split: prod.splits)
  moreover have "reads_left w3 = reads_left w1" using frameD [OF header_started_reads ok(4)] frameD [OF record_in_frame(3) ok(5)]
    by (simp add: reads_left_def)
  moreover have "reads_left w' = reads_left w3" using ok(7) by (auto simp: reads_left_def count_in_def addIn_def set_reader_def)
  ultimately show ?thesis using ok(3) by simp
qed

subsection \<open>Pulling a request or a body\<close>

lemma buf_fill_progress:
  assumes "run_state (buf_fill k len) w = ((), w')"
  shows "in_room w' < in_room w \<and> 0 \<le> in_room w' \<or> in_room w' = in_room w \<and> wPending w' \<noteq> None"
  using assms
proof (induction k arbitrary: w)
  case 0
  then show ?case by (auto simp: in_room_def)
next
  case (Suc k)
  obtain bs e w1 where r: "run_state (rr_Read (int len)) w = ((bs, e), w1)" by (metis surj_pair)
  define w2 where "w2 = w1\<lparr>wBuf := wBuf w1 @ bs, wPending := e\<rparr>"
  have room: "in_room w2 = in_room w - int (length bs)" "bs = [] \<or> int (length bs) \<le> in_room w"
    using rr_Read_progress [OF r] by (simp_all add: w2_def in_room_def)
  have op: "run_state (if e \<noteq> None \<or> bs \<noteq> [] then ret () else buf_fill k len) w2 = ((), w')"
    using Suc.prems r by (simp add: w2_def)
  show ?case
  proof (cases "e \<noteq> None \<or> bs \<noteq> []")
    case True
    then show ?thesis using op room by (cases "bs = []") (auto simp: w2_def)
  next
    case False
    then show ?thesis using Suc.IH [of w2] op room by simp
  qed
qed

text \<open>The loop of a parser over the buffered reader; \<open>seen\<close> are the bytes it consumed so far.\<close>

function pull :: "'a puller \<Rightarrow> byte list \<Rightarrow> world \<Rightarrow> 'a \<times> world" where
  "pull p seen w =
    (case plStep p (seen @ wBuf w) of
       Done k x \<Rightarrow> (x, consume (k - length seen) w)
     | More k len \<Rightarrow>
         (let n = k - length seen; seen' = seen @ take n (wBuf w); w1 = consume n w in
          case wPending w1 of
            Some e \<Rightarrow> (case plEnd p (seen' @ wBuf w1) e of
                (k', x) \<Rightarrow> (x, consume (k' - length seen') (w1\<lparr>wPending := None\<rparr>)))
          | None \<Rightarrow> (case run_state (buf_fill 100 len) w1 of (u, w2) \<Rightarrow> pull p seen' w2)))"
  by pat_completeness auto
termination
proof (relation "measure (\<lambda>(p, seen, w). 2 * nat (in_room w) + (if wPending w = None then 1 else 0))", goal_cases)
  case 1
  show ?case by simp
next
  case (2 p seen w k len n seen' w1 u w2)
  have "run_state (buf_fill 100 len) w1 = ((), w2)" using 2 by (cases u) simp
  from buf_fill_progress [OF this] have step: "in_room w2 < in_room w1 \<and> 0 \<le> in_room w2
      \<or> in_room w2 = in_room w1 \<and> wPending w2 \<noteq> None" .
  have "in_room w1 = in_room w" "wPending w1 = wPending w" using 2 by (simp_all add: in_room_def)
  moreover have "wPending w1 = None" using 2 by simp
  ultimately show ?case using step by auto
qed

declare pull.simps [simp del]

text \<open>What the program uses of \<open>net/http\<close>: \<open>ReadRequest\<close>, the body of a request read up to a number
  of decoded bytes (their count, the error, and the trailer), and \<open>Body.Close\<close> after that.\<close>

record http_lib =
  hlRequest :: "(go_error + http_request) puller"
  hlBody :: "http_request \<Rightarrow> int \<Rightarrow> (int \<times> go_error option \<times> http_header) puller"
  hlClose :: "http_request \<Rightarrow> go_error option"

definition readRequest :: "http_lib \<Rightarrow> (go_error + http_request) io" where
  "readRequest lib = State (pull (hlRequest lib) [])"

text \<open>\<open>io.CopyBuffer\<close> from a \<open>LimitReader\<close> of \<open>maxBytes + 1\<close>; also returns the trailer.\<close>

definition consumeBody :: "http_lib \<Rightarrow> http_request \<Rightarrow> int \<Rightarrow> (int \<times> go_error option \<times> http_header) io" where
  "consumeBody lib req maxBytes =
    (if rqNoBody req then ret (0, None, [])
     else do {
       (n, err, trailer) \<leftarrow> State (pull (hlBody lib req (maxBytes + 1)) []);
       ret (if err \<noteq> None then (n, err, trailer)
         else if n > maxBytes then (n, Some ErrBodyLimit, trailer)
         else (n, hlClose lib req, trailer)) })"

definition requestMayHaveBody :: "http_request \<Rightarrow> bool" where
  "requestMayHaveBody req \<longleftrightarrow> rqContentLength req \<noteq> 0 \<or> rqTransferEncoding req \<noteq> []"

definition semanticHeaderBytes :: "http_header \<Rightarrow> int" where
  "semanticHeaderBytes headers = (if headers = [] then 0
     else 2 + sum_list (map (\<lambda>(name, values). if values = [] then int (length name + 4)
       else sum_list (map (\<lambda>v. int (length name + 2 + length v + 2)) values)) headers))"

definition logicalConsumed :: "int io" where
  "logicalConsumed = gets (\<lambda>w. bytesIn (wCounters w) - int (length (wBuf w)))"

section \<open>Reports\<close>

definition isTimeout :: "go_error \<Rightarrow> bool" where
  "isTimeout err \<longleftrightarrow> net_timeout err = Some True"

definition limitCodeText :: "LimitCode \<Rightarrow> string" where
  "limitCodeText code = (case code of LimitHeaderBytes \<Rightarrow> ''max_header_bytes'' | LimitBodyBytes \<Rightarrow> ''max_body_bytes''
     | LimitRequestsPerConnection \<Rightarrow> ''max_requests_per_connection''
     | LimitConnectionLifetime \<Rightarrow> ''max_connection_lifetime'' | LimitConnectionBytes \<Rightarrow> ''max_connection_bytes''
     | LimitResponseBytes \<Rightarrow> ''max_response_bytes'' | LimitStreamLifetime \<Rightarrow> ''max_stream_seconds''
     | LimitPostFailureCaptureBytes \<Rightarrow> ''max_post_failure_capture_bytes'' | LimitHeaderTimeout \<Rightarrow> ''header_timeout''
     | LimitBodyTimeout \<Rightarrow> ''body_timeout'' | LimitIdleTimeout \<Rightarrow> ''idle_timeout'' | LimitWriteTimeout \<Rightarrow> ''write_timeout'')"

text \<open>A write to the journal whose error is fatal for the server.\<close>

definition journal_write :: "(bwj_writer \<Rightarrow> host \<Rightarrow> bwj_result) \<Rightarrow> unit io" where
  "journal_write f = do { err \<leftarrow> bwj_op f; fail_if err }"

definition emitLimitWithRequest :: "string \<Rightarrow> ID \<Rightarrow> string \<Rightarrow> string \<Rightarrow> LimitCode \<Rightarrow> u64 \<Rightarrow> unit io" where
  "emitLimitWithRequest serviceID connectionID connectionIDText requestID code observed = do {
     _ \<leftarrow> journal_write (WriteLimit connectionID code observed);
     rt_emit (no_event\<lparr>evEventType := ''limit_reached'', evServiceID := serviceID, evConnectionID := connectionIDText,
       evRequestID := requestID, evOperationalCode := limitCodeText code\<rparr>) }"

text \<open>\<open>emitLimit\<close> is the same without a request.\<close>

definition emitLimit :: "string \<Rightarrow> ID \<Rightarrow> string \<Rightarrow> LimitCode \<Rightarrow> u64 \<Rightarrow> unit io" where
  "emitLimit serviceID connectionID connectionIDText code observed = do {
     _ \<leftarrow> journal_write (WriteLimit connectionID code observed);
     rt_emit (no_event\<lparr>evEventType := ''limit_reached'', evServiceID := serviceID, evConnectionID := connectionIDText,
       evOperationalCode := limitCodeText code\<rparr>) }"

definition writeParserError :: "ID \<Rightarrow> ParserCode \<Rightarrow> u64 \<Rightarrow> unit io" where
  "writeParserError connectionID code position = journal_write (WriteParserError connectionID code position)"

definition reasonForWriteError :: "go_error option \<Rightarrow> CloseReason" where
  "reasonForWriteError err = (case err of None \<Rightarrow> CloseInternalError
     | Some e \<Rightarrow> if isTimeout e then CloseWriteTimeout
         else if errors_Is e ErrConnectionLimit \<or> errors_Is e ErrResponseLimit then CloseLimitReached
         else CloseInternalError)"

definition writeErrorCode :: "go_error option \<Rightarrow> string" where
  "writeErrorCode err = (case err of None \<Rightarrow> ''''
     | Some e \<Rightarrow> if isTimeout e then ''write_timeout''
         else if errors_Is e ErrConnectionLimit then ''connection_bytes''
         else if errors_Is e ErrResponseLimit then ''response_bytes''
         else if errors_Is e DeadlineExceeded then ''stream_timeout''
         else ''write_failed'')"

definition boundedErrorText :: "go_error option \<Rightarrow> string" where
  "boundedErrorText err = (case err of None \<Rightarrow> ''''
     | Some e \<Rightarrow> (let text = map (\<lambda>c. if c = CHR 0x0A then CHR '' '' else c) (error_text e)
         in if length text > 256 then take 256 text else text))"

section \<open>Capture after a failure\<close>

function capture_loop :: "int \<Rightarrow> world \<Rightarrow> bool \<times> world" where
  "capture_loop left w =
    (if left \<le> 0 then (True, w)
     else let n = (if 32768 > left then left else 32768) in
       case run_state (rr_Read n) w of
         ((bs, Some err), w') \<Rightarrow> (False, w')
       | ((bs, None), w') \<Rightarrow> capture_loop (left - int (length bs)) w')"
  by pat_completeness auto
termination
proof (relation "measures [\<lambda>(left, w). nat left, \<lambda>(left, w). reads_left w]", goal_cases)
  case 1
  show ?case by simp
next
  case (2 left w n x w' bs e)
  then have "run_state (rr_Read n) w = ((bs, None), w')" by simp
  from rr_Read_reads [OF this] show ?case using 2 by (cases bs) auto
qed

declare capture_loop.simps [simp del]

definition postFailureCapture :: "unit io" where
  "postFailureCapture = do {
     limits \<leftarrow> gets (\<lambda>w. cfLimits (rtCfg (wRt w)));
     err \<leftarrow> beginPostFailure (PostFailureCaptureTimeoutSeconds limits * Second);
     (case err of Some _ \<Rightarrow> ret ()
      | None \<Rightarrow> do {
          drained \<leftarrow> State (capture_loop (MaxPostFailureCaptureBytes limits));
          _ \<leftarrow> (if drained then do {
                 r \<leftarrow> gets wReader;
                 journal_write (WriteLimit (rrConnectionID r) LimitPostFailureCaptureBytes
                   (word_of_int (MaxPostFailureCaptureBytes limits))) }
               else ret ());
          clearReadDeadline }) }"

end
