(* ===== verification/Triples.thy ===== *)
theory Triples
  imports Exchange
begin

text \<open>
  Hoare triples for the computations of theory Runtime, and the first facts about the exchange
  writer proved with them: it is a \<open>destination\<close> of \<open>response.Write\<close> (theory Response).
\<close>

section \<open>Triples\<close>

named_theorems triple_rules \<open>Hoare rules\<close>

definition triple :: "(world \<Rightarrow> bool) \<Rightarrow> 'a io \<Rightarrow> ('a \<Rightarrow> world \<Rightarrow> bool) \<Rightarrow> bool" where
  "triple P m Q \<longleftrightarrow> (\<forall>w. P w \<longrightarrow> (case run_state m w of (x, w') \<Rightarrow> Q x w'))"

lemma tripleI: "(\<And>w x w'. P w \<Longrightarrow> run_state m w = (x, w') \<Longrightarrow> Q x w') \<Longrightarrow> triple P m Q"
  by (auto simp: triple_def)

lemma tripleD: "triple P m Q \<Longrightarrow> run_state m w = (x, w') \<Longrightarrow> P w \<Longrightarrow> Q x w'"
  by (auto simp: triple_def dest!: spec [of _ w])

lemma triple_ret [triple_rules]: "triple (Q x) (ret x) Q"
  by (simp add: triple_def)

lemma triple_bind [triple_rules]:
  "triple P m R \<Longrightarrow> (\<And>x. triple (R x) (k x) Q) \<Longrightarrow> triple P (m \<bind> k) Q"
proof (rule tripleI)
  fix w x w'
  assume m: "triple P m R" and k: "\<And>x. triple (R x) (k x) Q" and w: "P w" and op: "run_state (m \<bind> k) w = (x, w')"
  obtain y w1 where y: "run_state m w = (y, w1)" by (metis surj_pair)
  then have "run_state (k y) w1 = (x, w')" using op by simp
  then show "Q x w'" using tripleD [OF k] tripleD [OF m y w] by blast
qed

lemma triple_if [triple_rules]:
  "(c \<Longrightarrow> triple P a Q) \<Longrightarrow> (\<not> c \<Longrightarrow> triple P b Q) \<Longrightarrow> triple P (if c then a else b) Q"
  by simp

lemma triple_option [triple_rules]:
  "(z = None \<Longrightarrow> triple P a Q) \<Longrightarrow> (\<And>x. z = Some x \<Longrightarrow> triple P (b x) Q)
    \<Longrightarrow> triple P (case z of None \<Rightarrow> a | Some x \<Rightarrow> b x) Q"
  by (simp split: option.split)

lemma triple_sum [triple_rules]:
  "(\<And>x. z = Inl x \<Longrightarrow> triple P (a x) Q) \<Longrightarrow> (\<And>x. z = Inr x \<Longrightarrow> triple P (b x) Q)
    \<Longrightarrow> triple P (case z of Inl x \<Rightarrow> a x | Inr x \<Rightarrow> b x) Q"
  by (simp split: sum.split)

lemma triple_prod [triple_rules]:
  "(\<And>x y. z = (x, y) \<Longrightarrow> triple P (a x y) Q) \<Longrightarrow> triple P (case z of (x, y) \<Rightarrow> a x y) Q"
  by (simp split: prod.split)

lemma triple_pre: "triple P m Q \<Longrightarrow> (\<And>w. P' w \<Longrightarrow> P w) \<Longrightarrow> triple P' m Q"
  by (auto simp: triple_def)

lemma triple_post: "triple P m Q \<Longrightarrow> (\<And>x w. Q x w \<Longrightarrow> Q' x w) \<Longrightarrow> triple P m Q'"
  by (auto simp: triple_def split: prod.splits)

lemma triple_ret_pre: "(\<And>w. P w \<Longrightarrow> Q x w) \<Longrightarrow> triple P (ret x) Q"
  by (simp add: triple_def)

lemma triple_ex: "(\<And>a. triple (P a) m Q) \<Longrightarrow> triple (\<lambda>w. \<exists>a. P a w) m Q"
  by (rule tripleI) (auto dest: tripleD)

lemma triple_and: "triple P m Q \<Longrightarrow> triple P' m Q' \<Longrightarrow> triple (\<lambda>w. P w \<and> P' w) m (\<lambda>x w. Q x w \<and> Q' x w)"
  by (auto simp: triple_def split: prod.splits)

lemma triple_pure: "(c \<Longrightarrow> triple P m Q) \<Longrightarrow> triple (\<lambda>w. c \<and> P w) m Q"
  by (auto simp: triple_def)

lemma triple_gets [triple_rules]: "triple P (gets f) (\<lambda>x w. x = f w \<and> P w)"
  by (simp add: triple_def)

lemma triple_modify: "(\<And>w. P w \<Longrightarrow> Q () (f w)) \<Longrightarrow> triple P (modify f) Q"
  by (simp add: triple_def)

text \<open>What a computation leaves alone keeps every assertion about it.\<close>

lemma triple_frame: "frame f m \<Longrightarrow> triple (\<lambda>w. P (f w)) m (\<lambda>_ w. P (f w))"
  by (auto simp: triple_def frame_def split: prod.split) (metis snd_conv)

lemma frame_triple: "(\<And>v. triple (\<lambda>w. f w = v) m (\<lambda>_ w. f w = v)) \<Longrightarrow> frame f m"
proof (unfold frame_def, rule allI)
  fix w
  assume m: "\<And>v. triple (\<lambda>w. f w = v) m (\<lambda>_ w. f w = v)"
  obtain x w' where r: "run_state m w = (x, w')" by (metis surj_pair)
  then show "f (snd (run_state m w)) = f w" using tripleD [OF m r] by simp
qed

section \<open>The exchange writer as a destination\<close>

abbreviation wire :: "world \<Rightarrow> byte list" where "wire w \<equiv> ncSent (wConn w)"

text \<open>What \<open>Write\<close> does: \<open>q\<close> is what fits the connection's byte budget; the steps before the
  connection is written to only read the clock and set the deadline.\<close>

definition out_cut :: "int \<Rightarrow> byte list \<Rightarrow> byte list" where
  "out_cut k p = (if int (length p) > k then take (nat k) p else p)"

definition before_write :: "exchange_writer \<Rightarrow> go_error option io" where
  "before_write x = do {
     t \<leftarrow> time_now;
     on_conn (set_deadline (Some (limitDeadline (t + xwWriteTimeout x) (xwLifetimeEnd x)))) }"

lemma write_outcome_fst: "write_outcome n len limited e = (m, r) \<Longrightarrow> m = n"
  by (auto simp: write_outcome_def split: if_splits)

definition out_room :: "world \<Rightarrow> int" where
  "out_room w = xwMaxConnBytes (wWriter w) - bytesIn (wCounters w) - bytesOut (wCounters w)"

definition xw_rest :: "exchange_writer \<Rightarrow> byte list \<Rightarrow> int \<Rightarrow> (nat \<times> go_error option) io" where
  "xw_rest x p k = do {
     derr \<leftarrow> before_write x;
     (case derr of Some e \<Rightarrow> ret (0, Some e)
      | None \<Rightarrow> do {
          (n, writeErr) \<leftarrow> on_conn (conn_Write (out_cut k p));
          if n > 0 then do {
            err \<leftarrow> record_out (take n (out_cut k p));
            (case err of
               Some e \<Rightarrow> do { _ \<leftarrow> rt_fail e; _ \<leftarrow> count_out (take n (out_cut k p)); ret (n, Some e) }
             | None \<Rightarrow> do {
                 _ \<leftarrow> count_out (take n (out_cut k p));
                 ret (write_outcome n (length (out_cut k p)) (int (length p) > k) writeErr) }) }
          else ret (write_outcome n (length (out_cut k p)) (int (length p) > k) writeErr) }) }"

lemma xw_Write_rest:
  "xw_Write p = do { x \<leftarrow> gets wWriter; k \<leftarrow> remaining (xwMaxConnBytes x);
     if k \<le> 0 then ret (0, Some ErrConnectionLimit) else xw_rest x p k }"
  unfolding xw_Write_def xw_rest_def before_write_def out_cut_def Let_def
  by (rule state.expand) (simp add: fun_eq_iff split: prod.split)

lemma xw_Write_cases:
  assumes "run_state (xw_Write p) w = ((n, e), w')"
  obtains (refused) "n = 0" "e \<noteq> None" "w' = w"
  | (deadline) "n = 0" "e \<noteq> None" "run_state (before_write (wWriter w)) w = (e, w')"
  | (silent) w1 err where "0 < out_room w" "run_state (before_write (wWriter w)) w = (None, w1)"
      "run_state (on_conn (conn_Write (out_cut (out_room w) p))) w1 = ((0, err), w')" "n = 0"
  | (failed) w1 err w2 e1 w3 w4 where "0 < out_room w" "run_state (before_write (wWriter w)) w = (None, w1)"
      "run_state (on_conn (conn_Write (out_cut (out_room w) p))) w1 = ((n, err), w2)" "0 < n"
      "run_state (record_out (take n (out_cut (out_room w) p))) w2 = (Some e1, w3)"
      "run_state (rt_fail e1) w3 = ((), w4)" "run_state (count_out (take n (out_cut (out_room w) p))) w4 = ((), w')" "e = Some e1"
  | (ok) w1 err w2 w3 where "0 < out_room w" "run_state (before_write (wWriter w)) w = (None, w1)"
      "run_state (on_conn (conn_Write (out_cut (out_room w) p))) w1 = ((n, err), w2)" "0 < n"
      "run_state (record_out (take n (out_cut (out_room w) p))) w2 = (None, w3)"
      "run_state (count_out (take n (out_cut (out_room w) p))) w3 = ((), w')"
proof (cases "out_room w \<le> 0")
  case True
  then show thesis using assms refused by (auto simp: xw_Write_rest remaining_def out_room_def)
next
  case pos: False
  have "run_state (xw_Write p) w = run_state (xw_rest (wWriter w) p (out_room w)) w" using pos
    by (simp add: xw_Write_rest remaining_def) (simp add: out_room_def)
  then have rest: "run_state (xw_rest (wWriter w) p (out_room w)) w = ((n, e), w')" using assms by simp
  define q where "q = out_cut (out_room w) p"
  obtain derr w1 where b: "run_state (before_write (wWriter w)) w = (derr, w1)" by (metis surj_pair)
  have op: "run_state (case derr of Some e \<Rightarrow> ret (0, Some e)
        | None \<Rightarrow> do {
            (n, writeErr) \<leftarrow> on_conn (conn_Write q);
            if n > 0 then do {
              err \<leftarrow> record_out (take n q);
              (case err of
                 Some e \<Rightarrow> do { _ \<leftarrow> rt_fail e; _ \<leftarrow> count_out (take n q); ret (n, Some e) }
               | None \<Rightarrow> do { _ \<leftarrow> count_out (take n q); ret (write_outcome n (length q) (int (length p) > out_room w) writeErr) }) }
            else ret (write_outcome n (length q) (int (length p) > out_room w) writeErr) }) w1 = ((n, e), w')"
    using rest b unfolding xw_rest_def q_def by simp
  show thesis
  proof (cases derr)
    case (Some d)
    then have "n = 0" "e = Some d" "w' = w1" using op by simp_all
    then show thesis using b Some deadline by blast
  next
    case None
    obtain m err w2 where wr: "run_state (on_conn (conn_Write q)) w1 = ((m, err), w2)" by (metis surj_pair)
    show thesis
    proof (cases "m = 0")
      case True
      then have "write_outcome 0 (length q) (int (length p) > out_room w) err = (n, e)" "w2 = w'" using op None wr by simp_all
      moreover have "n = 0" using write_outcome_fst calculation(1) by blast
      moreover have "run_state (on_conn (conn_Write (out_cut (out_room w) p))) w1 = ((0, err), w2)" using wr True by (simp add: q_def)
      moreover have "0 < out_room w" using pos by simp
      ultimately show thesis using silent [of w1 err] b None by simp
    next
      case m: False
      obtain e1 w3 where rec: "run_state (record_out (take m q)) w2 = (e1, w3)" by (metis surj_pair)
      show thesis
      proof (cases e1)
        case (Some a)
        then show thesis using op None wr m rec b pos failed unfolding q_def by (auto split: prod.splits)
      next
        case e1: None
        obtain w4 where c: "run_state (count_out (take m q)) w3 = ((), w4)" by (metis surj_pair unit.exhaust)
        have "write_outcome m (length q) (int (length p) > out_room w) err = (n, e)" "w4 = w'"
          using op None wr m rec e1 c by simp_all
        moreover have "n = m" using write_outcome_fst calculation(1) by blast
        ultimately show thesis using ok [of w1 err w2 w3] wr m rec e1 b pos None c unfolding q_def by simp
      qed
    qed
  qed
qed

lemma out_cut_take: "n \<le> length (out_cut k p) \<Longrightarrow> take n (out_cut k p) = take n p \<and> n \<le> length p \<and> (0 \<le> k \<longrightarrow> int n \<le> k)"
  by (auto simp: out_cut_def min_def split: if_splits)

lemma wire_frames:
  "frame wire (before_write x)" "frame wire (record_out bs)" "frame wire (count_out bs)" "frame wire (rt_fail e)"
  unfolding before_write_def record_out_def count_out_def addOut_def by (intro frame_intros; simp)+


lemma conn_Write_wire:
  assumes "run_state (on_conn (conn_Write p)) w = ((n, e), w')"
  shows "n \<le> length p \<and> wire w' = wire w @ take n p"
  using assms by (auto simp: on_conn_def conn_Write_def Let_def split: prod.splits)

lemma xw_Write_wire:
  assumes "run_state (xw_Write p) w = ((n, e), w')"
  shows "n \<le> length p \<and> wire w' = wire w @ take n p"
  using assms
proof (cases rule: xw_Write_cases)
  case refused
  then show ?thesis by simp
next
  case deadline
  then show ?thesis using frameD [OF wire_frames(1) deadline(3)] by simp
next
  case (silent w1 err)
  then show ?thesis using frameD [OF wire_frames(1) silent(2)] conn_Write_wire [OF silent(3)] by simp
next
  case (failed w1 err w2 e1 w3 w4)
  then show ?thesis using frameD [OF wire_frames(1) failed(2)] conn_Write_wire [OF failed(3)] out_cut_take [of n "out_room w" p]
      frameD [OF wire_frames(2) failed(5)] frameD [OF wire_frames(4) failed(6)] frameD [OF wire_frames(3) failed(7)]
    by simp
next
  case (ok w1 err w2 w3)
  then show ?thesis using frameD [OF wire_frames(1) ok(2)] conn_Write_wire [OF ok(3)] out_cut_take [of n "out_room w" p]
      frameD [OF wire_frames(2) ok(5)] frameD [OF wire_frames(3) ok(6)]
    by simp
qed

text \<open>What a response leaves alone: the number of requests.\<close>

abbreviation served :: "world \<Rightarrow> int" where "served w \<equiv> requests (wCounters w)"

lemma served_xw_Write: "frame served (xw_Write p)"
  unfolding xw_Write_def remaining_def record_out_def count_out_def addOut_def Let_def
  by (intro frame_intros; simp)

lemma served_select: "frame served (on_conn (select_wait d))"
  by (intro frame_intros) simp

interpretation response: destination exchangeWriter_Write wire served "\<lambda>_. True" exchange_select
proof
  fix s s' :: world and p n e
  assume op: "exchangeWriter_Write s p = ((n, e), s')"
  then have run: "run_state (xw_Write p) s = ((n, e), s')" by (simp add: exchangeWriter_Write_def)
  show "n \<le> length p" "wire s' = wire s @ take n p" using xw_Write_wire [OF run] by simp_all
  show "served s' = served s" by (rule frameD [OF served_xw_Write run])
next
  fix s s' :: world and d e
  assume "exchange_select d s = (e, s')"
  then have run: "run_state (on_conn (select_wait d)) s = (e, s')" by (simp add: exchange_select_def)
  show "True \<and> wire s' = wire s \<and> served s' = served s"
    using frameD [OF served_select run] run by (auto simp: on_conn_def select_wait_def Let_def split: prod.splits)
qed simp

end
