(* ===== verification/Net_Addr.thy ===== *)
theory Net_Addr
  imports Go_Strings
begin

text \<open>
  Addresses of the engine: \<open>net.JoinHostPort\<close> and \<open>net.SplitHostPort\<close> of the standard library, the
  number that \<open>fmt.Sscanf\<close> reads with \<open>%d\<close>, and \<open>splitAddress\<close> of \<open>internal/engine/connection.go\<close>.
  The property is that an address made of a host and a port is split into these two again.
\<close>

section \<open>Joining and splitting\<close>

definition JoinHostPort :: "string \<Rightarrow> string \<Rightarrow> string" where
  "JoinHostPort host port =
    (if CHR '':'' \<in> set host then ''['' @ host @ '']:'' @ port else host @ '':'' @ port)"

fun last_index_byte :: "string \<Rightarrow> char \<Rightarrow> nat option" where
  "last_index_byte [] c = None"
| "last_index_byte (x # xs) c = (case last_index_byte xs c of Some i \<Rightarrow> Some (Suc i)
     | None \<Rightarrow> if x = c then Some 0 else None)"

definition addr_error :: "string \<Rightarrow> string \<Rightarrow> go_error" where
  "addr_error why addr = Errorf ''address %s: %s'' [AStr addr, AStr why]"

definition SplitHostPort :: "string \<Rightarrow> go_error + string \<times> string" where
  "SplitHostPort hostport =
    (let missing = Inl (addr_error ''missing port in address'' hostport);
         colons = Inl (addr_error ''too many colons in address'' hostport);
         brackets = (\<lambda>host j k i.
           if CHR ''['' \<in> set (drop j hostport) then Inl (addr_error ''unexpected '[' in address'' hostport)
           else if CHR '']'' \<in> set (drop k hostport) then Inl (addr_error ''unexpected ']' in address'' hostport)
           else Inr (host, drop (Suc i) hostport))
     in case last_index_byte hostport (CHR '':'') of None \<Rightarrow> missing
     | Some i \<Rightarrow>
       if hd hostport = CHR ''['' then
         (case index_byte hostport (CHR '']'') of
            None \<Rightarrow> Inl (addr_error ''missing ']' in address'' hostport)
          | Some e \<Rightarrow>
            if Suc e = length hostport then missing
            else if Suc e \<noteq> i then (if hostport ! Suc e = CHR '':'' then colons else missing)
            else brackets (take (e - 1) (drop 1 hostport)) 1 (Suc e) i)
       else if CHR '':'' \<in> set (take i hostport) then colons
       else brackets (take i hostport) 0 0 i)"

section \<open>\<open>splitAddress\<close>\<close>

text \<open>\<open>%d\<close> into an int that starts as 0: an optional sign and decimal digits; what does not fit 64
  bits leaves it as it was.\<close>

definition scan_digits :: "string \<Rightarrow> string" where
  "scan_digits s = takeWhile (\<lambda>c. case digit_value c of Some d \<Rightarrow> d < 10 | None \<Rightarrow> False) s"

definition scan_int :: "string \<Rightarrow> int" where
  "scan_int s0 =
    (let s = dropWhile (\<lambda>c. c = CHR '' '') s0;
         (sign, body) = (case s of c # cs \<Rightarrow> if c = CHR ''-'' then (-1, cs) else if c = CHR ''+'' then (1, cs) else (1, s)
            | [] \<Rightarrow> (1, []));
         ds = scan_digits body
     in case undigits 10 ds of None \<Rightarrow> 0
        | Some n \<Rightarrow> let v = sign * int n in if ds = '''' \<or> v < - (2 ^ 63) \<or> 2 ^ 63 \<le> v then 0 else v)"

text \<open>The address is given by its \<open>String()\<close>, \<^const>\<open>None\<close> when it is nil.\<close>

definition splitAddress :: "string option \<Rightarrow> string \<times> int" where
  "splitAddress addr = (case addr of None \<Rightarrow> ('''', 0)
     | Some text \<Rightarrow> (case SplitHostPort text of Inl err \<Rightarrow> ('''', 0) | Inr (host, port) \<Rightarrow> (host, scan_int port)))"


section \<open>Round trip\<close>

lemma last_index_None: "c \<notin> set s \<Longrightarrow> last_index_byte s c = None"
  by (induction s) auto

lemma last_index_byte_last: "c \<notin> set p \<Longrightarrow> last_index_byte (h @ c # p) c = Some (length h)"
  by (induction h) (auto simp: last_index_None)

lemma index_byte_first: "c \<notin> set h \<Longrightarrow> index_byte (h @ c # r) c = Some (length h)"
  by (induction h) auto

lemma digits_decimal: "c \<in> set (digits 10 n) \<Longrightarrow> \<exists>d < 10. c = digit d"
proof (induction "10 :: nat" n rule: digits.induct)
  case (1 n)
  show ?case
  proof (cases "n < 10")
    case True
    then show ?thesis using 1(2) by (subst (asm) digits.simps) auto
  next
    case False
    then have "c \<in> set (digits 10 (n div 10)) \<or> c = digit (n mod 10)" using 1(2) by (subst (asm) digits.simps) auto
    moreover have "n mod 10 < 10" by simp
    moreover have "\<not> (n < 10 \<or> 10 < (2 :: nat))" using False by simp
    ultimately show ?thesis using 1(1) by blast
  qed
qed

lemma itoa_no_byte: "d \<in> {CHR '':'', CHR ''['', CHR '']''} \<Longrightarrow> d \<notin> set (itoa (int n))"
proof
  assume d: "d \<in> {CHR '':'', CHR ''['', CHR '']''}" and "d \<in> set (itoa (int n))"
  then obtain k where "k < 10" "d = digit k" using digits_decimal [of d n] by (auto simp: itoa_def)
  then have "digit_value d = Some k" by simp
  with d show False by (auto simp: digit_value_def)
qed

lemma scan_digits_itoa: "scan_digits (digits 10 n) = digits 10 n"
  unfolding scan_digits_def by (rule takeWhile_eq_all_conv [THEN iffD2]) (auto dest!: digits_decimal)

lemma scan_int_itoa: "int n < 2 ^ 63 \<Longrightarrow> scan_int (itoa (int n)) = int n"
proof -
  assume n: "int n < 2 ^ 63"
  obtain c cs where c: "digits 10 n = c # cs" using digits_nonempty [of 10 n] by (cases "digits 10 n") auto
  then obtain k where "k < 10" "c = digit k" using digits_decimal [of c n] by auto
  then have "digit_value c = Some k" by simp
  then have "c \<noteq> CHR '' ''" "c \<noteq> CHR ''-''" "c \<noteq> CHR ''+''" by (auto simp: digit_value_def)
  then have "scan_int (c # cs) = int n" using n c scan_digits_itoa [of n] undigits_digits [of 10 n]
    by (simp add: scan_int_def)
  then show ?thesis by (simp add: itoa_def c)
qed

lemma SplitHostPort_join:
  assumes "CHR ''['' \<notin> set host" "CHR '']'' \<notin> set host"
    and "CHR '':'' \<notin> set port" "CHR ''['' \<notin> set port" "CHR '']'' \<notin> set port"
  shows "SplitHostPort (JoinHostPort host port) = Inr (host, port)"
proof (cases "CHR '':'' \<in> set host")
  case True
  let ?a = "''['' @ host @ '']:'' @ port"
  have "last_index_byte ?a (CHR '':'') = Some (length host + 2)"
    using last_index_byte_last [OF assms(3), of "''['' @ host @ '']''"] by simp
  moreover have "index_byte ?a (CHR '']'') = Some (length host + 1)"
    using index_byte_first [of "CHR '']''" "''['' @ host" "'':'' @ port"] assms(2) by simp
  ultimately show ?thesis using True assms by (simp add: SplitHostPort_def JoinHostPort_def)
next
  case False
  have "last_index_byte (host @ '':'' @ port) (CHR '':'') = Some (length host)"
    using last_index_byte_last [OF assms(3), of host] by simp
  moreover have "hd (host @ '':'' @ port) \<noteq> CHR ''[''" using assms(1) by (cases host) auto
  ultimately show ?thesis using False assms by (simp add: SplitHostPort_def JoinHostPort_def)
qed

text \<open>The address that \<open>net.JoinHostPort\<close> makes of a host and a port number, bracketed when the host
  holds a colon, is split by \<open>splitAddress\<close> into the same host and number.\<close>

lemma splitAddress_join:
  assumes "CHR ''['' \<notin> set host" "CHR '']'' \<notin> set host" "int port < 2 ^ 63"
  shows "splitAddress (Some (JoinHostPort host (itoa (int port)))) = (host, int port)"
proof -
  have "SplitHostPort (JoinHostPort host (itoa (int port))) = Inr (host, itoa (int port))"
    by (rule SplitHostPort_join) (use assms itoa_no_byte in auto)
  then show ?thesis using assms(3) by (simp add: splitAddress_def scan_int_itoa)
qed

lemma splitAddress_join_witness:
  "splitAddress (Some (JoinHostPort ''::1'' (itoa 8443))) = (''::1'', 8443)"
  using splitAddress_join [of "''::1''" 8443] by simp

end
