(* ===== verification/Tls.thy ===== *)
theory Tls
  imports Runtime Validate
begin

text \<open>
  \<open>internal/engine/tls.go\<close>: loading the key pair, the handshake with its deadline, and the code of a
  handshake error. The TLS and X.509 libraries are arguments: reading a key pair, parsing a
  certificate into its validity period, the handshake on a connection, and formatting a time.
\<close>

section \<open>Loading\<close>

record tls_metadata =
  tmEnabled :: bool
  tmCertificateSHA256 :: string
  tmNotBefore :: int
  tmNotAfter :: int

record tls_config =
  tcCertificate :: "byte list list"
  tcMinVersion :: u16
  tcMaxVersion :: u16
  tcNextProtos :: "string list"
  tcNoClientCert :: bool

abbreviation (input) "VersionTLS12 \<equiv> (0x0303 :: u16)"
abbreviation (input) "VersionTLS13 \<equiv> (0x0304 :: u16)"

text \<open>What the program uses of \<open>crypto/tls\<close> and \<open>crypto/x509\<close>: \<open>LoadX509KeyPair\<close> of two files (the
  certificate chain), the validity of a certificate, a time as RFC 3339 text; the handshake takes
  bytes from the raw connection and gives the negotiated protocol and the decrypted connection.\<close>

record tls_lib =
  tlKeyPair :: "path \<Rightarrow> path \<Rightarrow> go_error + byte list list"
  tlParse :: "byte list \<Rightarrow> go_error + int \<times> int"
  tlRFC3339 :: "int \<Rightarrow> string"
  tlHandshake :: "net_conn \<Rightarrow> (go_error + string \<times> net_conn) \<times> net_conn"

definition no_metadata :: tls_metadata where
  "no_metadata = \<lparr>tmEnabled = False, tmCertificateSHA256 = '''', tmNotBefore = zero_time, tmNotAfter = zero_time\<rparr>"

text \<open>Without a TLS section the code panics on a nil pointer; a valid configuration with an HTTPS
  service has one (theory Valid_Config).\<close>

definition LoadTLS :: "tls_lib \<Rightarrow> (byte list \<Rightarrow> byte list) \<Rightarrow> config \<Rightarrow> host
    \<Rightarrow> (go_error + tls_config option \<times> tls_metadata) \<times> host" where
  "LoadTLS lib sha256 cfg h =
    (if \<not> HasHTTPS cfg then (Inr (None, no_metadata), h)
     else case cfTLSDirectory cfg of None \<Rightarrow> (Inl (Errorf ''nil pointer dereference'' []), h)
     | Some directory \<Rightarrow>
       case tlKeyPair lib (directory, ''server.crt'') (directory, ''server.key'') of
         Inl err \<Rightarrow> (Inl (Wrapf ''TLS_KEYPAIR_LOAD_FAILED directory=%s: %w'' [AStr directory] err), h)
       | Inr [] \<Rightarrow> (Inl (Errorf ''TLS_KEYPAIR_LOAD_FAILED certificate chain is empty'' []), h)
       | Inr (leaf # chain) \<Rightarrow>
         (case tlParse lib leaf of
            Inl err \<Rightarrow> (Inl (Wrapf ''TLS_KEYPAIR_LOAD_FAILED parse leaf: %w'' [] err), h)
          | Inr (notBefore, notAfter) \<Rightarrow>
            (case now h of (t, h1) \<Rightarrow>
              if t < notBefore
              then (Inl (Errorf ''TLS_CERTIFICATE_NOT_YET_VALID not_before=%s'' [AStr (tlRFC3339 lib notBefore)]), h1)
              else if \<not> t < notAfter
              then (Inl (Errorf ''TLS_CERTIFICATE_EXPIRED not_after=%s'' [AStr (tlRFC3339 lib notAfter)]), h1)
              else (Inr (Some \<lparr>tcCertificate = leaf # chain, tcMinVersion = VersionTLS12, tcMaxVersion = VersionTLS13,
                     tcNextProtos = [''http/1.1''], tcNoClientCert = True\<rparr>,
                   \<lparr>tmEnabled = True, tmCertificateSHA256 = hex_encode (sha256 leaf), tmNotBefore = notBefore,
                     tmNotAfter = notAfter\<rparr>), h1))))"

section \<open>The handshake\<close>

text \<open>\<open>ncTaken\<close> and \<open>ncSent\<close> are the history of the transport the engine reads and writes: what the
  handshake moves on the raw connection is not part of it, and the decrypted connection begins with
  an empty history.\<close>

definition handshake_step :: "tls_lib \<Rightarrow> net_conn \<Rightarrow> (go_error + string \<times> net_conn) \<times> net_conn" where
  "handshake_step lib raw = (case tlHandshake lib raw of (r, c) \<Rightarrow> (r, c\<lparr>ncTaken := ncTaken raw, ncSent := ncSent raw\<rparr>))"

definition fresh_conn :: "net_conn \<Rightarrow> net_conn" where
  "fresh_conn c = c\<lparr>ncTaken := [], ncSent := []\<rparr>"

definition handshakeTLS :: "tls_lib \<Rightarrow> int \<Rightarrow> ((go_error + net_conn) \<times> int) io" where
  "handshakeTLS lib timeout = do {
     started \<leftarrow> time_now;
     t \<leftarrow> time_now;
     err \<leftarrow> on_conn (set_deadline (Some (t + timeout)));
     (case err of Some e \<Rightarrow> ret (Inl e, 0)
      | None \<Rightarrow> do {
          r \<leftarrow> on_conn (handshake_step lib);
          t2 \<leftarrow> time_now;
          clearErr \<leftarrow> on_conn (set_deadline None);
          ret (case r of Inl e \<Rightarrow> Inl e
            | Inr (alpn, c) \<Rightarrow>
              (case clearErr of Some e \<Rightarrow> Inl e
               | None \<Rightarrow> if alpn \<noteq> '''' \<and> alpn \<noteq> ''http/1.1'' then Inl (Errorf ''unsupported ALPN'' [])
                   else Inr (fresh_conn c)), t2 - started) }) }"

text \<open>The type assertion \<open>err.(net.Error)\<close> looks at the error itself, not at what it wraps.\<close>

definition itself_timeout :: "go_error \<Rightarrow> bool" where
  "itself_timeout err = (case err of OsError m t \<Rightarrow> t | DeadlineExceeded \<Rightarrow> True | _ \<Rightarrow> False)"

definition contains_str :: "string \<Rightarrow> string \<Rightarrow> bool" where
  "contains_str s p \<longleftrightarrow> index_str s p \<noteq> None"

definition boundedTLSErrorCode :: "go_error option \<Rightarrow> string" where
  "boundedTLSErrorCode err = (case err of None \<Rightarrow> ''''
     | Some e \<Rightarrow>
       if itself_timeout e then ''handshake_timeout''
       else let text = to_lower (error_text e) in
         if contains_str text ''protocol version'' then ''protocol_version''
         else if contains_str text ''alpn'' then ''alpn_rejected''
         else ''handshake_failed'')"

end
