(* ===== verification/Connection.thy ===== *)
theory Connection
  imports Triples Net_Addr Tls
begin

text \<open>
  \<open>handleConnection\<close> of \<open>internal/engine/connection.go\<close>, with the TLS handshake of \<open>tls.go\<close>: one
  connection from its journal entry to its close. The body of the request loop is cut into the phases
  the code has (waiting, receiving the header, accepting it, receiving the body, counting,
  responding); each returns either why the connection ends or what the next phase needs.
\<close>

section \<open>The connection and how it ends\<close>

text \<open>The values \<open>handleConnection\<close> computes once.\<close>

record session =
  snCfg :: config
  snServiceID :: string
  snService :: service_config
  snProtocol :: string
  snConnectionID :: ID
  snConnectionIDText :: string
  snStarted :: int
  snLifetimeEnd :: int

text \<open>\<open>Panic\<close> is a dereferenced nil response.\<close>

datatype stop = Stop CloseReason string | Panic

type_synonym 'a phase = "(stop + 'a) io"

definition then_phase :: "'a phase \<Rightarrow> ('a \<Rightarrow> 'b phase) \<Rightarrow> 'b phase" where
  "then_phase m k = do { r \<leftarrow> m; (case r of Inl s \<Rightarrow> ret (Inl s) | Inr x \<Rightarrow> k x) }"

abbreviation snLimits :: "session \<Rightarrow> limits_config" where
  "snLimits s \<equiv> cfLimits (snCfg s)"

definition limit_hit :: "session \<Rightarrow> LimitCode \<Rightarrow> u64 \<Rightarrow> unit io" where
  "limit_hit s code observed = emitLimit (snServiceID s) (snConnectionID s) (snConnectionIDText s) code observed"

definition request_limit_hit :: "session \<Rightarrow> string \<Rightarrow> LimitCode \<Rightarrow> u64 \<Rightarrow> unit io" where
  "request_limit_hit s requestID code observed =
     emitLimitWithRequest (snServiceID s) (snConnectionID s) (snConnectionIDText s) requestID code observed"

text \<open>\<open>uint64(time.Since(started).Seconds())\<close>.\<close>

definition elapsed_seconds :: "session \<Rightarrow> u64 io" where
  "elapsed_seconds s = do { t \<leftarrow> time_now; ret (word_of_int ((t - snStarted s) div Second)) }"

definition lifetime_stop :: "session \<Rightarrow> stop io" where
  "lifetime_stop s = do {
     observed \<leftarrow> elapsed_seconds s;
     _ \<leftarrow> limit_hit s LimitConnectionLifetime observed;
     ret (Stop CloseLimitReached ''connection_lifetime'') }"

definition request_lifetime_stop :: "session \<Rightarrow> string \<Rightarrow> stop io" where
  "request_lifetime_stop s requestID = do {
     observed \<leftarrow> elapsed_seconds s;
     _ \<leftarrow> request_limit_hit s requestID LimitConnectionLifetime observed;
     ret (Stop CloseLimitReached ''connection_lifetime'') }"

text \<open>\<open>writeParserError\<close> and the event that goes with it.\<close>

definition parser_error :: "session \<Rightarrow> string \<Rightarrow> ParserCode \<Rightarrow> int \<Rightarrow> string \<Rightarrow> unit io" where
  "parser_error s requestID code position operational = do {
     _ \<leftarrow> writeParserError (snConnectionID s) code (word_of_int position);
     rt_emit (no_event\<lparr>evEventType := ''parser_error'', evServiceID := snServiceID s,
       evConnectionID := snConnectionIDText s, evRequestID := requestID, evOperationalCode := operational\<rparr>) }"

definition capture_then :: "stop io \<Rightarrow> stop io" where
  "capture_then m = do { st \<leftarrow> m; _ \<leftarrow> postFailureCapture; ret st }"

definition inl :: "stop io \<Rightarrow> 'a phase" where
  "inl m = do { st \<leftarrow> m; ret (Inl st) }"

section \<open>Waiting and receiving a header\<close>

definition loop_guard :: "session \<Rightarrow> unit phase" where
  "loop_guard s = do {
     cancelled \<leftarrow> State (\<lambda>w. case pop False (wDone w) of (d, ds) \<Rightarrow> (d, w\<lparr>wDone := ds\<rparr>));
     if cancelled then ret (Inl (Stop CloseShutdown ''shutdown''))
     else do {
       t \<leftarrow> time_now;
       if t > snLifetimeEnd s then inl (lifetime_stop s) else ret (Inr ()) } }"

definition read_failure :: "session \<Rightarrow> go_error \<Rightarrow> int \<Rightarrow> int \<Rightarrow> bool \<Rightarrow> stop io" where
  "read_failure s readErr requestStart headerEnd alreadyBuffered = do {
     r \<leftarrow> gets wReader;
     rem \<leftarrow> remaining (rrMaxConnBytes r);
     if errors_Is readErr EOF \<and> \<not> rrHeaderStarted r \<and> \<not> alreadyBuffered then ret (Stop CloseRemote ''remote_close'')
     else if isTimeout readErr then capture_then (do {
       t \<leftarrow> time_now;
       if \<not> t < snLifetimeEnd s then lifetime_stop s
       else if rrHeaderStarted r \<or> alreadyBuffered then do {
         _ \<leftarrow> limit_hit s LimitHeaderTimeout (word_of_int (headerEnd - requestStart));
         ret (Stop CloseHeaderTimeout ''header_timeout'') }
       else do {
         _ \<leftarrow> limit_hit s LimitIdleTimeout 0;
         ret (Stop CloseIdleTimeout ''idle_timeout'') } })
     else if errors_Is readErr ErrHeaderLimit then capture_then (do {
       _ \<leftarrow> limit_hit s LimitHeaderBytes (word_of_int (headerEnd - requestStart));
       ret (Stop CloseLimitReached ''header_bytes'') })
     else if errors_Is readErr ErrConnectionLimit \<or> rem \<le> 0 then do {
       _ \<leftarrow> limit_hit s LimitConnectionBytes (word_of_int (MaxConnectionBytes (snLimits s)));
       ret (Stop CloseLimitReached ''connection_bytes'') }
     else capture_then (do {
       _ \<leftarrow> parser_error s '''' ParserInvalidHTTP headerEnd ''invalid_http'';
       ret (Stop CloseParserFailure ''parser_failure'') }) }"

definition receive_header :: "http_lib \<Rightarrow> session \<Rightarrow> (http_request \<times> int \<times> int \<times> int) phase" where
  "receive_header lib s = do {
     requestStartedAt \<leftarrow> time_now;
     requestStart \<leftarrow> logicalConsumed;
     alreadyBuffered \<leftarrow> gets (\<lambda>w. wBuf w \<noteq> []);
     err \<leftarrow> beginHeaderPhase (IdleTimeoutSeconds (snLimits s) * Second) (HeaderTimeoutSeconds (snLimits s) * Second) alreadyBuffered;
     (case err of Some _ \<Rightarrow> ret (Inl (Stop CloseInternalError ''internal_error''))
      | None \<Rightarrow> do {
          r \<leftarrow> readRequest lib;
          headerEnd \<leftarrow> logicalConsumed;
          (case r of Inr req \<Rightarrow> ret (Inr (req, requestStartedAt, requestStart, headerEnd))
           | Inl readErr \<Rightarrow> inl (read_failure s readErr requestStart headerEnd alreadyBuffered)) }) }"

section \<open>Accepting a header\<close>

definition accept_header :: "session \<Rightarrow> http_request \<Rightarrow> int \<Rightarrow> int \<Rightarrow> bool phase" where
  "accept_header s req requestStart headerEnd =
    (if headerEnd - requestStart > MaxHeaderBytes (snLimits s) then inl (capture_then (do {
       _ \<leftarrow> limit_hit s LimitHeaderBytes (word_of_int (headerEnd - requestStart));
       ret (Stop CloseLimitReached ''header_bytes'') }))
     else if snProtocol s = ''https'' \<and> \<not> supportedHTTPSHTTP req then inl (capture_then (do {
       _ \<leftarrow> parser_error s '''' ParserUnsupportedHTTPVersion headerEnd ''https_requires_http_1_1'';
       ret (Stop CloseParserFailure ''unsupported_http_version'') }))
     else if snProtocol s = ''http'' \<and> \<not> supportedPlainHTTP req then inl (capture_then (do {
       _ \<leftarrow> parser_error s '''' ParserUnsupportedHTTPVersion headerEnd ''unsupported_http_version'';
       ret (Stop CloseParserFailure ''unsupported_http_version'') }))
     else case expectMode req of (continueExpected, unsupportedExpectation) \<Rightarrow>
       if unsupportedExpectation then inl (capture_then (do {
         _ \<leftarrow> parser_error s '''' ParserUnsupportedExpectation headerEnd ''unsupported_expectation'';
         ret (Stop CloseParserFailure ''unsupported_expectation'') }))
       else ret (Inr continueExpected))"


section \<open>Receiving a body\<close>

definition is_err :: "go_error option \<Rightarrow> go_error \<Rightarrow> bool" where
  "is_err err target = (case err of None \<Rightarrow> False | Some e \<Rightarrow> errors_Is e target)"

text \<open>The identifier of the request, the offset its response starts at, and its writer.\<close>

definition begin_exchange :: "session \<Rightarrow> (string \<times> int) phase" where
  "begin_exchange s = do {
     r \<leftarrow> on_host NewID;
     (case r of
        Inl err \<Rightarrow> do {
          _ \<leftarrow> rt_fail (Wrapf ''INTERNAL_FATAL generate request id: %w'' [] err);
          ret (Inl (Stop CloseInternalError ''internal_error'')) }
      | Inr requestID \<Rightarrow> do {
          responseStart \<leftarrow> currentBytesOut;
          _ \<leftarrow> newExchangeWriter (snConnectionID s) requestID (MaxConnectionBytes (snLimits s))
            (WriteTimeoutSeconds (snLimits s) * Second) (snLifetimeEnd s);
          ret (Inr (FormatID requestID, responseStart)) }) }"

definition send_interim :: "session \<Rightarrow> http_request \<Rightarrow> bool \<Rightarrow> string \<Rightarrow> unit phase" where
  "send_interim s req continueExpected requestID =
    (if rqContentLength req > MaxBodyBytes (snLimits s) then inl (capture_then (do {
       _ \<leftarrow> request_limit_hit s requestID LimitBodyBytes (word_of_int (rqContentLength req));
       ret (Stop CloseLimitReached ''body_bytes'') }))
     else if continueExpected \<and> requestMayHaveBody req then
       (if int (length interimContinueBytes) > MaxResponseBytes (snLimits s) then inl (capture_then (do {
          _ \<leftarrow> request_limit_hit s requestID LimitResponseBytes (of_nat (length interimContinueBytes));
          ret (Stop CloseLimitReached ''response_bytes'') }))
        else do {
          (n, err) \<leftarrow> xw_Write interimContinueBytes;
          (case err of None \<Rightarrow> ret (Inr ())
           | Some _ \<Rightarrow> do {
               _ \<leftarrow> clearDeadline;
               ret (Inl (Stop (reasonForWriteError err) (writeErrorCode err))) }) })
     else ret (Inr ()))"

definition body_failure :: "session \<Rightarrow> string \<Rightarrow> go_error \<Rightarrow> int \<Rightarrow> int \<Rightarrow> stop io" where
  "body_failure s requestID bodyErr bodyRead requestEnd = capture_then (
    if isTimeout bodyErr then do {
      t \<leftarrow> time_now;
      if \<not> t < snLifetimeEnd s then request_lifetime_stop s requestID
      else do {
        _ \<leftarrow> request_limit_hit s requestID LimitBodyTimeout (word_of_int bodyRead);
        ret (Stop CloseBodyTimeout ''body_timeout'') } }
    else if errors_Is bodyErr ErrBodyLimit then do {
      _ \<leftarrow> request_limit_hit s requestID LimitBodyBytes (word_of_int bodyRead);
      ret (Stop CloseLimitReached ''body_bytes'') }
    else if errors_Is bodyErr ErrConnectionLimit then do {
      _ \<leftarrow> request_limit_hit s requestID LimitConnectionBytes (word_of_int (MaxConnectionBytes (snLimits s)));
      ret (Stop CloseLimitReached ''connection_bytes'') }
    else do {
      _ \<leftarrow> parser_error s requestID ParserInvalidHTTP requestEnd ''body_parse_error'';
      ret (Stop CloseParserFailure ''body_parse_error'') })"

text \<open>The end of the request on the stream, and its trailer.\<close>

definition receive_body :: "http_lib \<Rightarrow> session \<Rightarrow> http_request \<Rightarrow> string \<Rightarrow> (int \<times> http_header) phase" where
  "receive_body lib s req requestID = do {
     err \<leftarrow> beginBodyPhase (BodyTimeoutSeconds (snLimits s) * Second);
     (case err of Some _ \<Rightarrow> ret (Inl (Stop CloseInternalError ''internal_error''))
      | None \<Rightarrow> do {
          (bodyRead, bodyErr, trailer) \<leftarrow> consumeBody lib req (MaxBodyBytes (snLimits s));
          requestEnd \<leftarrow> logicalConsumed;
          _ \<leftarrow> clearReadDeadline;
          (case bodyErr of Some e \<Rightarrow> inl (body_failure s requestID e bodyRead requestEnd)
           | None \<Rightarrow>
             if semanticHeaderBytes trailer > MaxHeaderBytes (snLimits s) then inl (capture_then (do {
               _ \<leftarrow> request_limit_hit s requestID LimitHeaderBytes (word_of_int (semanticHeaderBytes trailer));
               ret (Stop CloseLimitReached ''trailer_bytes'') }))
             else ret (Inr (requestEnd, trailer))) }) }"

text \<open>The number of the request, and whether the connection closes after it.\<close>

definition count_request :: "session \<Rightarrow> http_request \<Rightarrow> string \<Rightarrow> (int \<times> bool) phase" where
  "count_request s req requestID = do {
     requestNumber \<leftarrow> addRequest;
     let closeAfter = (rqClose req \<or> requestNumber \<ge> MaxRequestsPerConnection (snLimits s));
     _ \<leftarrow> (if requestNumber \<ge> MaxRequestsPerConnection (snLimits s)
           then request_limit_hit s requestID LimitRequestsPerConnection (word_of_int requestNumber) else ret ());
     t \<leftarrow> time_now;
     if t > snLifetimeEnd s then inl (request_lifetime_stop s requestID)
     else ret (Inr (requestNumber, closeAfter)) }"


section \<open>Responding\<close>

definition choose_response :: "session \<Rightarrow> http_request \<Rightarrow> string \<Rightarrow> string \<Rightarrow> bool \<Rightarrow> int \<Rightarrow> selection phase" where
  "choose_response s req requestID rawPath closeAfter requestEnd = do {
     chosen \<leftarrow> State (\<lambda>w. case SelectResponse (snService s) (rqMethod req) rawPath (wRoutes w) closeAfter of
       (x, rs) \<Rightarrow> (x, w\<lparr>wRoutes := rs\<rparr>));
     (case chosen of None \<Rightarrow> ret (Inl Panic)
      | Some chosen \<Rightarrow>
        if equal_fold (rqMethod req) ''CONNECT'' \<and> pStatus (slPlan chosen) \<ge> 200 \<and> pStatus (slPlan chosen) < 300
        then inl (do {
          _ \<leftarrow> parser_error s requestID ParserProhibitedConnect requestEnd ''connect_tunnel_prohibited'';
          ret (Stop CloseParserFailure ''connect_tunnel_prohibited'') })
        else ret (Inr chosen)) }"

text \<open>What is known of a response that was sent: the result of \<open>response.Write\<close>, \<open>streamErr\<close>, whether
  the connection's lifetime bounded it, and where it ended.\<close>

record sent =
  sdResult :: write_result
  sdStreamErr :: "go_error option"
  sdLifetimeBounds :: bool
  sdEnd :: int

definition send_response ::
  "(byte list \<Rightarrow> byte list) \<Rightarrow> session \<Rightarrow> http_request \<Rightarrow> plan \<Rightarrow> int \<Rightarrow> sent io" where
  "send_response sha256 s req plan responseStart = do {
     _ \<leftarrow> modify (\<lambda>w. w\<lparr>wWriter := (wWriter w)\<lparr>xwStreaming := (pMode plan = ''ndjson'')\<rparr>\<rparr>);
     t \<leftarrow> time_now;
     let lifetimeBounds = (\<not> t + MaxStreamSeconds (snLimits s) * Second < snLifetimeEnd s);
     out \<leftarrow> currentBytesOut;
     let budget = max 0 (MaxResponseBytes (snLimits s) - (out - responseStart));
     result \<leftarrow> State (Write exchangeWriter_Write exchange_select sha256 (rqProtoMajor req) (rqProtoMinor req)
       (rqMethod req) plan budget);
     ctxErr \<leftarrow> State (\<lambda>w. case pop None (wStreams w) of (e, es) \<Rightarrow> (e, w\<lparr>wStreams := es\<rparr>));
     _ \<leftarrow> clearDeadline;
     responseEnd \<leftarrow> currentBytesOut;
     ret \<lparr>sdResult = result, sdStreamErr = (if rComplete result then None else ctxErr),
       sdLifetimeBounds = lifetimeBounds, sdEnd = responseEnd\<rparr> }"

definition header_add :: "string \<Rightarrow> string \<Rightarrow> http_header \<Rightarrow> http_header" where
  "header_add name val h = AList.update (canonical_key name) (header_values h name @ [val]) h"

definition request_headers :: "http_request \<Rightarrow> http_header \<Rightarrow> http_header" where
  "request_headers req trailer =
    (let headers = fold (\<lambda>(name, vals). fold (header_add name) vals) trailer (rqHeader req)
     in if rqHost req \<noteq> '''' then AList.update ''Host'' [rqHost req] headers else headers)"

definition write_code :: "sent \<Rightarrow> string" where
  "write_code d =
    (if sdStreamErr d \<noteq> None then
       (if is_err (sdStreamErr d) DeadlineExceeded \<and> sdLifetimeBounds d then ''connection_lifetime''
        else if is_err (sdStreamErr d) DeadlineExceeded then ''stream_timeout''
        else if is_err (sdStreamErr d) Canceled then ''shutdown''
        else '''')
     else if rError (sdResult d) \<noteq> None then writeErrorCode (rError (sdResult d))
     else '''')"

definition exchange_event ::
  "(byte list \<Rightarrow> byte list) \<Rightarrow> session \<Rightarrow> http_request \<Rightarrow> http_header \<Rightarrow> string \<Rightarrow> string \<Rightarrow> selection \<Rightarrow> sent
     \<Rightarrow> int \<times> int \<Rightarrow> int \<times> int \<Rightarrow> int \<Rightarrow> string \<Rightarrow> event" where
  "exchange_event sha256 s req trailer requestID rawPath chosen d stamps request responseStart digest =
    (let (safeHeaders, headerTruncated) = SanitizeHeaders sha256 (request_headers req trailer) (MaxStructuredHeaders (snLimits s));
         (queryFields, queryTruncated) = QueryMetadataFromURL sha256 (rqRawQuery req) (MaxQueryFields (snLimits s));
         (sanitizedTarget, targetTruncated) = SanitizeRequestTarget sha256 rawPath (rqRawQuery req) (MaxQueryFields (snLimits s));
         (requestStart, requestEnd) = request
     in no_event\<lparr>evEventType := ''exchange'', evServiceID := snServiceID s, evConnectionID := snConnectionIDText s,
       evRequestID := requestID, evTimestampStartNS := fst stamps, evTimestampEndNS := snd stamps,
       evHTTPVersion := requestProtocol req, evMethod := rqMethod req, evRequestTargetSanitized := sanitizedTarget,
       evRawPath := rawPath, evQueryFields := queryFields, evSanitizedHeaders := Some safeHeaders,
       evContentType := header_get (rqHeader req) ''Content-Type'',
       evDeclaredContentLength := (if rqContentLength req \<ge> 0 then Some (rqContentLength req) else None),
       evMatchedRoute := slMatchedRoute chosen, evClassification := slClassification chosen,
       evResponseSource := slSource chosen, evResponseSequence := slSequence chosen,
       evResponseStatus := pStatus (slPlan chosen), evRequestBytes := requestEnd - requestStart,
       evRequestStreamStart := requestStart, evRequestStreamLength := requestEnd - requestStart,
       evRequestComplete := True, evResponseBytes := sdEnd d - responseStart,
       evResponseStreamStart := responseStart, evResponseStreamLength := sdEnd d - responseStart,
       evResponseSHA256 := digest, evResponseComplete := (rComplete (sdResult d) \<and> sdStreamErr d = None),
       evWriteError := write_code d,
       evMetadataTruncated := (headerTruncated \<or> queryTruncated \<or> targetTruncated)\<rparr>)"

text \<open>The switch after a response that failed.\<close>

definition response_failure :: "session \<Rightarrow> string \<Rightarrow> sent \<Rightarrow> stop io" where
  "response_failure s requestID d =
    (let err = rError (sdResult d); streamErr = sdStreamErr d in
     if is_err err ErrResponseLimit then do {
       _ \<leftarrow> request_limit_hit s requestID LimitResponseBytes (word_of_int (MaxResponseBytes (snLimits s)));
       ret (Stop CloseLimitReached ''response_bytes'') }
     else if is_err streamErr DeadlineExceeded \<and> sdLifetimeBounds d then request_lifetime_stop s requestID
     else if is_err streamErr DeadlineExceeded then do {
       _ \<leftarrow> request_limit_hit s requestID LimitStreamLifetime (word_of_int (MaxStreamSeconds (snLimits s)));
       ret (Stop CloseLimitReached ''stream_timeout'') }
     else if is_err streamErr Canceled then ret (Stop CloseShutdown ''shutdown'')
     else if (case err of None \<Rightarrow> False | Some e \<Rightarrow> isTimeout e) then do {
       t \<leftarrow> time_now;
       if \<not> t < snLifetimeEnd s then request_lifetime_stop s requestID
       else do {
         _ \<leftarrow> request_limit_hit s requestID LimitWriteTimeout (word_of_int (WriteTimeoutSeconds (snLimits s)));
         ret (Stop CloseWriteTimeout ''write_timeout'') } }
     else if is_err err ErrConnectionLimit then do {
       _ \<leftarrow> request_limit_hit s requestID LimitConnectionBytes (word_of_int (MaxConnectionBytes (snLimits s)));
       ret (Stop CloseLimitReached ''connection_bytes'') }
     else ret (Stop (reasonForWriteError err) (writeErrorCode err)))"

definition after_response :: "session \<Rightarrow> string \<Rightarrow> sent \<Rightarrow> int \<Rightarrow> bool \<Rightarrow> unit phase" where
  "after_response s requestID d requestNumber closeAfter =
    (if rError (sdResult d) \<noteq> None \<or> sdStreamErr d \<noteq> None then inl (response_failure s requestID d)
     else if closeAfter then ret (Inl (
       if requestNumber \<ge> MaxRequestsPerConnection (snLimits s) then Stop CloseLimitReached ''max_requests''
       else Stop CloseNormal ''connection_close''))
     else ret (Inr ()))"

definition respond :: "(byte list \<Rightarrow> byte list) \<Rightarrow> session \<Rightarrow> http_request \<Rightarrow> http_header \<Rightarrow> string
    \<Rightarrow> int \<Rightarrow> int \<times> int \<Rightarrow> int \<Rightarrow> int \<Rightarrow> bool \<Rightarrow> unit phase" where
  "respond sha256 s req trailer requestID startedAt request responseStart requestNumber closeAfter =
    (let rawPath = rawPathFromTarget (rqRequestURI req) in
     then_phase (choose_response s req requestID rawPath closeAfter (snd request)) (\<lambda>chosen. do {
       d \<leftarrow> send_response sha256 s req (slPlan chosen) responseStart;
       t \<leftarrow> time_now;
       digest \<leftarrow> xw_Sum sha256;
       _ \<leftarrow> rt_emit (exchange_event sha256 s req trailer requestID rawPath chosen d (startedAt, t) request responseStart digest);
       after_response s requestID d requestNumber closeAfter }))"

section \<open>The request loop\<close>

text \<open>One round of the loop; \<^const>\<open>Inr\<close> goes on to the next.\<close>

definition serve_round :: "http_lib \<Rightarrow> (byte list \<Rightarrow> byte list) \<Rightarrow> session \<Rightarrow> unit phase" where
  "serve_round lib sha256 s =
     then_phase (loop_guard s) (\<lambda>_.
     then_phase (receive_header lib s) (\<lambda>(req, startedAt, requestStart, headerEnd).
     then_phase (accept_header s req requestStart headerEnd) (\<lambda>continueExpected.
     then_phase (begin_exchange s) (\<lambda>(requestID, responseStart).
     then_phase (send_interim s req continueExpected requestID) (\<lambda>_.
     then_phase (receive_body lib s req requestID) (\<lambda>(requestEnd, trailer).
     then_phase (count_request s req requestID) (\<lambda>(requestNumber, closeAfter).
       respond sha256 s req trailer requestID startedAt (requestStart, requestEnd) responseStart
         requestNumber closeAfter)))))))"


subsection \<open>The loop ends\<close>

text \<open>Nothing but \<open>addRequest\<close> changes the number of requests.\<close>

lemma blind_served [simp]: "blind_rt served"
  by (simp add: blind_rt_def)

lemma served_rr_Read [frame_intros]: "frame served (rr_Read n)"
  unfolding rr_Read_def remaining_def header_started_def set_reader_def set_read_deadline_def record_in_def count_in_def addIn_def
  by (intro frame_intros; simp)

lemma served_buf_fill: "frame served (buf_fill k n)"
  by (induction k) (auto intro!: frame_intros simp: frame_modify)

lemma served_consume [simp]: "served (consume n w) = served w"
  by simp

lemma served_pull: "served (snd (pull p seen w)) = served w"
proof (induction p seen w rule: pull.induct)
  case (1 p seen w)
  show ?case
  proof (cases "plStep p (seen @ wBuf w)")
    case (Done k x)
    then show ?thesis by (subst pull.simps) simp
  next
    case (More k n)
    define w1 where "w1 = consume (k - length seen) w"
    define seen' where "seen' = seen @ take (k - length seen) (wBuf w)"
    show ?thesis
    proof (cases "wPending w1")
      case (Some e)
      then show ?thesis using More by (subst pull.simps) (simp add: Let_def w1_def split: prod.split)
    next
      case None
      obtain w2 where f: "run_state (buf_fill 100 n) w1 = ((), w2)" by (metis surj_pair unit.exhaust)
      then have "pull p seen w = pull p seen' w2" using More None
        by (subst pull.simps) (simp add: Let_def w1_def seen'_def)
      moreover have "served (snd (pull p seen' w2)) = served w2"
        using 1 [OF More refl seen'_def w1_def None f [symmetric]] by simp
      moreover have "served w2 = served w" using frameD [OF served_buf_fill f] by (simp add: w1_def)
      ultimately show ?thesis by simp
    qed
  qed
qed

lemma served_pulls [frame_intros]: "frame served (State (pull p seen))"
  by (simp add: frame_def served_pull)

lemma served_capture_loop: "served (snd (capture_loop left w)) = served w"
proof (induction left w rule: capture_loop.induct)
  case (1 left w)
  show ?case
  proof (cases "left \<le> 0")
    case False
    obtain bs e w' where r: "run_state (rr_Read (if 32768 > left then left else 32768)) w = ((bs, e), w')" by (metis surj_pair)
    then have "served w' = served w" by (rule frameD [OF served_rr_Read])
    then show ?thesis using False r 1 by (subst capture_loop.simps) (cases e, auto)
  qed (simp add: capture_loop.simps)
qed

lemma served_captures [frame_intros]: "frame served (State (capture_loop left))"
  by (simp add: frame_def served_capture_loop)

lemma served_Write [frame_intros]:
  "frame served (State (Write exchangeWriter_Write exchange_select sha256 a b meth plan m))"
proof (unfold frame_def, rule allI)
  fix w
  obtain res w' where op: "Write exchangeWriter_Write exchange_select sha256 a b meth plan m w = (res, w')" by (metis surj_pair)
  then show "served (snd (run_state (State (Write exchangeWriter_Write exchange_select sha256 a b meth plan m)) w)) = served w"
    using response.Write_effect [OF TrueI op] op by simp
qed

lemma served_State_pop [frame_intros]: "(\<And>w. f (snd (g w)) = f w) \<Longrightarrow> frame f (State g)"
  by (simp add: frame_def)

lemmas report_defs = limit_hit_def request_limit_hit_def emitLimit_def emitLimitWithRequest_def parser_error_def
  writeParserError_def journal_write_def elapsed_seconds_def lifetime_stop_def request_lifetime_stop_def
  capture_then_def inl_def postFailureCapture_def beginPostFailure_def clearReadDeadline_def set_reader_def
  set_read_deadline_def

lemma served_reports [frame_intros]:
  "frame served (limit_hit s c n)" "frame served (request_limit_hit s i c n)" "frame served (parser_error s i p k t)"
  "frame served (lifetime_stop s)" "frame served (request_lifetime_stop s i)" "frame served postFailureCapture"
  unfolding report_defs by (intro frame_intros; simp)+

lemma frame_capture_then [frame_intros]: "frame served m \<Longrightarrow> frame served (capture_then m)"
  unfolding capture_then_def by (intro frame_intros; simp)

lemma frame_inl [frame_intros]: "frame f m \<Longrightarrow> frame f (inl m)"
  unfolding inl_def by (intro frame_intros; simp)

lemma served_xw [frame_intros]: "frame served (xw_Write p)"
  by (rule served_xw_Write)

lemma served_phases:
  "frame served (loop_guard s)" "frame served (read_failure s e a b c)" "frame served (receive_header lib s)"
  "frame served (accept_header s req a b)" "frame served (begin_exchange s)" "frame served (send_interim s req c i)"
  "frame served (body_failure s i e a b)" "frame served (receive_body lib s req i)"
  "frame served (choose_response s req i rp c b)" "frame served (send_response sha256 s req p st)"
  "frame served (response_failure s i d)" "frame served (after_response s i d n c)"
  unfolding loop_guard_def read_failure_def receive_header_def accept_header_def begin_exchange_def send_interim_def
    body_failure_def receive_body_def choose_response_def send_response_def response_failure_def after_response_def
    beginHeaderPhase_def beginBodyPhase_def logicalConsumed_def readRequest_def consumeBody_def clearReadDeadline_def
    clearDeadline_def set_reader_def set_read_deadline_def currentBytesOut_def snapshot_def newExchangeWriter_def
    remaining_def Let_def
  by (intro frame_intros; simp split: prod.split)+


lemma then_phase_cases:
  assumes "run_state (then_phase m k) w = (r, w')"
  obtains (stopped) st where "run_state m w = (Inl st, w')" "r = Inl st"
  | (on) x w1 where "run_state m w = (Inr x, w1)" "run_state (k x) w1 = (r, w')"
proof -
  obtain q w1 where q: "run_state m w = (q, w1)" by (metis surj_pair)
  show thesis using assms q stopped on by (cases q) (auto simp: then_phase_def)
qed

lemma then_phase_served:
  assumes "run_state (then_phase m k) w = (r, w')" "frame served m"
  obtains (stopped) st where "r = Inl st" "served w' = served w"
  | (on) x w1 where "run_state m w = (Inr x, w1)" "run_state (k x) w1 = (r, w')" "served w1 = served w"
  using assms(1)
proof (cases rule: then_phase_cases)
  case (stopped st)
  then show thesis using that(1) frameD [OF assms(2) stopped(1)] by simp
next
  case (on x w1)
  then show thesis using that(2) frameD [OF assms(2) on(1)] by simp
qed

lemma count_request_served:
  assumes "run_state (count_request s req i) w = (r, w')"
  shows "served w' = served w + 1 \<and> (\<forall>n c. r = Inr (n, c) \<longrightarrow> n = served w + 1
    \<and> (c \<longleftrightarrow> rqClose req \<or> n \<ge> MaxRequestsPerConnection (snLimits s)))"
proof -
  obtain n w1 where n: "run_state addRequest w = (n, w1)" by (metis surj_pair)
  have w1: "n = served w + 1" "served w1 = served w + 1" using n by (auto simp: addRequest_def)
  let ?m = "if n \<ge> MaxRequestsPerConnection (snLimits s)
           then request_limit_hit s i LimitRequestsPerConnection (word_of_int n) else ret ()"
  obtain u w2 where u: "run_state ?m w1 = (u, w2)" by (metis surj_pair)
  have "frame served ?m" by (intro frame_intros)
  then have w2: "served w2 = served w1" using u by (rule frameD)
  obtain t w3 where t: "run_state time_now w2 = (t, w3)" by (metis surj_pair)
  have "frame served time_now" by (intro frame_intros) simp
  then have w3: "served w3 = served w2" using t by (rule frameD)
  let ?k = "if t > snLifetimeEnd s then inl (request_lifetime_stop s i)
    else ret (Inr (n, rqClose req \<or> n \<ge> MaxRequestsPerConnection (snLimits s)))"
  have last: "run_state ?k w3 = (r, w')" using assms n u t by (simp add: count_request_def Let_def)
  have "frame served ?k" by (intro frame_intros)
  then have "served w' = served w3" using last by (rule frameD)
  moreover have "r = Inr (m, c) \<Longrightarrow> m = n \<and> c = (rqClose req \<or> n \<ge> MaxRequestsPerConnection (snLimits s))" for m c
    using last by (auto simp: inl_def split: if_splits prod.splits)
  ultimately show ?thesis using w1 w2 w3 by auto
qed

lemma after_response_goes_on: "run_state (after_response s i d n c) w = (Inr (), w') \<Longrightarrow> \<not> c"
  by (auto simp: after_response_def inl_def split: if_splits prod.splits)

text \<open>A round that goes on has counted one request and there is room for another.\<close>

lemma respond_served:
  assumes "run_state (respond sha256 s req tr i st rg rs n c) w = (r, w')"
  shows "served w' = served w \<and> (r = Inr () \<longrightarrow> \<not> c)"
  using assms unfolding respond_def Let_def
proof (rule then_phase_served)
  fix chosen w1
  assume op: "run_state (do {
       d \<leftarrow> send_response sha256 s req (slPlan chosen) rs;
       t \<leftarrow> time_now;
       digest \<leftarrow> xw_Sum sha256;
       _ \<leftarrow> rt_emit (exchange_event sha256 s req tr i (rawPathFromTarget (rqRequestURI req)) chosen d (st, t) rg rs digest);
       after_response s i d n c }) w1 = (r, w')" and w1: "served w1 = served w"
  obtain d w2 where d: "run_state (send_response sha256 s req (slPlan chosen) rs) w1 = (d, w2)" by (metis surj_pair)
  obtain t w3 where t: "run_state time_now w2 = (t, w3)" by (metis surj_pair)
  let ?dg = "hex_encode (sha256 (xwHasher (wWriter w3)))"
  let ?e = "exchange_event sha256 s req tr i (rawPathFromTarget (rqRequestURI req)) chosen d (st, t) rg rs ?dg"
  obtain u w4 where e: "run_state (rt_emit ?e) w3 = (u, w4)" by (metis surj_pair)
  have last: "run_state (after_response s i d n c) w4 = (r, w')" using op d t e by (simp add: xw_Sum_def)
  have "frame served time_now" by (intro frame_intros) simp
  then have "served w3 = served w2" using t by (rule frameD)
  moreover have "served w2 = served w1" by (rule frameD [OF served_phases(10) d])
  moreover have "served w4 = served w3" by (rule frameD [OF frame_rt(1) [OF blind_served] e])
  moreover have "served w' = served w4" by (rule frameD [OF served_phases(12) last])
  ultimately show ?thesis using w1 last by (auto dest: after_response_goes_on)
qed (use served_phases in auto)


definition counts_one :: "int \<Rightarrow> unit phase \<Rightarrow> bool" where
  "counts_one n m \<longleftrightarrow> (\<forall>w r w'. run_state m w = (r, w') \<longrightarrow> (served w' = served w \<or> served w' = served w + 1)
     \<and> (r = Inr () \<longrightarrow> served w' = served w + 1 \<and> served w' < n))"

lemma counts_one_then:
  assumes "frame served m" "\<And>x. counts_one n (k x)"
  shows "counts_one n (then_phase m k)"
  unfolding counts_one_def
proof (intro allI impI)
  fix w r w'
  assume op: "run_state (then_phase m k) w = (r, w')"
  show "(served w' = served w \<or> served w' = served w + 1) \<and> (r = Inr () \<longrightarrow> served w' = served w + 1 \<and> served w' < n)"
    by (rule then_phase_served [OF op assms(1)]) (use assms(2) in \<open>force simp: counts_one_def\<close>)+
qed

lemma counts_one_split: "(\<And>x y. counts_one n (f x y)) \<Longrightarrow> counts_one n (case p of (x, y) \<Rightarrow> f x y)"
  by (cases p) simp

lemma counts_one_last:
  "counts_one (MaxRequestsPerConnection (snLimits s)) (then_phase (count_request s req i)
     (\<lambda>(n, c). respond sha256 s req tr i st rg rs n c))"
  unfolding counts_one_def
proof (intro allI impI)
  fix w r w'
  assume op: "run_state (then_phase (count_request s req i) (\<lambda>(n, c). respond sha256 s req tr i st rg rs n c)) w = (r, w')"
  show "(served w' = served w \<or> served w' = served w + 1)
    \<and> (r = Inr () \<longrightarrow> served w' = served w + 1 \<and> served w' < MaxRequestsPerConnection (snLimits s))"
    using op
  proof (rule then_phase_cases)
    fix st assume "run_state (count_request s req i) w = (Inl st, w')" "r = Inl st"
    then show ?thesis using count_request_served [of s req i w "Inl st" w'] by simp
  next
    fix x w1 assume c: "run_state (count_request s req i) w = (Inr x, w1)"
      and k: "run_state (case x of (n, c) \<Rightarrow> respond sha256 s req tr i st rg rs n c) w1 = (r, w')"
    obtain n cl where x: "x = (n, cl)" by (metis surj_pair)
    have "served w' = served w1 \<and> (r = Inr () \<longrightarrow> \<not> cl)" using respond_served k by (simp add: x) blast
    then show ?thesis using count_request_served [OF c] x by auto
  qed
qed

lemma serve_round_served: "counts_one (MaxRequestsPerConnection (snLimits s)) (serve_round lib sha256 s)"
  unfolding serve_round_def
  by (intro counts_one_then counts_one_split counts_one_last served_phases)

function serve_loop :: "http_lib \<Rightarrow> (byte list \<Rightarrow> byte list) \<Rightarrow> session \<Rightarrow> world \<Rightarrow> stop \<times> world" where
  "serve_loop lib sha256 s w = (case run_state (serve_round lib sha256 s) w of
     (Inl st, w') \<Rightarrow> (st, w')
   | (Inr u, w') \<Rightarrow> serve_loop lib sha256 s w')"
  by pat_completeness auto
termination
proof (relation "measure (\<lambda>(lib, sha256, s, w). nat (MaxRequestsPerConnection (snLimits s) - served w))", goal_cases)
  case 1
  show ?case by simp
next
  case (2 lib sha256 s w r w' u)
  then have "run_state (serve_round lib sha256 s) w = (Inr (), w')" by simp
  then have "served w < served w' \<and> served w' < MaxRequestsPerConnection (snLimits s)"
    using serve_round_served [of s lib sha256, unfolded counts_one_def, rule_format, of w "Inr ()" w'] by simp
  then show ?case by simp
qed

declare serve_loop.simps [simp del]

section \<open>The whole connection\<close>

definition init_connection :: "unit io" where
  "init_connection = modify (\<lambda>w. w\<lparr>wCounters := \<lparr>bytesIn = 0, bytesOut = 0, requests = 0\<rparr>\<rparr>)"

text \<open>The reader, its buffer and the route state, before the loop.\<close>

definition init_reader :: "session \<Rightarrow> unit io" where
  "init_reader s = modify (\<lambda>w. w\<lparr>wReader := \<lparr>rrConnectionID = snConnectionID s,
       rrMaxConnBytes = MaxConnectionBytes (snLimits s), rrLifetimeEnd = snLifetimeEnd s, rrParserFailed = False,
       rrHeaderPhase = False, rrHeaderStarted = False, rrHeaderBytesRead = 0,
       rrHeaderReadCap = MaxHeaderBytes (snLimits s) + 4096, rrHeaderTimeout = 0\<rparr>,
     wBuf := [], wPending := None, wRoutes := NewRouteState\<rparr>)"

text \<open>The end points of the raw connection, as \<open>splitAddress\<close> gives them.\<close>

type_synonym endpoints = "(string \<times> int) \<times> (string \<times> int)"

definition open_event :: "session \<Rightarrow> endpoints \<Rightarrow> event" where
  "open_event s ends = no_event\<lparr>evEventType := ''connection_open'', evServiceID := snServiceID s,
     evConnectionID := snConnectionIDText s, evSourceIP := fst (fst ends), evSourcePort := snd (fst ends),
     evDestinationIP := fst (snd ends), evDestinationPort := snd (snd ends), evListenerProtocol := snProtocol s\<rparr>"

definition tls_event :: "session \<Rightarrow> endpoints \<Rightarrow> go_error \<Rightarrow> int \<Rightarrow> event" where
  "tls_event s ends err elapsed = no_event\<lparr>evEventType := ''tls_error'', evServiceID := snServiceID s,
     evConnectionID := snConnectionIDText s, evSourceIP := fst (fst ends), evSourcePort := snd (fst ends),
     evDestinationIP := fst (snd ends), evDestinationPort := snd (snd ends),
     evTLSErrorCode := boundedTLSErrorCode (Some err), evHandshakeElapsedMS := elapsed div Millisecond\<rparr>"

definition start_transport :: "tls_lib \<Rightarrow> session \<Rightarrow> endpoints \<Rightarrow> unit phase" where
  "start_transport tls s ends =
    (if snProtocol s = ''https'' then do {
       t \<leftarrow> time_now;
       let configured = TLSHandshakeTimeoutSeconds (snLimits s) * Second;
       let timeout = (if snLifetimeEnd s - t < configured then snLifetimeEnd s - t else configured);
       if timeout \<le> 0 then inl (lifetime_stop s)
       else do {
         (r, elapsed) \<leftarrow> handshakeTLS tls timeout;
         (case r of
            Inl err \<Rightarrow> do {
              _ \<leftarrow> rt_emit (tls_event s ends err elapsed);
              t \<leftarrow> time_now;
              if \<not> t < snLifetimeEnd s then inl (lifetime_stop s)
              else ret (Inl (Stop CloseTLSError ''tls_error'')) }
          | Inr c \<Rightarrow> do { _ \<leftarrow> modify (\<lambda>w. w\<lparr>wConn := c\<rparr>); ret (Inr ()) }) } }
     else ret (Inr ()))"

text \<open>From the journal entry of the connection to the end of the loop: why it ended.\<close>

definition serve_connection :: "tls_lib \<Rightarrow> http_lib \<Rightarrow> (byte list \<Rightarrow> byte list) \<Rightarrow> session
    \<Rightarrow> string option \<Rightarrow> string option \<Rightarrow> stop io" where
  "serve_connection tls lib sha256 s remoteAddr localAddr = do {
     err \<leftarrow> bwj_op (WriteConnectionOpen (snConnectionID s));
     (case err of Some e \<Rightarrow> do { _ \<leftarrow> rt_fail e; ret (Stop CloseEvidenceFailure ''evidence_failure'') }
      | None \<Rightarrow> do {
          let ends = (splitAddress remoteAddr, splitAddress localAddr);
          _ \<leftarrow> rt_emit (open_event s ends);
          r \<leftarrow> start_transport tls s ends;
          (case r of Inl st \<Rightarrow> ret st
           | Inr _ \<Rightarrow> do { _ \<leftarrow> init_reader s; State (serve_loop lib sha256 s) }) }) }"

text \<open>The deferred functions; a panic leaves the close reason as it was initialised.\<close>

definition close_connection :: "session \<Rightarrow> stop \<Rightarrow> unit io" where
  "close_connection s st =
    (let (reason, text) = (case st of Stop r t \<Rightarrow> (r, t) | Panic \<Rightarrow> (CloseUnspecified, ''unspecified'')) in do {
     _ \<leftarrow> journal_write (WriteConnectionClose (snConnectionID s) reason);
     (bin, out, n) \<leftarrow> snapshot;
     _ \<leftarrow> rt_emit (no_event\<lparr>evEventType := ''connection_close'', evServiceID := snServiceID s,
       evConnectionID := snConnectionIDText s, evCloseReason := text, evBytesIn := bin, evBytesOut := out,
       evRequestCount := n\<rparr>);
     modify (\<lambda>w. w\<lparr>wConn := conn_Close (wConn w)\<rparr>) })"

text \<open>\<open>handleConnection\<close>; a result of \<^const>\<open>Panic\<close> is a panic that goes on after the deferred
  functions. The set of active connections is in theory Listener.\<close>

definition handleConnection :: "tls_lib \<Rightarrow> http_lib \<Rightarrow> (byte list \<Rightarrow> byte list) \<Rightarrow> string \<Rightarrow> service_config
    \<Rightarrow> string option \<Rightarrow> string option \<Rightarrow> stop option io" where
  "handleConnection tls lib sha256 serviceID service remoteAddr localAddr = do {
     r \<leftarrow> on_host NewID;
     (case r of
        Inl err \<Rightarrow> do {
          _ \<leftarrow> rt_fail (Wrapf ''INTERNAL_FATAL generate connection id: %w'' [] err);
          _ \<leftarrow> modify (\<lambda>w. w\<lparr>wConn := conn_Close (wConn w)\<rparr>);
          ret None }
      | Inr connectionID \<Rightarrow> do {
          cfg \<leftarrow> gets (\<lambda>w. rtCfg (wRt w));
          started \<leftarrow> time_now;
          let s = \<lparr>snCfg = cfg, snServiceID = serviceID, snService = service,
            snProtocol = (case scListener service of Some l \<Rightarrow> lcProtocol l | None \<Rightarrow> ''''),
            snConnectionID = connectionID, snConnectionIDText = FormatID connectionID, snStarted = started,
            snLifetimeEnd = started + MaxConnectionLifetimeSeconds (cfLimits cfg) * Second\<rparr>;
          _ \<leftarrow> init_connection;
          st \<leftarrow> serve_connection tls lib sha256 s remoteAddr localAddr;
          _ \<leftarrow> close_connection s st;
          ret (Some st) }) }"

end
