(* ===== verification/Calm.thy ===== *)
theory Calm
  imports Jsonl_Spec Bwj_Journal
begin

text \<open>
  Hosts on which no call fails, and what the evidence writers do there: every operation leaves such a
  host as calm as it was, and an acceptable record is acknowledged. Used for the liveness of the
  connection handler.
\<close>

definition calm :: "host \<Rightarrow> bool" where
  "calm h \<longleftrightarrow> randoms h = [] \<and> writes h = [] \<and> opens h = [] \<and> syncs h = [] \<and> closes h = []"

named_theorems calm_intros \<open>operations keep a calm host calm\<close>

section \<open>The host\<close>

lemma calm_now [calm_intros]: "now h = (t, h') \<Longrightarrow> calm h' = calm h"
  by (auto simp: now_def calm_def split: prod.splits)

lemma calm_rand: "calm h \<Longrightarrow> rand_read n h = (r, h') \<Longrightarrow> calm h' \<and> (\<exists>bs. r = Inr bs)"
  by (auto simp: rand_read_def calm_def)

lemma calm_NewID: "calm h \<Longrightarrow> NewID h = (r, h') \<Longrightarrow> calm h' \<and> (\<exists>i. r = Inr i)"
  using calm_rand [of h 16] by (auto simp: NewID_def Let_def split: prod.splits sum.splits)

lemma calm_open: "calm h \<Longrightarrow> open_excl p h = (e, h') \<Longrightarrow> calm h' \<and> (\<not> exists_file p h \<longrightarrow> e = None)"
  by (auto simp: open_excl_def calm_def exists_file_def Let_def split: if_splits)

lemma calm_write: "calm h \<Longrightarrow> file_write p h bs = ((n, e), h') \<Longrightarrow> calm h' \<and> n = length bs \<and> e = None"
  by (auto simp: file_write_def calm_def Let_def)

lemma calm_sync: "calm h \<Longrightarrow> file_sync h = (e, h') \<Longrightarrow> calm h' \<and> e = None"
  by (auto simp: file_sync_def calm_def)

lemma calm_close: "calm h \<Longrightarrow> file_close h = (e, h') \<Longrightarrow> calm h' \<and> e = None"
  by (auto simp: file_close_def calm_def)

lemma calm_writeFull: "calm h \<Longrightarrow> writeFull p h bs = (r, h') \<Longrightarrow> calm h' \<and> r = None"
proof -
  assume h: "calm h" and op: "writeFull p h bs = (r, h')"
  obtain n e h1 where w: "file_write p h bs = ((n, e), h1)" by (metis surj_pair)
  from calm_write [OF h w] have c: "calm h1" "n = length bs" "e = None" by auto
  show ?thesis
  proof (cases "bs = []")
    case True
    then show ?thesis using op h by (simp add: writeFull_def write_loop.simps)
  next
    case False
    then have "write_loop (file_write p) h bs = write_loop (file_write p) h1 []"
      using w c by (subst write_loop.simps) simp
    then show ?thesis using op c by (simp add: writeFull_def write_loop.simps)
  qed
qed

section \<open>The journal writer\<close>

lemma calm_openNext:
  assumes h: "calm h" and op: "openNextLocked w h = (r, w', h')"
    and new: "\<not> exists_file (bwDirectory w, bwj_name (bwRunSessionID w) (bwFileSequence w + 1)) h"
  shows "calm h' \<and> r = None"
proof -
  let ?p = "(bwDirectory w, bwj_name (bwRunSessionID w) (bwFileSequence w + 1))"
  obtain e h1 where o: "open_excl ?p h = (e, h1)" by (metis surj_pair)
  obtain t h2 where t: "now h1 = (t, h2)" by (metis surj_pair)
  obtain e2 h3 where f: "writeFull ?p h2 (file_header (word_of_int t) (bwRunSessionID w) (bwFileSequence w + 1)) = (e2, h3)"
    by (metis surj_pair)
  obtain c h4 where n: "now h3 = (c, h4)" by (metis surj_pair)
  have "calm h1" "e = None" using calm_open [OF h o] new by auto
  moreover from this have "calm h2" using calm_now [OF t] by simp
  moreover from this have "calm h3" "e2 = None" using calm_writeFull f by blast+
  moreover from this have "calm h4" using calm_now [OF n] by simp
  ultimately show ?thesis using op o t f n by (simp add: openNextLocked_def Let_def)
qed

lemma calm_rotate:
  assumes h: "calm h" and inv: "journal_inv w h J" and len: "Suc (length J) < 2 ^ 64" and op: "rotateLocked w h = (r, w', h')"
  shows "calm h' \<and> r = None"
proof -
  obtain e1 h1 where s: "file_sync h = (e1, h1)" by (metis surj_pair)
  obtain e2 h2 where c: "file_close h1 = (e2, h2)" by (metis surj_pair)
  have h2: "calm h1" "e1 = None" "calm h2" "e2 = None" using calm_sync [OF h s] calm_close [OF _ c] by auto
  have fs: "files h2 = files h" using file_sync_frame [of h] file_close_frame [of h1] s c by simp
  have "bwFileSequence w + 1 = of_nat (Suc (length J))" using inv by (simp add: journal_inv_def)
  then have p: "(bwDirectory w, bwj_name (bwRunSessionID w) (bwFileSequence w + 1)) = bwj_path w (length J)"
    by (simp add: bwj_path_def add.commute)
  have "\<not> exists_file (bwj_path w (length J)) h" using inv len by (simp add: journal_inv_def journal_files_def)
  then have new: "\<not> exists_file (bwj_path w (length J)) h2" using same_files(2) [OF fs] by simp
  have "openNextLocked (w\<lparr>bwFile := None\<rparr>) h2 = (r, w', h')"
    using op s c h2 inv by (simp add: rotateLocked_def journal_inv_def)
  from calm_openNext [OF h2(3) this] new p show ?thesis by simp
qed

lemma calm_append:
  assumes h: "calm h" and op: "appendRecord t d f c i p path w h = (r, w', h')"
  shows "calm h' \<and> r = None"
proof -
  obtain ts h1 where n: "now h = (ts, h1)" by (metis surj_pair)
  obtain e2 h2 where w1: "writeFull path h1 (record_header t d f (word_of_int ts) (bwRecordSequence w + 1) c i (length p)) = (e2, h2)"
    by (metis surj_pair)
  obtain e3 h3 where w2: "(if p \<noteq> [] then writeFull path h2 p else (None, h2)) = (e3, h3)" by (metis surj_pair)
  have h2: "calm h2" "e2 = None" using calm_writeFull [OF _ w1] calm_now [OF n] h by auto
  have "calm h3 \<and> e3 = None"
  proof (cases "p = []")
    case True
    then show ?thesis using w2 h2 by auto
  next
    case False
    then show ?thesis using w2 calm_writeFull [OF h2(1)] by auto
  qed
  then show ?thesis using op n w1 w2 h2 by (simp add: appendRecord_def Let_def split: if_splits)
qed

lemma calm_shouldRotate: "shouldRotateLocked n w h = (b, h') \<Longrightarrow> calm h' = calm h"
  by (auto simp: shouldRotateLocked_def calm_now split: prod.splits if_splits)

text \<open>On a calm host a live writer acknowledges what it accepts.\<close>

lemma put_entry_calm:
  assumes h: "calm h" and live: "bwj_live (Suc n) (w, h)" and ok: "acceptable e" and op: "put_entry e (w, h) = (r, w', h')"
  shows "calm h' \<and> r = None"
proof -
  obtain J where inv: "journal_inv w h J" and room: "room (Suc n) w" using live by (auto simp: bwj_live_def)
  note base = journal_inv_nonfatal [OF inv]
  have len: "Suc (length J) < 2 ^ 64" using room base by (simp add: room_def)
  let ?n = "int (64 + length (ePayload e))"
  obtain due h1 where sr: "shouldRotateLocked ?n w h = (due, h1)" by (metis surj_pair)
  have inv1: "journal_inv w h1 J" using inv shouldRotate_frame [OF sr] journal_inv_clock by blast
  have h1: "calm h1" using calm_shouldRotate [OF sr] h by simp
  obtain r2 w2 h2 where rot: "(if due then rotateLocked w h1 else (None, w, h1)) = (r2, w2, h2)" by (metis surj_pair)
  have mid: "r2 = None \<and> calm h2 \<and> (\<exists>p. bwFile w2 = Some p)"
  proof (cases due)
    case False
    then show ?thesis using rot h1 base by auto
  next
    case True
    then have ro: "rotateLocked w h1 = (r2, w2, h2)" using rot by simp
    from calm_rotate [OF h1 inv1 len ro] have r2: "r2 = None" "calm h2" by auto
    then obtain fh where "journal_inv w2 h2 (J @ [(fh, [])])" using rotate_effect [OF inv1 len ro] by auto
    then show ?thesis using r2 journal_inv_nonfatal by blast
  qed
  then obtain p where p: "bwFile w2 = Some p" by blast
  have "appendRecord (eType e) (eDirection e) (eFlags e) (eConnection e) (eRequest e) (ePayload e) p w2 h2 = (r, w', h')"
    using op ok base sr rot mid p by (simp add: put_entry_def writeRecord_def acceptable_def)
  from calm_append [OF _ this] mid show ?thesis by simp
qed

lemma put_seq_calm:
  "calm h \<Longrightarrow> bwj_live (length es + n) (w, h) \<Longrightarrow> list_all (\<lambda>e. good_entry e \<and> acceptable e) es
    \<Longrightarrow> put_seq put_entry es (w, h) = (r, w', h') \<Longrightarrow> calm h' \<and> r = None"
proof (induction es arbitrary: w h)
  case (Cons e es)
  obtain r1 w1 h1 where p: "put_entry e (w, h) = (r1, w1, h1)" by (metis surj_pair)
  have e: "good_entry e" "acceptable e" using Cons.prems(3) by auto
  have live: "bwj_live (Suc (length es + n)) (w, h)" using Cons.prems(2) by simp
  have p1: "calm h1" "r1 = None" using put_entry_calm [OF Cons.prems(1) live e(2) p] by auto
  have "bwj_live (length es + n) (w1, h1)" using bwj.put_ok [OF live e(1)] p p1 by blast
  then show ?case using Cons.IH [OF p1(1)] Cons.prems p p1 by auto
qed simp

lemma WriteData_calm:
  assumes h: "calm h" and live: "bwj_live (length (chunks data) + n) (w, h)" and ids: "length cid = 16" "length rid = 16"
    and d: "d = DirectionInbound \<or> d = DirectionOutbound" and f: "f AND 0xf0 = 0"
    and op: "WriteData cid rid d f data w h = (r, w', h')"
  shows "calm h' \<and> r = None"
proof (rule put_seq_calm [OF h, where es = "data_entries cid rid d f data" and n = n and w = w])
  show "bwj_live (length (data_entries cid rid d f data) + n) (w, h)" using live by (simp add: data_entries_def)
  show "list_all (\<lambda>e. good_entry e \<and> acceptable e) (data_entries cid rid d f data)"
    using ids d f by (auto simp: data_entries_def list_all_iff good_entry_def acceptable_def validatePayload_def
      dest!: chunk_sizes)
  show "put_seq put_entry (data_entries cid rid d f data) (w, h) = (r, w', h')"
    using op d by (auto simp: WriteData_def write_data_loop_seq)
qed

section \<open>The event log\<close>

lemma calm_os_write: "calm h \<Longrightarrow> os_write f h bs = (r, h') \<Longrightarrow> calm h'"
  by (cases r) (auto simp: os_write_def dest: calm_write split: if_splits prod.splits)

lemma calm_flush: "calm h \<Longrightarrow> bufio_flush f b h = (e, b', h') \<Longrightarrow> calm h'"
  by (auto simp: bufio_flush_def dest: calm_os_write split: if_splits prod.splits option.splits)

lemma calm_bufio_write: "calm h \<Longrightarrow> bufio_write f p b h = (e, b', h') \<Longrightarrow> calm h'"
proof (induction f p b h rule: bufio_write.induct)
  case (1 f p b h)
  note eqn = bufio_write.simps [of f p b h]
  show ?case
  proof (cases "bfErr b \<noteq> None \<or> length p \<le> bufioSize - length (bfBuf b)")
    case True
    then have "h' = h" using 1(4) eqn by (auto split: if_splits)
    then show ?thesis using 1(3) by simp
  next
    case False
    show ?thesis
    proof (cases "bfBuf b = []")
      case True
      obtain n e1 h1 where w: "os_write f h p = ((n, e1), h1)" by (metis surj_pair)
      then have "bufio_write f (drop n p) (b\<lparr>bfErr := e1\<rparr>) h1 = (e, b', h')" using 1(4) False True eqn by simp
      then show ?thesis using 1(1) [OF _ _ True w [symmetric] refl] False calm_os_write [OF 1(3) w] by simp
    next
      case buf: False
      define k where "k = bufioSize - length (bfBuf b)"
      obtain e1 b1 h1 where w: "bufio_flush f (b\<lparr>bfBuf := bfBuf b @ take k p\<rparr>) h = (e1, b1, h1)" by (metis surj_pair)
      then have "bufio_write f (drop k p) b1 h1 = (e, b', h')" using 1(4) False buf eqn by (simp add: Let_def k_def)
      then show ?thesis using 1(2) [OF _ _ buf k_def w [symmetric] refl] False calm_flush [OF 1(3) w] by simp
    qed
  qed
qed

lemma calm_os_sync: "calm h \<Longrightarrow> os_sync f h = (e, h') \<Longrightarrow> calm h'"
  by (auto simp: os_sync_def dest: calm_sync split: if_splits)

lemma calm_os_close: "calm h \<Longrightarrow> os_close f h = (e, f', h') \<Longrightarrow> calm h'"
  by (auto simp: os_close_def dest: calm_close split: if_splits prod.splits)

lemma calm_jsonl_openNext: "calm h \<Longrightarrow> jsonl_openNextLocked w h = (r, w', h') \<Longrightarrow> calm h'"
  by (auto simp: jsonl_openNextLocked_def Let_def calm_now dest: calm_open split: option.splits prod.splits)

lemma calm_jsonl_rotate: "calm h \<Longrightarrow> jsonl_rotateLocked w h = (r, w', h') \<Longrightarrow> calm h'"
proof (cases "jwFile w")
  case None
  then show "calm h \<Longrightarrow> jsonl_rotateLocked w h = (r, w', h') \<Longrightarrow> calm h'"
    by (simp add: jsonl_rotateLocked_def calm_jsonl_openNext)
next
  case (Some f)
  assume h: "calm h" and op: "jsonl_rotateLocked w h = (r, w', h')"
  obtain e1 b1 h1 where 1: "bufio_flush f (jwBuffer w) h = (e1, b1, h1)" by (metis surj_pair)
  obtain e2 h2 where 2: "os_sync f h1 = (e2, h2)" by (metis surj_pair)
  obtain e3 f3 h3 where 3: "os_close f h2 = (e3, f3, h3)" by (metis surj_pair)
  have c: "calm h1" "calm h2" "calm h3" using calm_flush [OF h 1] calm_os_sync [OF _ 2] calm_os_close [OF _ 3] by auto
  show "calm h'"
  proof (cases "e1 = None \<and> e2 = None \<and> e3 = None")
    case True
    then have "jsonl_openNextLocked (w\<lparr>jwBuffer := b1, jwFile := Some f3\<rparr>) h3 = (r, w', h')"
      using op 1 2 3 Some by (simp add: jsonl_rotateLocked_def)
    then show ?thesis by (rule calm_jsonl_openNext [OF c(3)])
  next
    case False
    then show ?thesis using op 1 2 3 Some c
      by (cases e1; cases e2; cases e3) (simp_all add: jsonl_rotateLocked_def)
  qed
qed

lemma calm_append_line: "calm h \<Longrightarrow> append_line l f w h = (r, w', h') \<Longrightarrow> calm h'"
proof -
  assume h: "calm h" and op: "append_line l f w h = (r, w', h')"
  obtain e1 b1 h1 where 1: "bufio_write f l (jwBuffer w) h = (e1, b1, h1)" by (metis surj_pair)
  obtain e2 b2 h2 where 2: "bufio_flush f b1 h1 = (e2, b2, h2)" by (metis surj_pair)
  have "calm h1" "calm h2" using calm_bufio_write [OF h 1] calm_flush [OF _ 2] by auto
  then show ?thesis using op 1 2 by (cases e1; cases e2) (auto simp: append_line_def)
qed

lemma calm_stamp: "stamp_event e h = (e', h') \<Longrightarrow> calm h' = calm h"
  by (auto simp: stamp_event_def Let_def calm_now split: if_splits prod.splits)

lemma calm_jsonl_due: "jsonl_shouldRotateLocked n w h = (due, h') \<Longrightarrow> calm h' = calm h"
  by (auto simp: jsonl_shouldRotateLocked_def calm_now split: if_splits prod.splits)

lemma WriteEvent_calm: "calm h \<Longrightarrow> WriteEvent e w h = (r, w', h') \<Longrightarrow> calm h'"
proof -
  assume h: "calm h" and op: "WriteEvent e w h = (r, w', h')"
  obtain e1 h1 where s: "stamp_event e h = (e1, h1)" by (metis surj_pair)
  have h1: "calm h1" using calm_stamp [OF s] h by simp
  show "calm h'"
  proof (cases "jwClosed w \<or> jwMaxEventBytes w \<le> 1 \<or> isl (boundedEventJSON e1 (jwMaxEventBytes w - 1))")
    case True
    then have "h' = h \<or> h' = h1" using op s by (auto simp: WriteEvent_def isl_def split: if_splits)
    then show ?thesis using h h1 by blast
  next
    case False
    then obtain enc where enc: "boundedEventJSON e1 (jwMaxEventBytes w - 1) = Inr enc" by (cases "boundedEventJSON e1 (jwMaxEventBytes w - 1)") auto
    let ?l = "bytes_of (enc @ [CHR 0x0A])"
    obtain due h2 where d: "jsonl_shouldRotateLocked (int (length ?l)) w h1 = (due, h2)" by (metis surj_pair)
    obtain r3 w3 h3 where ro: "(if due then jsonl_rotateLocked w h2 else (None, w, h2)) = (r3, w3, h3)" by (metis surj_pair)
    have h3: "calm h3" using ro calm_jsonl_rotate calm_jsonl_due [OF d] h1 by (auto split: if_splits)
    show ?thesis using op False s enc d ro h3
      by (auto simp: WriteEvent_def Let_def dest: calm_append_line split: option.splits)
  qed
qed

end
