(* ===== verification/Tidy.thy ===== *)
theory Tidy
  imports Index Jsonl_Spec
begin

text \<open>
  A tidy journal directory: every journal file in it is one of the files of the writer, or is a readable
  journal of another run. An acknowledged entry keeps it tidy. A failed rotation need not: it may leave
  a file with part of a header behind, which no reader accepts.
\<close>

abbreviation journal_of :: "path \<Rightarrow> host \<Rightarrow> go_error + read_result" where
  "journal_of p h \<equiv> ReadBWJFile (Inr (content p h)) EOF"

definition own_files :: "bwj_writer \<Rightarrow> path set" where
  "own_files w = bwj_path w ` {..<unat (bwFileSequence w)}"

definition tidy :: "bwj_writer \<Rightarrow> host \<Rightarrow> bool" where
  "tidy w h \<longleftrightarrow> (\<forall>name. exists_file (bwDirectory w, name) h \<and> bwj_file name \<longrightarrow>
     (bwDirectory w, name) \<in> own_files w
     \<or> (\<exists>res. journal_of (bwDirectory w, name) h = Inr res \<and> RunSessionID (Header res) \<noteq> bwRunSessionID w))"

text \<open>The writer after a step: the same run, no fewer files, and only its own files changed.\<close>

definition onward :: "bwj_writer \<times> host \<Rightarrow> bwj_writer \<times> host \<Rightarrow> bool" where
  "onward s s' \<longleftrightarrow> (case (s, s') of ((w, h), (w', h')) \<Rightarrow> bwDirectory w' = bwDirectory w \<and> bwRunSessionID w' = bwRunSessionID w
     \<and> own_files w \<subseteq> own_files w' \<and> leaves (\<lambda>p. p \<notin> own_files w') h h')"

lemma onward_refl [simp]: "onward s s"
  by (cases s) (simp add: onward_def leaves_def)

lemma onward_trans: "onward s t \<Longrightarrow> onward t u \<Longrightarrow> onward s u"
  by (cases s; cases t; cases u) (auto simp: onward_def leaves_def)

lemma onward_tidy: "onward (w, h) (w', h') \<Longrightarrow> tidy w h \<Longrightarrow> tidy w' h'"
  unfolding onward_def tidy_def leaves_def prod.case by (metis subsetD)

lemma own_files_mono:
  assumes "bwDirectory w' = bwDirectory w" "bwRunSessionID w' = bwRunSessionID w" "unat (bwFileSequence w) \<le> unat (bwFileSequence w')"
  shows "own_files w \<subseteq> own_files w'"
  using assms by (auto simp: own_files_def bwj_path_def)

lemma onward_step:
  assumes "bwDirectory w' = bwDirectory w" "bwRunSessionID w' = bwRunSessionID w"
    "unat (bwFileSequence w) \<le> unat (bwFileSequence w')" "p \<in> own_files w'" "disk_step p bs c h h'"
  shows "onward (w, h) (w', h')"
  using assms own_files_mono [OF assms(1-3)] leaves_disk [OF assms(5), of "\<lambda>p. p \<notin> own_files w'"] by (simp add: onward_def)

lemma onward_files: "files h' = files h \<Longrightarrow> onward (w, h) (w, h')"
  by (simp add: onward_def leaves_files)

lemma own_file: "i < length J \<Longrightarrow> journal_inv w h J \<Longrightarrow> bwj_path w i \<in> own_files w"
  using journal_inv_nonfatal [of w h J] by (simp add: own_files_def)

lemma onward_rotate:
  assumes inv: "journal_inv w h J" and len: "Suc (length J) < 2 ^ 64" and op: "rotateLocked w h = (None, w', h')"
  shows "onward (w, h) (w', h')"
proof -
  obtain e1 h1 where s: "file_sync h = (e1, h1)" by (metis surj_pair)
  obtain e2 h2 where c: "file_close h1 = (e2, h2)" by (metis surj_pair)
  have fs: "files h2 = files h" using file_sync_frame [of h] file_close_frame [of h1] s c by simp
  let ?w = "w\<lparr>bwFile := None\<rparr>" and ?p = "bwj_path w (length J)"
  have o: "openNextLocked ?w h2 = (None, w', h')"
    using op s c inv by (auto simp: rotateLocked_def journal_inv_def split: option.splits)
  have run: "length (bwRunSessionID ?w) = 16" and seq: "bwFileSequence w = of_nat (length J)"
    using inv by (simp_all add: journal_inv_def)
  have p: "?p = (bwDirectory ?w, bwj_name (bwRunSessionID ?w) (bwFileSequence ?w + 1))" by (simp add: bwj_path_def seq add.commute)
  obtain fh k cr where d: "disk_step ?p (take k (encode_header fh)) cr h2 h'"
    and ok: "\<exists>t. w' = ?w\<lparr>bwFileSequence := bwFileSequence ?w + 1, bwFile := Some ?p,
        bwRecordSequence := 0, bwCreatedAt := t, bwBytesWritten := 64\<rparr>"
    using openNext_disk [OF run o p] by metis
  from ok have w': "bwDirectory w' = bwDirectory w" "bwRunSessionID w' = bwRunSessionID w" "bwFileSequence w' = of_nat (Suc (length J))"
    by (auto simp: seq add.commute)
  have n: "unat (bwFileSequence w') = Suc (length J)" "unat (bwFileSequence w) = length J"
    using len by (simp_all add: w'(3) seq unat_of_nat del: of_nat_Suc)
  then have "?p \<in> own_files w'" using w'(1,2) unfolding own_files_def by (intro image_eqI [of _ _ "length J"]) (simp_all add: bwj_path_def)
  with d n w' have "onward (w, h2) (w', h')" by (intro onward_step [of w' w ?p]) simp_all
  then show ?thesis using onward_trans onward_files [OF fs] by blast
qed

lemma onward_append:
  assumes inv: "journal_inv w h J" and e: "good_entry e"
    and op: "appendRecord (eType e) (eDirection e) (eFlags e) (eConnection e) (eRequest e) (ePayload e)
      (bwj_path w (length J - 1)) w h = (None, w', h')"
  shows "onward (w, h) (w', h')"
proof -
  let ?p = "bwj_path w (length J - 1)"
  have J: "0 < length J" using inv by (auto simp: journal_inv_def)
  then have p: "exists_file ?p h" "?p \<in> own_files w" "bwFailed w = None"
    using inv journal_filesD [of w h J "length J - 1"] own_file [OF _ inv, of "length J - 1"] by (auto simp: journal_inv_def)
  have ids: "length (eConnection e) = 16" "length (eRequest e) = 16" using e by (simp_all add: good_entry_def)
  obtain bs where d: "disk_step ?p bs False h h'" and ok: "w' = w\<lparr>bwRecordSequence := bwRecordSequence w + 1,
              bwBytesWritten := bwBytesWritten w + int (64 + length (ePayload e))\<rparr>"
    using append_disk [OF ids p(1,3) op] by metis
  then have w': "bwDirectory w' = bwDirectory w" "bwRunSessionID w' = bwRunSessionID w" "bwFileSequence w' = bwFileSequence w" by simp_all
  have "?p \<in> own_files w'" using p(2) own_files_mono [OF w'(1,2)] w'(3) by auto
  then show ?thesis using d w' by (intro onward_step) simp_all
qed

text \<open>An acknowledged entry.\<close>

lemma put_entry_onward:
  assumes live: "bwj_live (Suc n) (w, h)" and e: "good_entry e" and op: "put_entry e (w, h) = (None, w', h')"
  shows "onward (w, h) (w', h')"
proof -
  obtain J where inv: "journal_inv w h J" and room: "room (Suc n) w" using live by (auto simp: bwj_live_def)
  note base = journal_inv_nonfatal [OF inv]
  have len: "Suc (length J) < 2 ^ 64" using room base by (simp add: room_def)
  have ok: "acceptable e" using refused [of e w h] op by (cases "acceptable e") auto
  obtain due h1 where sr: "shouldRotateLocked (int (64 + length (ePayload e))) w h = (due, h1)" by (metis surj_pair)
  have fs: "files h1 = files h" by (rule shouldRotate_frame [OF sr])
  have inv1: "journal_inv w h1 J" using inv fs journal_inv_clock by blast
  obtain r2 w2 h2 where rot: "(if due then rotateLocked w h1 else (None, w, h1)) = (r2, w2, h2)" by (metis surj_pair)
  have r2: "r2 = None" using op ok base sr rot by (cases r2) (auto simp: put_entry_def writeRecord_def acceptable_def failLocked_def Let_def split: if_splits)
  have mid: "onward (w, h1) (w2, h2) \<and> (\<exists>J2. journal_inv w2 h2 J2)"
  proof (cases due)
    case False
    then show ?thesis using rot inv1 by auto
  next
    case True
    then have ro: "rotateLocked w h1 = (None, w2, h2)" using rot r2 by simp
    then show ?thesis using onward_rotate [OF inv1 len ro] rotate_effect [OF inv1 len ro] by auto
  qed
  then obtain J2 where J2: "journal_inv w2 h2 J2" by blast
  have "appendRecord (eType e) (eDirection e) (eFlags e) (eConnection e) (eRequest e) (ePayload e)
      (bwj_path w2 (length J2 - 1)) w2 h2 = (None, w', h')"
    using op ok base sr rot r2 journal_inv_nonfatal [OF J2] by (simp add: put_entry_def writeRecord_def acceptable_def)
  from onward_append [OF J2 e this] mid onward_files [OF fs] show ?thesis using onward_trans by blast
qed

lemma put_seq_onward:
  "bwj_live (length es + n) (w, h) \<Longrightarrow> list_all good_entry es \<Longrightarrow> put_seq put_entry es (w, h) = (None, w', h') \<Longrightarrow> onward (w, h) (w', h')"
proof (induction es arbitrary: w h)
  case (Cons e es)
  obtain w1 h1 where p: "put_entry e (w, h) = (None, w1, h1)" "put_seq put_entry es (w1, h1) = (None, w', h')"
    using Cons.prems(3) by (auto split: prod.splits option.splits)
  have e: "good_entry e" "list_all good_entry es" using Cons.prems(2) by simp_all
  have live: "bwj_live (Suc (length es + n)) (w, h)" using Cons.prems(1) by simp
  have "bwj_live (length es + n) (w1, h1)" using bwj.put_ok [OF live e(1) p(1)] by blast
  from Cons.IH [OF this e(2) p(2)] put_entry_onward [OF live e(1) p(1)] show ?case using onward_trans by blast
qed simp

lemma WriteData_log:
  assumes live: "bwj_live (length (chunks data) + n) (w, h)" and ids: "length cid = 16" "length rid = 16"
    and op: "WriteData cid rid d f data w h = (None, w', h')"
  shows "bwj_live n (w', h') \<and> journal_log (w', h') = journal_log (w, h) @ data_entries cid rid d f data"
proof -
  have d: "d = DirectionInbound \<or> d = DirectionOutbound"
    and p: "put_seq put_entry (data_entries cid rid d f data) (w, h) = (None, w', h')" using WriteData_seq [OF op] by auto
  show ?thesis by (rule bwj.seq_ok [OF _ good_data_entries [OF ids d] p]) (simp add: data_entries_def live)
qed

lemma WriteData_onward:
  assumes live: "bwj_live (length (chunks data) + n) (w, h)" and ids: "length cid = 16" "length rid = 16"
    and op: "WriteData cid rid d f data w h = (None, w', h')"
  shows "onward (w, h) (w', h')"
proof -
  have d: "d = DirectionInbound \<or> d = DirectionOutbound"
    and p: "put_seq put_entry (data_entries cid rid d f data) (w, h) = (None, w', h')" using WriteData_seq [OF op] by auto
  show ?thesis by (rule put_seq_onward [OF _ good_data_entries [OF ids d] p]) (use live in \<open>simp add: data_entries_def\<close>)
qed

section \<open>What keeps a directory tidy\<close>

lemma tidy_files: "files h' = files h \<Longrightarrow> tidy w h' = tidy w h"
  by (simp add: tidy_def same_files [of h' h])

lemma bwj_file_foreign: "bwj_file name \<Longrightarrow> foreign (d, name)"
  by (auto simp: bwj_file_def foreign_def prefix_def)

lemma tidy_leaves: "leaves foreign h h' \<Longrightarrow> tidy w h' = tidy w h"
  using bwj_file_foreign unfolding tidy_def leaves_def by (metis (no_types))

end
