(* ===== verification/Conn_Inv.thy ===== *)
theory Conn_Inv
  imports Connection Calm Tidy
begin

text \<open>
  The invariant of a connection: its byte budget, what the journal holds of it, and what the events
  it emitted say. Every step of theory Exchange and every phase of theory Connection keeps it. The
  journal part holds as long as no error was reported to \<open>fail\<close>; the other parts always.
\<close>

section \<open>What the journal holds of a connection\<close>

definition payloads :: "Direction \<Rightarrow> entry list \<Rightarrow> byte list" where
  "payloads d es = concat (map ePayload (filter (\<lambda>e. eType e = RecordData \<and> eDirection e = d) es))"

definition inside :: "ID \<Rightarrow> entry \<Rightarrow> bool" where
  "inside cid e \<longleftrightarrow> eConnection e = cid \<and> eType e \<in> {RecordData, RecordParserError, RecordLimitReached}"

definition holds :: "ID \<Rightarrow> entry list \<Rightarrow> byte list \<Rightarrow> byte list \<Rightarrow> bool" where
  "holds cid es taken sent \<longleftrightarrow> list_all (inside cid) es
     \<and> payloads DirectionInbound es = taken \<and> payloads DirectionOutbound es = sent"

lemma payloads_append [simp]: "payloads d (xs @ ys) = payloads d xs @ payloads d ys"
  by (simp add: payloads_def)

lemma payloads_data:
  "payloads d (data_entries cid rid d' f bs) = (if d = d' then bs else [])"
proof -
  have "filter (\<lambda>e. eType e = RecordData \<and> eDirection e = d) (data_entries cid rid d' f bs)
      = (if d = d' then data_entries cid rid d' f bs else [])"
    by (auto simp: data_entries_def filter_map comp_def)
  moreover have "map ePayload (data_entries cid rid d' f bs) = chunks bs" by (simp add: data_entries_def comp_def)
  ultimately show ?thesis by (auto simp: payloads_def concat_chunks)
qed

lemma holds_empty: "holds cid [] [] []"
  by (simp add: holds_def payloads_def)

lemma inside_data: "list_all (inside cid) (data_entries cid rid d f bs)"
  by (simp add: data_entries_def list_all_iff inside_def)

lemma holds_in: "holds cid es t s \<Longrightarrow> holds cid (es @ data_entries cid rid DirectionInbound f bs) (t @ bs) s"
  by (simp add: holds_def payloads_data inside_data)

lemma holds_out: "holds cid es t s \<Longrightarrow> holds cid (es @ data_entries cid rid DirectionOutbound f bs) t (s @ bs)"
  by (simp add: holds_def payloads_data inside_data)

lemma holds_note: "holds cid es t s \<Longrightarrow> inside cid e \<Longrightarrow> eType e \<noteq> RecordData \<Longrightarrow> holds cid (es @ [e]) t s"
  by (simp add: holds_def payloads_def)

section \<open>What the events say\<close>

definition is_exchange :: "event \<Rightarrow> bool" where
  "is_exchange e \<longleftrightarrow> evEventType e = ''exchange''"

text \<open>The part of a stream an exchange event describes.\<close>

definition slice :: "byte list \<Rightarrow> int \<Rightarrow> int \<Rightarrow> byte list" where
  "slice bs start len = take (nat len) (drop (nat start) bs)"

text \<open>The exchange events cut the received and the sent stream into consecutive pieces, from the given
  offsets on, and give the digest of each piece that was sent.\<close>

fun tiled :: "(byte list \<Rightarrow> byte list) \<Rightarrow> byte list \<Rightarrow> int \<Rightarrow> int \<Rightarrow> event list \<Rightarrow> bool" where
  "tiled sha256 sent a b [] \<longleftrightarrow> True"
| "tiled sha256 sent a b (e # es) \<longleftrightarrow> evRequestStreamStart e = a \<and> 0 \<le> evRequestStreamLength e
     \<and> evResponseStreamStart e = b \<and> 0 \<le> evResponseStreamLength e
     \<and> b + evResponseStreamLength e \<le> int (length sent)
     \<and> evResponseSHA256 e = hex_encode (sha256 (slice sent b (evResponseStreamLength e)))
     \<and> tiled sha256 sent (a + evRequestStreamLength e) (b + evResponseStreamLength e) es"

definition in_total :: "event list \<Rightarrow> int" where "in_total es = sum_list (map evRequestStreamLength es)"
definition out_total :: "event list \<Rightarrow> int" where "out_total es = sum_list (map evResponseStreamLength es)"

lemma tiled_more:
  "tiled sha256 sent a b es \<Longrightarrow> 0 \<le> b \<Longrightarrow> tiled sha256 (sent @ bs) a b es"
proof (induction es arbitrary: a b)
  case (Cons e es)
  then have "nat (evResponseStreamLength e) \<le> length sent - nat b" by (simp add: nat_le_eq_zle) linarith
  then have "slice (sent @ bs) b (evResponseStreamLength e) = slice sent b (evResponseStreamLength e)"
    unfolding slice_def by simp
  with Cons show ?case by simp
qed simp

lemma tiled_snoc:
  "tiled sha256 sent a b (es @ [e]) \<longleftrightarrow> tiled sha256 sent a b es \<and> tiled sha256 sent (a + in_total es) (b + out_total es) [e]"
  by (induction es arbitrary: a b) (auto simp: in_total_def out_total_def add.assoc)

lemma tiled_totals: "tiled sha256 sent a b es \<Longrightarrow> 0 \<le> in_total es \<and> 0 \<le> out_total es
    \<and> (es \<noteq> [] \<longrightarrow> b + out_total es \<le> int (length sent))"
proof (induction es arbitrary: a b)
  case (Cons e es)
  then have "0 \<le> in_total es \<and> 0 \<le> out_total es \<and> (es \<noteq> [] \<longrightarrow> b + evResponseStreamLength e + out_total es \<le> int (length sent))"
    by auto
  then show ?case using Cons.prems by (cases es) (auto simp: in_total_def out_total_def)
qed (simp add: in_total_def out_total_def)

section \<open>The invariant\<close>

text \<open>What is fixed for a connection: its byte limit, its identifier, the configuration, the hash, the
  journal and the events before it, whether the journal is part of the claim, whether the host is one
  on which nothing fails, and whether the directory of the journal is tidy.\<close>

record setting =
  stMax :: int
  stID :: ID
  stCfg :: config
  stSHA :: "byte list \<Rightarrow> byte list"
  stLog :: "entry list"
  stPast :: "event list"
  stWatched :: bool
  stCalm :: bool
  stTidy :: bool

text \<open>What is known at a point of a connection: where the request stream and the sent bytes may be,
  what was sent before the writer of the current exchange was made, and the exchange events so far.\<close>

record point =
  ptPos :: "int set"
  ptOut :: "int set"
  ptPre :: "byte list option"
  ptEvents :: "event list"

abbreviation taken :: "world \<Rightarrow> byte list" where "taken w \<equiv> ncTaken (wConn w)"
abbreviation the_journal :: "world \<Rightarrow> bwj_writer \<times> host" where "the_journal w \<equiv> (rtBwj (wRt w), wHost w)"
text \<open>The journal is being watched, and no error was reported.\<close>

abbreviation sound :: "setting \<Rightarrow> world \<Rightarrow> bool" where "sound K w \<equiv> stWatched K \<and> rtFatal (wRt w) = None"

text \<open>On a calm host no error is reported.\<close>

abbreviation smooth :: "setting \<Rightarrow> world \<Rightarrow> bool" where
  "smooth K w \<equiv> stCalm K \<longrightarrow> stWatched K \<and> calm (wHost w) \<and> rtFatal (wRt w) = None"

definition position :: "world \<Rightarrow> int" where
  "position w = bytesIn (wCounters w) - int (length (wBuf w))"

definition spare :: "setting \<Rightarrow> world \<Rightarrow> int" where
  "spare K w = stMax K - bytesIn (wCounters w) - bytesOut (wCounters w)"

definition counted :: "setting \<Rightarrow> world \<Rightarrow> bool" where
  "counted K w \<longleftrightarrow> 0 \<le> bytesIn (wCounters w) \<and> 0 \<le> spare K w \<and> bytesOut (wCounters w) = int (length (wire w))
     \<and> 0 \<le> position w \<and> bytesIn (wCounters w) \<le> int (length (taken w))"

definition ready :: "setting \<Rightarrow> point \<Rightarrow> world \<Rightarrow> bool" where
  "ready K g w \<longleftrightarrow> rrMaxConnBytes (wReader w) = stMax K \<and> rrConnectionID (wReader w) = stID K
     \<and> rtCfg (wRt w) = stCfg K \<and> jsonl_own (rtJsonl (wRt w))
     \<and> (\<forall>b. ptPre g = Some b \<longrightarrow> wire w = b @ xwHasher (wWriter w) \<and> xwMaxConnBytes (wWriter w) = stMax K
          \<and> xwConnectionID (wWriter w) = stID K \<and> length (xwRequestID (wWriter w)) = 16)"

text \<open>An exchange event names its connection, and its request was received whole.\<close>

definition own_event :: "setting \<Rightarrow> event \<Rightarrow> bool" where
  "own_event K e \<longleftrightarrow> evConnectionID e = FormatID (stID K) \<and> evRequestComplete e"

definition evented :: "setting \<Rightarrow> point \<Rightarrow> world \<Rightarrow> bool" where
  "evented K g w \<longleftrightarrow> (\<exists>new. rtEvents (wRt w) = stPast K @ new \<and> filter is_exchange new = ptEvents g)
     \<and> tiled (stSHA K) (wire w) 0 0 (ptEvents g) \<and> in_total (ptEvents g) \<le> position w
     \<and> list_all (own_event K) (ptEvents g)"

text \<open>A live journal, in a tidy directory where the setting says so.\<close>

definition kept :: "setting \<Rightarrow> nat \<Rightarrow> bwj_writer \<times> host \<Rightarrow> bool" where
  "kept K n s \<longleftrightarrow> bwj_live n s \<and> (stTidy K \<longrightarrow> tidy (fst s) (snd s))"

definition journalled :: "setting \<Rightarrow> nat \<Rightarrow> world \<Rightarrow> bool" where
  "journalled K c w \<longleftrightarrow> bytesIn (wCounters w) = int (length (taken w))
     \<and> kept K (nat (spare K w) + c) (the_journal w)
     \<and> (\<exists>es. journal_log (the_journal w) = stLog K @ es \<and> holds (stID K) es (taken w) (wire w))"

definition conn_inv :: "setting \<Rightarrow> nat \<Rightarrow> point \<Rightarrow> world \<Rightarrow> bool" where
  "conn_inv K c g w \<longleftrightarrow> length (stID K) = 16 \<and> counted K w \<and> ready K g w \<and> evented K g w
     \<and> position w \<in> ptPos g \<and> bytesOut (wCounters w) \<in> ptOut g \<and> (sound K w \<longrightarrow> journalled K c w) \<and> smooth K w"

subsection \<open>What the invariant looks at\<close>

definition view :: "world \<Rightarrow> counters \<times> byte list \<times> byte list \<times> nat \<times> exchange_writer \<times> int \<times> ID
    \<times> server_runtime \<times> (path \<times> byte list) list \<times> bool" where
  "view w = (wCounters w, taken w, wire w, length (wBuf w), wWriter w, rrMaxConnBytes (wReader w),
     rrConnectionID (wReader w), wRt w, files (wHost w), calm (wHost w))"

lemma bwj_live_files: "files h' = files h \<Longrightarrow> bwj_live n (b, h') = bwj_live n (b, h)"
  by (simp add: bwj_live_def journal_inv_clock [of h' h])

lemma kept_files: "files h' = files h \<Longrightarrow> kept K n (b, h') = kept K n (b, h)"
  using bwj_live_files [of h' h] tidy_files [of h' h] by (simp add: kept_def)

lemma kept_less: "kept K (a + n) s \<Longrightarrow> kept K n s"
  by (auto simp: kept_def bwj_live_def room_def)

lemma kept_put:
  assumes "kept K (Suc n) s" "good_entry e" "put_entry e s = (None, s')"
  shows "kept K n s' \<and> journal_log s' = journal_log s @ [e]"
proof -
  have live: "bwj_live (Suc n) s" using assms(1) by (simp add: kept_def)
  have "onward s s'" using put_entry_onward [OF _ assms(2)] live assms(3) by (cases s; cases s') simp
  then have "tidy (fst s) (snd s) \<Longrightarrow> tidy (fst s') (snd s')" by (cases s; cases s') (simp add: onward_tidy)
  then show ?thesis using bwj.put_ok [OF live assms(2,3)] assms(1) by (simp add: kept_def)
qed

lemma journal_log_files': "files h' = files h \<Longrightarrow> journal_log (b, h') = journal_log (b, h)"
  by (simp add: journal_log_def file_log_def same_files [of h' h])

lemma conn_inv_view: "view w' = view w \<Longrightarrow> conn_inv K c g w' = conn_inv K c g w"
proof -
  assume "view w' = view w"
  then have eqs: "wCounters w' = wCounters w" "taken w' = taken w" "wire w' = wire w" "length (wBuf w') = length (wBuf w)"
    "wWriter w' = wWriter w" "rrMaxConnBytes (wReader w') = rrMaxConnBytes (wReader w)"
    "rrConnectionID (wReader w') = rrConnectionID (wReader w)" "wRt w' = wRt w" "files (wHost w') = files (wHost w)"
    "calm (wHost w') = calm (wHost w)"
    by (simp_all add: view_def)
  have "position w' = position w" "spare K w' = spare K w" using eqs by (simp_all add: position_def spare_def)
  then show ?thesis
    using kept_files [OF eqs(9)] journal_log_files' [OF eqs(9)]
    by (simp add: conn_inv_def counted_def ready_def evented_def journalled_def eqs(1-8,10))
qed

text \<open>Steps that only look at the clock or set deadlines; generating an identifier.\<close>

lemma rand_files: "rand_read n h = (r, h') \<Longrightarrow> files h' = files h"
  using rand_read_frame [of n h] by simp

lemma view_quiet [frame_intros]:
  "frame view time_now" "frame view (on_conn (set_deadline t))" "frame view (on_conn (select_wait d))"
  by (auto simp: frame_def view_def on_host_def on_conn_def set_deadline_def select_wait_def Let_def calm_now
      split: prod.splits sum.splits dest: host_files)

lemma conn_inv_quiet: "frame view m \<Longrightarrow> run_state m w = (x, w') \<Longrightarrow> conn_inv K c g w' = conn_inv K c g w"
  by (rule conn_inv_view) (rule frameD)

lemma conn_inv_NewID:
  assumes inv: "conn_inv K c g w" and op: "run_state (on_host NewID) w = (i, w')"
  shows "conn_inv K c g w' \<and> (stCalm K \<longrightarrow> (\<exists>rid. i = Inr rid))"
proof -
  obtain h where n: "NewID (wHost w) = (i, h)" "w' = w\<lparr>wHost := h\<rparr>" using op by (auto simp: on_host_def split: prod.splits)
  have f: "files h = files (wHost w)" using n by (auto simp: NewID_def Let_def split: prod.splits sum.splits dest: rand_files)
  have "calm (wHost w) \<Longrightarrow> calm h \<and> (\<exists>rid. i = Inr rid)" by (rule calm_NewID [OF _ n(1)])
  then show ?thesis using inv kept_files [OF f] journal_log_files' [OF f]
    by (auto simp: n(2) conn_inv_def counted_def ready_def evented_def journalled_def position_def spare_def)
qed

lemma conn_inv_weaken:
  assumes "conn_inv K c g w" "c' \<le> c" "ptPos g \<subseteq> ptPos g'" "ptOut g \<subseteq> ptOut g'" "ptPre g' \<in> {None, ptPre g}"
    "ptEvents g' = ptEvents g"
  shows "conn_inv K c' g' w"
proof -
  have "kept K (nat (spare K w) + c) (the_journal w) \<Longrightarrow> kept K (nat (spare K w) + c') (the_journal w)"
    using assms(2) by (auto simp: kept_def bwj_live_def room_def)
  moreover have "ready K g w \<Longrightarrow> ready K g' w" using assms(5) by (cases "ptPre g'") (simp_all add: ready_def)
  ultimately show ?thesis using assms(1,3,4,6) by (simp add: conn_inv_def evented_def journalled_def) blast
qed


section \<open>Events\<close>

lemma bwj_path_foreign: "foreign (bwj_path b i)"
  by (simp add: foreign_def bwj_path_def bwj_name_def prefix_def)

lemma bwj_leaves:
  assumes "leaves foreign h h'"
  shows "kept K n (b, h') = kept K n (b, h)" "journal_log (b, h') = journal_log (b, h)"
    "bwj_live n (b, h') = bwj_live n (b, h)"
proof -
  have q: "content (bwj_path b i) h' = content (bwj_path b i) h" "exists_file (bwj_path b i) h' = exists_file (bwj_path b i) h" for i
    using assms bwj_path_foreign [of b i] unfolding leaves_def by blast+
  then show live: "bwj_live n (b, h') = bwj_live n (b, h)"
    by (simp add: bwj_live_def journal_inv_def journal_files_def)
  show "kept K n (b, h') = kept K n (b, h)" using tidy_leaves [OF assms] by (simp add: kept_def live)
  show "journal_log (b, h') = journal_log (b, h)" using q by (simp add: journal_log_def file_log_def)
qed

lemma decorateEvent_world:
  assumes "run_state (decorateEvent e) w = (e', w')"
  shows "\<exists>h. w' = w\<lparr>wHost := h\<rparr> \<and> files h = files (wHost w) \<and> calm h = calm (wHost w)"
proof (cases "evTimestampNS e = 0")
  case True
  then show ?thesis using assms by (auto simp: decorateEvent_def on_host_def calm_now split: prod.splits dest: host_files)
next
  case False
  then show ?thesis using assms by (intro exI [of _ "wHost w"]) (auto simp: decorateEvent_def)
qed

lemma rt_emit_effect:
  assumes own: "jsonl_own (rtJsonl (wRt w))" and op: "run_state (rt_emit e) w = (u, w')"
  shows "\<exists>j ok h. w' = w\<lparr>wRt := (wRt w)\<lparr>rtEvents := rtEvents (wRt w) @ [e], rtJsonl := j, rtHealthy := ok\<rparr>, wHost := h\<rparr>
    \<and> leaves foreign (wHost w) h \<and> jsonl_own j \<and> (calm (wHost w) \<longrightarrow> calm h)"
proof -
  define w1 where "w1 = w\<lparr>wRt := (wRt w)\<lparr>rtEvents := rtEvents (wRt w) @ [e]\<rparr>\<rparr>"
  show ?thesis
  proof (cases "rtHealthy (wRt w)")
    case False
    then have "w' = w1" using op by (simp add: rt_emit_def w1_def)
    then show ?thesis using own False
      by (intro exI [of _ "rtJsonl (wRt w)"] exI [of _ False] exI [of _ "wHost w"]) (simp add: w1_def)
  next
    case True
    obtain e1 w2 where d: "run_state (decorateEvent e) w1 = (e1, w2)" by (metis surj_pair)
    obtain h2 where w2: "w2 = w1\<lparr>wHost := h2\<rparr>" "files h2 = files (wHost w)" "calm h2 = calm (wHost w)"
      using decorateEvent_world [OF d] by (auto simp: w1_def)
    obtain err j h3 where we: "WriteEvent e1 (rtJsonl (wRt w)) h2 = (err, j, h3)" by (metis surj_pair)
    note l = WriteEvent_leaves [OF own we]
    have c: "calm (wHost w) \<longrightarrow> calm h3" using WriteEvent_calm [OF _ we] w2(3) by blast
    have "leaves foreign (wHost w) h3" using leaves_trans [OF leaves_files [OF w2(2)]] l by blast
    moreover have "w' = w\<lparr>wRt := (wRt w)\<lparr>rtEvents := rtEvents (wRt w) @ [e], rtJsonl := j, rtHealthy := (err = None)\<rparr>, wHost := h3\<rparr>"
      using op True d we unfolding rt_emit_def jsonl_op_def w2(1)
      by (cases err) (auto simp: w1_def split: prod.splits)
    ultimately show ?thesis using l c by blast
  qed
qed

text \<open>The invariant after an event that is given as the last exchange event, or is not one.\<close>

lemma conn_inv_emitted:
  assumes inv: "conn_inv K c g w" and op: "run_state (rt_emit e) w = (u, w')"
  shows "\<not> is_exchange e \<Longrightarrow> conn_inv K c g w'"
    and "is_exchange e \<Longrightarrow> tiled (stSHA K) (wire w) (in_total (ptEvents g)) (out_total (ptEvents g)) [e]
      \<Longrightarrow> in_total (ptEvents g) + evRequestStreamLength e \<le> position w
      \<Longrightarrow> own_event K e \<Longrightarrow> conn_inv K c (g\<lparr>ptEvents := ptEvents g @ [e]\<rparr>) w'"
proof -
  have own: "jsonl_own (rtJsonl (wRt w))" using inv by (simp add: conn_inv_def ready_def)
  obtain j ok h where w': "w' = w\<lparr>wRt := (wRt w)\<lparr>rtEvents := rtEvents (wRt w) @ [e], rtJsonl := j, rtHealthy := ok\<rparr>, wHost := h\<rparr>"
    "leaves foreign (wHost w) h" "jsonl_own j" "calm (wHost w) \<longrightarrow> calm h" using rt_emit_effect [OF own op] by blast
  have same: "position w' = position w" "spare K w' = spare K w" by (simp_all add: w'(1) position_def spare_def)
  have journal: "kept K n (the_journal w') = kept K n (the_journal w)" "journal_log (the_journal w') = journal_log (the_journal w)" for n
    using bwj_leaves [OF w'(2)] by (simp_all add: w'(1))
  have parts: "counted K w'" "ready K g' w'" "sound K w' \<longrightarrow> journalled K c w'" "smooth K w'" if "ptPre g' = ptPre g" for g'
    using inv journal w'(3,4) same that by (simp_all add: conn_inv_def counted_def ready_def journalled_def) (simp_all add: w'(1))
  obtain new where new: "rtEvents (wRt w) = stPast K @ new" "filter is_exchange new = ptEvents g"
    "tiled (stSHA K) (wire w) 0 0 (ptEvents g)" "in_total (ptEvents g) \<le> position w"
    "list_all (own_event K) (ptEvents g)"
    using inv by (auto simp: conn_inv_def evented_def)
  have wires: "wire w' = wire w" "rtEvents (wRt w') = stPast K @ (new @ [e])" "bytesOut (wCounters w') = bytesOut (wCounters w)"
    by (simp_all add: w'(1) new(1))
  show "conn_inv K c g w'" if "\<not> is_exchange e"
  proof -
    have "evented K g w'" unfolding evented_def wires same using new that by auto
    then show ?thesis using inv parts [of g] same wires by (simp add: conn_inv_def)
  qed
  show "conn_inv K c (g\<lparr>ptEvents := ptEvents g @ [e]\<rparr>) w'"
    if "is_exchange e" "tiled (stSHA K) (wire w) (in_total (ptEvents g)) (out_total (ptEvents g)) [e]"
      "in_total (ptEvents g) + evRequestStreamLength e \<le> position w" "own_event K e"
  proof -
    have "evented K (g\<lparr>ptEvents := ptEvents g @ [e]\<rparr>) w'" unfolding evented_def wires same using new that
      by (auto simp: tiled_snoc in_total_def)
    then show ?thesis using inv parts [of "g\<lparr>ptEvents := ptEvents g @ [e]\<rparr>"] same wires by (simp add: conn_inv_def)
  qed
qed

section \<open>Entries other than DATA\<close>

definition noting :: "ID \<Rightarrow> (bwj_writer \<Rightarrow> host \<Rightarrow> bwj_result) \<Rightarrow> entry \<Rightarrow> bool" where
  "noting cid f e \<longleftrightarrow> (\<forall>b h. f b h = put_entry e (b, h)) \<and> inside cid e \<and> eType e \<noteq> RecordData \<and> good_entry e \<and> acceptable e"

lemma noting_limit: "length cid = 16 \<Longrightarrow> \<exists>e. noting cid (WriteLimit cid code n) e"
  by (intro exI [of _ "Entry RecordLimitReached DirectionNA FlagLimit cid zero_id (put16 (limit_code code) @ put64 n)"])
     (simp add: noting_def WriteLimit_def put_entry_def inside_def good_entry_def acceptable_def validatePayload_def)

lemma noting_parser: "length cid = 16 \<Longrightarrow> \<exists>e. noting cid (WriteParserError cid code n) e"
  by (intro exI [of _ "Entry RecordParserError DirectionNA 0 cid zero_id (put16 (parser_code code) @ put64 n)"])
     (simp add: noting_def WriteParserError_def put_entry_def inside_def good_entry_def acceptable_def validatePayload_def)

lemma bwj_op_world:
  "run_state (bwj_op f) w = (err, w') \<Longrightarrow>
    \<exists>b h. f (rtBwj (wRt w)) (wHost w) = (err, b, h) \<and> w' = w\<lparr>wRt := (wRt w)\<lparr>rtBwj := b\<rparr>, wHost := h\<rparr>"
  by (auto simp: bwj_op_def split: prod.splits)

lemma rt_fail_world: "run_state (rt_fail e) w = (u, w') \<Longrightarrow>
    \<exists>x. rtFatal (wRt w') = Some x \<and> w' = w\<lparr>wRt := (wRt w)\<lparr>rtFatal := Some x\<rparr>\<rparr>"
proof -
  assume op: "run_state (rt_fail e) w = (u, w')"
  show ?thesis
  proof (cases "rtFatal (wRt w)")
    case None
    then show ?thesis using op by (auto simp: rt_fail_def)
  next
    case (Some x)
    then have "w' = w" "w = w\<lparr>wRt := (wRt w)\<lparr>rtFatal := Some x\<rparr>\<rparr>" using op by (auto simp: rt_fail_def)
    then show ?thesis using Some by metis
  qed
qed

text \<open>Once a failure was reported, only the parts without the journal remain.\<close>

lemma conn_inv_fatal:
  assumes "conn_inv K c g w" "w' = w\<lparr>wRt := (wRt w)\<lparr>rtBwj := b, rtFatal := Some x\<rparr>, wHost := h\<rparr>" "\<not> stCalm K"
  shows "conn_inv K c' g w'"
  using assms by (auto simp: conn_inv_def counted_def ready_def evented_def position_def spare_def)

lemma conn_inv_journal:
  assumes inv: "conn_inv K c g w" and w': "w' = w\<lparr>wRt := (wRt w)\<lparr>rtBwj := b\<rparr>, wHost := h\<rparr>"
    and j: "sound K w \<Longrightarrow> journalled K c w \<Longrightarrow> journalled K c' w'" and h: "smooth K w \<Longrightarrow> smooth K w'"
  shows "conn_inv K c' g w'"
  using inv j h unfolding w' by (auto simp: conn_inv_def counted_def ready_def evented_def position_def spare_def)

lemma note_journalled:
  assumes n: "noting (stID K) f e" and op: "run_state (bwj_op f) w = (None, w')" and J0: "journalled K (Suc c) w"
  shows "journalled K c w'"
proof -
  obtain b h where f: "f (rtBwj (wRt w)) (wHost w) = (None, b, h)" "w' = w\<lparr>wRt := (wRt w)\<lparr>rtBwj := b\<rparr>, wHost := h\<rparr>"
    using bwj_op_world [OF op] by blast
  have put: "put_entry e (the_journal w) = (None, the_journal w')" using n f by (simp add: noting_def)
  obtain es where J: "bytesIn (wCounters w) = int (length (taken w))" "kept K (Suc (nat (spare K w) + c)) (the_journal w)"
    "journal_log (the_journal w) = stLog K @ es" "holds (stID K) es (taken w) (wire w)" using J0 by (auto simp: journalled_def)
  have "kept K (nat (spare K w) + c) (the_journal w') \<and> journal_log (the_journal w') = journal_log (the_journal w) @ [e]"
    using kept_put [OF J(2) _ put] n by (simp add: noting_def)
  moreover have "holds (stID K) (es @ [e]) (taken w) (wire w)" using holds_note [OF J(4)] n by (simp add: noting_def)
  ultimately show ?thesis using J(1,3) by (auto simp: journalled_def f(2) spare_def)
qed

text \<open>On a calm host a note is acknowledged.\<close>

lemma note_calm:
  assumes n: "noting (stID K) f e" and op: "run_state (bwj_op f) w = (err, w')" and J: "journalled K (Suc c) w" and h: "calm (wHost w)"
  shows "err = None \<and> calm (wHost w')"
proof -
  obtain b h' where f: "f (rtBwj (wRt w)) (wHost w) = (err, b, h')" "w' = w\<lparr>wRt := (wRt w)\<lparr>rtBwj := b\<rparr>, wHost := h'\<rparr>"
    using bwj_op_world [OF op] by blast
  have "put_entry e (rtBwj (wRt w), wHost w) = (err, b, h')" using n f by (simp add: noting_def)
  moreover have "bwj_live (Suc (nat (spare K w) + c)) (rtBwj (wRt w), wHost w)" "acceptable e"
    using J n by (auto simp: journalled_def kept_def noting_def)
  ultimately show ?thesis using put_entry_calm [OF h] f(2) by auto
qed

lemma conn_inv_note:
  assumes inv: "conn_inv K (Suc c) g w" and n: "noting (stID K) f e" and op: "run_state (journal_write f) w = (u, w')"
  shows "conn_inv K c g w'"
proof -
  obtain err w1 where r: "run_state (bwj_op f) w = (err, w1)" by (metis surj_pair)
  obtain b h where f: "f (rtBwj (wRt w)) (wHost w) = (err, b, h)" "w1 = w\<lparr>wRt := (wRt w)\<lparr>rtBwj := b\<rparr>, wHost := h\<rparr>"
    using bwj_op_world [OF r] by blast
  show ?thesis
  proof (cases err)
    case (Some x)
    then have "run_state (rt_fail x) w1 = (u, w')" using op r by (simp add: journal_write_def fail_if_def)
    then obtain y where "w' = w1\<lparr>wRt := (wRt w1)\<lparr>rtFatal := Some y\<rparr>\<rparr>" using rt_fail_world by blast
    moreover have "\<not> stCalm K" using inv note_calm [OF n r] Some by (auto simp: conn_inv_def)
    ultimately show ?thesis by (intro conn_inv_fatal [OF inv, where b = b and x = y and h = h]) (simp_all add: f(2))
  next
    case None
    then have w': "w' = w1" using op r by (simp add: journal_write_def fail_if_def)
    show ?thesis unfolding w'
    proof (rule conn_inv_journal [OF inv f(2)])
      show "journalled K (Suc c) w \<Longrightarrow> journalled K c w1" by (rule note_journalled [OF n r [unfolded None]])
      have "stCalm K \<Longrightarrow> journalled K (Suc c) w" using inv by (auto simp: conn_inv_def)
      then show "smooth K w \<Longrightarrow> smooth K w1" using note_calm [OF n r] by (auto simp: f(2))
    qed
  qed
qed


section \<open>Reading\<close>

lemma length_chunks: "length (chunks bs) \<le> length bs"
proof -
  have "\<forall>c \<in> set cs. c \<noteq> [] \<Longrightarrow> length cs \<le> length (concat cs)" for cs :: "byte list list"
  proof (induction cs)
    case (Cons c cs)
    then have "length cs \<le> length (concat cs)" "1 \<le> length c" by (auto simp: Suc_le_eq)
    then show ?case by (simp del: length_concat One_nat_def)
  qed simp
  then have "length (chunks bs) \<le> length (concat (chunks bs))" using chunk_sizes by blast
  then show ?thesis by (simp add: concat_chunks)
qed

lemma data_journalled:
  assumes kept: "kept K (length bs + n) (the_journal w)" and ids: "length cid = 16" "length rid = 16"
    and op: "run_state (bwj_op (WriteData cid rid d f bs)) w = (None, w')"
  shows "kept K n (the_journal w') \<and> journal_log (the_journal w') = journal_log (the_journal w) @ data_entries cid rid d f bs"
proof -
  obtain b h where w': "WriteData cid rid d f bs (rtBwj (wRt w)) (wHost w) = (None, b, h)" "the_journal w' = (b, h)"
    using bwj_op_world [OF op] by auto
  have live: "bwj_live (length (chunks bs) + n) (the_journal w)" using kept length_chunks [of bs] by (auto simp: kept_def bwj_live_def room_def)
  have "tidy (rtBwj (wRt w)) (wHost w) \<Longrightarrow> tidy b h" by (rule onward_tidy [OF WriteData_onward [OF live ids w'(1)]])
  with WriteData_log [OF live ids w'(1)] kept show ?thesis by (simp add: w'(2) data_entries_def kept_def)
qed

lemma data_calm:
  assumes h: "calm (wHost w)" and live: "bwj_live (length bs + n) (the_journal w)" and ids: "length cid = 16" "length rid = 16"
    and d: "d = DirectionInbound \<or> d = DirectionOutbound" and f: "f AND 0xf0 = 0"
    and op: "run_state (bwj_op (WriteData cid rid d f bs)) w = (err, w')"
  shows "err = None \<and> calm (wHost w')"
proof -
  obtain b h' where w': "WriteData cid rid d f bs (rtBwj (wRt w)) (wHost w) = (err, b, h')" "wHost w' = h'"
    using bwj_op_world [OF op] by auto
  have "bwj_live (length (chunks bs) + n) (the_journal w)" using live length_chunks [of bs] by (auto simp: bwj_live_def room_def)
  from WriteData_calm [OF h this ids d f w'(1)] w'(2) show ?thesis by simp
qed

lemma data_flags [simp]:
  "(if b then FlagParserFailed else 0) AND 0xf0 = 0" "(if b then FlagStreaming else 0) AND 0xf0 = 0"
  by simp_all

text \<open>Bytes within the budget of a connection are recorded on a calm host.\<close>

lemma record_calm:
  assumes inv: "conn_inv K c g w" and K: "stCalm K" and v: "wRt w2 = wRt w" "files (wHost w2) = files (wHost w)" "calm (wHost w2) = calm (wHost w)"
    and fit: "int (length bs) \<le> spare K w" and rid: "length rid = 16" and d: "d = DirectionInbound \<or> d = DirectionOutbound"
    and f: "f AND 0xf0 = 0" and op: "run_state (bwj_op (WriteData (stID K) rid d f bs)) w2 = (err, w3)"
  shows "err = None \<and> calm (wHost w3)"
proof -
  have J: "bwj_live (nat (spare K w) + c) (the_journal w)" "calm (wHost w)" "length (stID K) = 16"
    using inv K by (auto simp: conn_inv_def journalled_def kept_def)
  have "nat (spare K w) + c = length bs + (nat (spare K w) - length bs + c)" using fit by linarith
  then have "bwj_live (length bs + (nat (spare K w) - length bs + c)) (the_journal w2)"
    using J(1) bwj_live_files [OF v(2)] v(1) by (simp only:)
  from data_calm [OF _ this J(3) rid d f op] J(2) v(3) show ?thesis by simp
qed

lemma conn_Read_world:
  assumes "run_state (on_conn (conn_Read k)) w = ((bs, e), w')"
  shows "\<exists>c. w' = w\<lparr>wConn := c\<rparr> \<and> ncTaken c = taken w @ bs \<and> ncSent c = wire w \<and> length bs \<le> k"
  using assms by (auto simp: on_conn_def conn_Read_def Let_def split: prod.splits)

text \<open>The state after \<open>n\<close> bytes were counted, of what was taken from the connection.\<close>

lemma conn_inv_in:
  assumes inv: "conn_inv K c g w"
    and same: "wire w' = wire w" "bytesOut (wCounters w') = bytesOut (wCounters w)" "wWriter w' = wWriter w"
      "rrMaxConnBytes (wReader w') = rrMaxConnBytes (wReader w)" "rrConnectionID (wReader w') = rrConnectionID (wReader w)"
      "length (wBuf w') = length (wBuf w)" "wRt w' = (wRt w)\<lparr>rtBwj := b, rtFatal := f\<rparr>"
    and n: "bytesIn (wCounters w') = bytesIn (wCounters w) + int n" "int n \<le> spare K w" "taken w' = taken w @ bs" "n \<le> length bs"
    and pos: "position w + int n \<in> P" and j: "sound K w' \<Longrightarrow> journalled K c w'" and calm: "smooth K w'"
  shows "conn_inv K c (g\<lparr>ptPos := P\<rparr>) w'"
proof -
  have p: "position w' = position w + int n" "spare K w' = spare K w - int n" using same n by (simp_all add: position_def spare_def)
  have "counted K w'" using inv n same p by (auto simp: conn_inv_def counted_def)
  moreover have "ready K (g\<lparr>ptPos := P\<rparr>) w'" using inv same by (simp add: conn_inv_def ready_def)
  moreover have "evented K (g\<lparr>ptPos := P\<rparr>) w'" using inv same p by (auto simp: conn_inv_def evented_def)
  ultimately show ?thesis using inv same p pos j calm by (simp add: conn_inv_def)
qed

lemma header_started_reader: "frame (\<lambda>w. rrConnectionID (wReader w)) header_started" "frame (\<lambda>w. rrMaxConnBytes (wReader w)) header_started"
    "frame (\<lambda>w. rrParserFailed (wReader w)) header_started"
  unfolding header_started_def set_reader_def set_read_deadline_def by (intro frame_intros; simp)+

lemma view_header_started: "frame view header_started"
  unfolding header_started_def set_reader_def set_read_deadline_def
  by (intro frame_intros) (simp_all add: view_def)

lemma rr_Read_inv:
  assumes inv: "conn_inv K c g w" and op: "run_state (rr_Read len) w = ((bs, e), w')"
  shows "conn_inv K c (g\<lparr>ptPos := {p. p - int (length bs) \<in> ptPos g}\<rparr>) w' \<and> length (wBuf w') = length (wBuf w)"
proof -
  let ?g = "g\<lparr>ptPos := {p. p - int (length bs) \<in> ptPos g}\<rparr>"
  have K: "rrMaxConnBytes (wReader w) = stMax K" "rrConnectionID (wReader w) = stID K" "length (stID K) = 16"
    and pos: "position w \<in> ptPos g" using inv by (simp_all add: conn_inv_def ready_def)
  have spare0: "0 \<le> spare K w" using inv by (simp add: conn_inv_def counted_def)
  show ?thesis using op
  proof (cases rule: rr_Read_cases)
    case refused
    then show ?thesis using inv by simp
  next
    case (read limit w1 cs err)
    then obtain cn where "w' = w\<lparr>wConn := cn\<rparr>" "ncTaken cn = taken w" "ncSent cn = wire w"
      using conn_Read_world [OF read(2)] by auto
    then have "view w' = view w" by (simp add: view_def)
    then show ?thesis using inv conn_inv_view [of w' w] read(4) by (auto simp: view_def)
  next
    case (failed limit w1 cs err w2 e1 w3)
    obtain cn where w1: "w1 = w\<lparr>wConn := cn\<rparr>" "ncTaken cn = taken w @ cs" "ncSent cn = wire w"
      using conn_Read_world [OF failed(2)] by auto
    have w2: "view w2 = view w1" by (rule frameD [OF view_header_started failed(4)])
    obtain b h where w3: "w3 = w2\<lparr>wRt := (wRt w2)\<lparr>rtBwj := b\<rparr>, wHost := h\<rparr>"
      using bwj_op_world failed(5) unfolding record_in_def by fastforce
    obtain x where w': "w' = w3\<lparr>wRt := (wRt w3)\<lparr>rtFatal := Some x\<rparr>\<rparr>" using rt_fail_world failed(8) by blast
    have rd: "rrConnectionID (wReader w2) = stID K" using frameD [OF header_started_reader(1) failed(4)] K by (simp add: w1)
    have "length cs \<le> nat limit" using failed(2) by (auto simp: on_conn_def dest: conn_Read_length split: prod.splits)
    then have "int (length cs) \<le> spare K w" using read_limit_le [OF failed(1)] K unfolding in_room_def spare_def by linarith
    then have quiet: "\<not> stCalm K" using record_calm [OF inv, of w2 cs zero_id DirectionInbound
        "if rrParserFailed (wReader w2) then FlagParserFailed else 0" "Some e1" w3] w2 failed(5) rd
      by (auto simp: record_in_def view_def w1)
    have "conn_inv K c (g\<lparr>ptPos := ptPos g\<rparr>) w'"
      by (rule conn_inv_in [OF inv, where n = 0 and bs = cs and b = b and f = "Some x"])
         (use w2 spare0 pos quiet in \<open>simp_all add: w' w3 view_def w1\<close>)
    moreover have "length (wBuf w') = length (wBuf w)" using w2 by (simp add: w' w3 view_def w1)
    ultimately show ?thesis using failed(6) by simp
  next
    case (ok limit w1 err w2 w3)
    obtain cn where w1: "w1 = w\<lparr>wConn := cn\<rparr>" "ncTaken cn = taken w @ bs" "ncSent cn = wire w" "length bs \<le> nat limit"
      using conn_Read_world [OF ok(2)] by auto
    have w2: "view w2 = view w1" by (rule frameD [OF view_header_started ok(4)])
    have rd: "rrConnectionID (wReader w2) = stID K" using frameD [OF header_started_reader(1) ok(4)] K by (simp add: w1)
    let ?fl = "if rrParserFailed (wReader w2) then FlagParserFailed else 0"
    have wr: "run_state (bwj_op (WriteData (stID K) zero_id DirectionInbound ?fl bs)) w2 = (None, w3)"
      using ok(5) rd by (simp add: record_in_def)
    obtain b h where w3: "w3 = w2\<lparr>wRt := (wRt w2)\<lparr>rtBwj := b\<rparr>, wHost := h\<rparr>" using bwj_op_world [OF wr] by blast
    have w': "wCounters w' = (wCounters w3)\<lparr>bytesIn := bytesIn (wCounters w3) + int (length bs)\<rparr>" "wConn w' = wConn w3"
      "wWriter w' = wWriter w3" "wRt w' = wRt w3" "wHost w' = wHost w3" "wBuf w' = wBuf w3"
      "rrMaxConnBytes (wReader w') = rrMaxConnBytes (wReader w3)" "rrConnectionID (wReader w') = rrConnectionID (wReader w3)"
      using ok(7) by (auto simp: count_in_def addIn_def set_reader_def)
    have fit: "int (length bs) \<le> spare K w" using read_limit_le [OF ok(1)] w1(4) K
      unfolding in_room_def spare_def by linarith
    have buf: "length (wBuf w') = length (wBuf w)" using w2 by (simp add: w' w3 view_def w1)
    have "conn_inv K c ?g w'"
    proof (rule conn_inv_in [OF inv, where n = "length bs" and bs = bs and b = b and f = "rtFatal (wRt w)"])
      assume "sound K w'"
      then have "sound K w" using w2 by (simp add: w' w3 view_def w1)
      then obtain es where J: "bytesIn (wCounters w) = int (length (taken w))" "kept K (nat (spare K w) + c) (the_journal w)"
          "journal_log (the_journal w) = stLog K @ es" "holds (stID K) es (taken w) (wire w)"
        using inv by (auto simp: conn_inv_def journalled_def)
      have f2: "files (wHost w2) = files (wHost w)" "rtBwj (wRt w2) = rtBwj (wRt w)" using w2 by (simp_all add: view_def w1)
      have "nat (spare K w) + c = length bs + (nat (spare K w') + c)" using fit w2 by (simp add: spare_def w' w3 view_def w1)
      then have "kept K (length bs + (nat (spare K w') + c)) (the_journal w2)"
        using J(2) kept_files [OF f2(1)] f2(2) by (simp only:)
      from data_journalled [OF this K(3) _ wr]
      have "kept K (nat (spare K w') + c) (the_journal w')"
          "journal_log (the_journal w') = stLog K @ es @ data_entries (stID K) zero_id DirectionInbound ?fl bs"
        using J(3) journal_log_files' [OF f2(1)] f2(2) by (simp_all add: w')
      moreover have "taken w' = taken w @ bs" "wire w' = wire w" "bytesIn (wCounters w') = int (length (taken w'))"
        using w2 J(1) by (simp_all add: w' w3 view_def w1)
      ultimately show "journalled K c w'" using holds_in [OF J(4)] by (auto simp: journalled_def)
    next
      have "stCalm K \<Longrightarrow> calm (wHost w3)" using record_calm [OF inv, of w2 bs zero_id DirectionInbound ?fl None w3] w2 fit wr
        by (simp add: view_def w1)
      then show "smooth K w'" using inv w2 by (auto simp: conn_inv_def w' w3 view_def w1)
    qed (use w2 fit pos in \<open>simp_all add: w' w3 view_def w1\<close>)
    then show ?thesis using buf by simp
  qed
qed


section \<open>Writing\<close>

text \<open>The state after \<open>bs\<close> was sent and counted.\<close>

lemma conn_inv_out:
  assumes inv: "conn_inv K c g w" and pre: "ptPre g = Some pre"
    and same: "taken w' = taken w" "bytesIn (wCounters w') = bytesIn (wCounters w)"
      "wWriter w' = (wWriter w)\<lparr>xwHasher := xwHasher (wWriter w) @ bs\<rparr>"
      "rrMaxConnBytes (wReader w') = rrMaxConnBytes (wReader w)" "rrConnectionID (wReader w') = rrConnectionID (wReader w)"
      "length (wBuf w') = length (wBuf w)" "wRt w' = (wRt w)\<lparr>rtBwj := b, rtFatal := f\<rparr>"
    and n: "bytesOut (wCounters w') = bytesOut (wCounters w) + int (length bs)" "int (length bs) \<le> spare K w"
      "wire w' = wire w @ bs"
    and pos: "bytesOut (wCounters w) + int (length bs) \<in> ptOut g" and j: "sound K w' \<Longrightarrow> journalled K c w'"
      and calm: "smooth K w'"
  shows "conn_inv K c g w'"
proof -
  have p: "position w' = position w" "spare K w' = spare K w - int (length bs)" using same n by (simp_all add: position_def spare_def)
  have "counted K w'" using inv n same p by (auto simp: conn_inv_def counted_def)
  moreover have "ready K g w'" using inv same n pre by (simp add: conn_inv_def ready_def)
  moreover have "evented K g w'" using inv same p n tiled_more [of "stSHA K" "wire w"] by (auto simp: conn_inv_def evented_def)
  ultimately show ?thesis using inv same p pos j n calm by (simp add: conn_inv_def)
qed

lemma conn_Write_world:
  assumes "run_state (on_conn (conn_Write p)) w = ((n, e), w')"
  shows "\<exists>c. w' = w\<lparr>wConn := c\<rparr> \<and> ncTaken c = taken w \<and> ncSent c = wire w @ take n p \<and> n \<le> length p"
  using assms by (auto simp: on_conn_def conn_Write_def Let_def split: prod.splits)

lemma view_before_write: "frame view (before_write x)"
  unfolding before_write_def by (intro frame_intros)

definition up_closed :: "int set \<Rightarrow> bool" where
  "up_closed A \<longleftrightarrow> (\<forall>a \<in> A. \<forall>b \<ge> a. b \<in> A)"

lemma up_closedD: "up_closed A \<Longrightarrow> a \<in> A \<Longrightarrow> a \<le> b \<Longrightarrow> b \<in> A"
  by (auto simp: up_closed_def)

lemma xw_Write_inv:
  assumes inv: "conn_inv K c g w" and pre: "ptPre g = Some pre" and up: "up_closed (ptOut g)"
    and op: "run_state (xw_Write p) w = ((n, e), w')"
  shows "conn_inv K c g w'"
proof -
  have K: "xwMaxConnBytes (wWriter w) = stMax K" "xwConnectionID (wWriter w) = stID K" "length (stID K) = 16"
      "length (xwRequestID (wWriter w)) = 16" and pos: "bytesOut (wCounters w) \<in> ptOut g"
    using inv pre by (simp_all add: conn_inv_def ready_def)
  have room: "out_room w = spare K w" by (simp add: out_room_def spare_def K)
  show ?thesis using op
  proof (cases rule: xw_Write_cases)
    case refused
    then show ?thesis using inv by simp
  next
    case deadline
    then show ?thesis using inv conn_inv_quiet [OF view_before_write deadline(3)] by simp
  next
    case (silent w1 err)
    then obtain cn where "w' = w1\<lparr>wConn := cn\<rparr>" "ncTaken cn = taken w1" "ncSent cn = wire w1"
      using conn_Write_world [OF silent(3)] by auto
    then have "view w' = view w1" by (simp add: view_def)
    then show ?thesis using inv conn_inv_view [of w' w1] conn_inv_quiet [OF view_before_write silent(2)] by simp
  next
    case (failed w1 err w2 e1 w3 w4)
    let ?bs = "take n (out_cut (out_room w) p)"
    have w1: "view w1 = view w" by (rule frameD [OF view_before_write failed(2)])
    obtain cn where w2: "w2 = w1\<lparr>wConn := cn\<rparr>" "ncTaken cn = taken w1" "ncSent cn = wire w1 @ ?bs"
        "n \<le> length (out_cut (out_room w) p)" using conn_Write_world [OF failed(3)] by auto
    obtain b h where w3: "w3 = w2\<lparr>wRt := (wRt w2)\<lparr>rtBwj := b\<rparr>, wHost := h\<rparr>"
      using bwj_op_world failed(5) unfolding record_out_def by fastforce
    obtain x where w4: "w4 = w3\<lparr>wRt := (wRt w3)\<lparr>rtFatal := Some x\<rparr>\<rparr>" using rt_fail_world failed(6) by blast
    have w': "w' = w4\<lparr>wCounters := (wCounters w4)\<lparr>bytesOut := bytesOut (wCounters w4) + int (length ?bs)\<rparr>,
        wWriter := (wWriter w4)\<lparr>xwHasher := xwHasher (wWriter w4) @ ?bs\<rparr>\<rparr>"
      using failed(7) by (simp add: count_out_def addOut_def)
    have fit: "int (length ?bs) \<le> spare K w" using out_cut_take [OF w2(4)] failed(1) room w2(4) by simp
    have x2: "wWriter w2 = wWriter w" using w1 by (simp add: w2(1) view_def)
    then have quiet: "\<not> stCalm K"
      using record_calm [OF inv, of w2 ?bs "xwRequestID (wWriter w)" DirectionOutbound
          "if xwStreaming (wWriter w2) then FlagStreaming else 0" "Some e1" w3] x2 w1 failed(5) K fit
      by (auto simp: record_out_def view_def w2(1))
    show ?thesis
      by (rule conn_inv_out [OF inv pre, where bs = ?bs and b = b and f = "Some x"])
         (use w1 fit quiet up_closedD [OF up pos] in \<open>simp_all add: w' w4 w3 w2(1) view_def w2(2,3)\<close>)
  next
    case (ok w1 err w2 w3)
    let ?bs = "take n (out_cut (out_room w) p)"
    have w1: "view w1 = view w" by (rule frameD [OF view_before_write ok(2)])
    obtain cn where w2: "w2 = w1\<lparr>wConn := cn\<rparr>" "ncTaken cn = taken w1" "ncSent cn = wire w1 @ ?bs"
        "n \<le> length (out_cut (out_room w) p)" using conn_Write_world [OF ok(3)] by auto
    let ?fl = "if xwStreaming (wWriter w2) then FlagStreaming else 0" and ?rid = "xwRequestID (wWriter w2)"
    have x2: "wWriter w2 = wWriter w" using w1 by (simp add: w2(1) view_def)
    have wr: "run_state (bwj_op (WriteData (stID K) ?rid DirectionOutbound ?fl ?bs)) w2 = (None, w3)"
      using ok(5) x2 K by (simp add: record_out_def)
    obtain b h where w3: "w3 = w2\<lparr>wRt := (wRt w2)\<lparr>rtBwj := b\<rparr>, wHost := h\<rparr>" using bwj_op_world [OF wr] by blast
    have w': "w' = w3\<lparr>wCounters := (wCounters w3)\<lparr>bytesOut := bytesOut (wCounters w3) + int (length ?bs)\<rparr>,
        wWriter := (wWriter w3)\<lparr>xwHasher := xwHasher (wWriter w3) @ ?bs\<rparr>\<rparr>"
      using ok(6) by (simp add: count_out_def addOut_def)
    have fit: "int (length ?bs) \<le> spare K w" using out_cut_take [OF w2(4)] ok(1) room w2(4) by simp
    show ?thesis
    proof (rule conn_inv_out [OF inv pre, where bs = ?bs and b = b and f = "rtFatal (wRt w)"])
      assume "sound K w'"
      then have "sound K w" using w1 by (simp add: w' w3 w2(1) view_def)
      then obtain es where J: "bytesIn (wCounters w) = int (length (taken w))" "kept K (nat (spare K w) + c) (the_journal w)"
          "journal_log (the_journal w) = stLog K @ es" "holds (stID K) es (taken w) (wire w)"
        using inv by (auto simp: conn_inv_def journalled_def)
      have f2: "files (wHost w2) = files (wHost w)" "rtBwj (wRt w2) = rtBwj (wRt w)" using w1 by (simp_all add: view_def w2(1))
      have cs: "wCounters w3 = wCounters w" "taken w3 = taken w" "wire w3 = wire w @ ?bs"
        using w1 by (simp_all add: w3 w2(1) view_def w2(2,3))
      have "spare K w' = spare K w - int (length ?bs)" using cs by (simp add: spare_def w')
      then have "nat (spare K w) + c = length ?bs + (nat (spare K w') + c)" using fit by simp
      then have "kept K (length ?bs + (nat (spare K w') + c)) (the_journal w2)"
        using J(2) kept_files [OF f2(1)] f2(2) by (simp only:)
      from data_journalled [OF this K(3) _ wr]
      have "kept K (nat (spare K w') + c) (the_journal w')"
          "journal_log (the_journal w') = stLog K @ es @ data_entries (stID K) ?rid DirectionOutbound ?fl ?bs"
        using J(3) journal_log_files' [OF f2(1)] f2(2) K x2 by (simp_all add: w')
      moreover have "taken w' = taken w" "wire w' = wire w @ ?bs" "bytesIn (wCounters w') = int (length (taken w'))"
        using cs J(1) by (simp_all add: w')
      ultimately show "journalled K c w'" using holds_out [OF J(4)] by (auto simp: journalled_def)
    next
      have "stCalm K \<Longrightarrow> calm (wHost w3)" using record_calm [OF inv, of w2 ?bs ?rid DirectionOutbound ?fl None w3] w1 fit wr K x2
        by (simp add: view_def w2(1))
      then show "smooth K w'" using inv w1 by (auto simp: conn_inv_def w' w3 view_def w2(1))
    qed (use w1 fit up_closedD [OF up pos] in \<open>simp_all add: w' w3 w2(1) view_def w2(2,3)\<close>)
  qed
qed

end
