(* ===== verification/Conn_Phases.thy ===== *)
theory Conn_Phases
  imports Conn_Inv
begin

text \<open>
  The phases of \<open>handleConnection\<close> (theory Connection) keep the invariant of theory Conn_Inv. Hoare
  triples state for each phase what holds when the connection goes on and when it stops; at most
  two more journal entries are needed for a stop.
\<close>

section \<open>Steps as triples\<close>

abbreviation keeps :: "setting \<Rightarrow> nat \<Rightarrow> point \<Rightarrow> 'a io \<Rightarrow> bool" where
  "keeps K c g m \<equiv> triple (conn_inv K c g) m (\<lambda>_. conn_inv K c g)"

named_theorems keep_rules \<open>steps that keep the invariant of a connection\<close>

lemma keeps_quiet: "frame view m \<Longrightarrow> keeps K c g m"
  by (rule tripleI) (simp add: conn_inv_quiet)

lemma view_gets [frame_intros]: "frame view (gets f)"
  by (simp add: frame_def)

lemma view_reader [frame_intros]:
  "(\<And>r. rrMaxConnBytes (f r) = rrMaxConnBytes r \<and> rrConnectionID (f r) = rrConnectionID r) \<Longrightarrow> frame view (set_reader f)"
  unfolding set_reader_def by (intro frame_intros) (simp add: view_def)

lemma view_phases [frame_intros]:
  "frame view (set_read_deadline t)" "frame view (beginHeaderPhase a b c)" "frame view (beginBodyPhase t)"
  "frame view (beginPostFailure t)" "frame view clearReadDeadline" "frame view clearDeadline" "frame view logicalConsumed"
  "frame view (elapsed_seconds s)" "frame view currentBytesOut" "frame view (remaining n)"
  unfolding set_read_deadline_def beginHeaderPhase_def beginBodyPhase_def beginPostFailure_def clearReadDeadline_def
    clearDeadline_def logicalConsumed_def elapsed_seconds_def currentBytesOut_def snapshot_def remaining_def
  by (intro frame_intros; simp)+

lemma keeps_emit: "\<not> is_exchange e \<Longrightarrow> keeps K c g (rt_emit e)"
  by (rule tripleI) (rule conn_inv_emitted(1))

lemma triple_note: "noting (stID K) f e \<Longrightarrow> triple (conn_inv K (Suc c) g) (journal_write f) (\<lambda>_. conn_inv K c g)"
  by (rule tripleI) (rule conn_inv_note)

lemma conn_inv_ID: "conn_inv K c g w \<Longrightarrow> length (stID K) = 16"
  by (simp add: conn_inv_def)

subsection \<open>The buffered reader\<close>

lemma keeps_buf_fill: "keeps K c g (buf_fill k len)"
proof (induction k)
  case 0
  show ?case unfolding buf_fill.simps by (intro keeps_quiet frame_intros) (simp add: view_def)
next
  case (Suc k)
  show ?case
  proof (rule tripleI)
    fix w u w'
    assume inv: "conn_inv K c g w" and op: "run_state (buf_fill (Suc k) len) w = (u, w')"
    obtain bs e w1 where r: "run_state (rr_Read (int len)) w = ((bs, e), w1)" by (metis surj_pair)
    define w2 where "w2 = w1\<lparr>wBuf := wBuf w1 @ bs, wPending := e\<rparr>"
    have "conn_inv K c (g\<lparr>ptPos := {position w}\<rparr>) w" using inv by (simp add: conn_inv_def ready_def evented_def)
    from rr_Read_inv [OF this r] have w1: "conn_inv K c (g\<lparr>ptPos := {p. p - int (length bs) = position w}\<rparr>) w1"
      by simp
    have "position w2 = position w1 - int (length bs)" "spare K w2 = spare K w1" by (simp_all add: position_def spare_def w2_def)
    moreover have "position w1 - int (length bs) = position w" using w1 by (simp add: conn_inv_def)
    moreover have "in_total (ptEvents g) \<le> position w" "0 \<le> position w" "position w \<in> ptPos g"
      using inv by (simp_all add: conn_inv_def evented_def counted_def)
    ultimately have inv2: "conn_inv K c g w2" using w1
      by (auto simp: conn_inv_def counted_def ready_def evented_def journalled_def w2_def)
    show "conn_inv K c g w'"
    proof (cases "e \<noteq> None \<or> bs \<noteq> []")
      case True
      then show ?thesis using inv2 op r by (auto simp: w2_def)
    next
      case False
      then have "run_state (buf_fill k len) w2 = (u, w')" using op r by (simp add: w2_def)
      then show ?thesis using tripleD [OF Suc] inv2 by blast
    qed
  qed
qed


lemma keeps_consume:
  assumes inv: "conn_inv K c g w" and up: "up_closed (ptPos g)"
  shows "conn_inv K c g (consume n w)"
proof -
  have "position w \<le> position (consume n w)" "spare K (consume n w) = spare K w"
    by (simp_all add: position_def spare_def consume_def)
  moreover have "0 \<le> position w" "in_total (ptEvents g) \<le> position w" "position w \<in> ptPos g"
    using inv by (simp_all add: conn_inv_def counted_def evented_def)
  ultimately show ?thesis using inv up_closedD [OF up, of "position w" "position (consume n w)"]
    by (auto simp: conn_inv_def counted_def ready_def evented_def journalled_def)
qed

lemma pending_view: "view (w\<lparr>wPending := e\<rparr>) = view w"
  by (simp add: view_def)

lemma pull_inv: "up_closed (ptPos g) \<Longrightarrow> conn_inv K c g w \<Longrightarrow> conn_inv K c g (snd (pull p seen w))"
proof (induction p seen w rule: pull.induct)
  case (1 p seen w)
  show ?case
  proof (cases "plStep p (seen @ wBuf w)")
    case (Done k x)
    then show ?thesis using 1(2,3) by (subst pull.simps) (simp add: keeps_consume)
  next
    case (More k n)
    define w1 where "w1 = consume (k - length seen) w"
    define seen' where "seen' = seen @ take (k - length seen) (wBuf w)"
    have w1: "conn_inv K c g w1" using keeps_consume 1(2,3) by (simp add: w1_def)
    show ?thesis
    proof (cases "wPending w1")
      case (Some e)
      have "conn_inv K c g (w1\<lparr>wPending := None\<rparr>)" using w1 conn_inv_view [OF pending_view] by simp
      then show ?thesis using More Some keeps_consume [OF _ 1(2)] unfolding w1_def
        by (subst pull.simps) (simp add: Let_def split: prod.split)
    next
      case None
      obtain w2 where f: "run_state (buf_fill 100 n) w1 = ((), w2)" by (metis surj_pair unit.exhaust)
      then have "pull p seen w = pull p seen' w2" using More None
        by (subst pull.simps) (simp add: Let_def w1_def seen'_def)
      moreover have "conn_inv K c g w2" by (rule tripleD [OF keeps_buf_fill f w1])
      ultimately show ?thesis using 1(1) [OF More refl seen'_def w1_def None f [symmetric]] 1(2) by simp
    qed
  qed
qed

lemma keeps_pull: "up_closed (ptPos g) \<Longrightarrow> keeps K c g (State (pull p seen))"
proof (rule tripleI)
  fix w x w'
  assume "up_closed (ptPos g)" "conn_inv K c g w" "run_state (State (pull p seen)) w = (x, w')"
  then show "conn_inv K c g w'" using pull_inv [of g K c w p seen] by simp
qed

subsection \<open>Responses\<close>

interpretation evidence: destination exchangeWriter_Write wire "\<lambda>_. ()"
  "\<lambda>w. conn_inv K c g w \<and> ptPre g \<noteq> None \<and> up_closed (ptOut g)" exchange_select for K c g
proof
  fix s s' :: world and p n e
  assume inv: "conn_inv K c g s \<and> ptPre g \<noteq> None \<and> up_closed (ptOut g)" and op: "exchangeWriter_Write s p = ((n, e), s')"
  then have run: "run_state (xw_Write p) s = ((n, e), s')" by (simp add: exchangeWriter_Write_def)
  show "n \<le> length p" "wire s' = wire s @ take n p" using xw_Write_wire [OF run] by simp_all
  obtain pre where "ptPre g = Some pre" using inv by blast
  from xw_Write_inv [OF _ this _ run] show "conn_inv K c g s' \<and> ptPre g \<noteq> None \<and> up_closed (ptOut g)"
    using inv by blast
next
  fix s s' :: world and d e
  assume inv: "conn_inv K c g s \<and> ptPre g \<noteq> None \<and> up_closed (ptOut g)" and "exchange_select d s = (e, s')"
  then have run: "run_state (on_conn (select_wait d)) s = (e, s')" by (simp add: exchange_select_def)
  have "view s' = view s" by (rule frameD [OF view_quiet(3) run])
  then show "(conn_inv K c g s' \<and> ptPre g \<noteq> None \<and> up_closed (ptOut g)) \<and> wire s' = wire s \<and> () = ()"
    using inv conn_inv_quiet [OF view_quiet(3) run] by (simp add: view_def)
qed simp

lemma keeps_Write:
  assumes "ptPre g \<noteq> None" "up_closed (ptOut g)"
  shows "keeps K c g (State (Write exchangeWriter_Write exchange_select sha256 a b meth plan m))"
proof (rule tripleI)
  fix w res w'
  assume "conn_inv K c g w" "run_state (State (Write exchangeWriter_Write exchange_select sha256 a b meth plan m)) w = (res, w')"
  then show "conn_inv K c g w'" using evidence.Write_effect [of K c g w sha256 a b meth plan m res w'] assms by simp
qed

section \<open>Stopping\<close>

text \<open>When the connection stops, nothing more needs to be known of where the streams are.\<close>

definition loose :: "event list \<Rightarrow> point" where
  "loose es = \<lparr>ptPos = UNIV, ptOut = UNIV, ptPre = None, ptEvents = es\<rparr>"

definition stopped :: "setting \<Rightarrow> nat \<Rightarrow> world \<Rightarrow> bool" where
  "stopped K c w \<longleftrightarrow> (\<exists>es. conn_inv K c (loose es) w)"

lemma stoppedI: "conn_inv K c' g w \<Longrightarrow> c \<le> c' \<Longrightarrow> stopped K c w"
  unfolding stopped_def by (intro exI [of _ "ptEvents g"], rule conn_inv_weaken) (simp_all add: loose_def)

lemma stopped_mono: "stopped K c' w \<Longrightarrow> c \<le> c' \<Longrightarrow> stopped K c w"
  using stoppedI unfolding stopped_def by blast

text \<open>\<open>spends n m\<close>: the computation needs at most \<open>n\<close> journal entries beside DATA.\<close>

definition spends :: "setting \<Rightarrow> nat \<Rightarrow> 'a io \<Rightarrow> bool" where
  "spends K n m \<longleftrightarrow> (\<forall>c. triple (stopped K (c + n)) m (\<lambda>_. stopped K c))"

named_theorems spends_rules \<open>journal entries a computation needs\<close>

lemma spends_keeps: "(\<And>c es. keeps K c (loose es) m) \<Longrightarrow> spends K 0 m"
  unfolding spends_def
proof (intro allI tripleI)
  fix c w x w'
  assume m: "\<And>c es. keeps K c (loose es) m" and "stopped K (c + 0) w" and r: "run_state m w = (x, w')"
  then obtain es where "conn_inv K c (loose es) w" by (auto simp: stopped_def)
  then show "stopped K c w'" using tripleD [OF m r] by (auto simp: stopped_def)
qed

lemma spends_ret [spends_rules]: "spends K n (ret x)"
  by (auto simp: spends_def triple_def elim: stopped_mono)

lemma spends_more: "spends K n m \<Longrightarrow> n \<le> n' \<Longrightarrow> spends K n' m"
  unfolding spends_def by (meson add_le_cancel_left stopped_mono triple_pre)

lemma spends_bind: "spends K a m \<Longrightarrow> (\<And>x. spends K b (k x)) \<Longrightarrow> spends K (a + b) (m \<bind> k)"
  unfolding spends_def
proof
  fix c
  assume m: "\<forall>c. triple (stopped K (c + a)) m (\<lambda>_. stopped K c)" and k: "\<And>x. \<forall>c. triple (stopped K (c + b)) (k x) (\<lambda>_. stopped K c)"
  have "triple (stopped K (c + b + a)) (m \<bind> k) (\<lambda>_. stopped K c)"
    by (rule triple_bind [OF m [rule_format]]) (rule k [rule_format])
  then show "triple (stopped K (c + (a + b))) (m \<bind> k) (\<lambda>_. stopped K c)" by (simp add: ac_simps)
qed

lemma spends_first: "spends K 0 m \<Longrightarrow> (\<And>x. spends K n (k x)) \<Longrightarrow> spends K n (m \<bind> k)"
  using spends_bind [of K 0 m n k] by simp

lemma spends_last: "spends K n m \<Longrightarrow> (\<And>x. spends K 0 (k x)) \<Longrightarrow> spends K n (m \<bind> k)"
  using spends_bind [of K n m 0 k] by simp

lemma spends_cases [spends_rules]:
  "spends K n a \<Longrightarrow> spends K n b \<Longrightarrow> spends K n (if c then a else b)"
  "spends K n d \<Longrightarrow> (\<And>x. spends K n (e x)) \<Longrightarrow> spends K n (case z of None \<Rightarrow> d | Some x \<Rightarrow> e x)"
  "(\<And>x y. spends K n (f x y)) \<Longrightarrow> spends K n (case p of (x, y) \<Rightarrow> f x y)"
  by (simp_all split: option.split prod.split)

lemma spends_quiet: "frame view m \<Longrightarrow> spends K 0 m"
  by (intro spends_keeps keeps_quiet)

lemma spends_emit: "\<not> is_exchange e \<Longrightarrow> spends K 0 (rt_emit e)"
  by (intro spends_keeps keeps_emit)

lemma spends_note: "(length (stID K) = 16 \<Longrightarrow> \<exists>e. noting (stID K) f e) \<Longrightarrow> spends K 1 (journal_write f)"
  unfolding spends_def
proof (intro allI tripleI)
  fix c w x w'
  assume n: "length (stID K) = 16 \<Longrightarrow> \<exists>e. noting (stID K) f e" and "stopped K (c + 1) w" and r: "run_state (journal_write f) w = (x, w')"
  then obtain es where inv: "conn_inv K (Suc c) (loose es) w" by (auto simp: stopped_def)
  from n [OF conn_inv_ID [OF inv]] obtain e where "noting (stID K) f e" by blast
  from conn_inv_note [OF inv this r] show "stopped K c w'" by (auto simp: stopped_def)
qed


text \<open>A session of the connection \<open>K\<close>.\<close>

definition serves :: "setting \<Rightarrow> session \<Rightarrow> bool" where
  "serves K s \<longleftrightarrow> snConnectionID s = stID K \<and> MaxConnectionBytes (snLimits s) = stMax K
     \<and> snConnectionIDText s = FormatID (stID K)"

lemma not_exchange [simp]: "evEventType e \<noteq> ''exchange'' \<Longrightarrow> \<not> is_exchange e"
  by (simp add: is_exchange_def)

lemma spends_reports [spends_rules]:
  assumes "serves K s"
  shows "spends K 1 (limit_hit s code n)" "spends K 1 (request_limit_hit s i code n)" "spends K 1 (parser_error s i p k t)"
proof -
  have id: "snConnectionID s = stID K" using assms by (simp add: serves_def)
  show "spends K 1 (limit_hit s code n)" "spends K 1 (request_limit_hit s i code n)" "spends K 1 (parser_error s i p k t)"
    unfolding limit_hit_def request_limit_hit_def parser_error_def emitLimit_def emitLimitWithRequest_def writeParserError_def id
    by (intro spends_last spends_note spends_emit noting_limit noting_parser; simp)+
qed

lemma keeps_capture_loop: "spends K 0 (State (capture_loop left))"
proof (rule spends_keeps, rule tripleI)
  fix c es w x w'
  assume inv: "conn_inv K c (loose es) w" and op: "run_state (State (capture_loop left)) w = (x, w')"
  have "conn_inv K c (loose es) (snd (capture_loop left w))" using inv
  proof (induction left w rule: capture_loop.induct)
    case (1 left w)
    show ?case
    proof (cases "left \<le> 0")
      case True
      then show ?thesis using 1(2) by (simp add: capture_loop.simps)
    next
      case False
      let ?n = "if 32768 > left then left else 32768"
      obtain bs e w1 where r: "run_state (rr_Read ?n) w = ((bs, e), w1)" by (metis surj_pair)
      have "{p. p - int (length bs) \<in> ptPos (loose es)} = ptPos (loose es)" by (simp add: loose_def)
      then have w1: "conn_inv K c (loose es) w1" using rr_Read_inv [OF 1(2) r] by (simp add: loose_def)
      show ?thesis
      proof (cases e)
        case None
        have "conn_inv K c (loose es) (snd (capture_loop (left - int (length bs)) w1))"
          using 1(1) [OF False refl r [symmetric] refl None w1] .
        then show ?thesis using False r None by (subst capture_loop.simps) simp
      next
        case (Some a)
        then show ?thesis using False r w1 by (subst capture_loop.simps) simp
      qed
    qed
  qed
  then show "conn_inv K c (loose es) w'" using op by simp
qed

lemma triple_extract:
  assumes "\<And>w. P w \<Longrightarrow> R (f w)" "\<And>x. R x \<Longrightarrow> triple P (k x) Q"
  shows "triple P (gets f \<bind> k) Q"
proof (rule tripleI)
  fix w x w'
  assume "P w" "run_state (gets f \<bind> k) w = (x, w')"
  then show "Q x w'" using assms(1) [of w] tripleD [OF assms(2) [of "f w"]] by simp
qed

lemma spends_gets_reader:
  "(\<And>r. rrConnectionID r = stID K \<Longrightarrow> spends K n (k r)) \<Longrightarrow> spends K n (gets wReader \<bind> k)"
  unfolding spends_def
proof
  fix c
  assume k: "\<And>r. rrConnectionID r = stID K \<Longrightarrow> \<forall>c. triple (stopped K (c + n)) (k r) (\<lambda>_. stopped K c)"
  show "triple (stopped K (c + n)) (gets wReader \<bind> k) (\<lambda>_. stopped K c)"
  proof (rule triple_extract)
    fix w assume "stopped K (c + n) w"
    then show "rrConnectionID (wReader w) = stID K" by (auto simp: stopped_def conn_inv_def ready_def)
  qed (use k in blast)
qed

lemma spends_capture: "spends K 1 postFailureCapture"
proof -
  have note1: "spends K 1 (gets wReader \<bind> (\<lambda>r. journal_write (WriteLimit (rrConnectionID r) code n)))" for code n
    by (rule spends_gets_reader) (simp only: spends_note noting_limit)
  show ?thesis unfolding postFailureCapture_def
    by (intro spends_first [OF spends_quiet] spends_cases spends_ret spends_first [OF keeps_capture_loop]
        spends_last [OF _ spends_quiet] note1 frame_intros)
qed

lemma spends_capture_then [spends_rules]: "spends K 1 m \<Longrightarrow> spends K 2 (capture_then m)"
  unfolding capture_then_def one_add_one [symmetric]
  by (intro spends_bind spends_last spends_capture spends_ret)

lemma spends_lifetime [spends_rules]:
  assumes "serves K s"
  shows "spends K 1 (lifetime_stop s)" "spends K 1 (request_lifetime_stop s i)"
  unfolding lifetime_stop_def request_lifetime_stop_def
  by (intro spends_first [OF spends_quiet] spends_last spends_reports assms spends_ret frame_intros)+

lemma spends_failures:
  assumes "serves K s"
  shows "spends K 2 (read_failure s e a b c)" "spends K 2 (body_failure s i e a b)" "spends K 1 (response_failure s i d)"
proof -
  show "spends K 2 (read_failure s e a b c)" unfolding read_failure_def
    by (intro spends_first [OF spends_quiet] spends_cases spends_ret spends_capture_then spends_last [OF spends_reports(1) [OF assms]]
        spends_last [OF spends_reports(3) [OF assms]] spends_lifetime [OF assms] frame_intros
        spends_more [OF spends_last [OF spends_reports(1) [OF assms]], of _ 2]) simp_all
  show "spends K 2 (body_failure s i e a b)" unfolding body_failure_def
    by (intro spends_first [OF spends_quiet] spends_cases spends_ret spends_capture_then spends_last [OF spends_reports(2) [OF assms]]
        spends_last [OF spends_reports(3) [OF assms]] spends_lifetime [OF assms] frame_intros)
  show "spends K 1 (response_failure s i d)" unfolding response_failure_def Let_def
    by (intro spends_first [OF spends_quiet] spends_cases spends_ret spends_last [OF spends_reports(2) [OF assms]]
        spends_lifetime [OF assms] frame_intros)
qed


section \<open>The phases\<close>

text \<open>After a phase: the connection stopped, or it goes on with \<open>Q\<close>.\<close>

definition phase_post :: "setting \<Rightarrow> nat \<Rightarrow> ('a \<Rightarrow> world \<Rightarrow> bool) \<Rightarrow> stop + 'a \<Rightarrow> world \<Rightarrow> bool" where
  "phase_post K c Q r w = (case r of Inl st \<Rightarrow> stopped K c w | Inr x \<Rightarrow> Q x w)"

lemma phase_post_simps [simp]: "phase_post K c Q (Inl st) w = stopped K c w" "phase_post K c Q (Inr x) w = Q x w"
  by (simp_all add: phase_post_def)

lemma triple_then:
  assumes "triple P m (phase_post K c R)" "\<And>x. triple (R x) (k x) (phase_post K c Q)"
  shows "triple P (then_phase m k) (phase_post K c Q)"
  unfolding then_phase_def
proof (rule triple_bind [OF assms(1)])
  fix r
  show "triple (phase_post K c R r) (case r of Inl s \<Rightarrow> ret (Inl s) | Inr x \<Rightarrow> k x) (phase_post K c Q)"
    by (cases r) (use assms(2) in \<open>simp_all add: triple_ret_pre phase_post_def [abs_def]\<close>)
qed

lemma triple_inl:
  assumes "spends K n m" "n \<le> d"
  shows "triple (conn_inv K (c + d) g) (inl m) (phase_post K c Q)"
  unfolding inl_def
proof (rule triple_bind)
  show "triple (conn_inv K (c + d) g) m (\<lambda>_. stopped K c)"
    by (rule triple_pre [OF assms(1) [unfolded spends_def, rule_format]]) (use assms(2) in \<open>auto intro: stoppedI\<close>)
qed (simp add: triple_ret_pre)

lemma triple_stop: "triple (conn_inv K (c + d) g) (ret (Inl st)) (phase_post K c Q)"
  by (rule triple_ret_pre) (simp add: stoppedI)

lemma triple_go: "triple (conn_inv K c' g) (ret (Inr x)) (phase_post K c (\<lambda>_. conn_inv K c' g))"
  by (rule triple_ret_pre) simp

lemma keeps_bind: "keeps K c g m \<Longrightarrow> (\<And>x. triple (conn_inv K c g) (k x) Q) \<Longrightarrow> triple (conn_inv K c g) (m \<bind> k) Q"
  by (rule triple_bind)

lemmas quiet_bind = keeps_bind [OF keeps_quiet]

lemma loop_guard_triple:
  "serves K s \<Longrightarrow> triple (conn_inv K (c + 2) g) (loop_guard s) (phase_post K c (\<lambda>_. conn_inv K (c + 2) g))"
  unfolding loop_guard_def
  by (intro quiet_bind triple_if triple_stop triple_go triple_inl [OF spends_lifetime(1)] frame_intros)
     (auto simp: frame_def view_def split: prod.splits)

lemma accept_header_triple:
  assumes "serves K s"
  shows "triple (conn_inv K (c + 2) g) (accept_header s req a b) (phase_post K c (\<lambda>_. conn_inv K (c + 2) g))"
proof -
  note note1 = spends_last [OF spends_reports(1) [OF assms] spends_ret] spends_last [OF spends_reports(3) [OF assms] spends_ret]
  show ?thesis unfolding accept_header_def
    by (intro triple_if triple_prod triple_go triple_inl [OF spends_capture_then] note1) simp_all
qed

lemma logicalConsumed_position: "logicalConsumed = gets position"
  by (simp add: logicalConsumed_def position_def [abs_def])

text \<open>The position is where the request began; receiving moves it on.\<close>

lemma receive_header_triple:
  assumes s: "serves K s" and g: "ptPos g = {p}"
  shows "triple (conn_inv K (c + 2) g) (receive_header lib s)
    (phase_post K c (\<lambda>(req, t, start, e) w. start = p \<and> conn_inv K (c + 2) (g\<lparr>ptPos := {p..}\<rparr>) w))"
proof -
  let ?g = "g\<lparr>ptPos := {p..}\<rparr>"
  have widen: "conn_inv K d g w \<Longrightarrow> conn_inv K d ?g w" for d w
    by (erule conn_inv_weaken) (simp_all add: g)
  have up: "up_closed (ptPos ?g)" by (auto simp: up_closed_def)
  have body: "triple (conn_inv K (c + 2) ?g) (do {
          r \<leftarrow> readRequest lib;
          headerEnd \<leftarrow> logicalConsumed;
          (case r of Inr req \<Rightarrow> ret (Inr (req, t, p, headerEnd))
           | Inl readErr \<Rightarrow> inl (read_failure s readErr p headerEnd ab)) })
     (phase_post K c (\<lambda>(req, t, start, e) w. start = p \<and> conn_inv K (c + 2) ?g w))" for t ab
    unfolding readRequest_def
    by (intro keeps_bind keeps_pull [OF up] quiet_bind triple_sum triple_inl [OF spends_failures(1) [OF s]] frame_intros triple_ret_pre) simp_all
  have wide: "triple (conn_inv K d ?g) m Q \<Longrightarrow> triple (conn_inv K d g) m Q" for d :: nat and m :: "'b io" and Q
    by (erule triple_pre) (rule widen)
  show ?thesis unfolding receive_header_def
    by (rule quiet_bind [OF view_quiet(1)], subst (1) logicalConsumed_position, rule triple_extract [where R = "\<lambda>x. x = p"],
        simp add: conn_inv_def g, rule quiet_bind [OF view_gets], rule quiet_bind [OF view_phases(2)], rule triple_option,
        hypsubst, rule wide, rule body, rule triple_stop)
qed


lemma fail_inv: "conn_inv K c g w \<Longrightarrow> \<not> stCalm K \<Longrightarrow> run_state (rt_fail e) w = (u, w') \<Longrightarrow> conn_inv K c' g w'"
proof -
  assume inv: "conn_inv K c g w" and K: "\<not> stCalm K" and op: "run_state (rt_fail e) w = (u, w')"
  obtain x where "w' = w\<lparr>wRt := (wRt w)\<lparr>rtFatal := Some x\<rparr>\<rparr>" using rt_fail_world [OF op] by blast
  then show ?thesis by (intro conn_inv_fatal [OF inv, where b = "rtBwj (wRt w)" and x = x and h = "wHost w"]) (simp_all add: K)
qed

lemma NewID_length: "NewID h = (Inr i, h') \<Longrightarrow> length i = 16"
  by (auto simp: NewID_def Let_def split: prod.splits sum.splits dest: rand_read_length)

lemma new_writer_inv:
  assumes "conn_inv K c g w" "serves K s" "length rid = 16"
    and "run_state (newExchangeWriter (snConnectionID s) rid (MaxConnectionBytes (snLimits s)) a b) w = (u, w')"
  shows "conn_inv K c (g\<lparr>ptPre := Some (wire w)\<rparr>) w'"
proof -
  let ?x = "\<lparr>xwConnectionID = snConnectionID s, xwRequestID = rid, xwMaxConnBytes = MaxConnectionBytes (snLimits s),
       xwWriteTimeout = a, xwLifetimeEnd = b, xwStreaming = False, xwHasher = []\<rparr>"
  have w': "w' = w\<lparr>wWriter := ?x\<rparr>" using assms(4) by (simp add: newExchangeWriter_def)
  have same: "counted K w' = counted K w" "position w' = position w" "journalled K c w' = journalled K c w" "wire w' = wire w"
      "evented K (g\<lparr>ptPre := Some (wire w)\<rparr>) w' = evented K g w" "sound K w' = sound K w" "smooth K w' = smooth K w"
    by (simp_all add: w' counted_def position_def spare_def journalled_def evented_def)
  have "ready K (g\<lparr>ptPre := Some (wire w)\<rparr>) w'" using assms(1-3) same(4) by (simp add: conn_inv_def ready_def w' serves_def)
  then show ?thesis using assms(1) by (simp add: conn_inv_def same) (simp add: w')
qed

lemma begin_exchange_triple:
  assumes s: "serves K s" and g: "ptOut g = {ob}"
  shows "triple (conn_inv K (c + 2) g) (begin_exchange s) (phase_post K c (\<lambda>(rid, rs) w. rs = ob
    \<and> (\<exists>b. int (length b) = ob \<and> conn_inv K (c + 2) (g\<lparr>ptPre := Some b, ptOut := {ob..}\<rparr>) w)))"
    (is "triple ?P _ (phase_post K c ?Q)")
proof (rule tripleI)
  fix w r w'
  assume inv: "?P w" and op: "run_state (begin_exchange s) w = (r, w')"
  obtain i w1 where n: "run_state (on_host NewID) w = (i, w1)" by (metis surj_pair)
  have w1: "?P w1" and id: "stCalm K \<longrightarrow> (\<exists>rid. i = Inr rid)" using conn_inv_NewID [OF inv n] by simp_all
  show "phase_post K c ?Q r w'"
  proof (cases i)
    case (Inl err)
    then obtain f where f: "run_state (rt_fail f) w1 = ((), w')" "r = Inl (Stop CloseInternalError ''internal_error'')"
      using op n by (auto simp: begin_exchange_def split: prod.splits)
    then have "conn_inv K c g w'" using fail_inv [OF w1 _ f(1)] id Inl by blast
    then show ?thesis by (simp add: f(2) stoppedI)
  next
    case (Inr rid)
    have len: "length rid = 16" using n Inr NewID_length by (auto simp: on_host_def split: prod.splits)
    have out: "bytesOut (wCounters w1) = ob" "int (length (wire w1)) = ob" using w1 g by (simp_all add: conn_inv_def counted_def)
    obtain w2 where w2: "run_state (newExchangeWriter (snConnectionID s) rid (MaxConnectionBytes (snLimits s))
            (WriteTimeoutSeconds (snLimits s) * Second) (snLifetimeEnd s)) w1 = ((), w2)" by (metis surj_pair unit.exhaust)
    have res: "r = Inr (FormatID rid, ob)" "w' = w2" using op n Inr w2 out
      by (auto simp: begin_exchange_def currentBytesOut_def snapshot_def)
    have "conn_inv K (c + 2) (g\<lparr>ptPre := Some (wire w1)\<rparr>) w'" using new_writer_inv [OF w1 s len w2] res by simp
    then have "conn_inv K (c + 2) (g\<lparr>ptPre := Some (wire w1), ptOut := {ob..}\<rparr>) w'"
      by (rule conn_inv_weaken) (simp_all add: g)
    then show ?thesis using out by (auto simp: res intro!: exI [of _ "wire w1"])
  qed
qed

lemma keeps_xw: "ptPre g \<noteq> None \<Longrightarrow> up_closed (ptOut g) \<Longrightarrow> keeps K c g (xw_Write p)"
proof (rule tripleI)
  fix w x w'
  assume g: "ptPre g \<noteq> None" "up_closed (ptOut g)" and inv: "conn_inv K c g w" and op: "run_state (xw_Write p) w = (x, w')"
  obtain n e where x: "x = (n, e)" by (metis surj_pair)
  obtain pre where "ptPre g = Some pre" using g(1) by blast
  from xw_Write_inv [OF inv this g(2) op [unfolded x]] show "conn_inv K c g w'" .
qed

lemma send_interim_triple:
  assumes s: "serves K s" and g: "ptPre g \<noteq> None" "up_closed (ptOut g)"
  shows "triple (conn_inv K (c + 2) g) (send_interim s req ce i) (phase_post K c (\<lambda>_. conn_inv K (c + 2) g))"
  unfolding send_interim_def
  by (intro triple_if triple_go triple_inl [OF spends_capture_then [OF spends_last [OF spends_reports(2) [OF s] spends_ret]]]
      keeps_bind [OF keeps_xw [OF g]] triple_prod triple_option quiet_bind [OF view_phases(6)] triple_stop) simp_all

lemma receive_body_triple:
  assumes s: "serves K s" and g: "ptPos g = {p..}"
  shows "triple (conn_inv K (c + 2) g) (receive_body lib s req i)
    (phase_post K c (\<lambda>(e, tr) w. p \<le> e \<and> conn_inv K (c + 2) (g\<lparr>ptPos := {e}\<rparr>) w))"
    (is "triple _ _ ?Q")
proof -
  have up: "up_closed (ptPos g)" by (auto simp: g up_closed_def)
  have body: "keeps K (c + 2) g (consumeBody lib req n)" for n unfolding consumeBody_def
    by (intro triple_if triple_ret_pre keeps_bind keeps_pull [OF up] triple_prod) simp_all
  have rest: "triple (\<lambda>w. conn_inv K (c + 2) g w \<and> position w = e) (do {
          _ \<leftarrow> clearReadDeadline;
          (case bodyErr of Some x \<Rightarrow> inl (body_failure s i x n e)
           | None \<Rightarrow>
             if semanticHeaderBytes tr > MaxHeaderBytes (snLimits s) then inl (capture_then (do {
               _ \<leftarrow> request_limit_hit s i LimitHeaderBytes (word_of_int (semanticHeaderBytes tr));
               ret (Stop CloseLimitReached ''trailer_bytes'') }))
             else ret (Inr (e, tr))) }) ?Q" for e bodyErr n tr
  proof (rule triple_pre [where P = "\<lambda>w. p \<le> e \<and> conn_inv K (c + 2) (g\<lparr>ptPos := {e}\<rparr>) w"])
    show "triple (\<lambda>w. p \<le> e \<and> conn_inv K (c + 2) (g\<lparr>ptPos := {e}\<rparr>) w) (do {
          _ \<leftarrow> clearReadDeadline;
          (case bodyErr of Some x \<Rightarrow> inl (body_failure s i x n e)
           | None \<Rightarrow>
             if semanticHeaderBytes tr > MaxHeaderBytes (snLimits s) then inl (capture_then (do {
               _ \<leftarrow> request_limit_hit s i LimitHeaderBytes (word_of_int (semanticHeaderBytes tr));
               ret (Stop CloseLimitReached ''trailer_bytes'') }))
             else ret (Inr (e, tr))) }) ?Q"
      by (rule triple_pure, rule quiet_bind [OF view_phases(5)], rule triple_option)
         (intro triple_if triple_inl [OF spends_capture_then [OF spends_last [OF spends_reports(2) [OF s] spends_ret]]]
            triple_inl [OF spends_failures(2) [OF s]] triple_ret_pre; simp)+
  qed (auto simp: conn_inv_def g ready_def evented_def)
  show ?thesis unfolding receive_body_def
    by (rule quiet_bind [OF view_phases(3)], rule triple_option, rule keeps_bind [OF body], rule triple_prod,
        rule triple_prod, subst logicalConsumed_position, rule triple_bind [OF triple_gets], rule triple_pre [OF rest], simp,
        rule triple_stop)
qed


lemma triple_request_limit:
  assumes "serves K s"
  shows "triple (conn_inv K (Suc c) g) (request_limit_hit s i code n) (\<lambda>_. conn_inv K c g)"
proof (rule tripleI)
  fix w u w'
  assume inv: "conn_inv K (Suc c) g w" and op: "run_state (request_limit_hit s i code n) w = (u, w')"
  obtain e where e: "noting (stID K) (WriteLimit (stID K) code n) e" using noting_limit [OF conn_inv_ID [OF inv]] by blast
  show "conn_inv K c g w'"
    by (rule tripleD [OF triple_bind [OF triple_note [OF e] keeps_emit] _ inv])
       (use op assms in \<open>simp_all add: request_limit_hit_def emitLimitWithRequest_def serves_def\<close>)
qed

lemma keeps_count: "keeps K c g addRequest"
  by (rule tripleI) (auto simp: addRequest_def conn_inv_def counted_def ready_def evented_def journalled_def position_def spare_def)

text \<open>The last request of a connection takes one of the entries set aside.\<close>

lemma count_request_triple:
  assumes s: "serves K s"
  shows "triple (conn_inv K (c + 2) g) (count_request s req i)
    (phase_post K c (\<lambda>(n, close) w. conn_inv K (c + (if close then 1 else 2)) g w))"
proof -
  have stop: "spends K 1 (request_lifetime_stop s i)" by (rule spends_lifetime(2) [OF s])
  have weak: "conn_inv K (c + 2) g w \<Longrightarrow> conn_inv K (c + 1) g w" for w by (erule conn_inv_weaken) simp_all
  have last: "n \<ge> MaxRequestsPerConnection (snLimits s) \<Longrightarrow> triple (conn_inv K (c + 2) g) (do {
       _ \<leftarrow> request_limit_hit s i LimitRequestsPerConnection (word_of_int n);
       t \<leftarrow> time_now;
       if t > snLifetimeEnd s then inl (request_lifetime_stop s i) else ret (Inr (n, True)) })
     (phase_post K c (\<lambda>(n, close) w. conn_inv K (c + (if close then 1 else 2)) g w))" for n
    by (rule triple_bind [where R = "\<lambda>_. conn_inv K (c + 1) g"], use triple_request_limit [OF s, of "c + 1" g] in simp,
        rule quiet_bind [OF view_quiet(1)], rule triple_if, rule triple_inl [OF stop], simp, rule triple_ret_pre, simp)
  have more: "triple (conn_inv K (c + 2) g) (do {
       t \<leftarrow> time_now;
       if t > snLifetimeEnd s then inl (request_lifetime_stop s i) else ret (Inr (n, cl)) })
     (phase_post K c (\<lambda>(n, close) w. conn_inv K (c + (if close then 1 else 2)) g w))" for n cl
    by (rule quiet_bind [OF view_quiet(1)], rule triple_if, rule triple_inl [OF stop], simp, rule triple_ret_pre, use weak in simp)
  show ?thesis unfolding count_request_def Let_def
  proof (rule keeps_bind [OF keeps_count])
    fix n
    show "triple (conn_inv K (c + 2) g) (do {
       _ \<leftarrow> (if n \<ge> MaxRequestsPerConnection (snLimits s)
             then request_limit_hit s i LimitRequestsPerConnection (word_of_int n) else ret ());
       t \<leftarrow> time_now;
       if t > snLifetimeEnd s then inl (request_lifetime_stop s i)
       else ret (Inr (n, rqClose req \<or> n \<ge> MaxRequestsPerConnection (snLimits s))) })
      (phase_post K c (\<lambda>(n, close) w. conn_inv K (c + (if close then 1 else 2)) g w))"
    proof (cases "n \<ge> MaxRequestsPerConnection (snLimits s)")
      case True
      then have "(rqClose req \<or> n \<ge> MaxRequestsPerConnection (snLimits s)) = True" by simp
      then show ?thesis using last [OF True] True by (simp only: if_True)
    next
      case False
      have "triple (conn_inv K (c + 2) g) (ret ()) (\<lambda>_. conn_inv K (c + 2) g)" by (rule triple_ret)
      from triple_bind [OF this more] False show ?thesis by simp
    qed
  qed
qed

lemma choose_response_triple:
  assumes s: "serves K s" and d: "1 \<le> d"
  shows "triple (conn_inv K (c + d) g) (choose_response s req i rp cl e) (phase_post K c (\<lambda>_. conn_inv K (c + d) g))"
proof -
  have note1: "spends K 1 (do { _ \<leftarrow> parser_error s i p k t; ret st })" for p k t and st :: stop
    by (rule spends_last [OF spends_reports(3) [OF s] spends_ret])
  have routes: "frame view (State (\<lambda>w. case f w of (x, rs) \<Rightarrow> (x, w\<lparr>wRoutes := rs\<rparr>)))" for f :: "world \<Rightarrow> selection option \<times> route_state"
    by (simp add: frame_def view_def split: prod.split)
  show ?thesis unfolding choose_response_def
    by (intro quiet_bind [OF routes] triple_option triple_if triple_stop triple_go triple_inl [OF note1 d])
qed

text \<open>A response: it ends where the sent bytes end, and the hash was given what was sent since it began.\<close>

lemma send_response_triple:
  assumes b: "ptPre g = Some b" and g: "ptOut g = {ob..}" "int (length b) = ob"
  shows "triple (conn_inv K c g) (send_response sha256 s req plan rs)
    (\<lambda>d w. ob \<le> sdEnd d \<and> conn_inv K c (g\<lparr>ptOut := {sdEnd d}\<rparr>) w)"
proof -
  have up: "up_closed (ptOut g)" by (auto simp: g up_closed_def)
  have streaming: "keeps K c g (modify (\<lambda>w. w\<lparr>wWriter := (wWriter w)\<lparr>xwStreaming := v\<rparr>\<rparr>))" for v
    by (rule tripleI) (auto simp: conn_inv_def counted_def ready_def evented_def journalled_def position_def spare_def)
  have streams: "frame view (State (\<lambda>w. case pop None (wStreams w) of (e, es) \<Rightarrow> (e, w\<lparr>wStreams := es\<rparr>)))"
    by (simp add: frame_def view_def split: prod.split)
  have out: "currentBytesOut = gets (\<lambda>w. bytesOut (wCounters w))"
    by (simp add: currentBytesOut_def snapshot_def gets_def State_Monad.bind_def)
  show ?thesis unfolding send_response_def Let_def
    by (rule keeps_bind [OF streaming], rule quiet_bind [OF view_quiet(1)], rule quiet_bind [OF view_phases(9)],
        rule keeps_bind [OF keeps_Write [OF _ up]], simp add: b, rule quiet_bind [OF streams],
        rule quiet_bind [OF view_phases(6)], subst out, rule triple_bind [OF triple_gets], rule triple_ret_pre)
       (auto simp: conn_inv_def g ready_def evented_def)
qed


lemma exchange_event_fields:
  "is_exchange (exchange_event sha256 s req tr i rp ch d ts (a, b) rs dg)"
  "evRequestStreamStart (exchange_event sha256 s req tr i rp ch d ts (a, b) rs dg) = a"
  "evRequestStreamLength (exchange_event sha256 s req tr i rp ch d ts (a, b) rs dg) = b - a"
  "evResponseStreamStart (exchange_event sha256 s req tr i rp ch d ts (a, b) rs dg) = rs"
  "evResponseStreamLength (exchange_event sha256 s req tr i rp ch d ts (a, b) rs dg) = sdEnd d - rs"
  "evResponseSHA256 (exchange_event sha256 s req tr i rp ch d ts (a, b) rs dg) = dg"
  "evConnectionID (exchange_event sha256 s req tr i rp ch d ts (a, b) rs dg) = snConnectionIDText s"
  "evRequestComplete (exchange_event sha256 s req tr i rp ch d ts (a, b) rs dg)"
  by (simp_all add: exchange_event_def Let_def is_exchange_def split: prod.split)

lemma after_response_triple:
  assumes s: "serves K s" and d: "1 \<le> d"
  shows "triple (conn_inv K (c + d) g) (after_response s i x n cl)
    (phase_post K c (\<lambda>_ w. \<not> cl \<and> conn_inv K (c + d) g w))"
  unfolding after_response_def
  by (intro triple_if triple_inl [OF spends_failures(3) [OF s] d] triple_stop triple_ret_pre) simp

text \<open>The head of the loop: everything received was consumed by the exchanges so far.\<close>

definition head_point :: "event list \<Rightarrow> point" where
  "head_point es = \<lparr>ptPos = {in_total es}, ptOut = {out_total es}, ptPre = None, ptEvents = es\<rparr>"

definition at_head :: "setting \<Rightarrow> nat \<Rightarrow> world \<Rightarrow> bool" where
  "at_head K c w \<longleftrightarrow> (\<exists>es. conn_inv K c (head_point es) w)"

lemma emit_exchange_triple:
  assumes g: "ptPos g = {in_total (ptEvents g) + l}" "ptOut g = {n}" "ptPre g = Some b" "int (length b) = out_total (ptEvents g)"
    and sha: "sha256 = stSHA K" and s: "serves K s" and l: "0 \<le> l" "out_total (ptEvents g) \<le> n" "n = sdEnd d"
  shows "triple (conn_inv K c g) (do {
      digest \<leftarrow> xw_Sum sha256;
      rt_emit (exchange_event sha256 s req tr i rp ch d ts (in_total (ptEvents g), in_total (ptEvents g) + l)
        (out_total (ptEvents g)) digest) })
    (\<lambda>_ w. at_head K c w)"
proof (rule tripleI)
  fix w u w'
  assume inv: "conn_inv K c g w" and op: "run_state (do {
      digest \<leftarrow> xw_Sum sha256;
      rt_emit (exchange_event sha256 s req tr i rp ch d ts (in_total (ptEvents g), in_total (ptEvents g) + l)
        (out_total (ptEvents g)) digest) }) w = (u, w')"
  let ?h = "xwHasher (wWriter w)"
  define e where "e = exchange_event sha256 s req tr i rp ch d ts (in_total (ptEvents g), in_total (ptEvents g) + l)
        (out_total (ptEvents g)) (hex_encode (sha256 ?h))"
  have em: "run_state (rt_emit e) w = (u, w')" using op by (simp add: xw_Sum_def e_def)
  have fields: "is_exchange e" "evRequestStreamStart e = in_total (ptEvents g)" "evRequestStreamLength e = l"
    "evResponseStreamStart e = out_total (ptEvents g)" "evResponseStreamLength e = n - out_total (ptEvents g)"
    "evResponseSHA256 e = hex_encode (sha256 ?h)" by (simp_all add: e_def exchange_event_fields l(3))
  have w: "wire w = b @ ?h" "n = int (length (wire w))" "position w = in_total (ptEvents g) + l"
    using inv g by (auto simp: conn_inv_def ready_def counted_def)
  have "slice (wire w) (out_total (ptEvents g)) (n - out_total (ptEvents g)) = ?h"
    unfolding slice_def w(2) by (simp add: w(1) g(4) [symmetric])
  then have "tiled (stSHA K) (wire w) (in_total (ptEvents g)) (out_total (ptEvents g)) [e]"
    using l w(2) by (simp add: fields sha)
  moreover have "own_event K e" using s by (simp add: own_event_def e_def exchange_event_fields serves_def)
  ultimately have "conn_inv K c (g\<lparr>ptEvents := ptEvents g @ [e]\<rparr>) w'"
    using conn_inv_emitted(2) [OF inv em] by (simp add: fields w(3))
  then have "conn_inv K c (head_point (ptEvents g @ [e])) w'"
    by (rule conn_inv_weaken) (simp_all add: head_point_def g in_total_def out_total_def fields)
  then show "at_head K c w'" by (auto simp: at_head_def)
qed

lemma respond_triple:
  assumes s: "serves K s" and sha: "sha256 = stSHA K"
    and g: "ptPos g = {e}" "ptOut g = {ob..}" "ptPre g = Some b" "int (length b) = ob"
      "in_total (ptEvents g) = p" "out_total (ptEvents g) = ob" "p \<le> e"
  shows "triple (conn_inv K (c + (if cl then 1 else 2)) g)
    (respond sha256 s req tr i st (p, e) ob n cl) (phase_post K c (\<lambda>_. at_head K (c + 2)))"
proof -
  let ?d = "if cl then 1 else 2 :: nat"
  have d: "1 \<le> ?d" by simp
  have last: "triple (at_head K (c + ?d)) (after_response s i x n cl) (phase_post K c (\<lambda>_. at_head K (c + 2)))" for x :: sent
    unfolding at_head_def
    by (rule triple_ex, rule triple_post [OF after_response_triple [OF s d]]) (auto simp: phase_post_def split: sum.splits if_splits)
  show ?thesis unfolding respond_def Let_def
  proof (rule triple_then [OF choose_response_triple [OF s d]])
    fix ch
    let ?rp = "rawPathFromTarget (rqRequestURI req)"
    show "triple (conn_inv K (c + ?d) g) (do {
       x \<leftarrow> send_response sha256 s req (slPlan ch) ob;
       t \<leftarrow> time_now;
       digest \<leftarrow> xw_Sum sha256;
       _ \<leftarrow> rt_emit (exchange_event sha256 s req tr i ?rp ch x (st, t) (p, e) ob digest);
       after_response s i x n cl }) (phase_post K c (\<lambda>_. at_head K (c + 2)))"
    proof (rule triple_bind [OF send_response_triple [OF g(3,2,4)]], rule triple_pure)
      fix x :: sent
      assume x: "ob \<le> sdEnd x"
      let ?g = "g\<lparr>ptOut := {sdEnd x}\<rparr>"
      show "triple (conn_inv K (c + ?d) ?g) (do {
         t \<leftarrow> time_now;
         digest \<leftarrow> xw_Sum sha256;
         _ \<leftarrow> rt_emit (exchange_event sha256 s req tr i ?rp ch x (st, t) (p, e) ob digest);
         after_response s i x n cl }) (phase_post K c (\<lambda>_. at_head K (c + 2)))"
      proof (rule quiet_bind [OF view_quiet(1)])
        fix t
        have em: "triple (conn_inv K (c + ?d) ?g) (do {
           digest \<leftarrow> xw_Sum sha256;
           rt_emit (exchange_event sha256 s req tr i ?rp ch x (st, t) (p, e) ob digest) }) (\<lambda>_. at_head K (c + ?d))"
          using emit_exchange_triple [where g = ?g and l = "e - p" and n = "sdEnd x" and b = b
              and K = K and d = x and c = "c + ?d" and ts = "(st, t)", OF _ _ _ _ sha s] g x by simp
        show "triple (conn_inv K (c + ?d) ?g) (do {
           digest \<leftarrow> xw_Sum sha256;
           _ \<leftarrow> rt_emit (exchange_event sha256 s req tr i ?rp ch x (st, t) (p, e) ob digest);
           after_response s i x n cl }) (phase_post K c (\<lambda>_. at_head K (c + 2)))"
          using triple_bind [OF em last [where x = x]] by (simp add: xw_Sum_def gets_def State_Monad.bind_assoc)
      qed
    qed
  qed
qed


section \<open>The loop and the whole connection\<close>

lemma serve_round_point:
  assumes s: "serves K s" and sha: "sha256 = stSHA K"
  shows "triple (conn_inv K (c + 2) (head_point es)) (serve_round lib sha256 s) (phase_post K c (\<lambda>_. at_head K (c + 2)))"
proof -
  let ?p = "in_total es" and ?o = "out_total es"
  let ?g0 = "head_point es"
  let ?g1 = "?g0\<lparr>ptPos := {?p..}\<rparr>"
  let ?g2 = "\<lambda>b. ?g1\<lparr>ptPre := Some b, ptOut := {?o..}\<rparr>"
  have out0: "ptOut ?g1 = {?o}" by (simp add: head_point_def)
  show ?thesis
    unfolding serve_round_def
  proof (rule triple_then [OF loop_guard_triple [OF s]], rule triple_then [OF receive_header_triple [OF s, of _ ?p]])
    show "ptPos ?g0 = {?p}" by (simp add: head_point_def)
  next
    fix x :: "http_request \<times> int \<times> int \<times> int"
    obtain req st start he where x: "x = (req, st, start, he)" by (metis surj_pair)
    show "triple (case x of (req, t, start, e) \<Rightarrow> \<lambda>w. start = ?p \<and> conn_inv K (c + 2) ?g1 w)
      (case x of (req, startedAt, requestStart, headerEnd) \<Rightarrow>
         then_phase (accept_header s req requestStart headerEnd) (\<lambda>continueExpected.
         then_phase (begin_exchange s) (\<lambda>(requestID, responseStart).
         then_phase (send_interim s req continueExpected requestID) (\<lambda>_.
         then_phase (receive_body lib s req requestID) (\<lambda>(requestEnd, trailer).
         then_phase (count_request s req requestID) (\<lambda>(requestNumber, closeAfter).
           respond sha256 s req trailer requestID startedAt (requestStart, requestEnd) responseStart requestNumber closeAfter))))))
      (phase_post K c (\<lambda>_. at_head K (c + 2)))" unfolding x split
    proof (rule triple_pure, rule triple_then [OF accept_header_triple [OF s]],
        rule triple_then [OF begin_exchange_triple [OF s out0]])
      fix ce and y :: "string \<times> int"
      assume start: "start = ?p"
      obtain i rs where y: "y = (i, rs)" by (metis surj_pair)
      show "triple (case y of (rid, rs) \<Rightarrow> \<lambda>w. rs = ?o \<and> (\<exists>b. int (length b) = ?o \<and> conn_inv K (c + 2) (?g2 b) w))
        (case y of (requestID, responseStart) \<Rightarrow>
         then_phase (send_interim s req ce requestID) (\<lambda>_.
         then_phase (receive_body lib s req requestID) (\<lambda>(requestEnd, trailer).
         then_phase (count_request s req requestID) (\<lambda>(requestNumber, closeAfter).
           respond sha256 s req trailer requestID st (start, requestEnd) responseStart requestNumber closeAfter))))
        (phase_post K c (\<lambda>_. at_head K (c + 2)))" unfolding y split
      proof (rule triple_pure, rule triple_ex, rule triple_pure)
        fix b :: "byte list"
        assume rs: "rs = ?o" and b: "int (length b) = ?o"
        have up: "up_closed (ptOut (?g2 b))" "ptPre (?g2 b) \<noteq> None" by (auto simp: up_closed_def)
        show "triple (conn_inv K (c + 2) (?g2 b))
         (then_phase (send_interim s req ce i) (\<lambda>_.
         then_phase (receive_body lib s req i) (\<lambda>(requestEnd, trailer).
         then_phase (count_request s req i) (\<lambda>(requestNumber, closeAfter).
           respond sha256 s req trailer i st (start, requestEnd) rs requestNumber closeAfter))))
         (phase_post K c (\<lambda>_. at_head K (c + 2)))"
        proof (rule triple_then [OF send_interim_triple [OF s up(2,1)]], rule triple_then [OF receive_body_triple [OF s, of _ ?p]])
          show "ptPos (?g2 b) = {?p..}" by simp
        next
          fix z :: "int \<times> http_header"
          obtain e tr where z: "z = (e, tr)" by (metis surj_pair)
          let ?g3 = "(?g2 b)\<lparr>ptPos := {e}\<rparr>"
          show "triple (case z of (e, tr) \<Rightarrow> \<lambda>w. ?p \<le> e \<and> conn_inv K (c + 2) ((?g2 b)\<lparr>ptPos := {e}\<rparr>) w)
            (case z of (requestEnd, trailer) \<Rightarrow> then_phase (count_request s req i) (\<lambda>(requestNumber, closeAfter).
               respond sha256 s req trailer i st (start, requestEnd) rs requestNumber closeAfter))
            (phase_post K c (\<lambda>_. at_head K (c + 2)))" unfolding z split
          proof (rule triple_pure, rule triple_then [OF count_request_triple [OF s]])
            fix v :: "int \<times> bool"
            assume e: "?p \<le> e"
            obtain n cl where v: "v = (n, cl)" by (metis surj_pair)
            show "triple (case v of (n, close) \<Rightarrow> conn_inv K (c + (if close then 1 else 2)) ?g3)
              (case v of (requestNumber, closeAfter) \<Rightarrow>
                 respond sha256 s req tr i st (start, e) rs requestNumber closeAfter)
              (phase_post K c (\<lambda>_. at_head K (c + 2)))" unfolding v split start rs
              by (rule respond_triple [OF s sha, where b = b]) (simp_all add: b e head_point_def)
          qed
        qed
      qed
    qed
  qed
qed

lemma serve_round_triple:
  "serves K s \<Longrightarrow> sha256 = stSHA K \<Longrightarrow>
    triple (at_head K (c + 2)) (serve_round lib sha256 s) (phase_post K c (\<lambda>_. at_head K (c + 2)))"
proof (rule tripleI)
  fix w r w'
  assume s: "serves K s" "sha256 = stSHA K" and "at_head K (c + 2) w" and op: "run_state (serve_round lib sha256 s) w = (r, w')"
  then obtain es where "conn_inv K (c + 2) (head_point es) w" unfolding at_head_def by blast
  then show "phase_post K c (\<lambda>_. at_head K (c + 2)) r w'" by (rule tripleD [OF serve_round_point [OF s] op])
qed

lemma serve_loop_inv:
  assumes "serves K s" "sha256 = stSHA K"
  shows "at_head K (c + 2) w \<Longrightarrow> stopped K c (snd (serve_loop lib sha256 s w))"
  using assms
proof (induction lib sha256 s w rule: serve_loop.induct)
  case (1 lib sha256 s w)
  obtain r w1 where r: "run_state (serve_round lib sha256 s) w = (r, w1)" by (metis surj_pair)
  have post: "phase_post K c (\<lambda>_. at_head K (c + 2)) r w1" by (rule tripleD [OF serve_round_triple [OF 1(3,4)] r 1(2)])
  show ?case
  proof (cases r)
    case (Inl st)
    then show ?thesis using r post by (subst serve_loop.simps) simp
  next
    case (Inr u)
    have "stopped K c (snd (serve_loop lib sha256 s w1))"
      by (rule 1(1) [OF r [symmetric] Inr _ 1(3,4)]) (use post Inr in simp)
    then show ?thesis using r Inr by (subst serve_loop.simps) simp
  qed
qed


text \<open>A connection at its beginning, before its first byte; \<open>c\<close> entries are set aside.\<close>

definition at_start :: "setting \<Rightarrow> nat \<Rightarrow> world \<Rightarrow> bool" where
  "at_start K c w \<longleftrightarrow> length (stID K) = 16 \<and> 0 \<le> stMax K \<and> bytesIn (wCounters w) = 0 \<and> bytesOut (wCounters w) = 0
     \<and> taken w = [] \<and> wire w = [] \<and> rtCfg (wRt w) = stCfg K \<and> jsonl_own (rtJsonl (wRt w))
     \<and> (\<exists>new. rtEvents (wRt w) = stPast K @ new \<and> filter is_exchange new = [])
     \<and> (sound K w \<longrightarrow> kept K (nat (stMax K) + c) (the_journal w) \<and> journal_log (the_journal w) = stLog K) \<and> smooth K w"

lemma at_start_view: "view w' = view w \<Longrightarrow> at_start K c w' = at_start K c w"
  using kept_files [of "wHost w'" "wHost w"] journal_log_files' [of "wHost w'" "wHost w"]
  by (simp add: at_start_def view_def)

lemma at_start_inv:
  assumes start: "at_start K c w" and s: "serves K s" and op: "run_state (init_reader s) w = (u, w')"
  shows "at_head K c w'"
proof -
  have w': "w' = w\<lparr>wReader := wReader w', wBuf := [], wPending := None, wRoutes := NewRouteState\<rparr>"
      "rrMaxConnBytes (wReader w') = stMax K" "rrConnectionID (wReader w') = stID K"
    using op s by (auto simp: init_reader_def serves_def)
  define r' where "r' = wReader w'"
  have w2: "w' = w\<lparr>wReader := r', wBuf := [], wPending := None, wRoutes := NewRouteState\<rparr>"
      "rrMaxConnBytes r' = stMax K" "rrConnectionID r' = stID K" using w' by (simp_all add: r'_def)
  have "conn_inv K c (head_point []) w'" using start holds_empty [of "stID K"] w2(2,3)
    unfolding w2(1) by (auto simp: conn_inv_def at_start_def counted_def ready_def evented_def journalled_def
        position_def spare_def head_point_def in_total_def out_total_def)
  then show ?thesis by (auto simp: at_head_def)
qed

text \<open>A connection that ended, in its loop or before it.\<close>

definition ended :: "setting \<Rightarrow> nat \<Rightarrow> world \<Rightarrow> bool" where
  "ended K c w \<longleftrightarrow> 0 \<le> bytesIn (wCounters w) \<and> 0 \<le> spare K w \<and> bytesOut (wCounters w) = int (length (wire w))
     \<and> bytesIn (wCounters w) \<le> int (length (taken w))
     \<and> (\<exists>new. rtEvents (wRt w) = stPast K @ new \<and> tiled (stSHA K) (wire w) 0 0 (filter is_exchange new)
          \<and> in_total (filter is_exchange new) \<le> bytesIn (wCounters w) \<and> list_all (own_event K) (filter is_exchange new))
     \<and> jsonl_own (rtJsonl (wRt w)) \<and> (sound K w \<longrightarrow> journalled K c w) \<and> smooth K w"

lemma stopped_ended: "stopped K c w \<Longrightarrow> ended K c w"
  by (auto simp: stopped_def ended_def conn_inv_def counted_def ready_def evented_def position_def loose_def)

lemma at_start_ended: "at_start K c w \<Longrightarrow> ended K c w"
  using holds_empty [of "stID K"]
  by (auto simp: ended_def at_start_def journalled_def spare_def in_total_def)

lemma ended_mono: "ended K c' w \<Longrightarrow> c \<le> c' \<Longrightarrow> ended K c w"
  unfolding ended_def journalled_def kept_def bwj_live_def room_def by fastforce


lemma ended_view: "view w' = view w \<Longrightarrow> ended K c w' = ended K c w"
  using kept_files [of "wHost w'" "wHost w"] journal_log_files' [of "wHost w'" "wHost w"]
  by (simp add: ended_def journalled_def view_def spare_def)

lemma emit_outside:
  assumes e: "\<not> is_exchange e" and op: "run_state (rt_emit e) w = (u, w')"
  shows "at_start K c w \<Longrightarrow> at_start K c w'" "ended K c w \<Longrightarrow> ended K c w'"
proof -
  have effect: "\<exists>j ok h. w' = w\<lparr>wRt := (wRt w)\<lparr>rtEvents := rtEvents (wRt w) @ [e], rtJsonl := j, rtHealthy := ok\<rparr>, wHost := h\<rparr>
      \<and> jsonl_own j \<and> (calm (wHost w) \<longrightarrow> calm h) \<and> (\<forall>b n. kept K n (b, h) = kept K n (b, wHost w) \<and> journal_log (b, h) = journal_log (b, wHost w))"
    if "jsonl_own (rtJsonl (wRt w))"
    using rt_emit_effect [OF that op] bwj_leaves by blast
  have keep: "filter is_exchange (new @ [e]) = filter is_exchange new" for new using e by simp
  show "at_start K c w'" if s: "at_start K c w"
  proof -
    have "jsonl_own (rtJsonl (wRt w))" using s by (simp add: at_start_def)
    from effect [OF this] s show ?thesis by (auto simp: at_start_def e)
  qed
  show "ended K c w'" if s: "ended K c w"
  proof -
    have "jsonl_own (rtJsonl (wRt w))" using s by (simp add: ended_def)
    from effect [OF this] s show ?thesis by (auto simp: ended_def journalled_def spare_def e)
  qed
qed

lemma ended_note:
  assumes inv: "ended K (Suc c) w" and n: "noting (stID K) f e" and op: "run_state (journal_write f) w = (u, w')"
  shows "ended K c w'"
proof -
  obtain err w1 where r: "run_state (bwj_op f) w = (err, w1)" by (metis surj_pair)
  obtain b h where f: "f (rtBwj (wRt w)) (wHost w) = (err, b, h)" "w1 = w\<lparr>wRt := (wRt w)\<lparr>rtBwj := b\<rparr>, wHost := h\<rparr>"
    using bwj_op_world [OF r] by blast
  show ?thesis
  proof (cases err)
    case (Some x)
    then have "run_state (rt_fail x) w1 = (u, w')" using op r by (simp add: journal_write_def fail_if_def)
    then obtain y where "w' = w1\<lparr>wRt := (wRt w1)\<lparr>rtFatal := Some y\<rparr>\<rparr>" using rt_fail_world by blast
    moreover have "\<not> stCalm K" using inv note_calm [OF n r] Some by (auto simp: ended_def)
    ultimately show ?thesis using inv by (auto simp: ended_def f(2) spare_def)
  next
    case None
    then have w': "w' = w1" using op r by (simp add: journal_write_def fail_if_def)
    have "journalled K (Suc c) w \<Longrightarrow> journalled K c w1" by (rule note_journalled [OF n r [unfolded None]])
    moreover have "journalled K (Suc c) w \<Longrightarrow> calm (wHost w) \<Longrightarrow> calm (wHost w1)" using note_calm [OF n r] by blast
    ultimately show ?thesis using inv by (auto simp: ended_def w' f(2) spare_def)
  qed
qed

end
