(* ===== verification/Conn_Spec.thy ===== *)
theory Conn_Spec
  imports Conn_Phases Valid_Config Bwj_Spec
begin

text \<open>
  What \<open>handleConnection\<close> guarantees, from its first journal entry to its last: the journal holds the
  bytes of the connection, the limits are kept, and the exchange events describe the streams.
\<close>

section \<open>Before the loop\<close>

lemma start_quiet: "frame view m \<Longrightarrow> triple (at_start K c) m (\<lambda>_. at_start K c)"
  by (rule tripleI) (auto dest: frameD at_start_view)

lemma start_emit: "\<not> is_exchange e \<Longrightarrow> triple (at_start K c) (rt_emit e) (\<lambda>_. at_start K c)"
  by (rule tripleI) (rule emit_outside(1))

lemmas start_bind = triple_bind [OF start_quiet]

lemma start_lifetime:
  assumes "serves K s"
  shows "triple (at_start K (Suc c)) (lifetime_stop s) (\<lambda>_. ended K c)"
proof (rule tripleI)
  fix w st w'
  assume start: "at_start K (Suc c) w" and op: "run_state (lifetime_stop s) w = (st, w')"
  obtain n w1 where n: "run_state (elapsed_seconds s) w = (n, w1)" by (metis surj_pair)
  have w1: "at_start K (Suc c) w1" by (rule tripleD [OF start_quiet [OF view_phases(8)] n start])
  have id: "snConnectionID s = stID K" "length (stID K) = 16" using assms start by (simp_all add: serves_def at_start_def)
  obtain e where e: "noting (stID K) (WriteLimit (stID K) LimitConnectionLifetime n) e" using noting_limit [OF id(2)] by blast
  obtain u w2 where w2: "run_state (journal_write (WriteLimit (stID K) LimitConnectionLifetime n)) w1 = (u, w2)" by (metis surj_pair)
  have "ended K c w2" by (rule ended_note [OF at_start_ended [OF w1] e w2])
  moreover obtain ev v where "run_state (rt_emit ev) w2 = (v, w')" "\<not> is_exchange ev"
    using op n w2 by (auto simp: lifetime_stop_def limit_hit_def emitLimit_def id is_exchange_def split: prod.splits)
  ultimately show "ended K c w'" using emit_outside(2) by blast
qed

lemma handshake_start: "triple (at_start K c) (handshakeTLS tls t) (\<lambda>_. at_start K c)"
proof -
  have step: "triple (at_start K c) (on_conn (handshake_step tls)) (\<lambda>_. at_start K c)"
    by (rule tripleI) (auto simp: on_conn_def handshake_step_def at_start_def split: prod.splits)
  show ?thesis unfolding handshakeTLS_def
    by (rule start_bind [OF view_quiet(1)], rule start_bind [OF view_quiet(1)], rule start_bind [OF view_quiet(2)],
        rule triple_option, rule triple_bind [OF step], rule start_bind [OF view_quiet(1)], rule start_bind [OF view_quiet(2)],
        rule triple_ret, rule triple_ret)
qed

lemma handshake_fresh:
  "run_state (handshakeTLS tls t) w = ((Inr c, d), w') \<Longrightarrow> ncTaken c = [] \<and> ncSent c = []"
  by (auto simp: handshakeTLS_def fresh_conn_def split: option.splits sum.splits prod.splits if_splits)

definition start_post :: "setting \<Rightarrow> nat \<Rightarrow> stop + unit \<Rightarrow> world \<Rightarrow> bool" where
  "start_post K c r w = (case r of Inl st \<Rightarrow> ended K c w | Inr u \<Rightarrow> at_start K (Suc c) w)"

lemma start_post_simps [simp]: "start_post K c (Inl st) w = ended K c w" "start_post K c (Inr u) w = at_start K (Suc c) w"
  by (simp_all add: start_post_def)

lemma start_inl: "triple (at_start K (Suc c)) m (\<lambda>_. ended K c) \<Longrightarrow> triple (at_start K (Suc c)) (inl m) (start_post K c)"
  unfolding inl_def by (rule triple_bind, assumption, rule triple_ret_pre) simp

lemma tls_stage:
  assumes s: "serves K s"
  shows "triple (at_start K (Suc c)) (do {
     (r, elapsed) \<leftarrow> handshakeTLS tls timeout;
     (case r of
        Inl err \<Rightarrow> do {
          _ \<leftarrow> rt_emit (tls_event s ends err elapsed);
          t \<leftarrow> time_now;
          if \<not> t < snLifetimeEnd s then inl (lifetime_stop s)
          else ret (Inl (Stop CloseTLSError ''tls_error'')) }
      | Inr c \<Rightarrow> do { _ \<leftarrow> modify (\<lambda>w. w\<lparr>wConn := c\<rparr>); ret (Inr ()) }) }) (start_post K c)"
proof (rule tripleI)
  fix w r w'
  assume start: "at_start K (Suc c) w" and op: "run_state (do {
     (r, elapsed) \<leftarrow> handshakeTLS tls timeout;
     (case r of
        Inl err \<Rightarrow> do {
          _ \<leftarrow> rt_emit (tls_event s ends err elapsed);
          t \<leftarrow> time_now;
          if \<not> t < snLifetimeEnd s then inl (lifetime_stop s)
          else ret (Inl (Stop CloseTLSError ''tls_error'')) }
      | Inr c \<Rightarrow> do { _ \<leftarrow> modify (\<lambda>w. w\<lparr>wConn := c\<rparr>); ret (Inr ()) }) }) w = (r, w')"
  obtain q d w1 where h: "run_state (handshakeTLS tls timeout) w = ((q, d), w1)" by (metis surj_pair)
  have w1: "at_start K (Suc c) w1" by (rule tripleD [OF handshake_start h start])
  show "start_post K c r w'"
  proof (cases q)
    case (Inr cn)
    then have "r = Inr ()" "w' = w1\<lparr>wConn := cn\<rparr>" using op h by auto
    then show ?thesis using w1 handshake_fresh h Inr by (auto simp: at_start_def)
  next
    case (Inl err)
    have ev: "\<not> is_exchange (tls_event s ends err d)" by (simp add: is_exchange_def tls_event_def)
    have t: "triple (at_start K (Suc c)) (do {
          _ \<leftarrow> rt_emit (tls_event s ends err d);
          t \<leftarrow> time_now;
          if \<not> t < snLifetimeEnd s then inl (lifetime_stop s)
          else ret (Inl (Stop CloseTLSError ''tls_error'')) }) (start_post K c)"
      by (intro triple_bind [OF start_emit [OF ev]] start_bind [OF view_quiet(1)] triple_if start_inl [OF start_lifetime [OF s]]
          triple_ret_pre) (auto intro: ended_mono at_start_ended)
    show ?thesis by (rule tripleD [OF t _ w1]) (use op h Inl in simp)
  qed
qed

lemma start_transport_triple:
  assumes s: "serves K s"
  shows "triple (at_start K (Suc c)) (start_transport tls s ends) (start_post K c)"
  unfolding start_transport_def Let_def
  by (rule triple_if, rule start_bind [OF view_quiet(1)], rule triple_if, rule start_inl [OF start_lifetime [OF s]],
      rule tls_stage [OF s], rule triple_ret_pre, simp)


section \<open>The whole connection\<close>

lemma serve_connection_inv:
  assumes s: "serves K s" and sha: "sha256 = stSHA K" and start: "at_start K (Suc (Suc c)) w1"
    and op: "run_state (do {
          let ends = (splitAddress ra, splitAddress la);
          _ \<leftarrow> rt_emit (open_event s ends);
          r \<leftarrow> start_transport tls s ends;
          (case r of Inl st \<Rightarrow> ret st
           | Inr _ \<Rightarrow> do { _ \<leftarrow> init_reader s; State (serve_loop lib sha256 s) }) }) w1 = (st, w')"
  shows "ended K c w'"
proof -
  let ?ends = "(splitAddress ra, splitAddress la)"
  obtain u w2 where e: "run_state (rt_emit (open_event s ?ends)) w1 = (u, w2)" by (metis surj_pair)
  obtain r w3 where r: "run_state (start_transport tls s ?ends) w2 = (r, w3)" by (metis surj_pair)
  have "\<not> is_exchange (open_event s ?ends)" by (simp add: is_exchange_def open_event_def)
  then have "at_start K (Suc (Suc c)) w2" using emit_outside(1) [OF _ e] start by blast
  then have post: "start_post K (Suc c) r w3" by (rule tripleD [OF start_transport_triple [OF s] r])
  show ?thesis
  proof (cases r)
    case (Inl x)
    then have "w' = w3" using op e r by (simp add: Let_def)
    then show ?thesis using post Inl ended_mono [of K "Suc c" w3 c] by simp
  next
    case (Inr x)
    obtain v w4 where i: "run_state (init_reader s) w3 = (v, w4)" by (metis surj_pair)
    have "w' = snd (serve_loop lib sha256 s w4)" using op e r Inr i by (simp add: Let_def)
    moreover have "at_head K (Suc (Suc c)) w4" using at_start_inv [OF _ s i] post Inr by simp
    ultimately show ?thesis using serve_loop_inv [OF s sha, of c w4 lib] stopped_ended by simp
  qed
qed

definition open_entry :: "ID \<Rightarrow> entry" where
  "open_entry cid = Entry RecordConnectionOpen DirectionNA 0 cid zero_id []"

definition close_entry :: "ID \<Rightarrow> stop \<Rightarrow> entry" where
  "close_entry cid st = Entry RecordConnectionClose DirectionNA 0 cid zero_id
     (put16 (close_code (case st of Stop reason text \<Rightarrow> reason | Panic \<Rightarrow> CloseUnspecified)))"

lemma edge_entries:
  "length cid = 16 \<Longrightarrow> good_entry (open_entry cid)" "length cid = 16 \<Longrightarrow> good_entry (close_entry cid st)"
  "acceptable (open_entry cid)" "acceptable (close_entry cid st)"
  by (simp_all add: open_entry_def close_entry_def good_entry_def acceptable_def validatePayload_def)

lemma edge_writes:
  "WriteConnectionOpen cid b h = put_entry (open_entry cid) (b, h)"
  "WriteConnectionClose cid (case st of Stop reason text \<Rightarrow> reason | Panic \<Rightarrow> CloseUnspecified) b h = put_entry (close_entry cid st) (b, h)"
  by (simp_all add: WriteConnectionOpen_def WriteConnectionClose_def put_entry_def open_entry_def close_entry_def)


text \<open>The setting of the connection a call of \<open>handleConnection\<close> serves.\<close>

definition setting_of :: "(byte list \<Rightarrow> byte list) \<Rightarrow> world \<Rightarrow> ID \<Rightarrow> bool \<Rightarrow> bool \<Rightarrow> bool \<Rightarrow> setting" where
  "setting_of sha256 w cid watched still clean = \<lparr>stMax = MaxConnectionBytes (cfLimits (rtCfg (wRt w))), stID = cid, stCfg = rtCfg (wRt w),
     stSHA = sha256, stLog = journal_log (the_journal w) @ [open_entry cid], stPast = rtEvents (wRt w), stWatched = watched, stCalm = still, stTidy = clean\<rparr>"

text \<open>What is asked of the state a connection is accepted in: nothing was read or sent, and the byte
  limit is not negative (the validator asks for at least 1).\<close>

definition accepted :: "world \<Rightarrow> bool" where
  "accepted w \<longleftrightarrow> taken w = [] \<and> wire w = [] \<and> 0 \<le> MaxConnectionBytes (cfLimits (rtCfg (wRt w))) \<and> jsonl_own (rtJsonl (wRt w))"

lemma handle_parts:
  assumes op: "run_state (handleConnection tls lib sha256 sid sv ra la) w = (Some st, w')"
  obtains s w1 w2 where "length (snConnectionID s) = 16" "snCfg s = rtCfg (wRt w)"
    "snConnectionIDText s = FormatID (snConnectionID s)" "calm (wHost w) \<Longrightarrow> calm (wHost w1)"
    "wRt w1 = wRt w" "files (wHost w1) = files (wHost w)" "wConn w1 = wConn w" "wCounters w1 = \<lparr>bytesIn = 0, bytesOut = 0, requests = 0\<rparr>"
    "run_state (serve_connection tls lib sha256 s ra la) w1 = (st, w2)"
    "run_state (close_connection s st) w2 = ((), w')"
proof -
  obtain i w0 where i: "run_state (on_host NewID) w = (i, w0)" by (metis surj_pair)
  obtain cid where cid: "i = Inr cid"
    using op i by (cases i) (auto simp: handleConnection_def split: prod.splits)
  have len: "length cid = 16" using i cid NewID_length by (auto simp: on_host_def split: prod.splits)
  have quiet: "calm (wHost w) \<Longrightarrow> calm (wHost w0)" using i calm_NewID [of "wHost w"] by (auto simp: on_host_def split: prod.splits)
  have w0: "wRt w0 = wRt w" "files (wHost w0) = files (wHost w)" "wConn w0 = wConn w"
    using i by (auto simp: on_host_def NewID_def Let_def split: prod.splits sum.splits dest: rand_files)
  obtain t wt where t: "run_state time_now w0 = (t, wt)" by (metis surj_pair)
  have wt: "wRt wt = wRt w" "files (wHost wt) = files (wHost w)" "wConn wt = wConn w" "calm (wHost w) \<Longrightarrow> calm (wHost wt)"
    using t w0 quiet by (auto simp: on_host_def calm_now split: prod.splits dest: host_files)
  define s where "s = \<lparr>snCfg = rtCfg (wRt w), snServiceID = sid, snService = sv,
            snProtocol = (case scListener sv of Some l \<Rightarrow> lcProtocol l | None \<Rightarrow> ''''),
            snConnectionID = cid, snConnectionIDText = FormatID cid, snStarted = t,
            snLifetimeEnd = t + MaxConnectionLifetimeSeconds (cfLimits (rtCfg (wRt w))) * Second\<rparr>"
  define w1 where "w1 = wt\<lparr>wCounters := \<lparr>bytesIn = 0, bytesOut = 0, requests = 0\<rparr>\<rparr>"
  obtain st2 w2 where c: "run_state (serve_connection tls lib sha256 s ra la) w1 = (st2, w2)" by (metis surj_pair)
  obtain w3 where k: "run_state (close_connection s st2) w2 = ((), w3)" by (metis surj_pair unit.exhaust)
  have "st2 = st \<and> w3 = w'"
    using op i cid t c k w0 unfolding handleConnection_def
    by (simp add: Let_def init_connection_def s_def [symmetric] w1_def [symmetric])
  with c k show thesis using that [of s w1 w2] len wt by (simp add: s_def w1_def)
qed

lemma serve_connection_ended:
  assumes acc: "accepted w" and s: "length (snConnectionID s) = 16" "snCfg s = rtCfg (wRt w)"
      "snConnectionIDText s = FormatID (snConnectionID s)"
    and calm: "calm (wHost w) \<Longrightarrow> calm (wHost w1)" and w1: "wRt w1 = wRt w" "files (wHost w1) = files (wHost w)" "wConn w1 = wConn w" "wCounters w1 = \<lparr>bytesIn = 0, bytesOut = 0, requests = 0\<rparr>"
    and op: "run_state (serve_connection tls lib sha256 s ra la) w1 = (st, w2)"
    and live: "watched \<Longrightarrow> bwj_live (nat (MaxConnectionBytes (cfLimits (rtCfg (wRt w)))) + (c + 3)) (the_journal w)"
    and clean: "clean \<Longrightarrow> tidy (rtBwj (wRt w)) (wHost w)"
    and still: "still \<Longrightarrow> watched \<and> calm (wHost w) \<and> rtFatal (wRt w) = None"
  shows "ended (setting_of sha256 w (snConnectionID s) watched still clean) c w2"
proof -
  let ?K = "setting_of sha256 w (snConnectionID s) watched still clean"
  have sv: "serves ?K s" "sha256 = stSHA ?K" using s by (simp_all add: serves_def setting_of_def)
  obtain err w3 where o1: "run_state (bwj_op (WriteConnectionOpen (snConnectionID s))) w1 = (err, w3)" by (metis surj_pair)
  obtain b h where b: "put_entry (open_entry (snConnectionID s)) (rtBwj (wRt w1), wHost w1) = (err, b, h)"
      "w3 = w1\<lparr>wRt := (wRt w1)\<lparr>rtBwj := b\<rparr>, wHost := h\<rparr>"
    using bwj_op_world [OF o1] by (auto simp: edge_writes)
  have journal: "bwj_live n (the_journal w1) = bwj_live n (the_journal w)" "kept ?K n (the_journal w1) = kept ?K n (the_journal w)"
      "journal_log (the_journal w1) = journal_log (the_journal w)" for n
    using bwj_live_files [OF w1(2)] kept_files [OF w1(2)] journal_log_files' [OF w1(2)] w1(1) by simp_all
  have smooth: "err = None \<and> watched \<and> calm (wHost w3) \<and> rtFatal (wRt w3) = None" if still
  proof -
    have "bwj_live (Suc (nat (MaxConnectionBytes (cfLimits (rtCfg (wRt w)))) + (c + 2))) (rtBwj (wRt w1), wHost w1)"
      using live journal(1) still that by (simp add: numeral_3_eq_3)
    from put_entry_calm [OF _ this edge_entries(3) b(1)] show ?thesis using calm still that w1(1) by (simp add: b(2))
  qed
  show ?thesis
  proof (cases err)
    case (Some e)
    then have "run_state (rt_fail e) w3 = ((), w2)" using op o1 by (auto simp: serve_connection_def split: prod.splits)
    then obtain x where "w2 = w3\<lparr>wRt := (wRt w3)\<lparr>rtFatal := Some x\<rparr>\<rparr>" using rt_fail_world by blast
    moreover have "\<not> still" using smooth Some by blast
    ultimately show ?thesis using acc w1 by (auto simp: ended_def b(2) spare_def setting_of_def accepted_def in_total_def)
  next
    case None
    have "sound ?K w3 \<Longrightarrow> kept ?K (nat (stMax ?K) + (c + 2)) (the_journal w3) \<and> journal_log (the_journal w3) = stLog ?K"
    proof -
      assume "sound ?K w3"
      then have "kept ?K (Suc (nat (stMax ?K) + (c + 2))) (the_journal w1)" using live clean unfolding journal(2)
        by (simp add: setting_of_def kept_def numeral_3_eq_3)
      moreover have "put_entry (open_entry (snConnectionID s)) (the_journal w1) = (None, the_journal w3)" using b None by simp
      ultimately show ?thesis using kept_put [OF _ edge_entries(1) [OF s(1)]] journal(3) by (simp add: setting_of_def)
    qed
    then have "at_start ?K (Suc (Suc c)) w3" using acc w1 s(1) b(2) smooth
      by (auto simp: at_start_def accepted_def setting_of_def)
    then show ?thesis
      by (rule serve_connection_inv [OF sv _ _]) (use op o1 None in \<open>simp add: serve_connection_def\<close>)
  qed
qed

lemma close_effect:
  assumes op: "run_state (close_connection s st) w = (u, w')" and own: "jsonl_own (rtJsonl (wRt w))"
  shows "taken w' = taken w \<and> wire w' = wire w \<and> wCounters w' = wCounters w \<and> ncClosed (wConn w')
    \<and> (\<exists>e. \<not> is_exchange e \<and> rtEvents (wRt w') = rtEvents (wRt w) @ [e])
    \<and> (rtFatal (wRt w') = None \<longrightarrow> rtFatal (wRt w) = None \<and>
        (\<exists>j. put_entry (close_entry (snConnectionID s) st) (the_journal w) = (None, j)
          \<and> (\<forall>K n. kept K n (the_journal w') = kept K n j) \<and> journal_log (the_journal w') = journal_log j))
    \<and> (calm (wHost w) \<and> rtFatal (wRt w) = None \<and> bwj_live (Suc k) (the_journal w) \<longrightarrow> calm (wHost w') \<and> rtFatal (wRt w') = None)"
proof -
  let ?r = "case st of Stop reason text \<Rightarrow> reason | Panic \<Rightarrow> CloseUnspecified"
  obtain v w1 where j: "run_state (journal_write (WriteConnectionClose (snConnectionID s) ?r)) w = (v, w1)" by (metis surj_pair)
  obtain err w0 where r: "run_state (bwj_op (WriteConnectionClose (snConnectionID s) ?r)) w = (err, w0)" by (metis surj_pair)
  obtain b h where b: "put_entry (close_entry (snConnectionID s) st) (the_journal w) = (err, b, h)"
      "w0 = w\<lparr>wRt := (wRt w)\<lparr>rtBwj := b\<rparr>, wHost := h\<rparr>"
    using bwj_op_world [OF r] by (auto simp: edge_writes)
  obtain e w2 where e: "run_state (rt_emit e) w1 = ((), w2)" "\<not> is_exchange e" "w' = w2\<lparr>wConn := conn_Close (wConn w2)\<rparr>"
  proof -
    obtain reason msg where rt: "(case st of Stop r t \<Rightarrow> (r, t) | Panic \<Rightarrow> (CloseUnspecified, ''unspecified'')) = (reason, msg)"
      by (metis surj_pair)
    then have "?r = reason" by (cases st) auto
    then show thesis using op j rt that
      by (auto simp: close_connection_def snapshot_def is_exchange_def split: prod.splits)
  qed
  have acknowledged: "err = None \<and> calm h" if "calm (wHost w)" "bwj_live (Suc k) (the_journal w)"
    using put_entry_calm [OF that edge_entries(4) b(1)] by simp
  have w1: "err = None \<and> w1 = w0 \<or> err \<noteq> None \<and> (\<exists>x. w1 = w0\<lparr>wRt := (wRt w0)\<lparr>rtFatal := Some x\<rparr>\<rparr>)"
  proof (cases err)
    case None
    then show ?thesis using j r by (simp add: journal_write_def fail_if_def)
  next
    case (Some a)
    then have "run_state (rt_fail a) w0 = (v, w1)" using j r by (simp add: journal_write_def fail_if_def)
    then show ?thesis using rt_fail_world Some by blast
  qed
  have "jsonl_own (rtJsonl (wRt w1))" using w1 own by (auto simp: b(2))
  from rt_emit_effect [OF this e(1)] obtain jl ok h2 where
    w2: "w2 = w1\<lparr>wRt := (wRt w1)\<lparr>rtEvents := rtEvents (wRt w1) @ [e], rtJsonl := jl, rtHealthy := ok\<rparr>, wHost := h2\<rparr>"
      "leaves foreign (wHost w1) h2" "calm (wHost w1) \<longrightarrow> calm h2" by blast
  show ?thesis using w1
  proof
    assume n: "err = None \<and> w1 = w0"
    then show ?thesis using b e(2) bwj_leaves [OF w2(2)] w2(3) acknowledged by (auto simp: e(3) w2(1) conn_Close_def)
  next
    assume "err \<noteq> None \<and> (\<exists>x. w1 = w0\<lparr>wRt := (wRt w0)\<lparr>rtFatal := Some x\<rparr>\<rparr>)"
    then show ?thesis using b e(2) acknowledged by (auto simp: e(3) w2(1) conn_Close_def)
  qed
qed


text \<open>Once an identifier was generated the connection is served to its end.\<close>

lemma handleConnection_starts:
  assumes "randoms (wHost w) = []"
  shows "\<exists>st w'. run_state (handleConnection tls lib sha256 sid sv ra la) w = (Some st, w')"
proof -
  obtain cid h where i: "NewID (wHost w) = (Inr cid, h)" using assms by (simp add: NewID_def rand_read_def)
  then have "run_state (on_host NewID) w = (Inr cid, w\<lparr>wHost := h\<rparr>)" by (simp add: on_host_def)
  then show ?thesis unfolding handleConnection_def Let_def by (auto split: prod.split)
qed

lemma handleConnection_ended:
  assumes acc: "accepted w" and op: "run_state (handleConnection tls lib sha256 sid sv ra la) w = (Some st, w')"
    and live: "watched \<Longrightarrow> bwj_live (nat (MaxConnectionBytes (cfLimits (rtCfg (wRt w)))) + (c + 3)) (the_journal w)"
    and clean: "clean \<Longrightarrow> tidy (rtBwj (wRt w)) (wHost w)"
    and still: "still \<Longrightarrow> watched \<and> calm (wHost w) \<and> rtFatal (wRt w) = None"
  shows "\<exists>s w2. length (snConnectionID s) = 16 \<and> ended (setting_of sha256 w (snConnectionID s) watched still clean) c w2
    \<and> run_state (close_connection s st) w2 = ((), w')"
proof (rule handle_parts [OF op])
  fix s w1 w2
  assume p: "length (snConnectionID s) = 16" "snCfg s = rtCfg (wRt w)" "snConnectionIDText s = FormatID (snConnectionID s)"
    "calm (wHost w) \<Longrightarrow> calm (wHost w1)"
    "wRt w1 = wRt w" "files (wHost w1) = files (wHost w)" "wConn w1 = wConn w" "wCounters w1 = \<lparr>bytesIn = 0, bytesOut = 0, requests = 0\<rparr>"
    "run_state (serve_connection tls lib sha256 s ra la) w1 = (st, w2)"
    "run_state (close_connection s st) w2 = ((), w')"
  have "ended (setting_of sha256 w (snConnectionID s) watched still clean) c w2"
    by (rule serve_connection_ended [OF acc p(1-9)]) (assumption, rule live, assumption, rule clean, assumption, rule still)
  with p(1,10) show ?thesis by blast
qed

section \<open>The journal of a connection\<close>

text \<open>What a connection leaves behind when no error was reported: its journal records, and the events
  of its exchanges.\<close>

lemma handleConnection_log:
  assumes "accepted w"
    and "bwj_live (nat (MaxConnectionBytes (cfLimits (rtCfg (wRt w)))) + (n + 4)) (the_journal w)"
    and "run_state (handleConnection tls lib sha256 sid sv ra la) w = (Some st, w')" "rtFatal (wRt w') = None"
    and "clean \<Longrightarrow> tidy (rtBwj (wRt w)) (wHost w)"
  obtains cid es new where "length cid = 16"
    "journal_log (the_journal w') = journal_log (the_journal w) @ [open_entry cid] @ es @ [close_entry cid st]"
    "list_all (inside cid) es" "payloads DirectionInbound es = taken w'" "payloads DirectionOutbound es = wire w'"
    "bwj_live n (the_journal w')" "clean \<Longrightarrow> tidy (rtBwj (wRt w')) (wHost w')" "rtEvents (wRt w') = rtEvents (wRt w) @ new" "tiled sha256 (wire w') 0 0 (filter is_exchange new)"
    "in_total (filter is_exchange new) \<le> int (length (taken w'))"
    "list_all (\<lambda>e. evConnectionID e = FormatID cid \<and> evRequestComplete e) (filter is_exchange new)"
proof -
  have "Suc n + 3 = n + 4" by simp
  then obtain s w2
    where s: "length (snConnectionID s) = 16" "ended (setting_of sha256 w (snConnectionID s) True False clean) (Suc n) w2"
      "run_state (close_connection s st) w2 = ((), w')"
    using handleConnection_ended [where c = "Suc n" and watched = True and still = False and clean = clean, OF assms(1,3)] assms(2,5) by (simp only:) blast
  let ?cid = "snConnectionID s" and ?K = "setting_of sha256 w (snConnectionID s) True False clean"
  have "jsonl_own (rtJsonl (wRt w2))" using s(2) by (simp add: ended_def)
  from close_effect [OF s(3) this, of 0] assms(4) obtain j e where cl: "taken w' = taken w2" "wire w' = wire w2" "rtFatal (wRt w2) = None"
    "put_entry (close_entry ?cid st) (the_journal w2) = (None, j)" "\<And>K n. kept K n (the_journal w') = kept K n j"
    "journal_log (the_journal w') = journal_log j" "\<not> is_exchange e" "rtEvents (wRt w') = rtEvents (wRt w2) @ [e]" by auto
  then obtain es where J: "kept ?K (Suc (nat (spare ?K w2) + n)) (the_journal w2)"
    "journal_log (the_journal w2) = journal_log (the_journal w) @ [open_entry ?cid] @ es" "holds ?cid es (taken w2) (wire w2)"
    using s(2) by (auto simp: ended_def journalled_def setting_of_def)
  obtain new where ev: "rtEvents (wRt w2) = rtEvents (wRt w) @ new" "tiled sha256 (wire w2) 0 0 (filter is_exchange new)"
    "in_total (filter is_exchange new) \<le> int (length (taken w2))" "list_all (own_event ?K) (filter is_exchange new)"
    using s(2) by (fastforce simp: ended_def setting_of_def)
  have put: "kept ?K (nat (spare ?K w2) + n) j"
      "journal_log j = journal_log (the_journal w2) @ [close_entry ?cid st]"
    using kept_put [OF J(1) edge_entries(2) [OF s(1)] cl(4)] by simp_all
  have live: "bwj_live n (the_journal w')" "clean \<Longrightarrow> tidy (rtBwj (wRt w')) (wHost w')"
    using kept_less [OF put(1)] cl(5) [of ?K n] by (simp_all add: kept_def setting_of_def)
  show thesis
  proof (rule that [of ?cid es "new @ [e]"])
    show "list_all (\<lambda>e. evConnectionID e = FormatID ?cid \<and> evRequestComplete e) (filter is_exchange (new @ [e]))"
      using ev(4) cl(7) by (simp add: own_event_def [abs_def] setting_of_def)
  qed (use J(2,3) s(1) put(2) cl ev live in \<open>simp_all add: holds_def\<close>)
qed

text \<open>C1: When no error was reported to the server by the end of a connection, the journal that the
  reader recovers has grown by exactly: the connection's OPEN record, records of this connection
  whose inbound DATA payloads put together are the bytes taken from the peer and whose outbound DATA
  payloads are the bytes the peer was sent, and its CLOSE record with the reason of the end.\<close>

lemma handleConnection_journal:
  assumes "accepted w"
    and "bwj_live (nat (MaxConnectionBytes (cfLimits (rtCfg (wRt w)))) + (n + 4)) (the_journal w)"
    and "run_state (handleConnection tls lib sha256 sid sv ra la) w = (Some st, w')" "rtFatal (wRt w') = None"
  shows "\<exists>cid es. length cid = 16
    \<and> journal_log (the_journal w') = journal_log (the_journal w) @ [open_entry cid] @ es @ [close_entry cid st]
    \<and> list_all (inside cid) es \<and> payloads DirectionInbound es = taken w' \<and> payloads DirectionOutbound es = wire w'
    \<and> bwj_live n (the_journal w')"
  by (rule handleConnection_log [where clean = False, OF assms]) blast+

text \<open>On a calm host, a connection is served to its end and nothing is reported.\<close>

lemma handleConnection_smooth:
  assumes "accepted w" "calm (wHost w)" "rtFatal (wRt w) = None"
    and "bwj_live (nat (MaxConnectionBytes (cfLimits (rtCfg (wRt w)))) + (n + 4)) (the_journal w)"
  shows "\<exists>st w'. run_state (handleConnection tls lib sha256 sid sv ra la) w = (Some st, w')
    \<and> rtFatal (wRt w') = None \<and> calm (wHost w')"
proof -
  obtain st w' where run: "run_state (handleConnection tls lib sha256 sid sv ra la) w = (Some st, w')"
    using handleConnection_starts [where w = w] assms(2) unfolding calm_def by blast
  have "Suc n + 3 = n + 4" by simp
  then obtain s w2
    where s: "length (snConnectionID s) = 16" "ended (setting_of sha256 w (snConnectionID s) True True False) (Suc n) w2"
      "run_state (close_connection s st) w2 = ((), w')"
    using handleConnection_ended [where c = "Suc n" and watched = True and still = True and clean = False, OF assms(1) run] assms by (simp only:) blast
  let ?K = "setting_of sha256 w (snConnectionID s) True True False"
  have "jsonl_own (rtJsonl (wRt w2))" "calm (wHost w2)" "rtFatal (wRt w2) = None" "bwj_live (Suc (nat (spare ?K w2) + n)) (the_journal w2)"
    using s(2) by (auto simp: ended_def journalled_def kept_def setting_of_def)
  with close_effect [OF s(3) this(1), of "nat (spare ?K w2) + n"] run show ?thesis by blast
qed

text \<open>C6: When nothing on the host fails and the journal has numbers left for as many entries as the
  connection may have, a connection is served to its end, and no failure is reported to the server.\<close>

lemma handleConnection_calm:
  assumes "accepted w" "calm (wHost w)" "rtFatal (wRt w) = None"
    and "bwj_live (nat (MaxConnectionBytes (cfLimits (rtCfg (wRt w)))) + (n + 4)) (the_journal w)"
  shows "\<exists>st w'. run_state (handleConnection tls lib sha256 sid sv ra la) w = (Some st, w') \<and> rtFatal (wRt w') = None"
  using handleConnection_smooth [OF assms] by blast

text \<open>C3: Whatever happens, a connection never counts more bytes, in both directions together, than the
  configured maximum, what was sent is counted exactly, no more is counted as received than was
  received, and the connection is closed at the end.\<close>

lemma handleConnection_bytes:
  assumes "accepted w" "run_state (handleConnection tls lib sha256 sid sv ra la) w = (Some st, w')"
  shows "0 \<le> bytesIn (wCounters w') \<and> bytesIn (wCounters w') \<le> int (length (taken w'))
    \<and> bytesOut (wCounters w') = int (length (wire w'))
    \<and> bytesIn (wCounters w') + bytesOut (wCounters w') \<le> MaxConnectionBytes (cfLimits (rtCfg (wRt w)))
    \<and> ncClosed (wConn w')"
proof -
  obtain s w2 where s: "ended (setting_of sha256 w (snConnectionID s) False False False) 0 w2" "run_state (close_connection s st) w2 = ((), w')"
    using handleConnection_ended [where c = 0 and watched = False and still = False and clean = False, OF assms] by auto
  have "jsonl_own (rtJsonl (wRt w2))" using s(1) by (simp add: ended_def)
  from close_effect [OF s(2) this, of 0] s(1) show ?thesis by (auto simp: ended_def spare_def setting_of_def)
qed

text \<open>C4: The exchange events of a connection cut its streams into consecutive pieces: the first begins
  at offset 0 and each begins where the one before ended, on the request side and on the response
  side; no piece reaches past the bytes counted, and the digest in an event is the digest of the
  bytes that were sent in its piece.\<close>

lemma handleConnection_exchanges:
  assumes "accepted w" "run_state (handleConnection tls lib sha256 sid sv ra la) w = (Some st, w')"
  shows "\<exists>new. rtEvents (wRt w') = rtEvents (wRt w) @ new \<and> tiled sha256 (wire w') 0 0 (filter is_exchange new)
    \<and> in_total (filter is_exchange new) \<le> bytesIn (wCounters w')"
proof -
  obtain s w2 where s: "ended (setting_of sha256 w (snConnectionID s) False False False) 0 w2" "run_state (close_connection s st) w2 = ((), w')"
    using handleConnection_ended [where c = 0 and watched = False and still = False and clean = False, OF assms] by auto
  have "jsonl_own (rtJsonl (wRt w2))" using s(1) by (simp add: ended_def)
  from close_effect [OF s(2) this, of 0] obtain e where "wire w' = wire w2" "wCounters w' = wCounters w2" "\<not> is_exchange e"
    "rtEvents (wRt w') = rtEvents (wRt w2) @ [e]" by auto
  moreover obtain new where "rtEvents (wRt w2) = rtEvents (wRt w) @ new" "tiled sha256 (wire w2) 0 0 (filter is_exchange new)"
    "in_total (filter is_exchange new) \<le> bytesIn (wCounters w2)" using s(1) by (auto simp: ended_def setting_of_def)
  ultimately show ?thesis by (intro exI [of _ "new @ [e]"]) simp
qed


section \<open>The number of requests\<close>

lemma served_handshake [frame_intros]: "frame served (handshakeTLS tls t)"
  unfolding handshakeTLS_def by (intro frame_intros; simp)

lemma served_start: "frame served (start_transport tls s ends)"
  unfolding start_transport_def Let_def by (intro frame_intros; simp)

lemma serve_loop_served:
  "served w < max 1 (MaxRequestsPerConnection (snLimits s)) \<Longrightarrow>
     served w \<le> served (snd (serve_loop lib sha256 s w))
     \<and> served (snd (serve_loop lib sha256 s w)) \<le> max 1 (MaxRequestsPerConnection (snLimits s))"
proof (induction lib sha256 s w rule: serve_loop.induct)
  case (1 lib sha256 s w)
  obtain r w1 where r: "run_state (serve_round lib sha256 s) w = (r, w1)" by (metis surj_pair)
  have c: "served w1 = served w \<or> served w1 = served w + 1"
    "r = Inr () \<Longrightarrow> served w1 = served w + 1 \<and> served w1 < MaxRequestsPerConnection (snLimits s)"
    using serve_round_served [of s lib sha256, unfolded counts_one_def, rule_format, OF r] by blast+
  show ?case
  proof (cases r)
    case (Inl st)
    then show ?thesis using r c(1) 1(2) by (subst (1 2) serve_loop.simps) auto
  next
    case (Inr u)
    then have "served w1 = served w + 1" "served w1 < max 1 (MaxRequestsPerConnection (snLimits s))" using c(2) by auto
    moreover have "serve_loop lib sha256 s w = serve_loop lib sha256 s w1" using r Inr by (subst serve_loop.simps) simp
    ultimately show ?thesis using 1(1) [OF r [symmetric] Inr] by simp
  qed
qed

lemma serve_connection_served:
  assumes "served w = 0" "run_state (serve_connection tls lib sha256 s ra la) w = (st, w')"
  shows "0 \<le> served w' \<and> served w' \<le> max 1 (MaxRequestsPerConnection (snLimits s))"
proof -
  let ?ends = "(splitAddress ra, splitAddress la)"
  obtain err w1 where o1: "run_state (bwj_op (WriteConnectionOpen (snConnectionID s))) w = (err, w1)" by (metis surj_pair)
  have f1: "frame served (bwj_op (WriteConnectionOpen (snConnectionID s)))" by (intro frame_intros) simp
  have w1: "served w1 = 0" using frameD [OF f1 o1] assms(1) by simp
  show ?thesis
  proof (cases err)
    case (Some e)
    then have f: "run_state (rt_fail e) w1 = ((), w')" using assms(2) o1 by (auto simp: serve_connection_def split: prod.splits)
    have "frame served (rt_fail e)" by (intro frame_intros) simp
    from frameD [OF this f] w1 show ?thesis by simp
  next
    case None
    obtain w2 where e: "run_state (rt_emit (open_event s ?ends)) w1 = ((), w2)" by (metis surj_pair unit.exhaust)
    obtain r w3 where r: "run_state (start_transport tls s ?ends) w2 = (r, w3)" by (metis surj_pair)
    have w3: "served w3 = 0" using frameD [OF frame_rt(1) [OF blind_served] e] frameD [OF served_start r] w1 by simp
    show ?thesis
    proof (cases r)
      case (Inl x)
      then show ?thesis using assms(2) o1 None e r w3 by (simp add: serve_connection_def Let_def)
    next
      case (Inr x)
      obtain w4 where i: "run_state (init_reader s) w3 = ((), w4)" by (metis surj_pair unit.exhaust)
      then have "served w4 = 0" using w3 by (auto simp: init_reader_def)
      moreover have "w' = snd (serve_loop lib sha256 s w4)" using assms(2) o1 None e r Inr i
        by (simp add: serve_connection_def Let_def)
      ultimately show ?thesis using serve_loop_served [of w4 s lib sha256] by simp
    qed
  qed
qed

text \<open>C5: The handler of a connection returns, on every input and whatever the environment does, after
  at most the configured number of requests (and at least allows one).\<close>

lemma handleConnection_requests:
  assumes "run_state (handleConnection tls lib sha256 sid sv ra la) w = (Some st, w')"
  shows "0 \<le> requests (wCounters w')
    \<and> requests (wCounters w') \<le> max 1 (MaxRequestsPerConnection (cfLimits (rtCfg (wRt w))))"
proof (rule handle_parts [OF assms])
  fix s w1 w2
  assume p: "snCfg s = rtCfg (wRt w)" "wCounters w1 = \<lparr>bytesIn = 0, bytesOut = 0, requests = 0\<rparr>"
    "run_state (serve_connection tls lib sha256 s ra la) w1 = (st, w2)" "run_state (close_connection s st) w2 = ((), w')"
  have "frame served (close_connection s st)"
    unfolding close_connection_def journal_write_def snapshot_def Let_def by (intro frame_intros; simp)
  then have "served w' = served w2" using p(4) by (rule frameD)
  then show ?thesis using serve_connection_served [OF _ p(3)] p(1,2) by simp
qed


section \<open>A connection\<close>

definition get1 :: string where "get1 = ''GET / HTTP/1.1'' @ crlf @ crlf"

definition a_request :: http_request where
  "a_request = \<lparr>rqProtoMajor = 1, rqProtoMinor = 1, rqMethod = ''GET'', rqRequestURI = ''/'', rqHost = ''h'',
     rqHeader = [], rqContentLength = 0, rqTransferEncoding = [], rqClose = True, rqRawQuery = None, rqNoBody = True\<rparr>"

definition a_lib :: http_lib where
  "a_lib = \<lparr>hlRequest = \<lparr>plStep = (\<lambda>bs. if length bs < 18 then More (length bs) 4096 else Done 18 (Inr a_request)),
       plEnd = (\<lambda>bs e. (length bs, Inl e))\<rparr>,
     hlBody = (\<lambda>req m. \<lparr>plStep = (\<lambda>bs. Done 0 (0, None, [])), plEnd = (\<lambda>bs e. (0, (0, Some e, [])))\<rparr>),
     hlClose = (\<lambda>req. None)\<rparr>"

definition no_tls :: tls_lib where
  "no_tls = \<lparr>tlKeyPair = (\<lambda>p q. Inr []), tlParse = (\<lambda>b. Inr (0, 0)), tlRFC3339 = (\<lambda>t. ''''), tlHandshake = (\<lambda>c. (Inl EOF, c))\<rparr>"

definition a_conn :: net_conn where
  "a_conn = \<lparr>ncIn = bytes_of get1, ncTaken = [], ncSent = [], ncReads = [], ncWrites = [], ncDeadlines = [], ncSelects = [],
     ncClosed = False\<rparr>"

definition a_jsonl :: jsonl_writer where
  "a_jsonl = \<lparr>jwDirectory = ''j'', jwRunSessionID = run0, jwRotateSize = 0, jwRotateDuration = 0, jwMaxEventBytes = 700, jwFile = None,
      jwBuffer = empty_buffer, jwSequence = 0, jwCreatedAt = 0, jwBytesWritten = 0, jwClosed = True\<rparr>"

definition a_world :: world where
  "a_world = \<lparr>wHost = oH, wRt = \<lparr>rtCfg = cfg0, rtRunSessionID = run0, rtBwj = oW, rtJsonl = a_jsonl, rtHealthy = False, rtFatal = None,
      rtEvents = []\<rparr>, wConn = a_conn, wCounters = \<lparr>bytesIn = 0, bytesOut = 0, requests = 0\<rparr>,
     wReader = \<lparr>rrConnectionID = [], rrMaxConnBytes = 0, rrLifetimeEnd = 0, rrParserFailed = False, rrHeaderPhase = False,
       rrHeaderStarted = False, rrHeaderBytesRead = 0, rrHeaderReadCap = 0, rrHeaderTimeout = 0\<rparr>,
     wBuf = [], wPending = None, wWriter = \<lparr>xwConnectionID = [], xwRequestID = [], xwMaxConnBytes = 0, xwWriteTimeout = 0,
       xwLifetimeEnd = 0, xwStreaming = False, xwHasher = []\<rparr>, wRoutes = NewRouteState, wDone = [], wStreams = []\<rparr>"

lemma a_world_accepted: "accepted a_world"
  by (simp add: accepted_def a_world_def a_conn_def a_jsonl_def jsonl_own_def cfg0_def limits0_def)

lemma a_world_calm: "calm (wHost a_world)" "rtFatal (wRt a_world) = None"
proof -
  have "calm oH" by code_simp
  then show "calm (wHost a_world)" "rtFatal (wRt a_world) = None" by (simp_all add: a_world_def)
qed

lemma a_world_live: "bwj_live (nat (MaxConnectionBytes (cfLimits (rtCfg (wRt a_world)))) + (0 + 4)) (the_journal a_world)"
  using opened_live [of 100004] by (simp add: a_world_def cfg0_def limits0_def)

lemma a_world_starts:
  "\<exists>st w'. run_state (handleConnection no_tls a_lib id ''web'' svc0 None None) a_world = (Some st, w') \<and> rtFatal (wRt w') = None"
  using handleConnection_smooth [OF a_world_accepted a_world_calm a_world_live] by blast

text \<open>The properties at a connection that sends one GET request.\<close>

lemma handleConnection_bytes_witness:
  "\<exists>st w'. run_state (handleConnection no_tls a_lib id ''web'' svc0 None None) a_world = (Some st, w')
    \<and> bytesIn (wCounters w') + bytesOut (wCounters w') \<le> 100000 \<and> bytesOut (wCounters w') = int (length (wire w'))"
proof -
  obtain st w' where r: "run_state (handleConnection no_tls a_lib id ''web'' svc0 None None) a_world = (Some st, w')"
    using a_world_starts by blast
  from handleConnection_bytes [OF a_world_accepted r] r show ?thesis by (simp add: a_world_def cfg0_def limits0_def)
qed

lemma handleConnection_exchanges_witness:
  "\<exists>st w'. run_state (handleConnection no_tls a_lib id ''web'' svc0 None None) a_world = (Some st, w')
    \<and> tiled id (wire w') 0 0 (filter is_exchange (rtEvents (wRt w')))"
proof -
  obtain st w' where r: "run_state (handleConnection no_tls a_lib id ''web'' svc0 None None) a_world = (Some st, w')"
    using a_world_starts by blast
  from handleConnection_exchanges [OF a_world_accepted r] r show ?thesis by (auto simp: a_world_def)
qed

lemma handleConnection_requests_witness:
  "\<exists>st w'. run_state (handleConnection no_tls a_lib id ''web'' svc0 None None) a_world = (Some st, w')
    \<and> 0 \<le> requests (wCounters w') \<and> requests (wCounters w') \<le> max 1 100"
proof -
  obtain st w' where r: "run_state (handleConnection no_tls a_lib id ''web'' svc0 None None) a_world = (Some st, w')"
    using a_world_starts by blast
  from handleConnection_requests [OF r] r show ?thesis by (simp add: a_world_def cfg0_def limits0_def)
qed

lemma handleConnection_journal_witness:
  "\<exists>st w' cid es. run_state (handleConnection no_tls a_lib id ''web'' svc0 None None) a_world = (Some st, w')
    \<and> journal_log (the_journal w') = [open_entry cid] @ es @ [close_entry cid st] \<and> payloads DirectionInbound es = taken w'"
proof -
  obtain st w' where r: "run_state (handleConnection no_tls a_lib id ''web'' svc0 None None) a_world = (Some st, w')"
      "rtFatal (wRt w') = None" using a_world_starts by blast
  have "journal_log (the_journal a_world) = []" using opened_inv journal_inv_single(2) [of oW oH _ 0] by (auto simp: a_world_def)
  with handleConnection_journal [OF a_world_accepted a_world_live r] r(1) show ?thesis by auto
qed

lemma handleConnection_calm_witness:
  "\<exists>st w'. run_state (handleConnection no_tls a_lib id ''web'' svc0 None None) a_world = (Some st, w') \<and> rtFatal (wRt w') = None"
  by (rule handleConnection_calm [OF a_world_accepted a_world_calm a_world_live])

end
