(* ===== verification/Index_Spec.thy ===== *)
theory Index_Spec
  imports Index Conn_Spec
begin

text \<open>
  What the offline index guarantees: the streams it reconstructs are the payloads of the journal that
  the engine wrote, the exchange events of the engine pass its checks, every exchange row refers to a
  connection row, and the lines of the event log are read back as they were written.
\<close>

section \<open>The streams of a connection\<close>

text \<open>The entries of a connection in what was read from one file.\<close>

definition entries_of :: "stream_key \<Rightarrow> read_result \<Rightarrow> entry list" where
  "entries_of key res = (if FormatID (RunSessionID (Header res)) = fst key
     then map entry_of (filter (\<lambda>r. FormatID (ConnectionID r) = snd key) (Records res)) else [])"

definition grown :: "streams \<Rightarrow> entry list \<Rightarrow> streams" where
  "grown s es = \<lparr>siInbound = siInbound s @ payloads DirectionInbound es, siOutbound = siOutbound s @ payloads DirectionOutbound es\<rparr>"

lemma grown_simps [simp]: "grown s [] = s" "grown (grown s es) fs = grown s (es @ fs)"
  by (simp_all add: grown_def payloads_def)

lemma stream_of_empty [simp]: "stream_of Map.empty key = \<lparr>siInbound = [], siOutbound = []\<rparr>"
  by (simp add: stream_of_def)

lemma payloads_Cons:
  "payloads d (e # es) = (if eType e = RecordData \<and> eDirection e = d then ePayload e else []) @ payloads d es"
  by (simp add: payloads_def)

lemma stream_of_add_record:
  "stream_of (add_record run r m) key = (if key = (run, FormatID (ConnectionID r)) then grown (stream_of m key) [entry_of r]
     else stream_of m key)"
  by (cases key) (auto simp: add_record_def stream_of_def grown_def payloads_Cons payloads_def entry_of_def Let_def)

lemma stream_of_add_records:
  "stream_of (fold (add_record run) rs m) key = (if fst key = run
     then grown (stream_of m key) (map entry_of (filter (\<lambda>r. FormatID (ConnectionID r) = snd key) rs)) else stream_of m key)"
  by (induction rs arbitrary: m) (auto simp: stream_of_add_record)

lemma stream_of_add_files:
  "stream_of (fold add_file items m) key = grown (stream_of m key) (concat (map (entries_of key) items))"
  by (induction items arbitrary: m) (auto simp: add_file_def stream_of_add_records entries_of_def)

lemma entries_of_run:
  "concat (map (entries_of key) items)
    = concat (map (entries_of key) (filter (\<lambda>res. FormatID (RunSessionID (Header res)) = fst key) items))"
  by (induction items) (auto simp: entries_of_def)

section \<open>The files of a run\<close>

lemma read_at_rest [simp]: "opened_file (at_rest h) p = Inr (content p h)" "efEnd (at_rest h) p = EOF"
  by (simp_all add: opened_file_def at_rest_def content_def)

lemma read_journals_rest:
  "(\<forall>p \<in> set ps. \<exists>res. journal_of p h = Inr res) \<Longrightarrow> read_journals (at_rest h) ps = Inr (map (\<lambda>p. projr (journal_of p h)) ps)"
  by (induction ps) auto

lemma glob_set: "set (glob matches d (at_rest h)) = {(d, name) | name. exists_file (d, name) h \<and> matches name}"
proof -
  have "(d, name) \<in> fst ` set (files h) \<and> matches name \<longleftrightarrow>
      name \<in> snd ` set (filter (\<lambda>p. fst p = d \<and> matches (snd p)) (map fst (files h)))" for name
  proof -
    have "(d, name) \<in> F \<and> matches name \<longleftrightarrow> name \<in> snd ` {p \<in> F. fst p = d \<and> matches (snd p)}" for F
      by force
    then show ?thesis by simp
  qed
  then show ?thesis by (auto simp: glob_def at_rest_def exists_file_def)
qed

lemma glob_distinct: "distinct (glob matches d fs)"
  by (simp add: glob_def distinct_map inj_on_def)

lemma bwj_file_name: "bwj_file (bwj_name run s)"
proof -
  have "suffix ''.bwj'' (bwj_name run s)"
    unfolding bwj_name_def suffix_def by (metis append.assoc)
  then show ?thesis by (simp add: bwj_file_def bwj_name_def prefix_def)
qed

text \<open>What a tidy directory (theory Tidy) holds.\<close>

lemma tidyD:
  assumes "tidy w h" "p \<in> set (glob bwj_file (bwDirectory w) (at_rest h))"
  shows "(\<exists>i < unat (bwFileSequence w). p = bwj_path w i) \<or> (\<exists>res. journal_of p h = Inr res \<and> RunSessionID (Header res) \<noteq> bwRunSessionID w)"
  using assms by (fastforce simp: tidy_def glob_set own_files_def)

lemma journal_file_read:
  assumes "good_file run i f" "content p h = file_bytes f"
  shows "journal_of p h = Inr \<lparr>Header = fst f, Records = snd f, TruncatedTail = False\<rparr>"
proof -
  let ?k = "64 + length (encode_records (snd f))"
  have f: "good_header (fst f)" "ascending 0 (snd f)" using assms(1) by (simp_all add: good_file_def)
  have "content p h = take ?k (encode_header (fst f) @ encode_records (snd f))"
    using assms(2) length_encode_header [OF f(1)] by (simp add: file_bytes_def)
  moreover have "complete (?k - 64) (snd f) = snd f" using complete_append [of "snd f" 0 "[]"] by simp
  ultimately show ?thesis using ReadBWJFile_encoded [OF f(1) _ _ f(2), of ?k] by simp
qed

lemma run_items:
  assumes inv: "journal_inv w h J" and tidy: "tidy w h"
    and ps: "ps = glob bwj_file (bwDirectory w) (at_rest h)"
  shows "\<forall>p \<in> set ps. \<exists>res. journal_of p h = Inr res"
    and "filter (\<lambda>res. FormatID (RunSessionID (Header res)) = FormatID (bwRunSessionID w))
        (sort_key journal_order (map (\<lambda>p. projr (journal_of p h)) ps))
      = map (\<lambda>f. \<lparr>Header = fst f, Records = snd f, TruncatedTail = False\<rparr>) J"
proof -
  let ?run = "bwRunSessionID w" and ?res = "\<lambda>f. \<lparr>Header = fst f, Records = snd f, TruncatedTail = False\<rparr>"
  have len: "length ?run = 16" "length J < 2 ^ 64" "unat (bwFileSequence w) = length J" and jf: "journal_files w h J"
    using inv by (simp_all add: journal_inv_def unat_of_nat)
  have own: "journal_of (bwj_path w i) h = Inr (?res (J ! i))" "exists_file (bwj_path w i) h"
      "RunSessionID (fst (J ! i)) = ?run" "FileSequence (fst (J ! i)) = of_nat (Suc i)" if "i < length J" for i
  proof -
    have f: "good_file ?run i (J ! i)" "content (bwj_path w i) h = file_bytes (J ! i)" "exists_file (bwj_path w i) h"
      using journal_filesD [OF jf that] by auto
    show "journal_of (bwj_path w i) h = Inr (?res (J ! i))" by (rule journal_file_read [OF f(1,2)])
    show "exists_file (bwj_path w i) h" "RunSessionID (fst (J ! i)) = ?run" "FileSequence (fst (J ! i)) = of_nat (Suc i)"
      using f by (simp_all add: good_file_def)
  qed
  show all: "\<forall>p \<in> set ps. \<exists>res. journal_of p h = Inr res"
    using tidyD [OF tidy] own(1) len(3) unfolding ps by fastforce
  have ids: "FormatID (RunSessionID (Header res)) = FormatID ?run \<longleftrightarrow> RunSessionID (Header res) = ?run"
    if "journal_of p h = Inr res" for p res
    using ReadBWJFile_inv [OF that] FormatID_inj len(1) by (auto simp: good_header_def)
  define mine where "mine = filter (\<lambda>p. p \<in> bwj_path w ` {..<length J}) ps"
  have "filter (\<lambda>p. FormatID (RunSessionID (Header (projr (journal_of p h)))) = FormatID ?run) ps = mine"
    unfolding mine_def
  proof (rule filter_cong [OF refl])
    fix p assume p: "p \<in> set ps"
    then obtain res where r: "journal_of p h = Inr res" using all by blast
    show "FormatID (RunSessionID (Header (projr (journal_of p h)))) = FormatID ?run \<longleftrightarrow> p \<in> bwj_path w ` {..<length J}"
    proof
      assume "FormatID (RunSessionID (Header (projr (journal_of p h)))) = FormatID ?run"
      then have "RunSessionID (Header res) = ?run" using ids [OF r] r by simp
      then show "p \<in> bwj_path w ` {..<length J}" using tidyD [OF tidy] p r len(3) unfolding ps by fastforce
    next
      assume "p \<in> bwj_path w ` {..<length J}"
      then obtain i where "i < length J" "p = bwj_path w i" by auto
      then show "FormatID (RunSessionID (Header (projr (journal_of p h)))) = FormatID ?run" using own(1,3) by simp
    qed
  qed
  then have f: "filter (\<lambda>res. FormatID (RunSessionID (Header res)) = FormatID ?run) (map (\<lambda>p. projr (journal_of p h)) ps)
      = map (\<lambda>p. projr (journal_of p h)) mine" by (simp add: filter_map comp_def)
  have "mset mine = mset (map (bwj_path w) [0..<length J])"
  proof (rule iffD1 [OF set_eq_iff_mset_eq_distinct])
    show "distinct mine" by (simp add: mine_def ps glob_distinct)
    have "inj_on (bwj_path w) {0..<length J}"
      using len(2) bwj_path_inj [of _ _ w] by (intro inj_onI) simp
    then show "distinct (map (bwj_path w) [0..<length J])" by (simp add: distinct_map)
    have "bwj_path w i \<in> set ps" if "i < length J" for i
      using own(2) [OF that] by (simp add: ps glob_set bwj_path_def bwj_file_name)
    then show "set mine = set (map (bwj_path w) [0..<length J])" by (auto simp: mine_def)
  qed
  then have "mset (map (\<lambda>p. projr (journal_of p h)) mine) = mset (map (\<lambda>p. projr (journal_of p h)) (map (bwj_path w) [0..<length J]))"
    by (simp only: mset_map [of _ mine] mset_map [of _ "map (bwj_path w) [0..<length J]"])
  moreover have "map (\<lambda>p. projr (journal_of p h)) (map (bwj_path w) [0..<length J]) = map ?res J"
  proof (rule nth_equalityI)
    fix i assume "i < length (map (\<lambda>p. projr (journal_of p h)) (map (bwj_path w) [0..<length J]))"
    then have "i < length J" by simp
    then show "map (\<lambda>p. projr (journal_of p h)) (map (bwj_path w) [0..<length J]) ! i = map ?res J ! i"
      using own(1) [of i] by (simp del: map_map)
  qed simp
  ultimately have m: "mset (map (\<lambda>p. projr (journal_of p h)) mine) = mset (map ?res J)" by (simp only:)
  have key: "journal_order (?res (J ! i)) = (FormatID ?run, of_nat (Suc i))" if "i < length J" for i
    using own [OF that] by (simp add: journal_order_def)
  have mono: "(of_nat (Suc i) :: u64) < of_nat (Suc j)" if "i < j" "j < length J" for i j
    using that len(2) by (simp add: word_less_nat_alt unat_of_nat del: of_nat_Suc)
  have "sort_key journal_order (map (\<lambda>p. projr (journal_of p h)) mine) = map ?res J"
  proof (rule sort_key_inj_key_eq [OF m])
    have "sorted_wrt (<) (map journal_order (map ?res J))"
      using key mono by (simp add: sorted_wrt_iff_nth_less less_prod_def)
    then have "distinct (map journal_order (map ?res J))" "sorted (map journal_order (map ?res J))"
      using strict_sorted_iff by blast+
    then show "sorted (map journal_order (map ?res J))" "inj_on journal_order (set (map (\<lambda>p. projr (journal_of p h)) mine))"
      using mset_eq_setD [OF m] by (simp_all only: distinct_map)
  qed
  then show "filter (\<lambda>res. FormatID (RunSessionID (Header res)) = FormatID ?run) (sort_key journal_order (map (\<lambda>p. projr (journal_of p h)) ps))
      = map ?res J" by (simp add: filter_sort f)
qed


section \<open>The index reconstructs the journal\<close>

definition connection_log :: "ID \<Rightarrow> entry list \<Rightarrow> entry list" where
  "connection_log cid es = filter (\<lambda>e. eConnection e = cid) es"

lemma ascending_ids: "ascending s rs \<Longrightarrow> r \<in> set rs \<Longrightarrow> length (ConnectionID r) = 16"
  by (induction s rs rule: ascending.induct) (auto simp: good_record_def)

lemma reconstructed:
  assumes live: "bwj_live n (w, h)" and tidy: "tidy w h"
  shows "\<exists>m. reconstructStreams (at_rest h) (bwDirectory w) = Inr m
    \<and> (\<forall>cid. length cid = 16 \<longrightarrow> stream_of m (FormatID (bwRunSessionID w), FormatID cid)
        = \<lparr>siInbound = payloads DirectionInbound (connection_log cid (journal_log (w, h))),
           siOutbound = payloads DirectionOutbound (connection_log cid (journal_log (w, h)))\<rparr>)"
proof -
  obtain J where inv: "journal_inv w h J" using live by (auto simp: bwj_live_def)
  let ?ps = "glob bwj_file (bwDirectory w) (at_rest h)" and ?run = "FormatID (bwRunSessionID w)"
  let ?items = "map (\<lambda>p. projr (journal_of p h)) ?ps"
  note items = run_items [OF inv tidy refl]
  define m where "m = fold add_file (sort_key journal_order ?items) Map.empty"
  have "reconstructStreams (at_rest h) (bwDirectory w) = Inr m"
    using read_journals_rest [OF items(1)] by (simp add: reconstructStreams_def m_def)
  moreover have "stream_of m (?run, FormatID cid) = grown \<lparr>siInbound = [], siOutbound = []\<rparr> (connection_log cid (journal_log (w, h)))"
    if cid: "length cid = 16" for cid
  proof -
    have same: "FormatID (ConnectionID r) = FormatID cid \<longleftrightarrow> ConnectionID r = cid" if "f \<in> set J" "r \<in> set (snd f)" for f r
    proof -
      obtain i where "i < length J" "f = J ! i" using \<open>f \<in> set J\<close> by (metis in_set_conv_nth)
      then have "ascending 0 (snd f)" using inv journal_filesD [of w h J i] by (simp add: journal_inv_def good_file_def)
      then show ?thesis using ascending_ids [OF _ that(2)] FormatID_inj [OF _ cid] by blast
    qed
    have "concat (map (entries_of (?run, FormatID cid)) (sort_key journal_order ?items))
        = concat (map (entries_of (?run, FormatID cid)) (map (\<lambda>f. \<lparr>Header = fst f, Records = snd f, TruncatedTail = False\<rparr>) J))"
      by (subst entries_of_run) (simp add: items(2))
    also have "\<dots> = concat (map (\<lambda>f. connection_log cid (map entry_of (snd f))) J)"
    proof (simp only: map_map, rule arg_cong [where f = concat], rule map_cong [OF refl])
      fix f assume f: "f \<in> set J"
      then obtain i where "i < length J" "f = J ! i" by (metis in_set_conv_nth)
      then have "RunSessionID (fst f) = bwRunSessionID w" using inv journal_filesD [of w h J i] by (simp add: journal_inv_def good_file_def)
      then show "(entries_of (?run, FormatID cid) \<circ> (\<lambda>f. \<lparr>Header = fst f, Records = snd f, TruncatedTail = False\<rparr>)) f
          = connection_log cid (map entry_of (snd f))"
        using same [OF f] by (simp add: entries_of_def connection_log_def filter_map comp_def entry_of_def cong: filter_cong)
    qed
    also have "\<dots> = connection_log cid (Jlog J)" by (simp add: Jlog_def connection_log_def filter_concat comp_def)
    finally show ?thesis using journal_inv_nonfatal [OF inv] by (simp add: m_def stream_of_add_files)
  qed
  ultimately show ?thesis by (auto simp: grown_def)
qed

text \<open>C20: The index reconstructs the journal: for a directory in which the files of the run are those of a
  sound journal, the streams of every connection are the payloads of its inbound and of its outbound
  DATA records, in the order they were acknowledged.\<close>

lemma reconstructStreams_journal:
  assumes "bwj_live n (w, h)" "tidy w h" "length cid = 16"
  shows "\<exists>m. reconstructStreams (at_rest h) (bwDirectory w) = Inr m
    \<and> siInbound (stream_of m (FormatID (bwRunSessionID w), FormatID cid))
        = payloads DirectionInbound (connection_log cid (journal_log (w, h)))
    \<and> siOutbound (stream_of m (FormatID (bwRunSessionID w), FormatID cid))
        = payloads DirectionOutbound (connection_log cid (journal_log (w, h)))"
  using reconstructed [OF assms(1,2)] assms(3) by fastforce



section \<open>The index accepts what the engine wrote\<close>

text \<open>What the pieces of a tiling are.\<close>

lemma tiled_in:
  "tiled sha256 sent a b es \<Longrightarrow> 0 \<le> a \<Longrightarrow> 0 \<le> b \<Longrightarrow> e \<in> set es \<Longrightarrow>
     0 \<le> evRequestStreamStart e \<and> 0 \<le> evRequestStreamLength e \<and> evRequestStreamStart e + evRequestStreamLength e \<le> a + in_total es
     \<and> 0 \<le> evResponseStreamStart e \<and> 0 \<le> evResponseStreamLength e
     \<and> evResponseStreamStart e + evResponseStreamLength e \<le> int (length sent)
     \<and> evResponseSHA256 e = hex_encode (sha256 (slice sent (evResponseStreamStart e) (evResponseStreamLength e)))"
proof (induction es arbitrary: a b)
  case (Cons x es)
  have tot: "0 \<le> in_total es" using Cons.prems(1) tiled_totals by auto
  show ?case
  proof (cases "e = x")
    case True
    then show ?thesis using Cons.prems tot by (simp add: in_total_def)
  next
    case False
    then show ?thesis using Cons.IH [of "a + evRequestStreamLength x" "b + evResponseStreamLength x"] Cons.prems
      by (simp add: in_total_def add.assoc)
  qed
qed simp

lemma slice_ok:
  "0 \<le> a \<Longrightarrow> 0 \<le> n \<Longrightarrow> a + n \<le> int (length bs) \<Longrightarrow> streamSliceSHA256 sha256 bs a n = Inr (hex_encode (sha256 (slice bs a n)))"
  by (simp add: streamSliceSHA256_def slice_def)

lemma connection_log_fresh:
  assumes "\<forall>x \<in> set old. eConnection x \<noteq> cid" "list_all (inside cid) es"
  shows "payloads d (connection_log cid (old @ [open_entry cid] @ es @ [close_entry cid st])) = payloads d es"
proof -
  have "filter (\<lambda>x. eConnection x = cid) old = []" "filter (\<lambda>x. eConnection x = cid) es = es"
    using assms by (auto simp: filter_empty_conv filter_id_conv list_all_iff inside_def)
  then show ?thesis by (simp add: connection_log_def payloads_Cons payloads_def open_entry_def close_entry_def)
qed

lemma decorated:
  assumes "run_state (decorateEvent e) w = (e', w')"
  shows "evRunSessionID e' = FormatID (rtRunSessionID (wRt w)) \<and> evConnectionID e' = evConnectionID e
    \<and> evRequestComplete e' = evRequestComplete e \<and> evResponseSHA256 e' = evResponseSHA256 e
    \<and> evRequestStreamStart e' = evRequestStreamStart e \<and> evRequestStreamLength e' = evRequestStreamLength e
    \<and> evResponseStreamStart e' = evResponseStreamStart e \<and> evResponseStreamLength e' = evResponseStreamLength e"
  using assms by (auto simp: decorateEvent_def on_host_def split: prod.splits if_splits)

text \<open>C2: The index accepts what the engine wrote: when a connection ended without a failure, the streams
  reconstructed from the journal contain every piece its exchange events name, every check of the
  index passes on those events as they were written, and the digest the index computes for a request
  is that of the bytes of the request as they were received.\<close>

lemma handleConnection_indexed:
  assumes "accepted w"
    and "bwj_live (nat (MaxConnectionBytes (cfLimits (rtCfg (wRt w)))) + (n + 4)) (the_journal w)"
    and "run_state (handleConnection tls lib sha256 sid sv ra la) w = (Some st, w')" "rtFatal (wRt w') = None"
    and "tidy (rtBwj (wRt w)) (wHost w)"
  shows "\<exists>m new. reconstructStreams (at_rest (wHost w')) (bwDirectory (rtBwj (wRt w'))) = Inr m
    \<and> rtEvents (wRt w') = rtEvents (wRt w) @ new
    \<and> (\<forall>e e' w1 w2. e \<in> set new \<and> is_exchange e \<and> run_state (decorateEvent e) w1 = (e', w2)
        \<and> rtRunSessionID (wRt w1) = bwRunSessionID (rtBwj (wRt w'))
        \<and> (\<forall>x \<in> set (journal_log (the_journal w)). FormatID (eConnection x) \<noteq> evConnectionID e)
      \<longrightarrow> check_exchange sha256 m \<lparr>xrEvent = e', xrRequestSHA256 = ''''\<rparr>
          = Inr \<lparr>xrEvent = e', xrRequestSHA256 =
              hex_encode (sha256 (slice (taken w') (evRequestStreamStart e) (evRequestStreamLength e)))\<rparr>)"
proof (rule handleConnection_log [where clean = True, OF assms])
  fix cid es new
  assume cid: "length cid = 16"
    and log: "journal_log (the_journal w') = journal_log (the_journal w) @ [open_entry cid] @ es @ [close_entry cid st]"
    and es: "list_all (inside cid) es" "payloads DirectionInbound es = taken w'" "payloads DirectionOutbound es = wire w'"
    and live: "bwj_live n (the_journal w')" "True \<Longrightarrow> tidy (rtBwj (wRt w')) (wHost w')" and new: "rtEvents (wRt w') = rtEvents (wRt w) @ new"
    and tiled: "tiled sha256 (wire w') 0 0 (filter is_exchange new)" and total: "in_total (filter is_exchange new) \<le> int (length (taken w'))"
    and own: "list_all (\<lambda>e. evConnectionID e = FormatID cid \<and> evRequestComplete e) (filter is_exchange new)"
  obtain m where m: "reconstructStreams (at_rest (wHost w')) (bwDirectory (rtBwj (wRt w'))) = Inr m"
    "stream_of m (FormatID (bwRunSessionID (rtBwj (wRt w'))), FormatID cid)
       = \<lparr>siInbound = payloads DirectionInbound (connection_log cid (journal_log (the_journal w'))),
          siOutbound = payloads DirectionOutbound (connection_log cid (journal_log (the_journal w')))\<rparr>"
    using reconstructed [OF live(1) live(2) [OF TrueI]] cid by blast
  have "check_exchange sha256 m \<lparr>xrEvent = e', xrRequestSHA256 = ''''\<rparr> = Inr \<lparr>xrEvent = e', xrRequestSHA256 =
      hex_encode (sha256 (slice (taken w') (evRequestStreamStart e) (evRequestStreamLength e)))\<rparr>"
    if e: "e \<in> set new" "is_exchange e" and d: "run_state (decorateEvent e) w1 = (e', w2)"
      and run: "rtRunSessionID (wRt w1) = bwRunSessionID (rtBwj (wRt w'))"
      and fresh: "\<forall>x \<in> set (journal_log (the_journal w)). FormatID (eConnection x) \<noteq> evConnectionID e" for e e' w1 w2
  proof -
    have id: "evConnectionID e = FormatID cid" "evRequestComplete e" using own e by (auto simp: list_all_iff)
    have "\<forall>x \<in> set (journal_log (the_journal w)). eConnection x \<noteq> cid" using fresh id by auto
    then have s: "stream_of m (FormatID (bwRunSessionID (rtBwj (wRt w'))), FormatID cid)
        = \<lparr>siInbound = taken w', siOutbound = wire w'\<rparr>"
      using m(2) connection_log_fresh [OF _ es(1)] log es(2,3) by simp
    have t: "0 \<le> evRequestStreamStart e" "0 \<le> evRequestStreamLength e"
        "evRequestStreamStart e + evRequestStreamLength e \<le> int (length (taken w'))"
        "0 \<le> evResponseStreamStart e" "0 \<le> evResponseStreamLength e"
        "evResponseStreamStart e + evResponseStreamLength e \<le> int (length (wire w'))"
        "evResponseSHA256 e = hex_encode (sha256 (slice (wire w') (evResponseStreamStart e) (evResponseStreamLength e)))"
      using tiled_in [OF tiled _ _ , of e] e total by auto
    show ?thesis using decorated [OF d] id run
      by (simp add: check_exchange_def Let_def s slice_ok [OF t(1-3)] slice_ok [OF t(4-6)] t(7))
  qed
  with m(1) new show ?thesis by blast
qed

section \<open>A tidy directory\<close>

lemma opened_tidy: "tidy oW oH"
proof -
  have f: "map fst (files oH) = [(''d'', bwj_name run0 1)]" by code_simp
  have w: "bwDirectory oW = ''d''" "bwRunSessionID oW = run0" "bwFileSequence oW = 1" by code_simp+
  have "exists_file p oH \<longleftrightarrow> p = (''d'', bwj_name run0 1)" for p
    using f by (metis exists_file_def list.set_map list.simps(15) singleton_iff empty_set)
  then show ?thesis by (auto simp: tidy_def own_files_def w bwj_path_def)
qed

text \<open>Three bytes that were written are read back by the index.\<close>

lemma reconstructStreams_journal_witness:
  "\<exists>w h m. WriteData run0 zero_id DirectionInbound 0 [1, 2, 3] oW oH = (None, w, h)
    \<and> reconstructStreams (at_rest h) (bwDirectory w) = Inr m
    \<and> siInbound (stream_of m (FormatID (bwRunSessionID w), FormatID run0)) = [1, 2, 3]"
proof -
  have ok: "fst (WriteData run0 zero_id DirectionInbound 0 [1, 2, 3] oW oH) = None" by code_simp
  then obtain w h where wr: "WriteData run0 zero_id DirectionInbound 0 [1, 2, 3] oW oH = (None, w, h)"
    by (cases "WriteData run0 zero_id DirectionInbound 0 [1, 2, 3] oW oH") auto
  have c: "chunks [1, 2, 3 :: byte] = [[1, 2, 3]]" by (subst chunks.simps) (simp add: chunks.simps)
  have live: "bwj_live (length (chunks [1, 2, 3]) + 0) (oW, oH)" using opened_live [of 1] by (simp add: c)
  have ids: "length run0 = 16" "length zero_id = 16" by (simp_all add: run0_def)
  have old: "journal_log (oW, oH) = []" using opened_inv journal_inv_single(2) [of oW oH _ 0] by auto
  have log: "bwj_live 0 (w, h)" "journal_log (w, h) = [Entry RecordData DirectionInbound 0 run0 zero_id [1, 2, 3]]"
    using WriteData_log [OF live ids wr] by (simp_all add: old data_entries_def c)
  have "tidy w h" by (rule onward_tidy [OF WriteData_onward [OF live ids wr] opened_tidy])
  from reconstructStreams_journal [OF log(1) this ids(1)] wr log(2) show ?thesis
    by (auto simp: connection_log_def payloads_Cons payloads_def)
qed

text \<open>One GET request: its exchange passes the checks of the index.\<close>

lemma handleConnection_indexed_witness:
  "\<exists>st w' m new. run_state (handleConnection no_tls a_lib id ''web'' svc0 None None) a_world = (Some st, w')
    \<and> reconstructStreams (at_rest (wHost w')) (bwDirectory (rtBwj (wRt w'))) = Inr m \<and> rtEvents (wRt w') = new
    \<and> (\<forall>e e' w1 w2. e \<in> set new \<and> is_exchange e \<and> run_state (decorateEvent e) w1 = (e', w2)
        \<and> rtRunSessionID (wRt w1) = bwRunSessionID (rtBwj (wRt w'))
      \<longrightarrow> (\<exists>x. check_exchange id m \<lparr>xrEvent = e', xrRequestSHA256 = ''''\<rparr> = Inr x))"
proof -
  obtain st w' where r: "run_state (handleConnection no_tls a_lib id ''web'' svc0 None None) a_world = (Some st, w')"
      "rtFatal (wRt w') = None" using a_world_starts by blast
  have "journal_log (the_journal a_world) = []" using opened_inv journal_inv_single(2) [of oW oH _ 0] by (auto simp: a_world_def)
  moreover have "tidy (rtBwj (wRt a_world)) (wHost a_world)" using opened_tidy by (simp add: a_world_def)
  moreover have "rtEvents (wRt a_world) = []" by (simp add: a_world_def)
  ultimately show ?thesis using handleConnection_indexed [OF a_world_accepted a_world_live r] r by fastforce
qed

section \<open>Rows\<close>

text \<open>The rows of the connections are filed under their own identifiers.\<close>

definition filed :: "connection_rows \<Rightarrow> bool" where
  "filed cs \<longleftrightarrow> (\<forall>k r. map_of cs k = Some r \<longrightarrow> crConnectionID r = k)"

lemma filed_update: "filed cs \<Longrightarrow> crConnectionID r = k \<Longrightarrow> filed (AList.update k r cs)"
  by (simp add: filed_def update_conv)

lemma closed_row_id: "crConnectionID row \<in> {'''', evConnectionID e} \<Longrightarrow> crConnectionID (closed_row e row) = evConnectionID e"
  by (auto simp: closed_row_def Let_def identified_row_def)

lemma index_event_filed:
  assumes "filed (fst st)"
  shows "filed (fst (index_event e st))"
proof -
  obtain cs xs where st: "st = (cs, xs)" by (metis surj_pair)
  have "crConnectionID (case map_of cs (evConnectionID e) of None \<Rightarrow> zero_row | Some r \<Rightarrow> r) \<in> {'''', evConnectionID e}"
    using assms by (auto simp: st filed_def zero_row_def split: option.split)
  moreover have "crConnectionID (opened_row e) = evConnectionID e" by (simp add: opened_row_def identified_row_def)
  ultimately show ?thesis using assms
    by (auto simp: index_event_def st Let_def intro!: filed_update closed_row_id split: prod.split)
qed

lemma index_lines_filed: "index_lines unmarshal p ls st = Inr st' \<Longrightarrow> filed (fst st) \<Longrightarrow> filed (fst st')"
proof (induction ls arbitrary: st)
  case (Cons l ls)
  then obtain e where "index_lines unmarshal p ls (index_event e st) = Inr st'" by (auto split: sum.splits)
  then show ?case using Cons.IH index_event_filed [OF Cons.prems(2)] by blast
qed simp

lemma index_file_filed: "index_file unmarshal fs p st = Inr st' \<Longrightarrow> filed (fst st) \<Longrightarrow> filed (fst st')"
  by (auto simp: index_file_def split: sum.splits prod.splits if_splits option.splits dest: index_lines_filed)

lemma index_files_filed: "index_files unmarshal fs ps st = Inr st' \<Longrightarrow> filed (fst st) \<Longrightarrow> filed (fst st')"
  by (induction ps arbitrary: st) (auto split: sum.splits dest: index_file_filed)

lemma ensure_row_filed: "filed cs \<Longrightarrow> filed (ensure_row e cs)"
  by (auto simp: ensure_row_def identified_row_def intro!: filed_update)

lemma ensure_row_has: "map_of (ensure_row e cs) (evConnectionID e) \<noteq> None"
    "map_of cs k \<noteq> None \<Longrightarrow> map_of (ensure_row e cs) k \<noteq> None"
  by (auto simp: ensure_row_def update_conv)

lemma check_exchange_event: "check_exchange sha256 m x = Inr x' \<Longrightarrow> xrEvent x' = xrEvent x"
  by (auto simp: check_exchange_def Let_def split: if_splits sum.splits)

lemma check_exchanges_rows:
  "check_exchanges sha256 m xs cs = Inr (xs', cs') \<Longrightarrow> filed cs \<Longrightarrow> filed cs' \<and> map xrEvent xs' = map xrEvent xs
    \<and> (\<forall>k. map_of cs k \<noteq> None \<longrightarrow> map_of cs' k \<noteq> None) \<and> (\<forall>x \<in> set xs. map_of cs' (evConnectionID (xrEvent x)) \<noteq> None)"
proof (induction xs arbitrary: cs xs' cs')
  case (Cons x xs)
  obtain x' ys where s: "check_exchange sha256 m x = Inr x'" "check_exchanges sha256 m xs (ensure_row (xrEvent x) cs) = Inr (ys, cs')"
    "xs' = x' # ys" using Cons.prems(1) by (auto split: sum.splits)
  have "filed (ensure_row (xrEvent x) cs)" by (rule ensure_row_filed [OF Cons.prems(2)])
  from Cons.IH [OF s(2) this] show ?case using s(3) check_exchange_event [OF s(1)] ensure_row_has by auto
qed auto

lemma statement_values: "connection_values r ! 0 = Text (crConnectionID r)" "exchange_values x ! Suc 0 = Text (evConnectionID (xrEvent x))"
  by (simp_all add: connection_values_def exchange_values_def Let_def)

text \<open>C22: Every exchange row the index writes names a connection whose row it wrote before, as the foreign
  key of the schema asks, also when the event log has no record of that connection; and there is one
  exchange row for every exchange event.\<close>

lemma index_statements_refer:
  assumes "readStructuredEvents unmarshal fs directory = Inr (cs, xs)" "check_exchanges sha256 m xs cs = Inr (xs', cs')"
  shows "let stmts = index_statements cs' xs' in
    length (filter (\<lambda>s. \<exists>vs. s = InsertExchange vs) stmts) = length xs
    \<and> (\<forall>i vs. i < length stmts \<and> stmts ! i = InsertExchange vs \<longrightarrow>
         (\<exists>j ws. j < i \<and> stmts ! j = InsertConnection ws \<and> ws ! 0 = vs ! 1))"
proof -
  have "filed (fst ([] :: connection_rows, [] :: exchange_row list))" by (simp add: filed_def)
  with assms(1) have "filed cs" using index_files_filed unfolding readStructuredEvents_def by fastforce
  from check_exchanges_rows [OF assms(2) this] have f: "filed cs'" and ev: "map xrEvent xs' = map xrEvent xs"
    and has: "\<forall>x \<in> set xs. map_of cs' (evConnectionID (xrEvent x)) \<noteq> None" by auto
  define A where "A = map (\<lambda>id. InsertConnection (connection_values (the (map_of cs' id)))) (sort (map fst cs'))"
  define B where "B = map (InsertExchange \<circ> exchange_values) xs'"
  have st: "index_statements cs' xs' = A @ B" by (simp add: index_statements_def A_def B_def)
  have "filter (\<lambda>s. \<exists>vs. s = InsertExchange vs) A = []" "filter (\<lambda>s. \<exists>vs. s = InsertExchange vs) B = B"
    by (auto simp: A_def B_def filter_empty_conv filter_id_conv)
  moreover have "length B = length xs" using arg_cong [OF ev, of length] by (simp add: B_def)
  moreover have "\<exists>j ws. j < i \<and> (A @ B) ! j = InsertConnection ws \<and> ws ! 0 = vs ! 1"
    if i: "i < length (A @ B)" "(A @ B) ! i = InsertExchange vs" for i vs
  proof -
    have "\<not> i < length A" using i by (auto simp: nth_append A_def)
    then have k: "i - length A < length xs'" "length A \<le> i" "vs = exchange_values (xs' ! (i - length A))"
      using i by (auto simp: nth_append B_def)
    define id where "id = evConnectionID (xrEvent (xs' ! (i - length A)))"
    have "xrEvent (xs' ! (i - length A)) \<in> set (map xrEvent xs)" unfolding ev [symmetric] using k(1) by simp
    then have "map_of cs' id \<noteq> None" using has by (auto simp: id_def)
    then obtain r where r: "map_of cs' id = Some r" by blast
    then have "id \<in> set (sort (map fst cs'))" by (force dest: map_of_SomeD)
    then obtain j where "j < length (sort (map fst cs'))" "sort (map fst cs') ! j = id" by (metis in_set_conv_nth)
    then have "j < length A" "sort (map fst cs') ! j = id" by (simp_all add: A_def)
    moreover have "crConnectionID r = id" using f r by (simp add: filed_def)
    ultimately show ?thesis using k r
      by (intro exI [of _ j] exI [of _ "connection_values r"]) (auto simp: nth_append A_def statement_values id_def)
  qed
  ultimately show ?thesis unfolding st Let_def by simp
qed

text \<open>An exchange whose connection the event log does not mention.\<close>

definition lone_exchange :: event where
  "lone_exchange = no_event\<lparr>evEventType := ''exchange'', evRequestID := ''r'', evConnectionID := ''c''\<rparr>"

definition lone_log :: evidence_files where
  "lone_log = \<lparr>efFiles = [((''e'', ''events_1.jsonl''), [123, 125, 10])], efOpen = (\<lambda>p. None), efEnd = (\<lambda>p. EOF), efClose = (\<lambda>p. None)\<rparr>"

lemma index_statements_refer_witness:
  "\<exists>cs xs xs' cs'. readStructuredEvents (\<lambda>l. Inr lone_exchange) lone_log ''e'' = Inr (cs, xs) \<and> cs = [] \<and> length xs = 1
    \<and> check_exchanges id Map.empty xs cs = Inr (xs', cs')
    \<and> (\<exists>i j vs ws. j < i \<and> index_statements cs' xs' ! i = InsertExchange vs
        \<and> index_statements cs' xs' ! j = InsertConnection ws \<and> ws ! 0 = vs ! 1)"
proof -
  define xs where "xs = [\<lparr>xrEvent = lone_exchange, xrRequestSHA256 = ''''\<rparr>]"
  have r: "readStructuredEvents (\<lambda>l. Inr lone_exchange) lone_log ''e'' = Inr ([], xs)" unfolding xs_def by code_simp
  obtain xs' cs' where c: "check_exchanges id Map.empty xs [] = Inr (xs', cs')"
  proof -
    have "\<not> isl (check_exchanges id Map.empty xs [])" unfolding xs_def by code_simp
    then show thesis using that by (cases "check_exchanges id Map.empty xs []") auto
  qed
  let ?st = "index_statements cs' xs'"
  from index_statements_refer [OF r c] have n: "length (filter (\<lambda>s. \<exists>vs. s = InsertExchange vs) ?st) = 1"
    and f: "\<And>i vs. i < length ?st \<Longrightarrow> ?st ! i = InsertExchange vs \<Longrightarrow> \<exists>j ws. j < i \<and> ?st ! j = InsertConnection ws \<and> ws ! 0 = vs ! 1"
    by (simp_all add: Let_def xs_def)
  from n have "filter (\<lambda>s. \<exists>vs. s = InsertExchange vs) ?st \<noteq> []" by auto
  then obtain i vs where "i < length ?st" "?st ! i = InsertExchange vs" by (auto simp: filter_empty_conv in_set_conv_nth)
  with f [OF this] r c show ?thesis by (auto simp: xs_def)
qed

section \<open>A torn file\<close>

text \<open>C21: A journal file that is shorter than its header makes the index fail, whatever else the
  directory holds. A failed rotation leaves such a file (\<open>openNextLocked\<close> closes it and does not
  remove it), so one failed write of a header hides every sound journal of the directory.\<close>

lemma reconstructStreams_torn:
  assumes "p \<in> set (glob bwj_file directory (at_rest h))" "length (content p h) < 64"
  shows "\<exists>err. reconstructStreams (at_rest h) directory = Inl err"
proof -
  have torn: "\<exists>err. journal_of p h = Inl err"
  proof (cases "journal_of p h")
    case (Inr res)
    then show ?thesis using assms(2) by (auto simp: ReadBWJFile_def ReadFull_def split: if_splits)
  qed simp
  have "p \<in> set ps \<Longrightarrow> \<exists>err. read_journals (at_rest h) ps = Inl err" for ps
  proof (induction ps)
    case (Cons q ps)
    show ?case
    proof (cases "journal_of q h")
      case (Inr res)
      then have "p \<in> set ps" using Cons.prems torn by auto
      then show ?thesis using Cons.IH Inr by auto
    qed simp
  qed simp
  from this [OF assms(1)] show ?thesis by (auto simp: reconstructStreams_def)
qed

text \<open>A rotation whose header write fails after 10 bytes: the acknowledged record is in a sound file, and
  the index reads nothing.\<close>

definition tight :: bwj_writer where "tight = oW\<lparr>bwRotateSize := 64\<rparr>"

definition tearing :: host where
  "tearing = oH\<lparr>writes := [(64, None), (3, None), (10, Some (OsError ''no space left on device'' False))]\<rparr>"

lemma reconstructStreams_torn_witness:
  "\<exists>w1 h1 err w h. WriteData run0 zero_id DirectionInbound 0 [1, 2, 3] tight tearing = (None, w1, h1)
    \<and> WriteData run0 zero_id DirectionInbound 0 [4] w1 h1 = (Some err, w, h)
    \<and> (\<exists>e. reconstructStreams (at_rest h) (bwDirectory w) = Inl e)"
proof -
  define r1 where "r1 = WriteData run0 zero_id DirectionInbound 0 [1, 2, 3] tight tearing"
  define r2 where "r2 = WriteData run0 zero_id DirectionInbound 0 [4] (fst (snd r1)) (snd (snd r1))"
  have ok: "fst r1 = None" "fst r2 \<noteq> None" unfolding r2_def r1_def by code_simp+
  have p: "(''d'', bwj_name run0 2) \<in> set (glob bwj_file ''d'' (at_rest (snd (snd r2))))" unfolding r2_def r1_def by code_simp
  have d: "bwDirectory (fst (snd r2)) = ''d''" "length (content (''d'', bwj_name run0 2) (snd (snd r2))) < 64"
    unfolding r2_def r1_def by code_simp+
  obtain err where "fst r2 = Some err" using ok by auto
  then have w: "WriteData run0 zero_id DirectionInbound 0 [1, 2, 3] tight tearing = (None, fst (snd r1), snd (snd r1))"
    "WriteData run0 zero_id DirectionInbound 0 [4] (fst (snd r1)) (snd (snd r1)) = (Some err, fst (snd r2), snd (snd r2))"
    using ok by (simp_all add: prod_eq_iff r1_def r2_def)
  from reconstructStreams_torn [OF p d(2)] w d(1) show ?thesis by (metis)
qed

section \<open>The lines of the event log\<close>

lemma scan_line:
  assumes "newline \<notin> set l" "length l < maxTokenSize" "l = [] \<or> last l \<noteq> 13"
  shows "scan_lines (l @ [newline] @ bs) = (l # fst (scan_lines bs), snd (scan_lines bs))"
proof -
  have "takeWhile (\<lambda>b. b \<noteq> newline) (l @ [newline] @ bs) = l" using assms(1) by (simp add: takeWhile_append)
  moreover have "drop_cr l = l" using assms(3) by (auto simp: drop_cr_def)
  ultimately show ?thesis using assms(2) by (subst scan_lines.simps) (simp add: Let_def split: prod.split)
qed

text \<open>C23: The index reads back the lines of the event log: of any sequence of lines, each ended by a newline
  and shorter than the scanner's buffer, every line is decoded and filed, in order.\<close>

lemma index_file_lines:
  assumes "map_of (efFiles fs) p = Some (concat (map (\<lambda>l. l @ [newline]) ls))" "efOpen fs p = None" "efEnd fs p = EOF" "efClose fs p = None"
    and "\<forall>l \<in> set ls. newline \<notin> set l \<and> length l < maxTokenSize \<and> (l = [] \<or> last l \<noteq> 13)"
    and "\<forall>l \<in> set ls. unmarshal l = Inr (event_at l)"
  shows "index_file unmarshal fs p st = Inr (fold (\<lambda>l. index_event (event_at l)) ls st)"
proof -
  have "scan_lines (concat (map (\<lambda>l. l @ [newline]) ls)) = (ls, False)" using assms(5)
  proof (induction ls)
    case Nil
    show ?case by (simp add: scan_lines.simps)
  next
    case (Cons l ls)
    then show ?case using scan_line [of l "concat (map (\<lambda>l. l @ [newline]) ls)"] by simp
  qed
  moreover have "index_lines unmarshal p ls st = Inr (fold (\<lambda>l. index_event (event_at l)) ls st)" using assms(6)
    by (induction ls arbitrary: st) auto
  ultimately show ?thesis using assms(1-4) by (simp add: index_file_def opened_file_def)
qed

lemma index_file_lines_witness:
  "\<exists>cs xs. index_file (\<lambda>l. Inr (lone_exchange\<lparr>evRequestStreamLength := int (length l)\<rparr>))
     (lone_log\<lparr>efFiles := [((''e'', ''events_1.jsonl''), [123, 125, 10, 123, 32, 125, 10])]\<rparr>) (''e'', ''events_1.jsonl'') ([], [])
   = Inr (cs, xs) \<and> map (evRequestStreamLength \<circ> xrEvent) xs = [2, 3]"
proof -
  let ?fs = "lone_log\<lparr>efFiles := [((''e'', ''events_1.jsonl''), [123, 125, 10, 123, 32, 125, 10])]\<rparr>"
  let ?at = "\<lambda>l :: byte list. lone_exchange\<lparr>evRequestStreamLength := int (length l)\<rparr>"
  have "index_file (\<lambda>l. Inr (?at l)) ?fs (''e'', ''events_1.jsonl'') ([], [])
      = Inr (fold (\<lambda>l. index_event (?at l)) [[123, 125], [123, 32, 125]] ([], []))"
    by (rule index_file_lines) (simp_all add: lone_log_def)
  then show ?thesis by (simp add: index_event_def lone_exchange_def no_event_def)
qed

end
