(* ===== verification/Listener.thy ===== *)
theory Listener
  imports Config Net_Addr
begin

text \<open>
  \<open>internal/engine/listener.go\<close>: binding the listeners of the enabled services, the two counting
  channels that admit a connection, the accept loop of a service, and the goroutine it starts for a
  connection; from \<open>internal/engine/engine.go\<close> the set of the active connections and the order in
  which \<open>Run\<close> shuts the server down. The goroutines are step relations on one state, which
  theory Server interleaves.
\<close>

section \<open>Binding\<close>

text \<open>The listening sockets with their addresses; \<open>nsListens\<close> is the script of what \<open>net.Listen\<close>
  answers. An address that is in use cannot be bound again.\<close>

record net_state =
  nsListening :: "(nat \<times> string) list"
  nsNext :: nat
  nsListens :: "go_error option list"

definition net_Listen :: "string \<Rightarrow> net_state \<Rightarrow> (go_error + nat) \<times> net_state" where
  "net_Listen address n = (let (e, es) = pop None (nsListens n); n' = n\<lparr>nsListens := es\<rparr> in
     case e of Some err \<Rightarrow> (Inl err, n')
     | None \<Rightarrow> if address \<in> snd ` set (nsListening n) then (Inl (OsError ''bind: address already in use'' False), n')
         else (Inr (nsNext n), n'\<lparr>nsListening := nsListening n @ [(nsNext n, address)], nsNext := Suc (nsNext n)\<rparr>))"

definition listener_Close :: "nat \<Rightarrow> net_state \<Rightarrow> net_state" where
  "listener_Close l n = n\<lparr>nsListening := filter (\<lambda>(k, a). k \<noteq> l) (nsListening n)\<rparr>"

text \<open>The channel \<open>slots\<close> is its capacity here, and a counting channel in the running server.\<close>

record service_runtime =
  srID :: string
  srCfg :: service_config
  srListener :: nat
  srSlots :: nat

definition closeListeners :: "service_runtime list \<Rightarrow> net_state \<Rightarrow> net_state" where
  "closeListeners services = fold (\<lambda>s. listener_Close (srListener s)) services"

definition enabled_ids :: "config \<Rightarrow> string list" where
  "enabled_ids cfg = sort (map fst (filter (\<lambda>(sid, svc). scEnabled svc) (cfServices cfg)))"

text \<open>An enabled service without a listener is a nil pointer; the validator refuses it.\<close>

fun bind_services :: "config \<Rightarrow> string list \<Rightarrow> service_runtime list \<Rightarrow> net_state
    \<Rightarrow> (go_error + service_runtime list) \<times> net_state" where
  "bind_services cfg [] bound n = (Inr bound, n)"
| "bind_services cfg (sid # ids) bound n = (case map_of (cfServices cfg) sid of
     Some svc \<Rightarrow> (case scListener svc of
       Some l \<Rightarrow> (let address = JoinHostPort (lcAddress l) (itoa (lcPort l)) in
         case net_Listen address n of
           (Inl err, n1) \<Rightarrow> (Inl (Wrapf ''LISTENER_BIND_FAILED service_id=%s address=%s: %w'' [AStr sid, AStr address] err),
              closeListeners bound n1)
         | (Inr listener, n1) \<Rightarrow> bind_services cfg ids (bound @ [\<lparr>srID = sid, srCfg = svc, srListener = listener,
              srSlots = nat (MaxConnectionsPerService (cfLimits cfg))\<rparr>]) n1)
     | None \<Rightarrow> (Inl (Errorf ''nil pointer dereference'' []), n))
   | None \<Rightarrow> (Inl (Errorf ''nil pointer dereference'' []), n))"

definition bindConfiguredListeners :: "config \<Rightarrow> net_state \<Rightarrow> (go_error + service_runtime list) \<times> net_state" where
  "bindConfiguredListeners cfg n = bind_services cfg (enabled_ids cfg) [] n"

section \<open>Admission\<close>

text \<open>A channel of empty structs: its length and capacity. \<open>try_send\<close> is a \<open>select\<close> with a default.\<close>

record slots =
  slLen :: nat
  slCap :: nat

definition try_send :: "slots \<Rightarrow> slots option" where
  "try_send c = (if slLen c < slCap c then Some (c\<lparr>slLen := Suc (slLen c)\<rparr>) else None)"

definition receive_slot :: "slots \<Rightarrow> slots" where
  "receive_slot c = c\<lparr>slLen := slLen c - 1\<rparr>"

definition tryAcquireConnectionSlots :: "slots \<Rightarrow> slots \<Rightarrow> bool \<times> slots \<times> slots" where
  "tryAcquireConnectionSlots global service = (case try_send global of
     None \<Rightarrow> (False, global, service)
   | Some global' \<Rightarrow> (case try_send service of
       Some service' \<Rightarrow> (True, global', service')
     | None \<Rightarrow> (False, receive_slot global', service)))"

section \<open>The running server\<close>

text \<open>
  Where an accept loop is: in \<open>Accept\<close>; with a connection that was offered; with one that was
  charged to the global channel; about to give the global slot back, or to close the refused
  connection; with both slots; after an error of \<open>Accept\<close>; returned.
\<close>

datatype loop_pc = Accepting | Offered nat | Charged nat | Refusing nat | Rejected nat | Admitted nat | Failing | Stopped

text \<open>
  Where a connection is: with the accept loop; in its goroutine before it is registered; registered and
  on its way to the next \<open>ctx.Done()\<close> check; past the check, serving a request; in the deferred
  functions before and after \<open>raw.Close\<close>; out of \<open>handleConnection\<close>; with the service slot, then the
  global slot given back; gone.
\<close>

datatype conn_pc = Unhandled | Started | Registered | Serving | Leaving | Closing | Returned | ServiceFreed | GlobalFreed | Gone

record live_conn =
  lvService :: nat
  lvPc :: conn_pc
  lvClosed :: bool

text \<open>Where \<open>Run\<close> is after the listeners were bound.\<close>

datatype main_pc = Selecting | ClosingListeners nat | Cancelling | Snapshotting | ClosingConns "nat list" | Waiting | Drained

record server =
  svGlobal :: slots
  svSlots :: "slots list"
  svListening :: "bool list"
  svLoops :: "loop_pc list"
  svConns :: "live_conn list"
  svActive :: "nat set"
  svDone :: bool
  svFatal :: "go_error option"
  svWg :: nat
  svMain :: main_pc
  svTerminal :: "go_error option"

definition at_loop :: "nat \<Rightarrow> loop_pc \<Rightarrow> server \<Rightarrow> bool" where
  "at_loop i pc s \<longleftrightarrow> i < length (svLoops s) \<and> svLoops s ! i = pc"

definition goto_loop :: "nat \<Rightarrow> loop_pc \<Rightarrow> server \<Rightarrow> server" where
  "goto_loop i pc s = s\<lparr>svLoops := (svLoops s)[i := pc]\<rparr>"

definition at_conn :: "nat \<Rightarrow> conn_pc \<Rightarrow> server \<Rightarrow> bool" where
  "at_conn c pc s \<longleftrightarrow> c < length (svConns s) \<and> lvPc (svConns s ! c) = pc"

definition goto_conn :: "nat \<Rightarrow> conn_pc \<Rightarrow> server \<Rightarrow> server" where
  "goto_conn c pc s = s\<lparr>svConns := (svConns s)[c := (svConns s ! c)\<lparr>lvPc := pc\<rparr>]\<rparr>"

definition shut_conn :: "nat \<Rightarrow> server \<Rightarrow> server" where
  "shut_conn c s = s\<lparr>svConns := (svConns s)[c := (svConns s ! c)\<lparr>lvClosed := True\<rparr>]\<rparr>"

definition server_fail :: "go_error \<Rightarrow> server \<Rightarrow> server" where
  "server_fail err s = (if svFatal s = None then s\<lparr>svFatal := Some err\<rparr> else s)"

text \<open>The set of active connections is changed under a mutex.\<close>

definition registerConnection :: "nat \<Rightarrow> server \<Rightarrow> server" where
  [simp]: "registerConnection c s = s\<lparr>svActive := insert c (svActive s)\<rparr>"

definition unregisterConnection :: "nat \<Rightarrow> server \<Rightarrow> server" where
  [simp]: "unregisterConnection c s = s\<lparr>svActive := svActive s - {c}\<rparr>"

text \<open>The snapshot \<open>cs\<close> of the set is taken under the mutex, in the order of the map.\<close>

definition closeActiveConnections :: "nat list \<Rightarrow> server \<Rightarrow> server" where
  "closeActiveConnections cs s = fold shut_conn cs s"

text \<open>The server when \<open>Run\<close> has started the accept loops.\<close>

definition server_start :: "config \<Rightarrow> service_runtime list \<Rightarrow> server" where
  "server_start cfg services = \<lparr>svGlobal = \<lparr>slLen = 0, slCap = nat (MaxConnectionsTotal (cfLimits cfg))\<rparr>,
     svSlots = map (\<lambda>s. \<lparr>slLen = 0, slCap = srSlots s\<rparr>) services, svListening = map (\<lambda>s. True) services,
     svLoops = map (\<lambda>s. Accepting) services, svConns = [], svActive = {}, svDone = False, svFatal = None,
     svWg = length services, svMain = Selecting, svTerminal = None\<rparr>"

subsection \<open>The accept loop\<close>

inductive loop_step :: "nat \<Rightarrow> server \<Rightarrow> server \<Rightarrow> bool" for i :: nat where
  accept: "at_loop i Accepting s \<Longrightarrow> svListening s ! i \<Longrightarrow> c = length (svConns s) \<Longrightarrow>
     loop_step i s (goto_loop i (Offered c) (s\<lparr>svConns := svConns s @ [\<lparr>lvService = i, lvPc = Unhandled, lvClosed = False\<rparr>]\<rparr>))"
| accept_error: "at_loop i Accepting s \<Longrightarrow> loop_step i s (goto_loop i Failing s)"
| failing_done: "at_loop i Failing s \<Longrightarrow> svDone s \<Longrightarrow> loop_step i s (goto_loop i Stopped (s\<lparr>svWg := svWg s - 1\<rparr>))"
| failing: "at_loop i Failing s \<Longrightarrow> \<not> svDone s \<Longrightarrow>
     loop_step i s (goto_loop i Stopped (server_fail (Wrapf ''INTERNAL_FATAL service_id=%s accept: %w'' [AStr sid] err) (s\<lparr>svWg := svWg s - 1\<rparr>)))"
| charge: "at_loop i (Offered c) s \<Longrightarrow> try_send (svGlobal s) = Some g \<Longrightarrow> loop_step i s (goto_loop i (Charged c) (s\<lparr>svGlobal := g\<rparr>))"
| full: "at_loop i (Offered c) s \<Longrightarrow> try_send (svGlobal s) = None \<Longrightarrow> loop_step i s (goto_loop i (Rejected c) s)"
| admit: "at_loop i (Charged c) s \<Longrightarrow> try_send (svSlots s ! i) = Some k \<Longrightarrow>
     loop_step i s (goto_loop i (Admitted c) (s\<lparr>svSlots := (svSlots s)[i := k]\<rparr>))"
| service_full: "at_loop i (Charged c) s \<Longrightarrow> try_send (svSlots s ! i) = None \<Longrightarrow> loop_step i s (goto_loop i (Refusing c) s)"
| give_back: "at_loop i (Refusing c) s \<Longrightarrow> loop_step i s (goto_loop i (Rejected c) (s\<lparr>svGlobal := receive_slot (svGlobal s)\<rparr>))"
| reject: "at_loop i (Rejected c) s \<Longrightarrow> loop_step i s (goto_loop i Accepting (shut_conn c s))"
| start: "at_loop i (Admitted c) s \<Longrightarrow> loop_step i s (goto_loop i Accepting (goto_conn c Started (s\<lparr>svWg := Suc (svWg s)\<rparr>)))"

subsection \<open>The goroutine of a connection\<close>

text \<open>What \<open>handleConnection\<close> (theory Connection) does with the shared state, and the deferred functions
  around it. A request is served, or the connection is left, as the handler decides.\<close>

inductive conn_step :: "nat \<Rightarrow> server \<Rightarrow> server \<Rightarrow> bool" for c :: nat where
  no_id: "at_conn c Started s \<Longrightarrow> conn_step c s (goto_conn c Returned (shut_conn c (server_fail err s)))"
| register: "at_conn c Started s \<Longrightarrow> conn_step c s (goto_conn c Registered (registerConnection c s))"
| shutdown: "at_conn c Registered s \<Longrightarrow> svDone s \<Longrightarrow> conn_step c s (goto_conn c Leaving s)"
| go_on: "at_conn c Registered s \<Longrightarrow> \<not> svDone s \<Longrightarrow> conn_step c s (goto_conn c Serving s)"
| left: "at_conn c Registered s \<Longrightarrow> conn_step c s (goto_conn c Leaving s)"
| served: "at_conn c Serving s \<Longrightarrow> conn_step c s (goto_conn c Registered s)"
| ended: "at_conn c Serving s \<Longrightarrow> conn_step c s (goto_conn c Leaving s)"
| failed: "pc \<in> {Registered, Serving, Leaving} \<Longrightarrow> at_conn c pc s \<Longrightarrow> conn_step c s (server_fail err s)"
| close_raw: "at_conn c Leaving s \<Longrightarrow> conn_step c s (goto_conn c Closing (shut_conn c s))"
| unregister: "at_conn c Closing s \<Longrightarrow> conn_step c s (goto_conn c Returned (unregisterConnection c s))"
| free_service: "at_conn c Returned s \<Longrightarrow> i = lvService (svConns s ! c) \<Longrightarrow>
     conn_step c s (goto_conn c ServiceFreed (s\<lparr>svSlots := (svSlots s)[i := receive_slot (svSlots s ! i)]\<rparr>))"
| free_global: "at_conn c ServiceFreed s \<Longrightarrow> conn_step c s (goto_conn c GlobalFreed (s\<lparr>svGlobal := receive_slot (svGlobal s)\<rparr>))"
| finish: "at_conn c GlobalFreed s \<Longrightarrow> conn_step c s (goto_conn c Gone (s\<lparr>svWg := svWg s - 1\<rparr>))"

subsection \<open>The shutdown\<close>

text \<open>\<open>Run\<close> leaves its select with an error or without one, closes the listeners one by one, cancels the
  context, takes a snapshot of the active connections under the mutex (in the order of the map, which
  is any order), closes each, and waits for every goroutine.\<close>

inductive main_step :: "server \<Rightarrow> server \<Rightarrow> bool" where
  leave_done: "svMain s = Selecting \<Longrightarrow> svDone s \<Longrightarrow> main_step s (s\<lparr>svMain := ClosingListeners 0, svTerminal := None\<rparr>)"
| leave_lost: "svMain s = Selecting \<Longrightarrow> t = (if svDone s then None else Some (Errorf ''CAPTURE_LOST action=close_listeners'' [])) \<Longrightarrow>
     main_step s (s\<lparr>svMain := ClosingListeners 0, svTerminal := t\<rparr>)"
| leave_fatal: "svMain s = Selecting \<Longrightarrow> svFatal s = Some err \<Longrightarrow> main_step s (s\<lparr>svMain := ClosingListeners 0, svTerminal := Some err\<rparr>)"
| leave_storage: "svMain s = Selecting \<Longrightarrow> main_step s (s\<lparr>svMain := ClosingListeners 0, svTerminal := Some low\<rparr>)"
| close_listener: "svMain s = ClosingListeners k \<Longrightarrow> k < length (svListening s) \<Longrightarrow>
     main_step s (s\<lparr>svListening := (svListening s)[k := False], svMain := ClosingListeners (Suc k)\<rparr>)"
| listeners_closed: "svMain s = ClosingListeners k \<Longrightarrow> k = length (svListening s) \<Longrightarrow> main_step s (s\<lparr>svMain := Cancelling\<rparr>)"
| cancel: "svMain s = Cancelling \<Longrightarrow> main_step s (s\<lparr>svDone := True, svMain := Snapshotting\<rparr>)"
| snapshot: "svMain s = Snapshotting \<Longrightarrow> set cs = svActive s \<Longrightarrow> distinct cs \<Longrightarrow> main_step s (s\<lparr>svMain := ClosingConns cs\<rparr>)"
| close_conn: "svMain s = ClosingConns (c # cs) \<Longrightarrow> main_step s ((shut_conn c s)\<lparr>svMain := ClosingConns cs\<rparr>)"
| conns_closed: "svMain s = ClosingConns [] \<Longrightarrow> main_step s (s\<lparr>svMain := Waiting\<rparr>)"
| waited: "svMain s = Waiting \<Longrightarrow> svWg s = 0 \<Longrightarrow> main_step s (s\<lparr>svMain := Drained\<rparr>)"

text \<open>All goroutines together; the context may also be done because the process was signalled.\<close>

inductive server_step :: "server \<Rightarrow> server \<Rightarrow> bool" where
  by_loop: "loop_step i s s' \<Longrightarrow> server_step s s'"
| by_conn: "conn_step c s s' \<Longrightarrow> server_step s s'"
| by_main: "main_step s s' \<Longrightarrow> server_step s s'"
| signal: "server_step s (s\<lparr>svDone := True\<rparr>)"

inductive reachable :: "server \<Rightarrow> server \<Rightarrow> bool" for s0 :: server where
  start: "reachable s0 s0"
| step: "reachable s0 s \<Longrightarrow> server_step s s' \<Longrightarrow> reachable s0 s'"

end
