(* ===== verification/Health.thy ===== *)
theory Health
  imports Runtime Sanitize
begin

text \<open>
  The lease between the capture process and the engine, \<open>internal/capture/health.go\<close>: reading a line of
  the health protocol, the server that keeps the set of its leases, and the client's side. The Unix
  socket is a \<open>net_conn\<close>; that a peer is another process is left to the scripts of its reads.
\<close>

section \<open>Lines\<close>

abbreviation (input) "lineBuffer \<equiv> (512 :: nat)"

definition health_no_progress :: go_error where
  "health_no_progress = Errorf ''multiple Read calls return no data or error'' []"

text \<open>\<open>(*bufio.Reader).fill\<close>: at most 100 reads without data.\<close>

fun line_fill :: "nat \<Rightarrow> nat \<Rightarrow> net_conn \<Rightarrow> (byte list \<times> go_error option) \<times> net_conn" where
  "line_fill 0 len c = (([], Some health_no_progress), c)"
| "line_fill (Suc k) len c = (case conn_Read len c of ((bs, e), c') \<Rightarrow>
     if e \<noteq> None \<or> bs \<noteq> [] then ((bs, e), c') else line_fill k len c')"

lemma line_fill_moves: "line_fill k len c = ((bs, e), c') \<Longrightarrow> e = None \<Longrightarrow> bs \<noteq> []"
  by (induction k arbitrary: c) (auto split: prod.splits if_splits)

text \<open>\<open>ReadSlice('\n')\<close> on what is buffered, the pending error and the connection; the result is the line
  or the error, what stays buffered and the connection. \<open>None\<close> is \<open>bufio.ErrBufferFull\<close>.\<close>

function read_slice :: "byte list \<Rightarrow> go_error option \<Rightarrow> net_conn \<Rightarrow> (go_error option + byte list) \<times> byte list \<times> net_conn" where
  "read_slice buf pending c =
    (let line = takeWhile (\<lambda>b. b \<noteq> 10) buf in
     if length line < length buf then (Inr (take (Suc (length line)) buf), drop (Suc (length line)) buf, c)
     else case pending of Some e \<Rightarrow> (Inl (Some e), [], c)
     | None \<Rightarrow> if lineBuffer \<le> length buf then (Inl None, [], c)
         else (case line_fill 100 (lineBuffer - length buf) c of ((bs, e), c') \<Rightarrow> read_slice (buf @ bs) e c'))"
  by pat_completeness auto
termination
  by (relation "measure (\<lambda>(buf, pending, c). (if pending = None then 1 else 0) + (lineBuffer - length buf))")
    (auto dest!: line_fill_moves [OF sym] simp: Suc_diff_le neq_Nil_conv)

declare read_slice.simps [simp del]

definition readHealthLine :: "net_conn \<Rightarrow> (go_error + string) \<times> byte list \<times> net_conn" where
  "readHealthLine c = (case read_slice [] None c of
     (Inl None, rest, c') \<Rightarrow> (Inl (Errorf ''health line exceeds 512 bytes'' []), rest, c')
   | (Inl (Some e), rest, c') \<Rightarrow> (Inl e, rest, c')
   | (Inr line, rest, c') \<Rightarrow> (Inr (string_of line), rest, c'))"

section \<open>The server\<close>

text \<open>Leases are numbered connections; \<open>hsShut\<close> are those that were closed, \<open>hsSocket\<close> says that the
  socket file is there.\<close>

record health_server =
  hsPath :: string
  hsHash :: string
  hsSessionID :: string
  hsListening :: bool
  hsLeases :: "nat set"
  hsClosed :: bool
  hsShut :: "nat set"
  hsSocket :: bool

text \<open>What the operating system answers to the calls of \<open>StartHealthServer\<close>.\<close>

record socket_env =
  seMkdirAll :: "go_error option"
  seRemove :: "go_error option"
  seListen :: "go_error option"
  seChmod :: "go_error option"

definition not_exist :: "go_error \<Rightarrow> bool" where
  "not_exist err \<longleftrightarrow> errors_Is err (OsError ''file does not exist'' False)"

definition StartHealthServer :: "socket_env \<Rightarrow> string \<Rightarrow> string \<Rightarrow> string \<Rightarrow> go_error + health_server" where
  "StartHealthServer env path configSHA256 captureSessionID =
    (case seMkdirAll env of Some err \<Rightarrow> Inl (Wrapf ''create capture runtime directory: %w'' [] err)
     | None \<Rightarrow> if (case seRemove env of Some err \<Rightarrow> \<not> not_exist err | None \<Rightarrow> False)
         then Inl (Wrapf ''remove stale capture socket: %w'' [] (the (seRemove env)))
         else (case seListen env of Some err \<Rightarrow> Inl (Wrapf ''listen capture health socket: %w'' [] err)
         | None \<Rightarrow> (case seChmod env of Some err \<Rightarrow> Inl (Wrapf ''chmod capture health socket: %w'' [] err)
           | None \<Rightarrow> Inr \<lparr>hsPath = path, hsHash = configSHA256, hsSessionID = captureSessionID, hsListening = True,
               hsLeases = {}, hsClosed = False, hsShut = {}, hsSocket = True\<rparr>)))"

text \<open>\<open>handleLease\<close> up to its answer: whether the lease may be registered.\<close>

definition ready_line :: "string \<Rightarrow> string \<Rightarrow> string" where
  "ready_line hash session = ''READY '' @ hash @ '' '' @ session @ [CHR 0x0A]"

definition health_line :: string where
  "health_line = ''HEALTH'' @ [CHR 0x0A]"

definition lease_answer :: "health_server \<Rightarrow> net_conn \<Rightarrow> bool \<times> net_conn" where
  "lease_answer s c =
    (let (_, c1) = set_deadline (Some 0) c; (r, _, c2) = readHealthLine c1 in
     case r of Inl err \<Rightarrow> (False, c2)
     | Inr line \<Rightarrow> if trim_space line \<noteq> ''HEALTH'' then (False, c2)
         else (case conn_Write (bytes_of (ready_line (hsHash s) (hsSessionID s))) c2 of
           ((n, Some err), c3) \<Rightarrow> (False, c3)
         | ((n, None), c3) \<Rightarrow> (True, snd (set_deadline None c3))))"

text \<open>The critical sections of \<open>handleLease\<close>: registering, unless the server was closed, and the
  deferred removal, after which the connection is closed.\<close>

definition lease_register :: "nat \<Rightarrow> health_server \<Rightarrow> bool \<times> health_server" where
  "lease_register l s = (if hsClosed s then (False, s) else (True, s\<lparr>hsLeases := insert l (hsLeases s)\<rparr>))"

definition lease_release :: "nat \<Rightarrow> health_server \<Rightarrow> health_server" where
  "lease_release l s = s\<lparr>hsLeases := hsLeases s - {l}, hsShut := insert l (hsShut s)\<rparr>"

text \<open>The loop that holds the lease until the context is done or the connection ends; \<open>contexts\<close> are
  what \<open>ctx.Done()\<close> answers, by default nothing.\<close>

lemma read_moves: "conn_Read (Suc 0) c = ((bs, None), c') \<Longrightarrow> length (ncIn c') + length (ncReads c') < length (ncIn c) + length (ncReads c)"
  by (cases "ncReads c"; cases "ncIn c") (auto simp: conn_Read_def Let_def split: if_splits prod.splits)

function lease_hold :: "bool list \<Rightarrow> net_conn \<Rightarrow> net_conn" where
  "lease_hold contexts c = (case pop False contexts of (stop, contexts') \<Rightarrow>
     if stop then c
     else (case conn_Read 1 c of ((bs, e), c') \<Rightarrow> if e \<noteq> None then c' else lease_hold contexts' c'))"
  by pat_completeness auto
termination
  by (relation "measure (\<lambda>(contexts, c). length (ncIn c) + length (ncReads c))")
    (auto dest!: read_moves [OF sym])

declare lease_hold.simps [simp del]

text \<open>\<open>handleLease\<close> as one goroutine, undisturbed between its critical sections.\<close>

definition handleLease :: "nat \<Rightarrow> bool list \<Rightarrow> net_conn \<Rightarrow> health_server \<Rightarrow> net_conn \<times> health_server" where
  "handleLease l contexts c s =
    (case lease_answer s c of (False, c1) \<Rightarrow> (conn_Close c1, lease_release l s)
     | (True, c1) \<Rightarrow> (case lease_register l s of
         (False, s1) \<Rightarrow> (conn_Close c1, lease_release l s1)
       | (True, s1) \<Rightarrow> (conn_Close (lease_hold contexts c1), lease_release l s1)))"

definition HealthServer_Close :: "health_server \<Rightarrow> health_server" where
  "HealthServer_Close s = (if hsClosed s then s
     else s\<lparr>hsClosed := True, hsShut := hsShut s \<union> hsLeases s, hsListening := False, hsSocket := False\<rparr>)"

text \<open>What the goroutines of the server do under its mutex, and in what order they may do it: a goroutine
  registers its connection once, and gives it up for good.\<close>

datatype health_op = Register nat | Release nat | CloseAll

definition health_do :: "health_op \<Rightarrow> health_server \<Rightarrow> health_server" where
  "health_do op s = (case op of Register l \<Rightarrow> snd (lease_register l s) | Release l \<Rightarrow> lease_release l s
     | CloseAll \<Rightarrow> HealthServer_Close s)"

definition health_run :: "health_op list \<Rightarrow> health_server \<Rightarrow> health_server" where
  "health_run ops s = fold health_do ops s"

section \<open>The client\<close>

text \<open>\<open>lsOnce\<close>: \<open>closeOnce\<close> ran; \<open>lsLost\<close>: the channel \<open>lost\<close> is closed.\<close>

record lease =
  lsConn :: net_conn
  lsLost :: bool
  lsOnce :: bool

definition Lease_Close :: "lease \<Rightarrow> lease" where
  "Lease_Close l = (if lsOnce l then l else l\<lparr>lsConn := conn_Close (lsConn l), lsLost := True, lsOnce := True\<rparr>)"

text \<open>\<open>AcquireLease\<close>: \<open>dialled\<close> is what \<open>DialContext\<close> answers. The connection is closed on every error
  after it was dialled. Also what stays in the buffer of the reader, which \<open>watch\<close> reads on.\<close>

definition AcquireLease :: "go_error + net_conn \<Rightarrow> string \<Rightarrow> string \<Rightarrow> (go_error + lease \<times> byte list) \<times> net_conn option" where
  "AcquireLease dialled path expectedConfigSHA256 = (case dialled of
     Inl err \<Rightarrow> (Inl (Wrapf ''CAPTURE_NOT_READY socket=%s: %w'' [AStr path] err), None)
   | Inr c \<Rightarrow>
     (let (_, c1) = set_deadline (Some 0) c in
      case conn_Write (bytes_of health_line) c1 of
        ((n, Some err), c2) \<Rightarrow> (Inl (Wrapf ''CAPTURE_NOT_READY health request: %w'' [] err), Some (conn_Close c2))
      | ((n, None), c2) \<Rightarrow> (case readHealthLine c2 of
          (Inl err, _, c3) \<Rightarrow> (Inl (Wrapf ''CAPTURE_NOT_READY health response: %w'' [] err), Some (conn_Close c3))
        | (Inr line, rest, c3) \<Rightarrow>
          (let parts = go_fields line in
           if length parts \<noteq> 3 \<or> parts ! 0 \<noteq> ''READY''
           then (Inl (Errorf ''CAPTURE_NOT_READY invalid health response'' []), Some (conn_Close c3))
           else if parts ! 1 \<noteq> expectedConfigSHA256
           then (Inl (Errorf ''CAPTURE_CONFIG_MISMATCH expected=%s actual=%s'' [AStr expectedConfigSHA256, AStr (parts ! 1)]),
                 Some (conn_Close c3))
           else (let (_, c4) = set_deadline None c3
                 in (Inr (\<lparr>lsConn = c4, lsLost = False, lsOnce = False\<rparr>, rest), Some c4))))))"

text \<open>\<open>watch\<close>: the context is done, or the byte it waits for (or an error) arrived.\<close>

definition watch :: "bool \<Rightarrow> lease \<Rightarrow> lease" where
  "watch cancelled l = (if cancelled then Lease_Close l
     else if lsOnce l then l else l\<lparr>lsLost := True, lsConn := conn_Close (lsConn l), lsOnce := True\<rparr>)"

end
