(* ===== verification/Engine.thy ===== *)
theory Engine
  imports Listener Health Tls Exchange
begin

text \<open>
  \<open>Run\<close> of \<open>internal/engine/engine.go\<close>: acquiring the resources one by one and giving back those already
  acquired on every error, the select loop, the shutdown, and the code word of an error. Between the
  start and the end of the shutdown the goroutines work on the writers through their methods, which
  hold a mutex: a run is a sequence of these operations and of the wakes of the select loop. How the
  goroutines themselves move is theory Listener. TLS, the answer of the dialled socket and the version
  strings are arguments.
\<close>

section \<open>The code word of an error\<close>

definition error_categories :: "string list" where
  "error_categories = [''CONFIG_INVALID'', ''CAPTURE_NOT_READY'', ''CAPTURE_CONFIG_MISMATCH'', ''CAPTURE_LOST'',
     ''LISTENER_BIND_FAILED'', ''BWJ_WRITE_FAILED'', ''EVIDENCE_STORAGE_LOW'',
     ''TLS_KEYPAIR_LOAD_FAILED'', ''TLS_CERTIFICATE_EXPIRED'', ''TLS_CERTIFICATE_NOT_YET_VALID'',
     ''TLS_HANDSHAKE_TIMEOUT'', ''INTERNAL_FATAL'']"

definition errorCategory :: "go_error option \<Rightarrow> string" where
  "errorCategory err = (case err of None \<Rightarrow> ''''
     | Some e \<Rightarrow> let text = error_text e in
       (case filter (\<lambda>category. length category \<le> length text \<and> take (length category) text = category) error_categories of
          category # _ \<Rightarrow> category | [] \<Rightarrow> ''INTERNAL_FATAL''))"

section \<open>What the goroutines do\<close>

text \<open>The operations on the state that is shared: the methods of the two writers, the flag that a failing
  event log clears, and \<open>fail\<close>.\<close>

datatype runtime_op =
    OpOpen ID
  | OpClose ID CloseReason
  | OpData ID ID Direction byte "byte list"
  | OpParser ID ParserCode u64
  | OpLimit ID LimitCode u64
  | OpEvent event
  | OpUnhealthy
  | OpFail go_error

definition discard :: "'a io \<Rightarrow> unit io" where
  "discard m = do { _ \<leftarrow> m; ret () }"

fun runtime_do :: "runtime_op \<Rightarrow> unit io" where
  "runtime_do (OpOpen c) = discard (bwj_op (WriteConnectionOpen c))"
| "runtime_do (OpClose c reason) = discard (bwj_op (WriteConnectionClose c reason))"
| "runtime_do (OpData c r d f bs) = discard (bwj_op (WriteData c r d f bs))"
| "runtime_do (OpParser c code pos) = discard (bwj_op (WriteParserError c code pos))"
| "runtime_do (OpLimit c code n) = discard (bwj_op (WriteLimit c code n))"
| "runtime_do (OpEvent e) = discard (jsonl_op (WriteEvent e))"
| "runtime_do OpUnhealthy = modify (\<lambda>w. w\<lparr>wRt := (wRt w)\<lparr>rtHealthy := False\<rparr>\<rparr>)"
| "runtime_do (OpFail err) = rt_fail err"

fun runtime_run :: "runtime_op list \<Rightarrow> unit io" where
  "runtime_run [] = ret ()"
| "runtime_run (op # ops) = do { _ \<leftarrow> runtime_do op; runtime_run ops }"

section \<open>The select loop\<close>

text \<open>What happens next while the loop waits: an operation of a goroutine, or a case of the select. At
  \<open>LeaseLost\<close> the flag says whether the context is done; a fatal error is received when there is one.\<close>

datatype engine_event = Work runtime_op | SelectDone | LeaseLost bool | FatalReceived | StorageTick

definition wire_storage_low :: "string \<Rightarrow> go_error + u64 \<Rightarrow> u64 \<Rightarrow> go_error" where
  "wire_storage_low directory available minimum = (case available of
     Inl err \<Rightarrow> Wrapf ''EVIDENCE_STORAGE_LOW sink=bwj path=%s: %w'' [AStr directory] err
   | Inr n \<Rightarrow> Errorf ''EVIDENCE_STORAGE_LOW sink=bwj path=%s available_bytes=%d minimum_bytes=%d''
       [AStr directory, AInt (uint n), AInt (uint minimum)])"

text \<open>The result is \<open>terminal\<close>; \<^const>\<open>None\<close> says that the loop still runs when the script is used up.\<close>

fun select_loop :: "config \<Rightarrow> engine_event list \<Rightarrow> go_error option option io" where
  "select_loop cfg [] = ret None"
| "select_loop cfg (Work op # es) = do { _ \<leftarrow> runtime_do op; select_loop cfg es }"
| "select_loop cfg (SelectDone # es) = ret (Some None)"
| "select_loop cfg (LeaseLost cancelled # es) =
     ret (Some (if cancelled then None else Some (Errorf ''CAPTURE_LOST action=close_listeners'' [])))"
| "select_loop cfg (FatalReceived # es) = do {
     fatal \<leftarrow> gets (\<lambda>w. rtFatal (wRt w));
     (case fatal of Some err \<Rightarrow> ret (Some (Some err)) | None \<Rightarrow> select_loop cfg es) }"
| "select_loop cfg (StorageTick # es) =
    (let directory = roDirectory (evWireJournal (cfEvidence cfg)); minimum = evMinFreeBytes (cfEvidence cfg) in do {
     available \<leftarrow> on_host (FreeBytes directory);
     if (case available of Inl err \<Rightarrow> True | Inr n \<Rightarrow> n \<le> minimum)
     then ret (Some (Some (wire_storage_low directory available minimum)))
     else select_loop cfg es })"

section \<open>The resources\<close>

text \<open>What \<open>Run\<close> holds and what it leaves when it returns: the state of the goroutines (the writers are in
  it), the lease connection, the sockets, and the text of \<open>log.Printf\<close>.\<close>

record engine_out =
  eoWorld :: world
  eoBwj :: bool
  eoJsonl :: bool
  eoLease :: "net_conn option"
  eoNet :: net_state
  eoStderr :: "string list"

record build_info =
  biApplicationVersion :: string
  biBuildID :: string

record engine_env =
  enTls :: tls_lib
  enSha256 :: "byte list \<Rightarrow> byte list"
  enBuild :: build_info
  enGoVersion :: string
  enDialled :: "go_error + net_conn"
  enLeaseClose :: "go_error option"
  enNet :: net_state
  enEvents :: "engine_event list"
  enDrain :: "runtime_op list"

definition engine_storage :: "config \<Rightarrow> host \<Rightarrow> go_error option \<times> host" where
  "engine_storage cfg h =
    (let wire = roDirectory (evWireJournal (cfEvidence cfg)); events = roDirectory (evJSONL (cfEvidence cfg)) in
     case CheckWritable wire h of
       (Some err, h1) \<Rightarrow> (Some (Wrapf ''BWJ_WRITE_FAILED path=%s: %w'' [AStr wire] err), h1)
     | (None, h1) \<Rightarrow> (case RequireFreeBytes wire (evMinFreeBytes (cfEvidence cfg)) h1 of
         ((n, Some err), h2) \<Rightarrow> (Some err, h2)
       | ((n, None), h2) \<Rightarrow> (case CheckWritable events h2 of
           (Some err, h3) \<Rightarrow> (Some (Wrapf ''CONFIG_INVALID jsonl path=%s: %w'' [AStr events] err), h3)
         | (None, h3) \<Rightarrow> (case ValidateDirectory ''/run/notaihoney'' h3 of
             Some err \<Rightarrow> (Some (Wrapf ''CAPTURE_NOT_READY runtime_directory=%s: %w'' [AStr ''/run/notaihoney''] err), h3)
           | None \<Rightarrow> (None, h3)))))"

definition startup_event :: "engine_env \<Rightarrow> tls_metadata \<Rightarrow> event" where
  "startup_event env tls =
    (let e = no_event\<lparr>evEventType := ''sensor_state'', evApplicationVersion := biApplicationVersion (enBuild env),
         evGoVersion := enGoVersion env, evBuildID := biBuildID (enBuild env), evTLSEnabled := tmEnabled tls,
         evTLSCertificateSHA256 := tmCertificateSHA256 tls\<rparr>
     in if tmEnabled tls then e\<lparr>evTLSCertificateNotBefore := tlRFC3339 (enTls env) (tmNotBefore tls),
          evTLSCertificateNotAfter := tlRFC3339 (enTls env) (tmNotAfter tls)\<rparr> else e)"

definition close_writers :: "(go_error option \<times> go_error option) io" where
  "close_writers = do { jsonlErr \<leftarrow> jsonl_op JSONLWriter_Close; bwjErr \<leftarrow> bwj_op BWJWriter_Close; ret (jsonlErr, bwjErr) }"

definition engine_idle :: "engine_env \<Rightarrow> world \<Rightarrow> engine_out" where
  "engine_idle env w = \<lparr>eoWorld = w, eoBwj = False, eoJsonl = False, eoLease = None, eoNet = enNet env, eoStderr = []\<rparr>"

section \<open>\<open>Run\<close>\<close>

text \<open>The checks and the two writers; the world holds them in the new \<open>serverRuntime\<close>.\<close>

definition engine_open :: "engine_env \<Rightarrow> config \<Rightarrow> world \<Rightarrow> (go_error + tls_metadata) \<times> engine_out" where
  "engine_open env cfg w =
    (let out = (\<lambda>h. engine_idle env (w\<lparr>wHost := h\<rparr>)); wire = evWireJournal (cfEvidence cfg); events = evJSONL (cfEvidence cfg) in
     case engine_storage cfg (wHost w) of (Some err, h1) \<Rightarrow> (Inl err, out h1)
     | (None, h1) \<Rightarrow> (case LoadTLS (enTls env) (enSha256 env) cfg h1 of (Inl err, h2) \<Rightarrow> (Inl err, out h2)
       | (Inr (tlsConfig, tls), h2) \<Rightarrow> (case NewID h2 of
           (Inl err, h3) \<Rightarrow> (Inl (Wrapf ''INTERNAL_FATAL run_session_id: %w'' [] err), out h3)
         | (Inr run, h3) \<Rightarrow>
           (case NewBWJWriter (roDirectory wire) run (roRotateSizeBytes wire) (roRotateSeconds wire) h3 of
              (Inl err, h4) \<Rightarrow> (Inl err, out h4)
            | (Inr bwj, h4) \<Rightarrow>
              (case NewJSONLWriter (roDirectory events) run (roRotateSizeBytes events) (roRotateSeconds events)
                  (MaxStructuredEventBytes (cfLimits cfg)) h4 of
                 (Inl err, h5) \<Rightarrow>
                   (case BWJWriter_Close bwj h5 of (_, bwj', h6) \<Rightarrow>
                     (Inl (Wrapf ''CONFIG_INVALID jsonl startup: %w'' [] err),
                      (engine_idle env (w\<lparr>wRt := (wRt w)\<lparr>rtBwj := bwj'\<rparr>, wHost := h6\<rparr>))\<lparr>eoBwj := True\<rparr>))
               | (Inr jsonl, h5) \<Rightarrow>
                   (Inr tls, (engine_idle env (w\<lparr>wRt := \<lparr>rtCfg = cfg, rtRunSessionID = run, rtBwj = bwj, rtJsonl = jsonl,
                      rtHealthy = True, rtFatal = None, rtEvents = []\<rparr>, wHost := h5\<rparr>))\<lparr>eoBwj := True, eoJsonl := True\<rparr>))))))"

text \<open>The startup event, the lease and the listeners.\<close>

definition engine_acquire :: "engine_env \<Rightarrow> config \<Rightarrow> tls_metadata \<Rightarrow> engine_out
    \<Rightarrow> (go_error + service_runtime list \<times> lease) \<times> engine_out" where
  "engine_acquire env cfg tls out =
    (let closed = (\<lambda>w. snd (run_state close_writers w)) in
     case run_state (do { e \<leftarrow> decorateEvent (startup_event env tls); jsonl_op (WriteEvent e) }) (eoWorld out) of
       (Some err, w) \<Rightarrow> (Inl (Wrapf ''CONFIG_INVALID initial JSONL write: %w'' [] err), out\<lparr>eoWorld := closed w\<rparr>)
     | (None, w) \<Rightarrow> (case AcquireLease (enDialled env) ''/run/notaihoney/capture.sock'' (cfConfigSHA256 cfg) of
         (Inl err, c) \<Rightarrow> (Inl err, out\<lparr>eoWorld := closed w, eoLease := c\<rparr>)
       | (Inr (l, rest), c) \<Rightarrow> (case bindConfiguredListeners cfg (eoNet out) of
           (Inl err, n) \<Rightarrow> (Inl err, out\<lparr>eoWorld := closed w, eoLease := Some (lsConn (Lease_Close l)), eoNet := n\<rparr>)
         | (Inr services, n) \<Rightarrow> (Inr (services, l), out\<lparr>eoWorld := w, eoLease := Some (lsConn l), eoNet := n\<rparr>))))"

text \<open>The shutdown. \<open>wg.Wait\<close> comes back when every goroutine has returned; until then they go on working
  on the writers. The lease may have been closed by the goroutine that watches it.\<close>

definition lease_lost :: "engine_event \<Rightarrow> bool" where
  "lease_lost e = (case e of LeaseLost c \<Rightarrow> True | _ \<Rightarrow> False)"

definition exit_event :: "go_error \<Rightarrow> event" where
  "exit_event err = no_event\<lparr>evEventType := ''operational_error'', evOperationalCode := errorCategory (Some err),
     evOperationalAction := ''process_exit''\<rparr>"

definition engine_shutdown :: "engine_env \<Rightarrow> service_runtime list \<Rightarrow> lease \<Rightarrow> go_error option \<Rightarrow> engine_out \<Rightarrow> go_error option \<times> engine_out" where
  "engine_shutdown env services l terminal out =
    (let watched = (if list_ex lease_lost (enEvents env) then watch False l else l);
         ((jsonlErr, bwjErr), w) = run_state (do {
           _ \<leftarrow> runtime_run (enDrain env);
           _ \<leftarrow> (case terminal of None \<Rightarrow> ret () | Some err \<Rightarrow> rt_emit (exit_event err));
           close_writers }) (eoWorld out);
         out' = out\<lparr>eoWorld := w, eoLease := Some (lsConn (Lease_Close watched)), eoNet := closeListeners services (eoNet out)\<rparr>
     in case terminal of Some err \<Rightarrow> (Some err, out')
        | None \<Rightarrow> (case bwjErr of Some err \<Rightarrow> (Some (Wrapf ''BWJ_WRITE_FAILED shutdown: %w'' [] err), out')
          | None \<Rightarrow> (None, out'\<lparr>eoStderr := (case jsonlErr of None \<Rightarrow> eoStderr out
              | Some err \<Rightarrow> eoStderr out @ [''JSONL_WRITE_FAILED action=shutdown error='' @ boundedErrorText (Some err)])\<rparr>)))"

definition engine_Run :: "engine_env \<Rightarrow> config \<Rightarrow> world \<Rightarrow> go_error option option \<times> engine_out" where
  "engine_Run env cfg w = (case engine_open env cfg w of (Inl err, out) \<Rightarrow> (Some (Some err), out)
     | (Inr tls, out) \<Rightarrow> (case engine_acquire env cfg tls out of (Inl err, out1) \<Rightarrow> (Some (Some err), out1)
       | (Inr (services, l), out1) \<Rightarrow>
         (case run_state (select_loop cfg (enEvents env)) (eoWorld out1) of
            (None, w1) \<Rightarrow> (None, out1\<lparr>eoWorld := w1\<rparr>)
          | (Some terminal, w1) \<Rightarrow>
            (case engine_shutdown env services l terminal (out1\<lparr>eoWorld := w1\<rparr>) of (r, out2) \<Rightarrow> (Some r, out2)))))"

section \<open>\<open>CheckOperational\<close>\<close>

text \<open>The result is the error, the connection of the lease and the host; \<open>enLeaseClose\<close> is what closing the
  connection reports.\<close>

definition engine_CheckOperational :: "engine_env \<Rightarrow> config \<Rightarrow> host \<Rightarrow> go_error option \<times> net_conn option \<times> host" where
  "engine_CheckOperational env cfg h = (case engine_storage cfg h of (Some err, h1) \<Rightarrow> (Some err, None, h1)
     | (None, h1) \<Rightarrow> (case LoadTLS (enTls env) (enSha256 env) cfg h1 of (Inl err, h2) \<Rightarrow> (Some err, None, h2)
       | (Inr _, h2) \<Rightarrow> (case AcquireLease (enDialled env) ''/run/notaihoney/capture.sock'' (cfConfigSHA256 cfg) of
           (Inl err, c) \<Rightarrow> (Some err, c, h2)
         | (Inr (l, rest), c) \<Rightarrow> (enLeaseClose env, Some (lsConn (Lease_Close l)), h2))))"

end
