(* ===== verification/Capture.thy ===== *)
theory Capture
  imports Health Config Bwj_Codec Paths
begin

text \<open>
  The supervisor of \<open>dumpcap\<close>, \<open>internal/capture/capture.go\<close>: the capture filter, the checks before the
  start, waiting for the output file, the supervision loop and the stop sequence. The process is a
  record with its exit status and the channel its \<open>Wait\<close> answers on; which case of a \<open>select\<close> is taken
  is read from a script.
\<close>

section \<open>The capture filter\<close>

definition filter_ports :: "config \<Rightarrow> int list" where
  "filter_ports cfg = sort (remdups (concat (map (\<lambda>(sid, svc). if scEnabled svc
     then (case scListener svc of Some l \<Rightarrow> [lcPort l] | None \<Rightarrow> []) else []) (cfServices cfg))))"

definition CaptureFilter :: "config \<Rightarrow> string" where
  "CaptureFilter cfg =
    (let parts = map (\<lambda>port. ''port '' @ itoa port) (filter_ports cfg)
     in if length parts = 1 then ''tcp and '' @ parts ! 0
        else ''tcp and ('' @ join_strings '' or '' parts @ '')'')"

section \<open>The process\<close>

text \<open>How a process ended, and what \<open>cmd.Wait\<close> reports of it.\<close>

datatype exit_status = Exited "go_error option" | Signalled go_error

definition wait_error :: "exit_status \<Rightarrow> go_error option" where
  "wait_error st = (case st of Exited e \<Rightarrow> e | Signalled e \<Rightarrow> Some e)"

text \<open>\<open>dcQueued\<close>: the one value of \<open>waitCh\<close> is there and was not received. \<open>dcSignals\<close> is a history. The
  scripts say whether the process ends before \<open>stopDumpcap\<close> looks at it, and within each of its two
  waits.\<close>

record dumpcap =
  dcArgs :: "string list"
  dcStatus :: "exit_status option"
  dcQueued :: bool
  dcSignals :: "string list"
  dcBefore :: "exit_status option list"
  dcWaits :: "exit_status option list"

definition ended_before :: "dumpcap \<Rightarrow> dumpcap" where
  "ended_before p = (if dcStatus p \<noteq> None then p
     else let (st, bs) = pop None (dcBefore p) in p\<lparr>dcStatus := st, dcQueued := (st \<noteq> None), dcBefore := bs\<rparr>)"

text \<open>The \<open>select\<close> of \<open>waitCh\<close> and a two second timer: whether the channel answered.\<close>

definition await_exit :: "dumpcap \<Rightarrow> bool \<times> dumpcap" where
  "await_exit p = (if dcQueued p then (True, p\<lparr>dcQueued := False\<rparr>)
     else if dcStatus p \<noteq> None then (False, p)
     else let (st, ws) = pop None (dcWaits p) in (st \<noteq> None, p\<lparr>dcStatus := st, dcWaits := ws\<rparr>))"

definition send_signal :: "string \<Rightarrow> dumpcap \<Rightarrow> dumpcap" where
  "send_signal sig p = p\<lparr>dcSignals := dcSignals p @ [sig]\<rparr>"

text \<open>The process was started, so \<open>cmd\<close> and \<open>cmd.Process\<close> are not nil.\<close>

definition stopDumpcap :: "dumpcap \<Rightarrow> dumpcap" where
  "stopDumpcap p0 = (let p = ended_before p0 in
     if (case dcStatus p of Some (Exited e) \<Rightarrow> True | _ \<Rightarrow> False) then p
     else (case await_exit (send_signal ''SIGTERM'' p) of (True, p1) \<Rightarrow> p1
       | (False, p1) \<Rightarrow> snd (await_exit (send_signal ''SIGKILL'' p1))))"

section \<open>Waiting for the output\<close>

text \<open>A tick carries what \<open>filepath.Glob\<close> answers and, for each match, what \<open>os.Stat\<close> says: an error, or
  whether it is a directory. The timer ends the wait at the latest.\<close>

datatype ready_wake = ReadyCancelled | ReadyExit exit_status | ReadyDeadline | ReadyTick "go_error + (go_error + bool) list"

fun waitForPCAPReady :: "ready_wake list \<Rightarrow> dumpcap \<Rightarrow> go_error option \<times> dumpcap" where
  "waitForPCAPReady [] p = (Some (Errorf ''CAPTURE_NOT_READY dumpcap did not open PCAP output'' []), p)"
| "waitForPCAPReady (ReadyCancelled # ws) p = (Some Canceled, p)"
| "waitForPCAPReady (ReadyExit st # ws) p =
    (Some (case wait_error st of None \<Rightarrow> Errorf ''INTERNAL_FATAL dumpcap exited before READY'' []
       | Some err \<Rightarrow> Wrapf ''INTERNAL_FATAL dumpcap failed before READY: %w'' [] err), p\<lparr>dcStatus := Some st\<rparr>)"
| "waitForPCAPReady (ReadyDeadline # ws) p = (Some (Errorf ''CAPTURE_NOT_READY dumpcap did not open PCAP output'' []), p)"
| "waitForPCAPReady (ReadyTick (Inl err) # ws) p = (Some (Wrapf ''INTERNAL_FATAL pcap readiness pattern: %w'' [] err), p)"
| "waitForPCAPReady (ReadyTick (Inr infos) # ws) p = (if Inr False \<in> set infos then (None, p) else waitForPCAPReady ws p)"

section \<open>Before the start\<close>

text \<open>\<open>ceInterface\<close> and \<open>ceStat\<close> are what \<open>net.InterfaceByName\<close> and \<open>os.Stat\<close> of the binary answer.\<close>

datatype capture_wake = CaptureCancelled | CaptureExit exit_status | CaptureTick

record capture_env =
  ceInterface :: "go_error option"
  ceStat :: "go_error option"
  ceStart :: "go_error option"
  ceSocket :: socket_env
  ceReady :: "ready_wake list"
  ceWakes :: "capture_wake list"
  ceBefore :: "exit_status option list"
  ceWaits :: "exit_status option list"
  ceLeases :: "health_op list"

definition pcap_of :: "config \<Rightarrow> pcap_config" where
  "pcap_of cfg = evPCAP (cfEvidence cfg)"

text \<open>The checks are written twice in the code: at the start of \<open>Run\<close> and as \<open>CheckOperational\<close>.\<close>

definition capture_CheckOperational :: "capture_env \<Rightarrow> config \<Rightarrow> host \<Rightarrow> go_error option \<times> host" where
  "capture_CheckOperational env cfg h =
    (let pcap = pcap_of cfg in
     case ceInterface env of
       Some err \<Rightarrow> (Some (Wrapf ''CONFIG_INVALID capture_interface=%s: %w'' [AStr (pcInterface pcap)] err), h)
     | None \<Rightarrow> (case CheckWritable (pcDirectory pcap) h of
         (Some err, h1) \<Rightarrow> (Some (Wrapf ''CONFIG_INVALID pcap_directory=%s: %w'' [AStr (pcDirectory pcap)] err), h1)
       | (None, h1) \<Rightarrow> (case RequireFreeBytes (pcDirectory pcap) (evMinFreeBytes (cfEvidence cfg)) h1 of
           ((n, Some err), h2) \<Rightarrow> (Some err, h2)
         | ((n, None), h2) \<Rightarrow> (case ceStat env of
             Some err \<Rightarrow> (Some (Wrapf ''INTERNAL_FATAL dumpcap_path=%s: %w'' [AStr ''/usr/bin/dumpcap''] err), h2)
           | None \<Rightarrow> if CaptureFilter cfg = ''tcp and ()''
               then (Some (Errorf ''CONFIG_INVALID no enabled capture listeners'' []), h2) else (None, h2)))))"

text \<open>\<open>(n + 1023) / 1024\<close> on \<open>int64\<close>: the sum wraps and the quotient is truncated.\<close>

definition rotate_kb :: "int \<Rightarrow> int" where
  "rotate_kb n = (let x = sint (word_of_int (n + 1023) :: u64) in if x < 0 then - (- x div 1024) else x div 1024)"

definition dumpcap_args :: "config \<Rightarrow> string \<Rightarrow> string list" where
  "dumpcap_args cfg captureID =
    (let pcap = pcap_of cfg in
     [''-q'', ''-i'', pcInterface pcap, ''-f'', CaptureFilter cfg,
      ''-w'', filepath_Join (pcDirectory pcap) (''pcap_'' @ captureID @ ''.pcapng''),
      ''-b'', ''filesize:'' @ itoa (rotate_kb (pcRotateSizeBytes pcap)),
      ''-b'', ''duration:'' @ itoa (pcRotateSeconds pcap)])"

section \<open>Supervision\<close>

text \<open>What \<open>Run\<close> leaves: the disk, the process and the health server. \<open>csLog\<close> is a history.\<close>

datatype capture_act = Served | Unserved | Stopping

record capture_state =
  csHost :: host
  csDumpcap :: "dumpcap option"
  csHealth :: "health_server option"
  csLog :: "capture_act list"

definition stop_process :: "capture_state \<Rightarrow> capture_state" where
  "stop_process s = s\<lparr>csDumpcap := map_option stopDumpcap (csDumpcap s), csLog := csLog s @ [Stopping]\<rparr>"

definition close_health :: "capture_state \<Rightarrow> capture_state" where
  "close_health s = s\<lparr>csHealth := map_option HealthServer_Close (csHealth s), csLog := csLog s @ [Unserved]\<rparr>"

definition storage_low :: "string \<Rightarrow> go_error + u64 \<Rightarrow> u64 \<Rightarrow> go_error" where
  "storage_low directory available minimum = (case available of
     Inl err \<Rightarrow> Wrapf ''EVIDENCE_STORAGE_LOW sink=pcap path=%s: %w'' [AStr directory] err
   | Inr n \<Rightarrow> Errorf ''EVIDENCE_STORAGE_LOW sink=pcap path=%s available_bytes=%d minimum_bytes=%d''
       [AStr directory, AInt (uint n), AInt (uint minimum)])"

text \<open>The loop; \<open>None\<close> says that it still runs when the script is used up.\<close>

fun supervise :: "config \<Rightarrow> capture_wake list \<Rightarrow> capture_state \<Rightarrow> go_error option option \<times> capture_state" where
  "supervise cfg [] s = (None, s)"
| "supervise cfg (CaptureCancelled # ws) s = (Some None, stop_process (close_health s))"
| "supervise cfg (CaptureExit st # ws) s =
    (Some (Some (case wait_error st of None \<Rightarrow> Errorf ''INTERNAL_FATAL dumpcap exited unexpectedly'' []
       | Some err \<Rightarrow> Wrapf ''INTERNAL_FATAL dumpcap exited: %w'' [] err)),
     close_health (s\<lparr>csDumpcap := map_option (\<lambda>p. p\<lparr>dcStatus := Some st\<rparr>) (csDumpcap s)\<rparr>))"
| "supervise cfg (CaptureTick # ws) s =
    (let directory = pcDirectory (pcap_of cfg); minimum = evMinFreeBytes (cfEvidence cfg) in
     case FreeBytes directory (csHost s) of (available, h) \<Rightarrow>
       if (case available of Inl err \<Rightarrow> True | Inr n \<Rightarrow> n \<le> minimum)
       then (Some (Some (storage_low directory available minimum)), stop_process (close_health (s\<lparr>csHost := h\<rparr>)))
       else supervise cfg ws (s\<lparr>csHost := h\<rparr>))"

text \<open>\<open>Run\<close> once dumpcap was started; \<open>ceLeases\<close> is what the goroutines of the health server do while the
  loop runs. The deferred \<open>Close\<close> comes last.\<close>

definition supervised :: "capture_env \<Rightarrow> config \<Rightarrow> string \<Rightarrow> capture_state \<Rightarrow> go_error option option \<times> capture_state" where
  "supervised env cfg captureID s =
    (case RequireFreeBytes (pcDirectory (pcap_of cfg)) (evMinFreeBytes (cfEvidence cfg)) (csHost s) of
       ((n, Some err), h) \<Rightarrow> (Some (Some err), stop_process (s\<lparr>csHost := h\<rparr>))
     | ((n, None), h) \<Rightarrow>
       (case StartHealthServer (ceSocket env) ''/run/notaihoney/capture.sock'' (cfConfigSHA256 cfg) captureID of
          Inl err \<Rightarrow> (Some (Some (Wrapf ''INTERNAL_FATAL capture_health: %w'' [] err)), stop_process (s\<lparr>csHost := h\<rparr>))
        | Inr health \<Rightarrow>
          (case supervise cfg (ceWakes env)
             (s\<lparr>csHost := h, csHealth := Some (health_run (ceLeases env) health), csLog := csLog s @ [Served]\<rparr>) of
             (None, s') \<Rightarrow> (None, s')
           | (Some result, s') \<Rightarrow> (Some result, close_health s'))))"

definition capture_Run :: "capture_env \<Rightarrow> config \<Rightarrow> host \<Rightarrow> go_error option option \<times> capture_state" where
  "capture_Run env cfg h =
    (let idle = (\<lambda>h. \<lparr>csHost = h, csDumpcap = None, csHealth = None, csLog = []\<rparr>) in
     case capture_CheckOperational env cfg h of (Some err, h1) \<Rightarrow> (Some (Some err), idle h1)
     | (None, h1) \<Rightarrow> (case NewID h1 of
         (Inl err, h2) \<Rightarrow> (Some (Some (Wrapf ''INTERNAL_FATAL capture_session_id: %w'' [] err)), idle h2)
       | (Inr captureID, h2) \<Rightarrow> (case ceStart env of
           Some err \<Rightarrow> (Some (Some (Wrapf ''INTERNAL_FATAL dumpcap_start: %w'' [] err)), idle h2)
         | None \<Rightarrow>
           (let p = \<lparr>dcArgs = dumpcap_args cfg (FormatID captureID), dcStatus = None, dcQueued = False, dcSignals = [],
                     dcBefore = ceBefore env, dcWaits = ceWaits env\<rparr> in
            case waitForPCAPReady (ceReady env) p of
              (Some err, p1) \<Rightarrow> (Some (Some err), stop_process ((idle h2)\<lparr>csDumpcap := Some p1\<rparr>))
            | (None, p1) \<Rightarrow> supervised env cfg (FormatID captureID) ((idle h2)\<lparr>csDumpcap := Some p1\<rparr>)))))"

end
