(* ===== verification/Command.thy ===== *)
theory Command
  imports Engine Capture Index
begin

text \<open>
  The command line, \<open>cmd/notaihoney/main.go\<close>: the flags, the four modes and what each prints. The flag
  package of the standard library is modelled as far as string flags go; its own usage text on standard
  error is left out. The modes are the models of theories Engine, Capture and Index.
\<close>

section \<open>The flag package\<close>

text \<open>The flags with their values. \<open>(*FlagSet).parseOne\<close> stops at the first argument that is no flag and
  after \<open>--\<close>; a flag has its value after \<open>=\<close> or as the next argument.\<close>

type_synonym flags = "(string \<times> string) list"

definition set_flag :: "string \<Rightarrow> string \<Rightarrow> flags \<Rightarrow> flags" where
  "set_flag name val fs = map (\<lambda>(k, v). if k = name then (k, val) else (k, v)) fs"

definition flag_split :: "string \<Rightarrow> string \<times> string option" where
  "flag_split text = (case index_byte (drop 1 text) (CHR ''='') of
     Some i \<Rightarrow> (take (Suc i) text, Some (drop (i + 2) text)) | None \<Rightarrow> (text, None))"

definition flag_name :: "string \<Rightarrow> string" where
  "flag_name s = (if s ! 1 = CHR ''-'' then drop 2 s else drop 1 s)"

fun flag_parse :: "flags \<Rightarrow> string list \<Rightarrow> go_error + flags \<times> string list" where
  "flag_parse fs [] = Inr (fs, [])"
| "flag_parse fs (s # args) =
    (if length s < 2 \<or> hd s \<noteq> CHR ''-'' then Inr (fs, s # args)
     else if s = ''--'' then Inr (fs, args)
     else let text = flag_name s in
       if text = '''' \<or> hd text = CHR ''-'' \<or> hd text = CHR ''='' then Inl (Errorf ''bad flag syntax: %s'' [AStr s])
       else case flag_split text of (name, val) \<Rightarrow>
         if map_of fs name = None
         then (if name = ''help'' \<or> name = ''h'' then Inl (Errorf ''flag: help requested'' [])
               else Inl (Errorf ''flag provided but not defined: -%s'' [AStr name]))
         else (case val of Some v \<Rightarrow> flag_parse (set_flag name v fs) args
           | None \<Rightarrow> (case args of [] \<Rightarrow> Inl (Errorf ''flag needs an argument: -%s'' [AStr name])
             | v # rest \<Rightarrow> flag_parse (set_flag name v fs) rest)))"

definition default_config :: string where
  "default_config = ''/etc/notaihoney/honeypot.yaml''"

definition flag_value :: "string \<Rightarrow> flags \<Rightarrow> string" where
  "flag_value name fs = (case map_of fs name of Some v \<Rightarrow> v | None \<Rightarrow> '''')"

definition parseConfigOnly :: "string list \<Rightarrow> go_error + string" where
  "parseConfigOnly args = (case flag_parse [(''config'', default_config)] args of Inl err \<Rightarrow> Inl err
     | Inr (fs, rest) \<Rightarrow> if rest \<noteq> [] then Inl (Errorf ''unexpected positional arguments'' []) else Inr (flag_value ''config'' fs))"

definition usageError :: go_error where
  "usageError = Errorf ''usage: notaihoney <serve|capture|check|index> --config <path>'' []"

section \<open>The export of the listeners\<close>

record listener_json =
  ljServiceID :: string
  ljAddress :: string
  ljPort :: int
  ljProtocol :: string

record listener_export =
  leConfigSHA256 :: string
  leListeners :: "listener_json list"

text \<open>\<open>json.Encoder\<close> without the escapes for HTML.\<close>

function plain_string :: "string \<Rightarrow> string" where
  "plain_string [] = []"
| "plain_string (c # cs) =
    (if of_char c < (0x80 :: nat) then (if c \<in> set ''<>&'' then [c] else escape_ascii c) @ plain_string cs
     else (let n = utf8_width (c # cs) in
       if n = 0 then unicode_escape 0xFFFD @ plain_string cs
       else (case map_of line_separators (take n (c # cs)) of
           Some code \<Rightarrow> unicode_escape code | None \<Rightarrow> take n (c # cs)) @ plain_string (drop n (c # cs))))"
  by pat_completeness auto
termination
  by (relation "measure length") auto

declare plain_string.simps [simp del]

fun plain_json :: "json \<Rightarrow> string" where
  "plain_json JNull = ''null''"
| "plain_json (JBool b) = (if b then ''true'' else ''false'')"
| "plain_json (JInt i) = itoa i"
| "plain_json (JStr s) = quote_char # plain_string s @ [quote_char]"
| "plain_json (JArr js) = ''['' @ join_strings '','' (map plain_json js) @ '']''"
| "plain_json (JObj kvs) = ''{'' @ join_strings '','' (map (\<lambda>(k, v). quote_char # plain_string k @ [quote_char] @ '':'' @ plain_json v) kvs) @ ''}''"

definition listener_json_of :: "listener_json \<Rightarrow> json" where
  "listener_json_of l = JObj [(''service_id'', JStr (ljServiceID l)), (''address'', JStr (ljAddress l)), (''port'', JInt (ljPort l)),
     (''protocol'', JStr (ljProtocol l))]"

definition export_json_of :: "listener_export \<Rightarrow> json" where
  "export_json_of e = JObj [(''config_sha256'', JStr (leConfigSHA256 e)), (''listeners'', JArr (map listener_json_of (leListeners e)))]"

text \<open>An enabled service without a listener is a nil pointer; the validator refuses it.\<close>

definition export_entry :: "config \<Rightarrow> string \<Rightarrow> listener_json option" where
  "export_entry cfg sid = (case map_of (cfServices cfg) sid of None \<Rightarrow> None
     | Some svc \<Rightarrow> (case scListener svc of None \<Rightarrow> None
       | Some l \<Rightarrow> Some \<lparr>ljServiceID = sid, ljAddress = lcAddress l, ljPort = lcPort l, ljProtocol = lcProtocol l\<rparr>))"

definition listener_export_of :: "config \<Rightarrow> listener_export option" where
  "listener_export_of cfg = (let entries = map (export_entry cfg) (enabled_ids cfg) in
     if None \<in> set entries then None else Some \<lparr>leConfigSHA256 = cfConfigSHA256 cfg, leListeners = map the entries\<rparr>)"

definition emitListenerJSON :: "config \<Rightarrow> go_error + string" where
  "emitListenerJSON cfg = (case listener_export_of cfg of None \<Rightarrow> Inl (Errorf ''nil pointer dereference'' [])
     | Some e \<Rightarrow> Inr (plain_json (export_json_of e) @ [CHR 0x0A]))"

section \<open>The modes\<close>

text \<open>What the modes work on: the loader, the environments of the two servers, and for the index its
  parameters. \<open>mcWorld\<close> has the host in it.\<close>

record 'db machine =
  mcSha256 :: "byte list \<Rightarrow> byte list"
  mcLoader :: loader
  mcEngine :: engine_env
  mcCapture :: capture_env
  mcWorld :: world
  mcSql :: "'db sql_lib"
  mcUnmarshal :: "byte list \<Rightarrow> go_error + event"
  mcMkdirs :: "string \<Rightarrow> go_error option"
  mcFiles :: evidence_files

text \<open>\<open>rrError\<close> is \<^const>\<open>None\<close> while the program runs; then the error that \<open>run\<close> returns, if any. The
  lines on standard output and standard error, and what the mode left.\<close>

datatype 'db remains = NothingLeft | EngineLeft engine_out | CaptureLeft capture_state | IndexLeft "'db option"

record 'db run_result =
  rrError :: "go_error option option"
  rrOut :: "string list"
  rrStderr :: "string list"
  rrLeft :: "'db remains"

definition exits :: "go_error option \<Rightarrow> 'db run_result" where
  "exits err = \<lparr>rrError = Some err, rrOut = [], rrStderr = [], rrLeft = NothingLeft\<rparr>"

definition runCheck :: "'db machine \<Rightarrow> string list \<Rightarrow> 'db run_result" where
  "runCheck m args = (case flag_parse [(''config'', default_config), (''emit-listeners'', '''')] args of Inl err \<Rightarrow> exits (Some err)
     | Inr (fs, rest) \<Rightarrow>
       if rest \<noteq> [] then exits (Some (Errorf ''unexpected positional arguments'' []))
       else (case Load (mcSha256 m) (mcLoader m) (flag_value ''config'' fs) of Inl err \<Rightarrow> exits (Some err)
       | Inr cfg \<Rightarrow>
         (let emit = flag_value ''emit-listeners'' fs in
          if emit \<noteq> '''' then
            (if emit \<noteq> ''json'' then exits (Some (Errorf ''unsupported --emit-listeners value %q'' [AStr emit]))
             else (case emitListenerJSON cfg of Inl err \<Rightarrow> exits (Some err) | Inr text \<Rightarrow> (exits None)\<lparr>rrOut := [text]\<rparr>))
          else
            (case engine_CheckOperational (mcEngine m) cfg (wHost (mcWorld m)) of (serveErr, c, h) \<Rightarrow>
             (case capture_CheckOperational (mcCapture m) cfg h of (captureErr, h2) \<Rightarrow>
               \<lparr>rrError = Some (case errors_Join (filter (\<lambda>e. e \<noteq> None) [serveErr, captureErr]) of None \<Rightarrow> None
                  | Some errs \<Rightarrow> Some (Wrapf ''check operational prerequisites failed: %w'' [] errs)),
                rrOut = [''schema: PASS'', if serveErr = None then ''serve_operational: PASS'' else ''serve_operational: FAIL'',
                  if captureErr = None then ''capture_operational: NOT_CHECKED'' else ''capture_operational: FAIL'',
                  ''config_sha256: '' @ cfConfigSHA256 cfg],
                rrStderr = (case serveErr of None \<Rightarrow> [] | Some err \<Rightarrow> [''serve operational: '' @ error_text err])
                  @ (case captureErr of
                       None \<Rightarrow> [''capture operational: static prerequisites passed; dumpcap initialization is checked by capture mode'']
                     | Some err \<Rightarrow> [''capture operational: '' @ error_text err]),
                rrLeft = NothingLeft\<rparr>)))))"

definition main_run :: "'db machine \<Rightarrow> string list \<Rightarrow> 'db run_result" where
  "main_run m args = (case args of [] \<Rightarrow> exits (Some usageError)
     | mode # rest \<Rightarrow>
       (let with_config = (\<lambda>go. case parseConfigOnly rest of Inl err \<Rightarrow> exits (Some err)
          | Inr path \<Rightarrow> (case Load (mcSha256 m) (mcLoader m) path of Inl err \<Rightarrow> exits (Some err) | Inr cfg \<Rightarrow> go cfg))
        in if mode = ''serve'' then with_config (\<lambda>cfg. case engine_Run (mcEngine m) cfg (mcWorld m) of
             (r, out) \<Rightarrow> (exits None)\<lparr>rrError := r, rrLeft := EngineLeft out\<rparr>)
           else if mode = ''capture'' then with_config (\<lambda>cfg. case capture_Run (mcCapture m) cfg (wHost (mcWorld m)) of
             (r, s) \<Rightarrow> (exits None)\<lparr>rrError := r, rrLeft := CaptureLeft s\<rparr>)
           else if mode = ''check'' then runCheck m rest
           else if mode = ''index'' then with_config (\<lambda>cfg.
             case index_Run (mcSql m) (mcUnmarshal m) (mcSha256 m) (mcMkdirs m) (mcFiles m) cfg of
               (err, db) \<Rightarrow> (exits err)\<lparr>rrLeft := IndexLeft db\<rparr>)
           else exits (Some usageError)))"

text \<open>\<open>main\<close>: an error goes to standard error, with exit status 1.\<close>

definition main_exit :: "'db run_result \<Rightarrow> nat \<times> string list" where
  "main_exit r = (case rrError r of Some (Some err) \<Rightarrow> (1, rrStderr r @ [error_text err]) | _ \<Rightarrow> (0, rrStderr r))"

end
