(* ===== verification/Server.thy ===== *)
theory Server
  imports Listener Valid_Config
begin

text \<open>
  What holds in every state of the running server (theory Listener), however its goroutines
  interleave: the channels count exactly the connections that were charged, so the limits on
  simultaneous connections hold and no slot is lost; the wait group counts exactly the goroutines; and
  a shutdown closes every connection, waits for every goroutine, and ends.
\<close>

section \<open>Totals\<close>

definition total :: "('a \<Rightarrow> nat) \<Rightarrow> 'a list \<Rightarrow> nat" where
  "total f xs = sum_list (map f xs)"

lemma total_simps [simp]: "total f [] = 0" "total f (x # xs) = f x + total f xs" "total f (xs @ ys) = total f xs + total f ys"
  by (simp_all add: total_def)

lemma total_update: "i < length xs \<Longrightarrow> total f (xs[i := x]) + f (xs ! i) = total f xs + f x"
proof (induction xs arbitrary: i)
  case (Cons y ys)
  then show ?case by (cases i) auto
qed simp

lemma total_member: "i < length xs \<Longrightarrow> f (xs ! i) \<le> total f xs"
  by (induction xs arbitrary: i) (auto simp: less_Suc_eq_0_disj intro: trans_le_add2)

lemma total_zero: "total f xs = 0 \<longleftrightarrow> (\<forall>x \<in> set xs. f x = 0)"
  by (induction xs) auto

lemma nth_update: "(xs[i := x]) ! j = (if i = j \<and> i < length xs then x else xs ! j)"
  by (cases "i < length xs") (auto simp: nth_list_update list_update_beyond)

section \<open>The channels\<close>

definition loop_global :: "loop_pc \<Rightarrow> nat" where
  "loop_global pc = (case pc of Charged c \<Rightarrow> 1 | Refusing c \<Rightarrow> 1 | Admitted c \<Rightarrow> 1 | _ \<Rightarrow> 0)"

definition loop_service :: "loop_pc \<Rightarrow> nat" where
  "loop_service pc = (case pc of Admitted c \<Rightarrow> 1 | _ \<Rightarrow> 0)"

definition loop_wg :: "loop_pc \<Rightarrow> nat" where
  "loop_wg pc = (if pc = Stopped then 0 else 1)"

definition conn_global :: "live_conn \<Rightarrow> nat" where
  "conn_global c = (if lvPc c \<in> {Unhandled, GlobalFreed, Gone} then 0 else 1)"

definition conn_service :: "nat \<Rightarrow> live_conn \<Rightarrow> nat" where
  "conn_service i c = (if lvService c \<noteq> i \<or> lvPc c \<in> {Unhandled, ServiceFreed, GlobalFreed, Gone} then 0 else 1)"

definition conn_wg :: "live_conn \<Rightarrow> nat" where
  "conn_wg c = (if lvPc c \<in> {Unhandled, Gone} then 0 else 1)"

text \<open>The connections an accept loop is about to decide on.\<close>

fun loop_conn :: "loop_pc \<Rightarrow> nat option" where
  "loop_conn (Offered c) = Some c"
| "loop_conn (Charged c) = Some c"
| "loop_conn (Refusing c) = Some c"
| "loop_conn (Rejected c) = Some c"
| "loop_conn (Admitted c) = Some c"
| "loop_conn pc = None"

definition held :: "live_conn list \<Rightarrow> nat \<Rightarrow> nat \<Rightarrow> bool" where
  "held C i c \<longleftrightarrow> c < length C \<and> lvPc (C ! c) = Unhandled \<and> lvService (C ! c) = i"

definition loops_hold :: "loop_pc list \<Rightarrow> live_conn list \<Rightarrow> bool" where
  "loops_hold L C \<longleftrightarrow> (\<forall>i < length L. \<forall>c. loop_conn (L ! i) = Some c \<longrightarrow> held C i c)"

definition shaped :: "nat \<Rightarrow> server \<Rightarrow> bool" where
  "shaped n s \<longleftrightarrow> length (svSlots s) = n \<and> length (svListening s) = n \<and> length (svLoops s) = n
     \<and> (\<forall>c < length (svConns s). lvService (svConns s ! c) < n) \<and> loops_hold (svLoops s) (svConns s)"

definition charged :: "nat \<Rightarrow> server \<Rightarrow> bool" where
  "charged n s \<longleftrightarrow> slLen (svGlobal s) = total loop_global (svLoops s) + total conn_global (svConns s)
     \<and> slLen (svGlobal s) \<le> slCap (svGlobal s)
     \<and> (\<forall>i < n. slLen (svSlots s ! i) = loop_service (svLoops s ! i) + total (conn_service i) (svConns s)
          \<and> slLen (svSlots s ! i) \<le> slCap (svSlots s ! i))"

definition grouped :: "server \<Rightarrow> bool" where
  "grouped s \<longleftrightarrow> svWg s = total loop_wg (svLoops s) + total conn_wg (svConns s)"

text \<open>The active connections are the registered ones, and where a shutdown is, those past the check are
  closed or about to be closed.\<close>

definition registered :: "live_conn list \<Rightarrow> nat \<Rightarrow> bool" where
  "registered C c \<longleftrightarrow> c < length C \<and> lvPc (C ! c) \<in> {Registered, Serving, Leaving, Closing}"

definition tracked :: "server \<Rightarrow> bool" where
  "tracked s \<longleftrightarrow> (\<forall>c. c \<in> svActive s \<longleftrightarrow> registered (svConns s) c)"

definition serving_closed :: "nat set \<Rightarrow> server \<Rightarrow> bool" where
  "serving_closed except s \<longleftrightarrow> (\<forall>c < length (svConns s). lvPc (svConns s ! c) = Serving \<longrightarrow> lvClosed (svConns s ! c) \<or> c \<in> except)"

definition phased :: "server \<Rightarrow> bool" where
  "phased s \<longleftrightarrow> (case svMain s of
      Selecting \<Rightarrow> True
    | ClosingListeners k \<Rightarrow> k \<le> length (svListening s) \<and> (\<forall>j < k. \<not> svListening s ! j)
    | Cancelling \<Rightarrow> True \<notin> set (svListening s)
    | Snapshotting \<Rightarrow> True \<notin> set (svListening s) \<and> svDone s
    | ClosingConns cs \<Rightarrow> True \<notin> set (svListening s) \<and> svDone s \<and> serving_closed (set cs) s
    | Waiting \<Rightarrow> True \<notin> set (svListening s) \<and> svDone s \<and> serving_closed {} s
    | Drained \<Rightarrow> svWg s = 0)"

definition server_inv :: "nat \<Rightarrow> server \<Rightarrow> bool" where
  "server_inv n s \<longleftrightarrow> shaped n s \<and> charged n s \<and> grouped s \<and> tracked s \<and> phased s"

lemmas weights = loop_global_def loop_service_def loop_wg_def conn_global_def conn_service_def conn_wg_def

section \<open>What the moves change\<close>

lemma goto_loop_simps [simp]:
  "svGlobal (goto_loop i pc s) = svGlobal s" "svSlots (goto_loop i pc s) = svSlots s" "svListening (goto_loop i pc s) = svListening s"
  "svConns (goto_loop i pc s) = svConns s" "svActive (goto_loop i pc s) = svActive s" "svDone (goto_loop i pc s) = svDone s"
  "svWg (goto_loop i pc s) = svWg s" "svMain (goto_loop i pc s) = svMain s" "svLoops (goto_loop i pc s) = (svLoops s)[i := pc]"
  by (simp_all add: goto_loop_def)

lemma goto_conn_simps [simp]:
  "svGlobal (goto_conn c pc s) = svGlobal s" "svSlots (goto_conn c pc s) = svSlots s" "svListening (goto_conn c pc s) = svListening s"
  "svLoops (goto_conn c pc s) = svLoops s" "svActive (goto_conn c pc s) = svActive s" "svDone (goto_conn c pc s) = svDone s"
  "svWg (goto_conn c pc s) = svWg s" "svMain (goto_conn c pc s) = svMain s"
  "svConns (goto_conn c pc s) = (svConns s)[c := (svConns s ! c)\<lparr>lvPc := pc\<rparr>]"
  by (simp_all add: goto_conn_def)

lemma shut_conn_simps [simp]:
  "svGlobal (shut_conn c s) = svGlobal s" "svSlots (shut_conn c s) = svSlots s" "svListening (shut_conn c s) = svListening s"
  "svLoops (shut_conn c s) = svLoops s" "svActive (shut_conn c s) = svActive s" "svDone (shut_conn c s) = svDone s"
  "svWg (shut_conn c s) = svWg s" "svMain (shut_conn c s) = svMain s"
  "svConns (shut_conn c s) = (svConns s)[c := (svConns s ! c)\<lparr>lvClosed := True\<rparr>]"
  by (simp_all add: shut_conn_def)

lemma server_fail_simps [simp]:
  "svGlobal (server_fail e s) = svGlobal s" "svSlots (server_fail e s) = svSlots s" "svListening (server_fail e s) = svListening s"
  "svLoops (server_fail e s) = svLoops s" "svConns (server_fail e s) = svConns s" "svActive (server_fail e s) = svActive s"
  "svDone (server_fail e s) = svDone s" "svWg (server_fail e s) = svWg s" "svMain (server_fail e s) = svMain s"
  by (simp_all add: server_fail_def)

text \<open>A weight that does not look at whether a connection is closed.\<close>

definition pc_weight :: "(live_conn \<Rightarrow> nat) \<Rightarrow> bool" where
  "pc_weight f \<longleftrightarrow> (\<forall>x b. f (x\<lparr>lvClosed := b\<rparr>) = f x)"

lemma pc_weights: "pc_weight conn_global" "pc_weight (conn_service i)" "pc_weight conn_wg"
  by (simp_all add: pc_weight_def weights)

lemma total_shut: "pc_weight f \<Longrightarrow> total f (C[c := (C ! c)\<lparr>lvClosed := True\<rparr>]) = total f C"
proof (cases "c < length C")
  case True
  assume "pc_weight f"
  then show ?thesis using total_update [OF True, of f "(C ! c)\<lparr>lvClosed := True\<rparr>"] by (simp add: pc_weight_def)
qed (simp add: list_update_beyond)

lemmas total_shuts [simp] = pc_weights [THEN total_shut]

lemma total_goto_loop: "at_loop i pc0 s \<Longrightarrow> total f ((svLoops s)[i := pc]) + f pc0 = total f (svLoops s) + f pc"
  using total_update [of i "svLoops s" f pc] by (simp add: at_loop_def)

lemma total_goto_conn: "c < length C \<Longrightarrow>
    total f (C[c := (C ! c)\<lparr>lvPc := pc\<rparr>]) + f (C ! c) = total f C + f ((C ! c)\<lparr>lvPc := pc\<rparr>)"
  using total_update [of c C f "(C ! c)\<lparr>lvPc := pc\<rparr>"] by simp

section \<open>The shape\<close>

lemma loops_move: "loops_hold L C \<Longrightarrow> (\<And>c. loop_conn pc = Some c \<Longrightarrow> held C i c) \<Longrightarrow> loops_hold (L[i := pc]) C"
  by (auto simp: loops_hold_def nth_update split: if_splits)

lemma loops_conns: "loops_hold L C \<Longrightarrow> (\<And>j c. j < length L \<Longrightarrow> loop_conn (L ! j) = Some c \<Longrightarrow> held C j c \<Longrightarrow> held C' j c) \<Longrightarrow> loops_hold L C'"
  by (auto simp: loops_hold_def)

lemma held_loop: "shaped n s \<Longrightarrow> at_loop i pc s \<Longrightarrow> loop_conn pc = Some c \<Longrightarrow> held (svConns s) i c"
  by (auto simp: shaped_def loops_hold_def at_loop_def)

lemma held_more: "held C i c \<Longrightarrow> held (C @ [x]) i c"
  by (simp add: held_def nth_append)

lemma held_goto: "held C i c \<Longrightarrow> c \<noteq> d \<Longrightarrow> held (C[d := x]) i c"
  by (simp add: held_def nth_update)

lemma held_shut: "held (C[d := (C ! d)\<lparr>lvClosed := True\<rparr>]) i c = held C i c"
  by (auto simp: held_def nth_update)

lemma loops_shut: "loops_hold L (C[d := (C ! d)\<lparr>lvClosed := True\<rparr>]) = loops_hold L C"
  by (simp add: loops_hold_def held_shut)

text \<open>A connection that no loop holds any more.\<close>

lemma loops_release: "loops_hold L C \<Longrightarrow> held C i c \<Longrightarrow> loop_conn pc = None \<Longrightarrow> loops_hold (L[i := pc]) (C[c := x])"
  by (auto simp: loops_hold_def nth_update held_def split: if_splits)

lemma loops_handled: "loops_hold L C \<Longrightarrow> c < length C \<Longrightarrow> lvPc (C ! c) \<noteq> Unhandled \<Longrightarrow> loops_hold L (C[c := x])"
  by (auto simp: loops_hold_def nth_update held_def split: if_splits)

lemma services_update: "(\<forall>c < length C. lvService (C ! c) < n) \<Longrightarrow> lvService x = lvService (C ! d) \<Longrightarrow>
    \<forall>c < length (C[d := x]). lvService (C[d := x] ! c) < n"
  by (auto simp: nth_update)

lemma loop_shaped: "loop_step i s s' \<Longrightarrow> shaped n s \<Longrightarrow> shaped n s'"
proof -
  assume op: "loop_step i s s'" and sh: "shaped n s"
  have len: "length (svSlots s) = n" "length (svListening s) = n" "length (svLoops s) = n" "loops_hold (svLoops s) (svConns s)"
      "\<forall>c < length (svConns s). lvService (svConns s ! c) < n" using sh by (simp_all add: shaped_def)
  note h = held_loop [OF sh]
  show "shaped n s'" using op
  proof cases
    case (accept c)
    let ?C = "svConns s @ [\<lparr>lvService = i, lvPc = Unhandled, lvClosed = False\<rparr>]"
    have "loops_hold (svLoops s) ?C" using len(4) by (rule loops_conns) (simp add: held_more)
    then have "loops_hold ((svLoops s)[i := Offered c]) ?C" by (rule loops_move) (simp add: held_def accept(4))
    then show ?thesis using accept len by (auto simp: shaped_def nth_append at_loop_def)
  next
    case (reject c)
    have "loops_hold ((svLoops s)[i := Accepting]) (svConns s)" by (rule loops_move [OF len(4)]) simp
    then show ?thesis using reject len by (auto simp: shaped_def loops_shut nth_update)
  next
    case (start c)
    have "held (svConns s) i c" by (rule h [OF start(2)]) simp
    then have "loops_hold ((svLoops s)[i := Accepting]) ((svConns s)[c := (svConns s ! c)\<lparr>lvPc := Started\<rparr>])"
      by (rule loops_release [OF len(4)]) simp
    then show ?thesis using start len by (auto simp: shaped_def nth_update)
  qed (use len h in \<open>auto simp: shaped_def intro!: loops_move\<close>)
qed

lemma conn_shaped: "conn_step c s s' \<Longrightarrow> shaped n s \<Longrightarrow> shaped n s'"
proof -
  assume op: "conn_step c s s'" and sh: "shaped n s"
  have len: "length (svSlots s) = n" "length (svListening s) = n" "length (svLoops s) = n" "loops_hold (svLoops s) (svConns s)"
      "\<forall>c < length (svConns s). lvService (svConns s ! c) < n" using sh by (simp_all add: shaped_def)
  have keep: "at_conn c pc s \<Longrightarrow> pc \<noteq> Unhandled \<Longrightarrow> loops_hold (svLoops s) ((svConns s)[c := x])" for pc x
    using loops_handled [OF len(4)] by (simp add: at_conn_def)
  show "shaped n s'" using op
    by cases (use len keep in \<open>auto simp: shaped_def nth_update\<close>)
qed

lemma main_shaped: "main_step s s' \<Longrightarrow> shaped n s \<Longrightarrow> shaped n s'"
  by (erule main_step.cases) (auto simp: shaped_def loops_shut nth_update)

section \<open>The channels and the wait group\<close>

lemma total_upd: "i < length xs \<Longrightarrow> total f (xs[i := x]) = total f xs + f x - f (xs ! i)"
  using total_update [of i xs f x] by simp

lemma loop_charged: "loop_step i s s' \<Longrightarrow> shaped n s \<Longrightarrow> charged n s \<Longrightarrow> charged n s'"
proof -
  assume op: "loop_step i s s'" and sh: "shaped n s" and ch: "charged n s"
  have len: "length (svSlots s) = n" "length (svLoops s) = n" using sh by (simp_all add: shaped_def)
  have un: "held (svConns s) i c" if "loop_conn (svLoops s ! i) = Some c" "i < n" for c
    using that sh by (auto simp: shaped_def loops_hold_def)
  have mem: "i < n \<Longrightarrow> loop_global (svLoops s ! i) \<le> total loop_global (svLoops s)" using total_member [of i "svLoops s"] len by simp
  show "charged n s'" using op
  proof cases
    case (start c)
    then have "held (svConns s) i c" "i < n" "svLoops s ! i = Admitted c" using un len by (auto simp: at_loop_def)
    then show ?thesis using start ch mem len
      by (auto simp: charged_def total_upd nth_update held_def weights)
  qed (use ch mem len in \<open>auto simp: charged_def at_loop_def total_upd nth_update weights try_send_def receive_slot_def server_fail_def split: if_splits\<close>)
qed

lemma conn_charged: "conn_step c s s' \<Longrightarrow> shaped n s \<Longrightarrow> charged n s \<Longrightarrow> charged n s'"
proof -
  assume op: "conn_step c s s'" and sh: "shaped n s" and ch: "charged n s"
  have len: "length (svSlots s) = n" "c < length (svConns s) \<Longrightarrow> lvService (svConns s ! c) < n" using sh by (simp_all add: shaped_def)
  have mem: "c < length (svConns s) \<Longrightarrow> conn_global (svConns s ! c) \<le> total conn_global (svConns s)"
     "c < length (svConns s) \<Longrightarrow> conn_service j (svConns s ! c) \<le> total (conn_service j) (svConns s)" for j
    using total_member [of c "svConns s"] by simp_all
  show "charged n s'" using op
    by cases (use ch mem(1) mem(2) [of "lvService (svConns s ! c)"] len in \<open>auto simp: charged_def at_conn_def total_upd nth_update weights receive_slot_def server_fail_def split: if_splits\<close>)
qed

lemma main_charged: "main_step s s' \<Longrightarrow> charged n s \<Longrightarrow> charged n s'"
  by (erule main_step.cases) (auto simp: charged_def)

lemma loop_grouped: "loop_step i s s' \<Longrightarrow> shaped n s \<Longrightarrow> grouped s \<Longrightarrow> grouped s'"
proof -
  assume op: "loop_step i s s'" and sh: "shaped n s" and ch: "grouped s"
  have un: "held (svConns s) i c" if "loop_conn (svLoops s ! i) = Some c" "i < length (svLoops s)" for c
    using that sh by (auto simp: shaped_def loops_hold_def)
  have mem: "i < length (svLoops s) \<Longrightarrow> loop_wg (svLoops s ! i) \<le> total loop_wg (svLoops s)" using total_member [of i "svLoops s"] by simp
  show "grouped s'" using op
  proof cases
    case (start c)
    then have "held (svConns s) i c" "svLoops s ! i = Admitted c" "i < length (svLoops s)" using un by (auto simp: at_loop_def)
    then show ?thesis using start ch mem by (auto simp: grouped_def total_upd held_def weights)
  qed (use ch mem in \<open>auto simp: grouped_def at_loop_def total_upd weights server_fail_def\<close>)
qed

lemma conn_grouped: "conn_step c s s' \<Longrightarrow> grouped s \<Longrightarrow> grouped s'"
proof -
  assume op: "conn_step c s s'" and gr: "grouped s"
  have mem: "c < length (svConns s) \<Longrightarrow> conn_wg (svConns s ! c) \<le> total conn_wg (svConns s)" using total_member [of c "svConns s"] by simp
  show "grouped s'" using op
    by cases (use gr mem in \<open>auto simp: grouped_def at_conn_def total_upd weights server_fail_def\<close>)
qed

lemma main_grouped: "main_step s s' \<Longrightarrow> grouped s \<Longrightarrow> grouped s'"
  by (erule main_step.cases) (auto simp: grouped_def)

section \<open>The shutdown\<close>

lemma registered_simps [simp]:
  "lvPc x = Unhandled \<Longrightarrow> registered (C @ [x]) c = registered C c"
  "registered (C[d := (C ! d)\<lparr>lvPc := pc\<rparr>]) c = (if c = d \<and> d < length C then pc \<in> {Registered, Serving, Leaving, Closing} else registered C c)"
  "registered (C[d := (C ! d)\<lparr>lvClosed := b, lvPc := pc\<rparr>]) c = (if c = d \<and> d < length C then pc \<in> {Registered, Serving, Leaving, Closing} else registered C c)"
  by (auto simp: registered_def nth_append nth_update)

lemma registered_shut [simp]: "registered (C[d := (C ! d)\<lparr>lvClosed := True\<rparr>]) c = registered C c"
  by (auto simp: registered_def nth_update)

lemma registered_at: "at_conn c pc s \<Longrightarrow> c < length (svConns s) \<and> registered (svConns s) c = (pc \<in> {Registered, Serving, Leaving, Closing})"
  by (auto simp: registered_def at_conn_def)

lemma loop_tracked: "loop_step i s s' \<Longrightarrow> shaped n s \<Longrightarrow> tracked s \<Longrightarrow> tracked s'"
proof -
  assume op: "loop_step i s s'" and sh: "shaped n s" and tr: "tracked s"
  show "tracked s'" using op
  proof cases
    case (start c)
    then have "held (svConns s) i c" using held_loop [OF sh start(2)] by simp
    then have "\<not> registered (svConns s) c" by (simp add: held_def registered_def)
    then show ?thesis using start tr by (auto simp: tracked_def)
  qed (use tr in \<open>simp_all add: tracked_def\<close>)
qed

lemma conn_tracked: "conn_step c s s' \<Longrightarrow> tracked s \<Longrightarrow> tracked s'"
proof -
  assume op: "conn_step c s s'" and tr: "tracked s"
  show "tracked s'" using op
    by cases (use tr registered_at [of c _ s] in \<open>simp_all add: tracked_def\<close>)
qed

lemma main_tracked: "main_step s s' \<Longrightarrow> tracked s \<Longrightarrow> tracked s'"
  by (erule main_step.cases) (simp_all add: tracked_def)

lemma running_wg: "grouped s \<Longrightarrow> at_loop i pc s \<Longrightarrow> pc \<noteq> Stopped \<Longrightarrow> 0 < svWg s"
    "grouped s \<Longrightarrow> at_conn c q s \<Longrightarrow> q \<notin> {Unhandled, Gone} \<Longrightarrow> 0 < svWg s"
  using total_member [of i "svLoops s" loop_wg] total_member [of c "svConns s" conn_wg]
  by (auto simp: grouped_def at_loop_def at_conn_def weights split: if_splits)

text \<open>Steps of the goroutines leave the phase of the shutdown as it is.\<close>

lemma phased_step:
  assumes "phased s" "svMain s' = svMain s" "svListening s' = svListening s" "svDone s' = svDone s" "0 < svWg s"
    "svDone s \<Longrightarrow> (\<And>X. serving_closed X s \<Longrightarrow> serving_closed X s')"
  shows "phased s'"
  using assms by (auto simp: phased_def split: main_pc.splits)

lemma loop_phased: "loop_step i s s' \<Longrightarrow> shaped n s \<Longrightarrow> grouped s \<Longrightarrow> phased s \<Longrightarrow> phased s'"
proof -
  assume op: "loop_step i s s'" and sh: "shaped n s" and gr: "grouped s" and ph: "phased s"
  have wg: "0 < svWg s" using op by cases (use running_wg(1) [OF gr] in auto)
  have same: "svMain s' = svMain s" "svListening s' = svListening s" "svDone s' = svDone s" using op by (cases; simp)+
  show ?thesis
  proof (rule phased_step [OF ph same wg])
    fix X assume c: "serving_closed X s"
    show "serving_closed X s'" using op
      by cases (use c in \<open>auto simp: serving_closed_def nth_append nth_update less_Suc_eq split: if_splits\<close>)
  qed
qed

lemma conn_phased: "conn_step c s s' \<Longrightarrow> grouped s \<Longrightarrow> phased s \<Longrightarrow> phased s'"
proof -
  assume op: "conn_step c s s'" and gr: "grouped s" and ph: "phased s"
  have wg: "0 < svWg s" using op by cases (use running_wg(2) [OF gr] in auto)
  have same: "svMain s' = svMain s" "svListening s' = svListening s" "svDone s' = svDone s" using op by (cases; simp)+
  show ?thesis
  proof (rule phased_step [OF ph same wg])
    fix X assume d: "svDone s" and c: "serving_closed X s"
    show "serving_closed X s'" using op
      by cases (use c d in \<open>auto simp: serving_closed_def nth_update split: if_splits\<close>)
  qed
qed

lemma main_phased: "main_step s s' \<Longrightarrow> tracked s \<Longrightarrow> phased s \<Longrightarrow> phased s'"
proof -
  assume op: "main_step s s'" and tr: "tracked s" and ph: "phased s"
  show "phased s'" using op
  proof cases
    case (listeners_closed k)
    then show ?thesis using ph by (auto simp: phased_def in_set_conv_nth)
  next
    case (snapshot cs)
    then show ?thesis using ph tr by (auto simp: phased_def serving_closed_def tracked_def registered_def)
  qed (use ph in \<open>auto simp: phased_def serving_closed_def nth_update less_Suc_eq split: if_splits\<close>)
qed

text \<open>The invariant of the server.\<close>

lemma server_step_inv: "server_step s s' \<Longrightarrow> server_inv n s \<Longrightarrow> server_inv n s'"
proof (induction rule: server_step.induct)
  case (by_loop i s s')
  then show ?case using loop_shaped loop_charged loop_grouped loop_tracked loop_phased unfolding server_inv_def by blast
next
  case (by_conn c s s')
  then show ?case using conn_shaped conn_charged conn_grouped conn_tracked conn_phased unfolding server_inv_def by blast
next
  case (by_main s s')
  then show ?case using main_shaped main_charged main_grouped main_tracked main_phased unfolding server_inv_def by blast
next
  case (signal s)
  then show ?case by (auto simp: server_inv_def shaped_def charged_def grouped_def tracked_def phased_def serving_closed_def split: main_pc.splits)
qed

lemma server_start_inv: "server_inv (length services) (server_start cfg services)"
proof -
  have "total loop_wg (map (\<lambda>s. Accepting) services) = length services" "total loop_global (map (\<lambda>s. Accepting) services) = 0"
    by (induction services) (auto simp: weights)
  then show ?thesis by (auto simp: server_inv_def server_start_def shaped_def loops_hold_def charged_def grouped_def tracked_def registered_def phased_def weights)
qed

lemma reachable_inv: "reachable (server_start cfg services) s \<Longrightarrow> server_inv (length services) s"
  by (induction rule: reachable.induct) (auto intro: server_start_inv server_step_inv)

section \<open>Admission\<close>

text \<open>The connections in the hands of a handler, and those of one service.\<close>

definition handled :: "live_conn \<Rightarrow> bool" where
  "handled c \<longleftrightarrow> lvPc c \<in> {Started, Registered, Serving, Leaving, Closing, Returned}"

lemma handled_total: "length (filter handled C) \<le> total conn_global C"
    "length (filter (\<lambda>c. handled c \<and> lvService c = i) C) \<le> total (conn_service i) C"
  by (induction C) (auto simp: handled_def weights)

text \<open>The capacities never change.\<close>

lemma step_caps: "server_step s s' \<Longrightarrow> slCap (svGlobal s') = slCap (svGlobal s) \<and> map slCap (svSlots s') = map slCap (svSlots s)"
proof (induction rule: server_step.induct)
  case (by_loop i s s')
  then show ?case
    by cases (auto simp: try_send_def receive_slot_def nth_update intro!: nth_equalityI split: if_splits)
next
  case (by_conn c s s')
  then show ?case by cases (auto simp: receive_slot_def nth_update intro!: nth_equalityI)
next
  case (by_main s s')
  then show ?case by cases auto
qed simp

lemma reachable_caps: "reachable s0 s \<Longrightarrow> slCap (svGlobal s) = slCap (svGlobal s0) \<and> map slCap (svSlots s) = map slCap (svSlots s0)"
  by (induction rule: reachable.induct) (auto dest: step_caps)

lemma bind_caps: "bind_services cfg ids bound n = (Inr services, n') \<Longrightarrow>
    \<forall>s \<in> set bound. srSlots s = nat (MaxConnectionsPerService (cfLimits cfg)) \<Longrightarrow>
    \<forall>s \<in> set services. srSlots s = nat (MaxConnectionsPerService (cfLimits cfg))"
  by (induction cfg ids bound n rule: bind_services.induct) (auto simp: Let_def split: option.splits prod.splits sum.splits)

text \<open>C8: However the accept loops and the connections interleave, no more connections are in the hands of
  handlers at the same time than \<open>max_connections_total\<close>, and for each service no more than
  \<open>max_connections_per_service\<close>.\<close>

lemma server_admission:
  assumes "bindConfiguredListeners cfg n = (Inr services, n')" "reachable (server_start cfg services) s"
  shows "length (filter handled (svConns s)) \<le> nat (MaxConnectionsTotal (cfLimits cfg))
    \<and> (\<forall>i < length services. length (filter (\<lambda>c. handled c \<and> lvService c = i) (svConns s)) \<le> nat (MaxConnectionsPerService (cfLimits cfg)))"
proof -
  have inv: "charged (length services) s" "length (svSlots s) = length services"
    using reachable_inv [OF assms(2)] by (simp_all add: server_inv_def shaped_def)
  note caps = reachable_caps [OF assms(2)]
  have g: "slCap (svGlobal s) = nat (MaxConnectionsTotal (cfLimits cfg))" using caps by (simp add: server_start_def)
  have "slCap (svSlots s ! i) = nat (MaxConnectionsPerService (cfLimits cfg))" if "i < length services" for i
  proof -
    have "map slCap (svSlots s) ! i = map slCap (svSlots (server_start cfg services)) ! i" using caps by simp
    then have "slCap (svSlots s ! i) = srSlots (services ! i)" using that inv(2) by (simp add: server_start_def)
    then show ?thesis using bind_caps [OF assms(1) [unfolded bindConfiguredListeners_def]] that by auto
  qed
  note service = this
  show ?thesis
  proof (intro conjI allI impI)
    show "length (filter handled (svConns s)) \<le> nat (MaxConnectionsTotal (cfLimits cfg))"
      using inv(1) g handled_total(1) [of "svConns s"] by (simp add: charged_def)
    fix i assume i: "i < length services"
    then have "total (conn_service i) (svConns s) \<le> slCap (svSlots s ! i)" using inv(1) by (auto simp: charged_def)
    then show "length (filter (\<lambda>c. handled c \<and> lvService c = i) (svConns s)) \<le> nat (MaxConnectionsPerService (cfLimits cfg))"
      using service [OF i] handled_total(2) [of i "svConns s"] by simp
  qed
qed

text \<open>C11: No admission slot is lost: whenever no accept loop is deciding on a connection and every
  connection that was admitted is gone, both kinds of channels are empty again; this includes the
  connections that were refused and those that failed before they were served.\<close>

lemma server_slots_returned:
  assumes "reachable (server_start cfg services) s"
    and "\<forall>pc \<in> set (svLoops s). loop_conn pc = None" "\<forall>c \<in> set (svConns s). lvPc c \<in> {Unhandled, Gone}"
  shows "slLen (svGlobal s) = 0 \<and> (\<forall>k \<in> set (svSlots s). slLen k = 0)"
proof -
  have inv: "charged (length services) s" "length (svSlots s) = length services" "length (svLoops s) = length services"
    using reachable_inv [OF assms(1)] by (simp_all add: server_inv_def shaped_def)
  have "loop_global pc = 0 \<and> loop_service pc = 0" if "pc \<in> set (svLoops s)" for pc
    using assms(2) that by (cases pc) (auto simp: weights)
  then have l: "total loop_global (svLoops s) = 0" "i < length services \<Longrightarrow> loop_service (svLoops s ! i) = 0" for i
    using inv(3) by (simp_all add: total_zero)
  have c: "total conn_global (svConns s) = 0" "total (conn_service i) (svConns s) = 0" for i
    using assms(3) by (auto simp: total_zero weights)
  show ?thesis using inv l c by (auto simp: charged_def in_set_conv_nth)
qed

text \<open>C18: Undisturbed, the accept loop decides on an offered connection as \<open>tryAcquireConnectionSlots\<close> does:
  it admits the connection exactly when both channels have room, and it leaves the channels as the
  function does.\<close>

lemma loop_decides:
  assumes "at_loop i (Offered c) s" "i < length (svSlots s)"
    and "tryAcquireConnectionSlots (svGlobal s) (svSlots s ! i) = (ok, g, k)"
  shows "\<exists>s'. (loop_step i)\<^sup>*\<^sup>* s s' \<and> at_loop i (if ok then Admitted c else Rejected c) s'
    \<and> svGlobal s' = g \<and> svSlots s' = (svSlots s)[i := k]
    \<and> (ok \<longleftrightarrow> slLen (svGlobal s) < slCap (svGlobal s) \<and> slLen (svSlots s ! i) < slCap (svSlots s ! i))"
proof -
  have at: "at_loop i pc (goto_loop i pc t)" if "length (svLoops t) = length (svLoops s)" for pc t
    using assms(1) that by (simp add: at_loop_def)
  have rooms: "try_send r = None \<longleftrightarrow> \<not> slLen r < slCap r" "try_send r = Some r' \<Longrightarrow> slLen r < slCap r" for r r'
    by (simp_all add: try_send_def split: if_splits)
  show ?thesis
  proof (cases "try_send (svGlobal s)")
    case None
    have "loop_step i s (goto_loop i (Rejected c) s)" by (rule loop_step.full [OF assms(1) None])
    moreover have "\<not> ok" "g = svGlobal s" "k = svSlots s ! i" using assms(3) None by (simp_all add: tryAcquireConnectionSlots_def)
    moreover have "at_loop i (Rejected c) (goto_loop i (Rejected c) s)" by (rule at) simp
    ultimately show ?thesis using rooms(1) [of "svGlobal s"] None by (intro exI [of _ "goto_loop i (Rejected c) s"]) auto
  next
    case g1: (Some g1)
    let ?s1 = "goto_loop i (Charged c) (s\<lparr>svGlobal := g1\<rparr>)"
    have s1: "loop_step i s ?s1" "at_loop i (Charged c) ?s1" using loop_step.charge [OF assms(1) g1] at by auto
    show ?thesis
    proof (cases "try_send (svSlots s ! i)")
      case (Some k1)
      let ?s2 = "goto_loop i (Admitted c) (?s1\<lparr>svSlots := (svSlots s)[i := k1]\<rparr>)"
      have "loop_step i ?s1 ?s2" using loop_step.admit [OF s1(2), of k1] Some by simp
      then have "(loop_step i)\<^sup>*\<^sup>* s ?s2" using s1(1) by (meson converse_rtranclp_into_rtranclp r_into_rtranclp)
      moreover have "ok" "g = g1" "k = k1" using assms(3) Some g1 by (simp_all add: tryAcquireConnectionSlots_def)
      moreover have "at_loop i (Admitted c) ?s2" by (rule at) simp
      ultimately show ?thesis using rooms(2) [OF Some] rooms(2) [OF g1] by (intro exI [of _ ?s2]) simp
    next
      case None
      let ?s2 = "goto_loop i (Refusing c) ?s1"
      have s2: "loop_step i ?s1 ?s2" "at_loop i (Refusing c) ?s2" using loop_step.service_full [OF s1(2)] None at by auto
      let ?s3 = "goto_loop i (Rejected c) (?s2\<lparr>svGlobal := receive_slot (svGlobal ?s2)\<rparr>)"
      have "loop_step i ?s2 ?s3" by (rule loop_step.give_back [OF s2(2)])
      then have "(loop_step i)\<^sup>*\<^sup>* s ?s3" using s1(1) s2(1) by (meson converse_rtranclp_into_rtranclp r_into_rtranclp)
      moreover have "\<not> ok" "g = receive_slot g1" "k = svSlots s ! i" using assms(3) None g1 by (simp_all add: tryAcquireConnectionSlots_def)
      moreover have "at_loop i (Rejected c) ?s3" by (rule at) simp
      ultimately show ?thesis using rooms(1) [of "svSlots s ! i"] None by (intro exI [of _ ?s3]) simp
    qed
  qed
qed

section \<open>Closing down\<close>

text \<open>Left alone, \<open>Run\<close> goes through the steps of \<open>closeActiveConnections\<close> one after the other.\<close>

lemma close_conns_steps: "main_step\<^sup>*\<^sup>* (s\<lparr>svMain := ClosingConns cs\<rparr>) ((fold shut_conn cs s)\<lparr>svMain := ClosingConns []\<rparr>)"
proof (induction cs arbitrary: s)
  case (Cons c cs)
  have "main_step (s\<lparr>svMain := ClosingConns (c # cs)\<rparr>) ((shut_conn c s)\<lparr>svMain := ClosingConns cs\<rparr>)"
    using main_step.close_conn [where s = "s\<lparr>svMain := ClosingConns (c # cs)\<rparr>" and c = c and cs = cs] by (simp add: shut_conn_def)
  with Cons.IH [where s = "shut_conn c s"] show ?case by (simp add: converse_rtranclp_into_rtranclp)
qed simp

lemma closeActiveConnections_steps:
  assumes "svMain s = Snapshotting" and "set cs = svActive s" and "distinct cs"
  shows "main_step\<^sup>*\<^sup>* s ((closeActiveConnections cs s)\<lparr>svMain := Waiting\<rparr>)"
proof -
  have "main_step s (s\<lparr>svMain := ClosingConns cs\<rparr>)" using assms by (rule main_step.snapshot)
  moreover have "main_step ((fold shut_conn cs s)\<lparr>svMain := ClosingConns []\<rparr>) ((fold shut_conn cs s)\<lparr>svMain := Waiting\<rparr>)"
    using main_step.conns_closed [where s = "(fold shut_conn cs s)\<lparr>svMain := ClosingConns []\<rparr>"] by simp
  ultimately show ?thesis using close_conns_steps [where s = s and cs = cs] unfolding closeActiveConnections_def
    by (meson converse_rtranclp_into_rtranclp rtranclp.rtrancl_into_rtrancl)
qed

text \<open>A connection that waits to be handled is closed or in the hands of an accept loop, and one whose
  handler went through its deferred functions is closed.\<close>

definition waits :: "loop_pc list \<Rightarrow> nat \<Rightarrow> bool" where
  "waits L c \<longleftrightarrow> (\<exists>j < length L. loop_conn (L ! j) = Some c)"

definition owned :: "server \<Rightarrow> bool" where
  "owned s \<longleftrightarrow> (\<forall>c < length (svConns s). lvClosed (svConns s ! c)
     \<or> lvPc (svConns s ! c) \<in> {Started, Registered, Serving, Leaving} \<or> lvPc (svConns s ! c) = Unhandled \<and> waits (svLoops s) c)"

lemma waits_move: "waits L c \<Longrightarrow> i < length L \<Longrightarrow> loop_conn (L ! i) = Some c \<longrightarrow> loop_conn pc = Some c \<Longrightarrow> waits (L[i := pc]) c"
  unfolding waits_def by (metis length_list_update nth_list_update)

lemma waits_here: "i < length L \<Longrightarrow> loop_conn pc = Some c \<Longrightarrow> waits (L[i := pc]) c"
  unfolding waits_def by (metis length_list_update nth_list_update_eq)

lemma loop_owned: "loop_step i s s' \<Longrightarrow> owned s \<Longrightarrow> owned s'"
proof -
  assume op: "loop_step i s s'" and ow: "owned s"
  show "owned s'" using op
  proof cases
    case (accept c)
    then show ?thesis using ow waits_here [of i "svLoops s" "Offered c" c] waits_move [of "svLoops s" _ i "Offered c"]
      by (auto simp: owned_def nth_append at_loop_def less_Suc_eq)
  next
    case (reject c)
    then show ?thesis using ow waits_move [of "svLoops s" _ i Accepting] by (auto simp: owned_def at_loop_def nth_update)
  next
    case (start c)
    then show ?thesis using ow waits_move [of "svLoops s" _ i Accepting] by (auto simp: owned_def at_loop_def nth_update)
  qed (use ow in \<open>auto simp: owned_def at_loop_def intro!: waits_move\<close>)
qed

lemma conn_owned: "conn_step c s s' \<Longrightarrow> owned s \<Longrightarrow> owned s'"
proof -
  assume op: "conn_step c s s'" and ow: "owned s"
  show "owned s'" using op by cases (use ow in \<open>auto simp: owned_def at_conn_def nth_update\<close>)
qed

lemma main_owned: "main_step s s' \<Longrightarrow> owned s \<Longrightarrow> owned s'"
proof -
  assume op: "main_step s s'" and ow: "owned s"
  show "owned s'" using op by cases (use ow in \<open>auto simp: owned_def nth_update\<close>)
qed

lemma reachable_owned: "reachable (server_start cfg services) s \<Longrightarrow> owned s"
proof (induction rule: reachable.induct)
  case (step s s')
  from step(2,3) show ?case
    by (induction rule: server_step.induct) (auto intro: loop_owned conn_owned main_owned, simp add: owned_def)
qed (simp add: owned_def server_start_def)

text \<open>C9: A shutdown reaches every connection. Once the active connections were closed, every connection
  that is past its check of the context is closed, and the others stop at that check; and when
  \<open>Run\<close> goes on to close the journal, every goroutine has ended and every connection that was ever accepted
  is closed.\<close>

lemma server_shutdown:
  assumes "reachable (server_start cfg services) s"
  shows "(svMain s = Waiting \<longrightarrow> svDone s \<and> (\<forall>c \<in> set (svConns s). lvPc c = Serving \<longrightarrow> lvClosed c))
    \<and> (svMain s = Drained \<longrightarrow> set (svLoops s) \<subseteq> {Stopped} \<and> (\<forall>c \<in> set (svConns s). lvPc c \<in> {Unhandled, Gone} \<and> lvClosed c))"
proof -
  have inv: "phased s" "grouped s" using reachable_inv [OF assms] by (simp_all add: server_inv_def)
  show ?thesis
  proof (intro conjI impI)
    assume m: "svMain s = Waiting"
    show "svDone s" using inv(1) m by (simp add: phased_def)
    show "\<forall>c \<in> set (svConns s). lvPc c = Serving \<longrightarrow> lvClosed c"
      using inv(1) m by (auto simp: phased_def serving_closed_def in_set_conv_nth)
  next
    assume m: "svMain s = Drained"
    then have "svWg s = 0" using inv(1) by (simp add: phased_def)
    then have wg: "\<forall>pc \<in> set (svLoops s). pc = Stopped" "\<forall>c \<in> set (svConns s). lvPc c \<in> {Unhandled, Gone}"
      using inv(2) by (auto simp: grouped_def total_zero weights split: if_splits)
    then show "set (svLoops s) \<subseteq> {Stopped}" by auto
    have "svLoops s ! j = Stopped" if "j < length (svLoops s)" for j using wg(1) that by simp
    then have "\<not> waits (svLoops s) c" for c by (auto simp: waits_def)
    then show "\<forall>c \<in> set (svConns s). lvPc c \<in> {Unhandled, Gone} \<and> lvClosed c"
      using wg(2) reachable_owned [OF assms] by (fastforce simp: owned_def in_set_conv_nth)
  qed
qed

text \<open>The steps that are left to a goroutine when the context is done and its listener is closed.\<close>

fun loop_rank :: "loop_pc \<Rightarrow> nat" where
  "loop_rank (Offered c) = 12"
| "loop_rank (Charged c) = 11"
| "loop_rank (Admitted c) = 10"
| "loop_rank (Refusing c) = 4"
| "loop_rank (Rejected c) = 3"
| "loop_rank Accepting = 2"
| "loop_rank Failing = 1"
| "loop_rank Stopped = 0"

fun conn_rank :: "conn_pc \<Rightarrow> nat" where
  "conn_rank Unhandled = 0"
| "conn_rank Started = 7"
| "conn_rank Serving = 7"
| "conn_rank Registered = 6"
| "conn_rank Leaving = 5"
| "conn_rank Closing = 4"
| "conn_rank Returned = 3"
| "conn_rank ServiceFreed = 2"
| "conn_rank GlobalFreed = 1"
| "conn_rank Gone = 0"

definition server_rank :: "server \<Rightarrow> nat" where
  "server_rank s = total loop_rank (svLoops s) + total (conn_rank \<circ> lvPc) (svConns s)
     + (if svFatal s = None then 1 else 0) + (if svMain s = Drained then 0 else 1)"

lemma pc_weight_rank: "pc_weight (conn_rank \<circ> lvPc)"
  by (simp add: pc_weight_def)

lemmas total_shut_rank [simp] = pc_weight_rank [THEN total_shut]

lemma fatal_simps [simp]:
  "svFatal (goto_loop i pc s) = svFatal s" "svFatal (goto_conn c q s) = svFatal s" "svFatal (shut_conn c s) = svFatal s"
  "svFatal (server_fail e s) = (if svFatal s = None then Some e else svFatal s)"
  by (simp_all add: goto_loop_def goto_conn_def shut_conn_def server_fail_def)

lemma loop_ranked:
  assumes "loop_step i s s'" "shaped n s" "True \<notin> set (svListening s)"
  shows "server_rank s' < server_rank s"
proof -
  have off: "\<not> svListening s ! i" if "i < length (svLoops s)"
    using assms(2,3) that unfolding shaped_def by (metis nth_mem)
  have un: "held (svConns s) i c" if "loop_conn (svLoops s ! i) = Some c" "i < length (svLoops s)" for c
    using that assms(2) by (auto simp: shaped_def loops_hold_def)
  have mem: "i < length (svLoops s) \<Longrightarrow> loop_rank (svLoops s ! i) \<le> total loop_rank (svLoops s)" using total_member [of i "svLoops s"] by simp
  show ?thesis using assms(1)
  proof cases
    case (start c)
    then have "held (svConns s) i c" "svLoops s ! i = Admitted c" "i < length (svLoops s)" using un by (auto simp: at_loop_def)
    then show ?thesis using start mem by (simp add: server_rank_def total_upd held_def)
  qed (use mem off in \<open>auto simp: server_rank_def at_loop_def total_upd\<close>)
qed

lemma conn_ranked:
  assumes "conn_step c s s'" "svDone s"
  shows "s' = s \<or> server_rank s' < server_rank s"
proof -
  have mem: "c < length (svConns s) \<Longrightarrow> conn_rank (lvPc (svConns s ! c)) \<le> total (conn_rank \<circ> lvPc) (svConns s)"
    using total_member [of c "svConns s" "conn_rank \<circ> lvPc"] by simp
  show ?thesis using assms(1)
    by cases (use mem assms(2) in \<open>auto simp: server_rank_def at_conn_def total_upd server_fail_def split: if_splits\<close>)
qed

text \<open>Every goroutine that has not ended can go on.\<close>

lemma loop_progress: "at_loop i pc s \<Longrightarrow> pc \<noteq> Stopped \<Longrightarrow> \<exists>s'. loop_step i s s'"
proof -
  assume at: "at_loop i pc s" and run: "pc \<noteq> Stopped"
  show ?thesis
  proof (cases pc)
    case (Offered c)
    then show ?thesis using loop_step.charge [of i c s] loop_step.full [of i c s] at by (cases "try_send (svGlobal s)") auto
  next
    case (Charged c)
    then show ?thesis using loop_step.admit [of i c s] loop_step.service_full [of i c s] at by (cases "try_send (svSlots s ! i)") auto
  next
    case Failing
    then show ?thesis using loop_step.failing_done [of i s] loop_step.failing [of i s] at by (cases "svDone s") auto
  qed (use at run in \<open>auto intro: loop_step.intros\<close>)
qed

lemma conn_progress: "at_conn c q s \<Longrightarrow> q \<notin> {Unhandled, Gone} \<Longrightarrow> svDone s \<Longrightarrow> \<exists>s'. conn_step c s s' \<and> s' \<noteq> s"
proof -
  assume at: "at_conn c q s" and run: "q \<notin> {Unhandled, Gone}" and off: "svDone s"
  have away: "goto_conn c q' t \<noteq> s" if "q' \<noteq> q" "length (svConns t) = length (svConns s)" for q' t
  proof
    assume "goto_conn c q' t = s"
    then have "lvPc (svConns (goto_conn c q' t) ! c) = q" using at by (simp add: at_conn_def)
    then show False using that at by (simp add: at_conn_def)
  qed
  have ok: ?thesis if "conn_step c s (goto_conn c q' t)" "q' \<noteq> q" "length (svConns t) = length (svConns s)" for q' t
    using that(1) away [OF that(2,3)] by blast
  show ?thesis
  proof (cases q)
    case Started
    then show ?thesis using at by (intro ok [OF conn_step.register]) simp_all
  next
    case Registered
    then show ?thesis using at by (intro ok [OF conn_step.left]) simp_all
  next
    case Serving
    then show ?thesis using at by (intro ok [OF conn_step.ended]) simp_all
  next
    case Leaving
    then show ?thesis using at by (intro ok [OF conn_step.close_raw]) simp_all
  next
    case Closing
    then show ?thesis using at by (intro ok [OF conn_step.unregister]) simp_all
  next
    case Returned
    then show ?thesis using at by (intro ok [OF conn_step.free_service [OF _ refl]]) simp_all
  next
    case ServiceFreed
    then show ?thesis using at by (intro ok [OF conn_step.free_global]) simp_all
  next
    case GlobalFreed
    then show ?thesis using at by (intro ok [OF conn_step.finish]) simp_all
  qed (use run in auto)
qed

text \<open>C10: A shutdown ends: while \<open>Run\<close> waits for the goroutines, some step is always possible, and every
  step that changes anything lowers a rank, so after at most \<open>server_rank\<close> steps the server is
  drained.\<close>

lemma server_drains:
  assumes "reachable (server_start cfg services) s" "svMain s = Waiting"
  shows "(\<exists>s'. server_step s s' \<and> s' \<noteq> s)
    \<and> (\<forall>s'. server_step s s' \<and> s' \<noteq> s \<longrightarrow> svMain s' \<in> {Waiting, Drained} \<and> server_rank s' < server_rank s)"
proof
  have inv: "shaped (length services) s" "phased s" "grouped s" using reachable_inv [OF assms(1)] by (simp_all add: server_inv_def)
  have down: "svDone s" "True \<notin> set (svListening s)" using inv(2) assms(2) by (simp_all add: phased_def)
  show "\<forall>s'. server_step s s' \<and> s' \<noteq> s \<longrightarrow> svMain s' \<in> {Waiting, Drained} \<and> server_rank s' < server_rank s"
  proof (intro allI impI, elim conjE)
    fix s' assume "server_step s s'" "s' \<noteq> s"
    then show "svMain s' \<in> {Waiting, Drained} \<and> server_rank s' < server_rank s"
    proof cases
      case (by_loop i)
      have "svMain s' = svMain s" using by_loop by cases simp_all
      then show ?thesis using loop_ranked [OF by_loop inv(1) down(2)] assms(2) by simp
    next
      case (by_conn c)
      have "svMain s' = svMain s" using by_conn by cases simp_all
      then show ?thesis using conn_ranked [OF by_conn down(1)] assms(2) \<open>s' \<noteq> s\<close> by auto
    next
      case by_main
      then show ?thesis using assms(2) by cases (simp_all add: server_rank_def)
    next
      case signal
      then show ?thesis using \<open>s' \<noteq> s\<close> down(1) by simp
    qed
  qed
  show "\<exists>s'. server_step s s' \<and> s' \<noteq> s"
  proof (cases "svWg s = 0")
    case True
    have "server_step s (s\<lparr>svMain := Drained\<rparr>)" by (rule server_step.by_main [OF main_step.waited [OF assms(2) True]])
    moreover have "svMain (s\<lparr>svMain := Drained\<rparr>) \<noteq> svMain s" using assms(2) by simp
    ultimately show ?thesis by metis
  next
    case False
    then have "total loop_wg (svLoops s) \<noteq> 0 \<or> total conn_wg (svConns s) \<noteq> 0" using inv(3) by (simp add: grouped_def)
    then have "(\<exists>pc \<in> set (svLoops s). pc \<noteq> Stopped) \<or> (\<exists>x \<in> set (svConns s). lvPc x \<notin> {Unhandled, Gone})"
      unfolding total_zero by (auto simp: weights split: if_splits)
    then show ?thesis
    proof
      assume "\<exists>pc \<in> set (svLoops s). pc \<noteq> Stopped"
      then obtain i where i: "at_loop i (svLoops s ! i) s" "svLoops s ! i \<noteq> Stopped" by (auto simp: at_loop_def in_set_conv_nth)
      then obtain s' where s': "loop_step i s s'" using loop_progress by blast
      have "server_rank s' < server_rank s" by (rule loop_ranked [OF s' inv(1) down(2)])
      then show ?thesis using server_step.by_loop [OF s'] by (metis less_irrefl)
    next
      assume "\<exists>x \<in> set (svConns s). lvPc x \<notin> {Unhandled, Gone}"
      then obtain c where "at_conn c (lvPc (svConns s ! c)) s" "lvPc (svConns s ! c) \<notin> {Unhandled, Gone}"
        by (auto simp: at_conn_def in_set_conv_nth)
      from conn_progress [OF this down(1)] show ?thesis using server_step.by_conn by blast
    qed
  qed
qed

section \<open>Binding\<close>

lemma closeListeners_listening: "nsListening (closeListeners services n) = filter (\<lambda>(k, a). k \<notin> srListener ` set services) (nsListening n)"
proof (induction services arbitrary: n)
  case (Cons x xs)
  then show ?case by (simp add: closeListeners_def listener_Close_def) (rule filter_cong, auto)
qed (simp add: closeListeners_def)

text \<open>The sockets of services that were bound.\<close>

definition bound_to :: "service_runtime \<Rightarrow> nat \<times> string" where
  "bound_to s = (srListener s, case scListener (srCfg s) of None \<Rightarrow> '''' | Some l \<Rightarrow> JoinHostPort (lcAddress l) (itoa (lcPort l)))"

definition bound_ok :: "config \<Rightarrow> string list \<Rightarrow> service_runtime list \<Rightarrow> bool" where
  "bound_ok cfg ids services \<longleftrightarrow> map srID services = ids
     \<and> (\<forall>s \<in> set services. map_of (cfServices cfg) (srID s) = Some (srCfg s) \<and> srSlots s = nat (MaxConnectionsPerService (cfLimits cfg)))"

lemma net_Listen_effect:
  assumes "net_Listen a n = (r, n')"
  shows "case r of Inl e \<Rightarrow> nsListening n' = nsListening n \<and> nsNext n' = nsNext n
    | Inr k \<Rightarrow> k = nsNext n \<and> nsListening n' = nsListening n @ [(k, a)] \<and> nsNext n' = Suc (nsNext n)"
  using assms by (auto simp: net_Listen_def Let_def split: prod.splits option.splits if_splits)

lemma bind_services_effect:
  assumes "bind_services cfg ids bound n = (r, n')" "\<forall>sid \<in> set ids. \<exists>svc l. map_of (cfServices cfg) sid = Some svc \<and> scListener svc = Some l"
    and "bound_ok cfg done_ids bound" "nsListening n = old @ map bound_to bound"
    and "\<forall>(k, a) \<in> set old. k < first" "\<forall>s \<in> set bound. first \<le> srListener s" "\<forall>(k, a) \<in> set (nsListening n). k < nsNext n" "first \<le> nsNext n"
  shows "case r of Inl e \<Rightarrow> nsListening n' = old
    | Inr services \<Rightarrow> bound_ok cfg (done_ids @ ids) services \<and> nsListening n' = old @ map bound_to services
        \<and> (\<forall>s \<in> set services. first \<le> srListener s)"
  using assms
proof (induction ids arbitrary: bound n done_ids)
  case Nil
  then show ?case by auto
next
  case (Cons sid ids)
  obtain svc l where l: "map_of (cfServices cfg) sid = Some svc" "scListener svc = Some l" using Cons.prems(2) by auto
  let ?a = "JoinHostPort (lcAddress l) (itoa (lcPort l))"
  obtain x n1 where li: "net_Listen ?a n = (x, n1)" by (metis surj_pair)
  note eff = net_Listen_effect [OF li]
  show ?case
  proof (cases x)
    case (Inl e)
    then have r: "r = Inl (Wrapf ''LISTENER_BIND_FAILED service_id=%s address=%s: %w'' [AStr sid, AStr ?a] e)" "n' = closeListeners bound n1"
      using Cons.prems(1) l li by simp_all
    have "nsListening n1 = old @ map bound_to bound" using eff Inl Cons.prems(4) by simp
    moreover have "filter (\<lambda>(k, a). k \<notin> srListener ` set bound) old = old"
      using Cons.prems(5,6) by (fastforce simp: filter_id_conv)
    moreover have "filter (\<lambda>(k, a). k \<notin> srListener ` set bound) (map bound_to bound) = []"
      by (auto simp: filter_empty_conv bound_to_def)
    ultimately show ?thesis by (simp add: r closeListeners_listening)
  next
    case (Inr k)
    let ?s = "\<lparr>srID = sid, srCfg = svc, srListener = k, srSlots = nat (MaxConnectionsPerService (cfLimits cfg))\<rparr>"
    have op: "bind_services cfg ids (bound @ [?s]) n1 = (r, n')" using Cons.prems(1) l li Inr by simp
    have n1: "k = nsNext n" "nsListening n1 = nsListening n @ [(k, ?a)]" "nsNext n1 = Suc (nsNext n)" using eff Inr by simp_all
    have "bound_ok cfg (done_ids @ [sid]) (bound @ [?s])" using Cons.prems(3) l(1) by (auto simp: bound_ok_def)
    moreover have "nsListening n1 = old @ map bound_to (bound @ [?s])" using n1 Cons.prems(4) l(2) by (simp add: bound_to_def)
    moreover have "\<forall>s \<in> set (bound @ [?s]). first \<le> srListener s" using Cons.prems(6,8) n1(1) by simp
    moreover have "\<forall>(k, a) \<in> set (nsListening n1). k < nsNext n1" using Cons.prems(7) n1 by (auto simp: less_Suc_eq)
    moreover have "first \<le> nsNext n1" using Cons.prems(8) n1(3) by simp
    moreover have "\<forall>sid \<in> set ids. \<exists>svc l. map_of (cfServices cfg) sid = Some svc \<and> scListener svc = Some l" using Cons.prems(2) by simp
    ultimately have "case r of Inl e \<Rightarrow> nsListening n' = old
      | Inr services \<Rightarrow> bound_ok cfg ((done_ids @ [sid]) @ ids) services \<and> nsListening n' = old @ map bound_to services
          \<and> (\<forall>s \<in> set services. first \<le> srListener s)" using Cons.IH [OF op] Cons.prems(5) by blast
    then show ?thesis by (cases r) simp_all
  qed
qed

lemma bind_listeners_effect:
  assumes "bindConfiguredListeners cfg n = (r, n')" "\<forall>(sid, svc) \<in> set (cfServices cfg). scEnabled svc \<longrightarrow> scListener svc \<noteq> None"
    and "distinct (map fst (cfServices cfg))" "\<forall>(k, a) \<in> set (nsListening n). k < nsNext n"
  shows "case r of Inl err \<Rightarrow> nsListening n' = nsListening n
    | Inr services \<Rightarrow> map srID services = enabled_ids cfg
        \<and> (\<forall>s \<in> set services. map_of (cfServices cfg) (srID s) = Some (srCfg s) \<and> srSlots s = nat (MaxConnectionsPerService (cfLimits cfg)))
        \<and> nsListening n' = nsListening n @ map bound_to services
        \<and> nsListening (closeListeners services n') = nsListening n"
proof -
  have ids: "\<forall>sid \<in> set (enabled_ids cfg). \<exists>svc l. map_of (cfServices cfg) sid = Some svc \<and> scListener svc = Some l"
  proof
    fix sid assume "sid \<in> set (enabled_ids cfg)"
    then obtain svc where svc: "(sid, svc) \<in> set (cfServices cfg)" "scEnabled svc" by (auto simp: enabled_ids_def)
    then have "map_of (cfServices cfg) sid = Some svc" using assms(3) by simp
    then show "\<exists>svc l. map_of (cfServices cfg) sid = Some svc \<and> scListener svc = Some l" using assms(2) svc by fastforce
  qed
  have "bound_ok cfg [] []" by (simp add: bound_ok_def)
  from bind_services_effect [OF assms(1) [unfolded bindConfiguredListeners_def] ids this, of "nsListening n" "nsNext n"] assms(4)
  have eff: "case r of Inl e \<Rightarrow> nsListening n' = nsListening n
    | Inr services \<Rightarrow> bound_ok cfg (enabled_ids cfg) services \<and> nsListening n' = nsListening n @ map bound_to services
        \<and> (\<forall>s \<in> set services. nsNext n \<le> srListener s)" by (cases r) simp_all
  show ?thesis
  proof (cases r)
    case (Inr services)
    then have b: "bound_ok cfg (enabled_ids cfg) services" "nsListening n' = nsListening n @ map bound_to services"
        "\<forall>s \<in> set services. nsNext n \<le> srListener s" using eff by simp_all
    have "filter (\<lambda>(k, a). k \<notin> srListener ` set services) (nsListening n) = nsListening n"
      using assms(4) b(3) by (fastforce simp: filter_id_conv)
    moreover have "filter (\<lambda>(k, a). k \<notin> srListener ` set services) (map bound_to services) = []"
      by (auto simp: filter_empty_conv bound_to_def)
    ultimately show ?thesis using Inr b by (simp add: closeListeners_listening bound_ok_def)
  qed (use eff in simp)
qed

text \<open>C16: Binding is all or nothing: it binds one listener for every enabled service, in the order of their
  identifiers, each with the admission channel of its limit, or it fails and leaves no listener open;
  and closing the bound listeners leaves the sockets as they were.\<close>

lemma bindConfiguredListeners_all:
  assumes "bindConfiguredListeners cfg n = (r, n')" "\<forall>(sid, svc) \<in> set (cfServices cfg). scEnabled svc \<longrightarrow> scListener svc \<noteq> None"
    and "distinct (map fst (cfServices cfg))" "\<forall>(k, a) \<in> set (nsListening n). k < nsNext n"
  shows "case r of Inl err \<Rightarrow> nsListening n' = nsListening n
    | Inr services \<Rightarrow> map srID services = enabled_ids cfg
        \<and> (\<forall>s \<in> set services. map_of (cfServices cfg) (srID s) = Some (srCfg s) \<and> srSlots s = nat (MaxConnectionsPerService (cfLimits cfg)))
        \<and> nsListening n' = nsListening n @ map bound_to services
        \<and> nsListening (closeListeners services n') = nsListening n"
  using assms by (rule bind_listeners_effect)

section \<open>A server with one service\<close>

definition web :: service_runtime where
  "web = \<lparr>srID = ''web'', srCfg = svc0, srListener = 0, srSlots = nat (MaxConnectionsPerService (cfLimits cfg0))\<rparr>"

definition net0 :: net_state where "net0 = \<lparr>nsListening = [], nsNext = 0, nsListens = []\<rparr>"

lemma bind_web: "bindConfiguredListeners cfg0 net0
    = (Inr [web], \<lparr>nsListening = [(0, JoinHostPort (lcAddress (the (scListener svc0))) (itoa (lcPort (the (scListener svc0)))))], nsNext = 1, nsListens = []\<rparr>)"
  unfolding web_def by code_simp

lemma bindConfiguredListeners_all_witness:
  "\<exists>services n'. bindConfiguredListeners cfg0 net0 = (Inr services, n') \<and> map srID services = [''web'']
    \<and> nsListening (closeListeners services n') = []"
proof -
  obtain services n' where b: "bindConfiguredListeners cfg0 net0 = (Inr services, n')" using bind_web by blast
  have "\<forall>(sid, svc) \<in> set (cfServices cfg0). scEnabled svc \<longrightarrow> scListener svc \<noteq> None" "distinct (map fst (cfServices cfg0))"
    by (simp_all add: cfg0_def svc0_def)
  moreover have "\<forall>(k, a) \<in> set (nsListening net0). k < nsNext net0" by (simp add: net0_def)
  moreover have "enabled_ids cfg0 = [''web'']" by code_simp
  ultimately show ?thesis using bindConfiguredListeners_all [OF b] b by (auto simp: net0_def)
qed

text \<open>A run: a connection is accepted, admitted and served; a signal stops the server, which closes the
  connection and waits; the handler goes through its deferred functions.\<close>

definition web0 :: server where "web0 = server_start cfg0 [web]"

definition web_conn :: "conn_pc \<Rightarrow> bool \<Rightarrow> server \<Rightarrow> server" where
  "web_conn pc b s = s\<lparr>svConns := [\<lparr>lvService = 0, lvPc = pc, lvClosed = b\<rparr>]\<rparr>"

definition web1 :: server where "web1 = web_conn Unhandled False (web0\<lparr>svLoops := [Offered 0]\<rparr>)"
definition web2 :: server where "web2 = web1\<lparr>svLoops := [Charged 0], svGlobal := \<lparr>slLen = 1, slCap = 10\<rparr>\<rparr>"
definition web3 :: server where "web3 = web2\<lparr>svLoops := [Admitted 0], svSlots := [\<lparr>slLen = 1, slCap = 5\<rparr>]\<rparr>"
definition web4 :: server where "web4 = web_conn Started False (web3\<lparr>svLoops := [Accepting], svWg := 2\<rparr>)"
definition web5 :: server where "web5 = web_conn Registered False (web4\<lparr>svActive := {0}\<rparr>)"
definition web6 :: server where "web6 = web_conn Serving False web5"
definition web7 :: server where "web7 = web6\<lparr>svDone := True, svMain := ClosingListeners 0\<rparr>"
definition web8 :: server where "web8 = web7\<lparr>svListening := [False], svMain := Snapshotting\<rparr>"
definition web9 :: server where "web9 = web_conn Serving True (web8\<lparr>svMain := Waiting\<rparr>)"
definition web10 :: server where "web10 = web_conn Gone True (web9\<lparr>svActive := {}, svSlots := [\<lparr>slLen = 0, slCap = 5\<rparr>],
  svGlobal := \<lparr>slLen = 0, slCap = 10\<rparr>, svWg := 1\<rparr>)"

lemmas web_defs = web0_def web1_def web2_def web3_def web4_def web5_def web6_def web7_def web8_def web9_def web10_def web_conn_def
  server_start_def web_def cfg0_def limits0_def

lemmas at_defs = at_loop_def at_conn_def goto_loop_def goto_conn_def shut_conn_def server_fail_def try_send_def receive_slot_def

lemma loop_moves: "loop_step i s t \<Longrightarrow> t = s' \<Longrightarrow> server_step s s'"
  by (auto intro: server_step.by_loop)

lemma conn_moves: "conn_step c s t \<Longrightarrow> t = s' \<Longrightarrow> server_step s s'"
  by (auto intro: server_step.by_conn)

lemma main_moves: "main_step s t \<Longrightarrow> t = s' \<Longrightarrow> server_step s s'"
  by (auto intro: server_step.by_main)

lemma web_serves: "reachable web0 web6"
proof -
  have "server_step web0 web1" by (rule loop_moves [OF loop_step.accept [of 0 _ 0]]) (simp_all add: web_defs at_defs)
  moreover have "server_step web1 web2" by (rule loop_moves [OF loop_step.charge [of 0 0 web1 "\<lparr>slLen = 1, slCap = 10\<rparr>"]]) (simp_all add: web_defs at_defs)
  moreover have "server_step web2 web3" by (rule loop_moves [OF loop_step.admit [of 0 0 web2 "\<lparr>slLen = 1, slCap = 5\<rparr>"]]) (simp_all add: web_defs at_defs)
  moreover have "server_step web3 web4" by (rule loop_moves [OF loop_step.start [of 0 0]]) (simp_all add: web_defs at_defs)
  moreover have "server_step web4 web5" by (rule conn_moves [OF conn_step.register [of 0]]) (simp_all add: web_defs at_defs)
  moreover have "server_step web5 web6" by (rule conn_moves [OF conn_step.go_on [of 0]]) (simp_all add: web_defs at_defs)
  ultimately show ?thesis by (meson reachable.intros)
qed

lemma web_waits: "reachable web0 web9"
proof -
  have "server_step web6 (web6\<lparr>svDone := True\<rparr>)" by (rule server_step.signal)
  moreover have "server_step (web6\<lparr>svDone := True\<rparr>) web7" by (rule main_moves [OF main_step.leave_done]) (simp_all add: web_defs)
  moreover have "server_step web7 (web7\<lparr>svListening := [False], svMain := ClosingListeners 1\<rparr>)"
    by (rule main_moves [OF main_step.close_listener [of _ 0]]) (simp_all add: web_defs)
  moreover have "server_step (web7\<lparr>svListening := [False], svMain := ClosingListeners 1\<rparr>) (web7\<lparr>svListening := [False], svMain := Cancelling\<rparr>)"
    by (rule main_moves [OF main_step.listeners_closed [of _ 1]]) (simp_all add: web_defs)
  moreover have "server_step (web7\<lparr>svListening := [False], svMain := Cancelling\<rparr>) web8"
    by (rule main_moves [OF main_step.cancel]) (simp_all add: web_defs)
  moreover have "server_step web8 (web8\<lparr>svMain := ClosingConns [0]\<rparr>)"
    by (rule main_moves [OF main_step.snapshot [of _ "[0]"]]) (simp_all add: web_defs)
  moreover have "server_step (web8\<lparr>svMain := ClosingConns [0]\<rparr>) (web_conn Serving True (web8\<lparr>svMain := ClosingConns []\<rparr>))"
    by (rule main_moves [OF main_step.close_conn [of _ 0 "[]"]]) (simp_all add: web_defs at_defs)
  moreover have "server_step (web_conn Serving True (web8\<lparr>svMain := ClosingConns []\<rparr>)) web9"
    by (rule main_moves [OF main_step.conns_closed]) (simp_all add: web_defs)
  ultimately show ?thesis using web_serves by (meson reachable.step)
qed

lemma web_ends: "reachable web0 web10"
proof -
  have "server_step web9 (web_conn Leaving True web9)" by (rule conn_moves [OF conn_step.ended [of 0]]) (simp_all add: web_defs at_defs)
  moreover have "server_step (web_conn Leaving True web9) (web_conn Closing True web9)"
    by (rule conn_moves [OF conn_step.close_raw [of 0]]) (simp_all add: web_defs at_defs)
  moreover have "server_step (web_conn Closing True web9) (web_conn Returned True (web9\<lparr>svActive := {}\<rparr>))"
    by (rule conn_moves [OF conn_step.unregister [of 0]]) (simp_all add: web_defs at_defs)
  moreover have "server_step (web_conn Returned True (web9\<lparr>svActive := {}\<rparr>))
      (web_conn ServiceFreed True (web9\<lparr>svActive := {}, svSlots := [\<lparr>slLen = 0, slCap = 5\<rparr>]\<rparr>))"
    by (rule conn_moves [OF conn_step.free_service [of 0 _ 0]]) (simp_all add: web_defs at_defs)
  moreover have "server_step (web_conn ServiceFreed True (web9\<lparr>svActive := {}, svSlots := [\<lparr>slLen = 0, slCap = 5\<rparr>]\<rparr>))
      (web_conn GlobalFreed True (web9\<lparr>svActive := {}, svSlots := [\<lparr>slLen = 0, slCap = 5\<rparr>], svGlobal := \<lparr>slLen = 0, slCap = 10\<rparr>\<rparr>))"
    by (rule conn_moves [OF conn_step.free_global [of 0]]) (simp_all add: web_defs at_defs)
  moreover have "server_step (web_conn GlobalFreed True (web9\<lparr>svActive := {}, svSlots := [\<lparr>slLen = 0, slCap = 5\<rparr>], svGlobal := \<lparr>slLen = 0, slCap = 10\<rparr>\<rparr>)) web10"
    by (rule conn_moves [OF conn_step.finish [of 0]]) (simp_all add: web_defs at_defs)
  ultimately show ?thesis using web_waits by (meson reachable.step)
qed

lemma server_admission_witness:
  "reachable web0 web6 \<and> length (filter handled (svConns web6)) = 1 \<and> length (filter handled (svConns web6)) \<le> 10"
proof -
  obtain n' where b: "bindConfiguredListeners cfg0 net0 = (Inr [web], n')" using bind_web by blast
  have "length (filter handled (svConns web6)) = 1" by (simp add: web_defs handled_def)
  then show ?thesis using server_admission [OF b web_serves [unfolded web0_def]] web_serves by (simp add: cfg0_def limits0_def)
qed

lemma server_slots_returned_witness:
  "slLen (svGlobal web6) = 1 \<and> reachable web0 web10 \<and> slLen (svGlobal web10) = 0"
proof -
  have "\<forall>pc \<in> set (svLoops web10). loop_conn pc = None" "\<forall>c \<in> set (svConns web10). lvPc c \<in> {Unhandled, Gone}" by (simp_all add: web_defs)
  from server_slots_returned [OF web_ends [unfolded web0_def] this] web_ends show ?thesis by (simp add: web_defs)
qed

lemma loop_decides_witness:
  "\<exists>s'. (loop_step 0)\<^sup>*\<^sup>* web1 s' \<and> at_loop 0 (Admitted 0) s' \<and> slLen (svGlobal s') = 1"
proof -
  have "at_loop 0 (Offered 0) web1" "0 < length (svSlots web1)" by (simp_all add: web_defs at_defs)
  moreover have "tryAcquireConnectionSlots (svGlobal web1) (svSlots web1 ! 0) = (True, \<lparr>slLen = 1, slCap = 10\<rparr>, \<lparr>slLen = 1, slCap = 5\<rparr>)"
    by (simp add: web_defs tryAcquireConnectionSlots_def at_defs)
  ultimately obtain s' where "(loop_step 0)\<^sup>*\<^sup>* web1 s'" "at_loop 0 (Admitted 0) s'" "svGlobal s' = \<lparr>slLen = 1, slCap = 10\<rparr>"
    using loop_decides [of 0 0 web1] by fastforce
  then show ?thesis by force
qed

lemma server_shutdown_witness:
  "reachable web0 web9 \<and> svMain web9 = Waiting \<and> lvPc (svConns web9 ! 0) = Serving \<and> lvClosed (svConns web9 ! 0)"
proof -
  have "svMain web9 = Waiting" "lvPc (svConns web9 ! 0) = Serving" "svConns web9 ! 0 \<in> set (svConns web9)" by (simp_all add: web_defs)
  then show ?thesis using server_shutdown [OF web_waits [unfolded web0_def]] web_waits by blast
qed

lemma server_drains_witness: "reachable web0 web9 \<and> server_rank web9 = 11 \<and> (\<exists>s'. server_step web9 s' \<and> server_rank s' < 11)"
proof -
  have w: "svMain web9 = Waiting" "server_rank web9 = 11" by (simp_all add: web_defs server_rank_def)
  from server_drains [OF web_waits [unfolded web0_def] w(1)] w(2) web_waits show ?thesis by metis
qed

end
