(* ===== verification/Health_Spec.thy ===== *)
theory Health_Spec
  imports Health
begin

text \<open>
  What the lease protocol guarantees: a line is read however the reads cut it, a client gets a lease
  exactly when the two processes run with the same configuration, and a closed server holds no open
  lease.
\<close>

section \<open>Reading a line\<close>

text \<open>A connection whose reads give at least one byte and no error while bytes are left.\<close>

definition steady :: "net_conn \<Rightarrow> bool" where
  "steady c \<longleftrightarrow> (\<forall>(n, e) \<in> set (ncReads c). 0 < n \<and> e = None)"

lemma steady_read:
  assumes "steady c" "ncIn c \<noteq> []" "0 < len"
  obtains bs c' where "conn_Read len c = ((bs, None), c')" "bs \<noteq> []" "bs @ ncIn c' = ncIn c" "steady c'"
    "ncSent c' = ncSent c" "ncWrites c' = ncWrites c"
proof -
  obtain n e rs where p: "pop (length (ncIn c), if ncIn c = [] then Some EOF else None) (ncReads c) = ((n, e), rs)" by (metis surj_pair)
  have ne: "0 < n" "e = None" "set rs \<subseteq> set (ncReads c)"
    using p assms(1,2) by (cases "ncReads c"; fastforce simp: steady_def)+
  let ?bs = "take (min n len) (ncIn c)"
  let ?c = "c\<lparr>ncReads := rs, ncIn := drop (length ?bs) (ncIn c), ncTaken := ncTaken c @ ?bs\<rparr>"
  have r: "conn_Read len c = ((?bs, None), ?c)" using p ne(2) by (simp add: conn_Read_def Let_def)
  have b: "?bs \<noteq> []" using ne(1) assms(2,3) by simp
  have t: "?bs @ ncIn ?c = ncIn c" by (simp add: min_def)
  have s: "steady ?c" using assms(1) ne(3) by (auto simp: steady_def)
  show thesis by (rule that [OF r b t s]) simp_all
qed

lemma steady_fill:
  assumes "steady c" "ncIn c \<noteq> []" "0 < len"
  obtains bs c' where "line_fill 100 len c = ((bs, None), c')" "bs \<noteq> []" "bs @ ncIn c' = ncIn c" "steady c'"
    "ncSent c' = ncSent c" "ncWrites c' = ncWrites c"
proof -
  obtain bs c' where r: "conn_Read len c = ((bs, None), c')" "bs \<noteq> []" "bs @ ncIn c' = ncIn c" "steady c'"
    "ncSent c' = ncSent c" "ncWrites c' = ncWrites c" using steady_read [OF assms] .
  have "line_fill 100 len c = ((bs, None), c')" using line_fill.simps(2) [of 99 len c] r(1,2) by simp
  then show thesis using that r by simp
qed

lemma read_slice_line:
  assumes "steady c" "buf @ ncIn c = line @ 10 # rest" "10 \<notin> set line" "length line < 512"
  shows "\<exists>tail c'. read_slice buf None c = (Inr (line @ [10]), tail, c') \<and> ncSent c' = ncSent c \<and> ncWrites c' = ncWrites c"
  using assms(1,2)
proof (induction "length (ncIn c)" arbitrary: buf c rule: less_induct)
  case less
  note eqn = read_slice.simps [of buf None c]
  show ?case
  proof (cases "length line < length buf")
    case True
    then obtain us where us: "us \<noteq> []" "us @ ncIn c = 10 # rest" "buf = line @ us"
      using less.prems(2) by (auto simp: append_eq_append_conv2)
    then obtain vs where b: "buf = line @ 10 # vs" by (cases us) auto
    have "takeWhile (\<lambda>b. b \<noteq> 10) buf = line" unfolding b using assms(3) by (subst takeWhile_append2) auto
    moreover have "take (Suc (length line)) buf = line @ [10]" unfolding b by simp
    ultimately show ?thesis using eqn True by (simp add: Let_def)
  next
    case False
    then obtain more where m: "line = buf @ more" "ncIn c = more @ 10 # rest"
      using less.prems(2) by (auto simp: append_eq_append_conv2)
    have tw: "takeWhile (\<lambda>b. b \<noteq> 10) buf = buf" using assms(3) m(1) by (auto simp: takeWhile_eq_all_conv)
    have room: "length buf < 512" using assms(4) m(1) by simp
    have ne: "ncIn c \<noteq> []" using m(2) by simp
    obtain bs c1 where f: "line_fill 100 (512 - length buf) c = ((bs, None), c1)" "bs \<noteq> []" "bs @ ncIn c1 = ncIn c" "steady c1"
        "ncSent c1 = ncSent c" "ncWrites c1 = ncWrites c"
      by (rule steady_fill [of c "512 - length buf"]) (use less.prems(1) ne room in simp_all)
    have "length (ncIn c1) < length (ncIn c)" unfolding f(3) [symmetric] using f(2) by simp
    moreover have "(buf @ bs) @ ncIn c1 = line @ 10 # rest" using f(3) less.prems(2) by simp
    ultimately obtain tail c' where "read_slice (buf @ bs) None c1 = (Inr (line @ [10]), tail, c')" "ncSent c' = ncSent c1" "ncWrites c' = ncWrites c1"
      using less.hyps f(4) by blast
    then show ?thesis using eqn tw room f by (simp add: Let_def)
  qed
qed

lemma readHealthLine_line:
  assumes "steady c" "ncIn c = bytes_of (line @ [CHR 0x0A]) @ rest" "CHR 0x0A \<notin> set line" "length line < 512"
  obtains tail c' where "readHealthLine c = (Inr (line @ [CHR 0x0A]), tail, c')" "ncSent c' = ncSent c" "ncWrites c' = ncWrites c"
proof -
  have nl: "(10 :: byte) \<notin> set (bytes_of line)"
  proof
    assume "(10 :: byte) \<in> set (bytes_of line)"
    then have "char_of (unat (10 :: byte)) \<in> set (string_of (bytes_of line))" unfolding string_of_def set_map by (rule imageI)
    moreover have "char_of (unat (10 :: byte)) = CHR 0x0A" by code_simp
    ultimately show False using assms(3) by simp
  qed
  have b: "bytes_of (line @ [CHR 0x0A]) = bytes_of line @ [10]" by (simp add: bytes_of_def)
  have "[] @ ncIn c = bytes_of line @ 10 # rest" using assms(2) b by simp
  from read_slice_line [OF assms(1) this nl] assms(4) obtain tail c'
    where r: "read_slice [] None c = (Inr (bytes_of line @ [10]), tail, c')" "ncSent c' = ncSent c" "ncWrites c' = ncWrites c"
    by (auto simp: bytes_of_def)
  have "string_of (bytes_of line @ [10]) = line @ [CHR 0x0A]" unfolding b [symmetric] by (rule string_of_bytes_of)
  then show thesis using that r by (simp add: readHealthLine_def)
qed

section \<open>Words\<close>

definition graphic :: "string \<Rightarrow> bool" where
  "graphic w \<longleftrightarrow> w \<noteq> [] \<and> (\<forall>c \<in> set w. 33 \<le> (of_char c :: nat) \<and> (of_char c :: nat) \<le> 126)"

lemma space_width_graphic:
  assumes "33 \<le> (of_char c :: nat)" "(of_char c :: nat) \<le> 126"
  shows "space_width spaces (c # cs) = 0"
proof -
  have "\<forall>p \<in> set spaces. p \<noteq> [] \<and> \<not> (33 \<le> (of_char (hd p) :: nat) \<and> (of_char (hd p) :: nat) \<le> 126)" by code_simp
  then have "\<not> prefix p (c # cs)" if "p \<in> set spaces" for p using assms that by (cases p) (auto simp: prefix_Cons)
  then show ?thesis by (auto simp: space_width_def filter_empty_conv split: list.split)
qed

lemma space_width_space: "space_width spaces (CHR '' '' # cs) = 1" "space_width spaces (CHR 0x0A # cs) = 1"
  by code_simp+

lemma graphic_start: "graphic w \<Longrightarrow> space_width spaces (w @ r) = 0"
  by (cases w) (auto simp: graphic_def space_width_graphic)

lemma take_word_graphic:
  "(\<forall>c \<in> set w. 33 \<le> (of_char c :: nat) \<and> (of_char c :: nat) \<le> 126) \<Longrightarrow> space_width spaces (d # r) \<noteq> 0 \<Longrightarrow> take_word (w @ d # r) = w"
  by (induction w) (simp_all add: space_width_graphic)

lemma go_fields_word:
  assumes "graphic w" "space_width spaces (d # r) \<noteq> 0"
  shows "go_fields (w @ d # r) = w # go_fields (d # r)"
proof -
  have t: "trim_left spaces (w @ d # r) = w @ d # r" using graphic_start [OF assms(1)] by (subst trim_left.simps) simp
  have "take_word (w @ d # r) = w" using assms by (intro take_word_graphic) (auto simp: graphic_def)
  then show ?thesis using assms(1) by (subst go_fields.simps) (simp add: t graphic_def)
qed

lemma go_fields_space:
  assumes "graphic w"
  shows "go_fields (CHR '' '' # w @ r) = go_fields (w @ r)"
proof -
  have t: "trim_left spaces (w @ r) = w @ r" using graphic_start [OF assms] by (subst trim_left.simps) simp
  have "trim_left spaces (CHR '' '' # w @ r) = w @ r" using space_width_space(1) [of "w @ r"] by (subst trim_left.simps) (simp add: t)
  then show ?thesis by (simp add: go_fields.simps [of "CHR '' '' # w @ r"] go_fields.simps [of "w @ r"] t)
qed

lemma go_fields_ready:
  assumes "graphic h" "graphic sid"
  shows "go_fields (ready_line h sid) = [''READY'', h, sid]"
proof -
  have r: "graphic ''READY''" by code_simp
  have e: "go_fields [CHR 0x0A] = []" by code_simp
  have "go_fields (ready_line h sid) = ''READY'' # go_fields (CHR '' '' # h @ CHR '' '' # sid @ [CHR 0x0A])"
    using go_fields_word [OF r, of "CHR '' ''" "h @ CHR '' '' # sid @ [CHR 0x0A]"] space_width_space(1) by (simp add: ready_line_def)
  also have "go_fields (CHR '' '' # h @ CHR '' '' # sid @ [CHR 0x0A]) = h # go_fields (CHR '' '' # sid @ [CHR 0x0A])"
    unfolding go_fields_space [OF assms(1)] by (rule go_fields_word [OF assms(1)]) (simp add: space_width_space)
  also have "go_fields (CHR '' '' # sid @ [CHR 0x0A]) = [sid]"
    unfolding go_fields_space [OF assms(2)] using go_fields_word [OF assms(2)] space_width_space(2) e by simp
  finally show ?thesis .
qed

section \<open>The handshake\<close>

lemma set_deadline_keeps: "set_deadline t c = (e, c') \<Longrightarrow> ncIn c' = ncIn c \<and> ncReads c' = ncReads c \<and> ncWrites c' = ncWrites c \<and> ncSent c' = ncSent c"
  by (auto simp: set_deadline_def Let_def split: prod.splits)

lemma graphic_no_newline: "graphic w \<Longrightarrow> CHR 0x0A \<notin> set w"
  by (auto simp: graphic_def)

lemma server_answers:
  assumes "steady c" "ncWrites c = []" "ncIn c = bytes_of health_line @ rest"
  shows "fst (lease_answer s c)" "ncSent (snd (lease_answer s c)) = ncSent c @ bytes_of (ready_line (hsHash s) (hsSessionID s))"
proof -
  obtain e c1 where d: "set_deadline (Some 0) c = (e, c1)" by fastforce
  note k = set_deadline_keeps [OF d]
  have st: "steady c1" using assms(1) k by (simp add: steady_def)
  obtain tail c2 where r: "readHealthLine c1 = (Inr health_line, tail, c2)" "ncSent c2 = ncSent c1" "ncWrites c2 = ncWrites c1"
    by (rule readHealthLine_line [OF st, of "''HEALTH''" rest]) (use assms(3) k in \<open>simp_all add: health_line_def\<close>)
  have t: "trim_space health_line = ''HEALTH''" by code_simp
  have w: "conn_Write p c2 = ((length p, None), c2\<lparr>ncSent := ncSent c2 @ p\<rparr>)" for p
    using r(3) k assms(2) by (simp add: conn_Write_def Let_def)
  show "fst (lease_answer s c)" "ncSent (snd (lease_answer s c)) = ncSent c @ bytes_of (ready_line (hsHash s) (hsSessionID s))"
    using set_deadline_keeps [of None "c2\<lparr>ncSent := ncSent c2 @ bytes_of (ready_line (hsHash s) (hsSessionID s))\<rparr>"] r(2) k
    by (auto simp: lease_answer_def d r(1) t w Let_def split: prod.splits) (metis prod.collapse)+
qed

lemma fill_sent: "line_fill k len c = (r, c') \<Longrightarrow> ncSent c' = ncSent c"
  by (induction k arbitrary: c) (auto simp: conn_Read_def Let_def split: prod.splits if_splits)

lemma read_slice_sent: "read_slice buf pending c = (r, rest, c') \<Longrightarrow> ncSent c' = ncSent c"
proof (induction buf pending c arbitrary: r rest c' rule: read_slice.induct)
  case (1 buf pending c)
  note eqn = read_slice.simps [of buf pending c]
  show ?case
  proof (cases "length (takeWhile (\<lambda>b. b \<noteq> 10) buf) < length buf \<or> pending \<noteq> None \<or> 512 \<le> length buf")
    case True
    then show ?thesis using 1(2) eqn by (auto simp: Let_def split: if_splits option.splits)
  next
    case False
    obtain bs e c1 where f: "line_fill 100 (512 - length buf) c = ((bs, e), c1)" by (metis surj_pair)
    then have "read_slice (buf @ bs) e c1 = (r, rest, c')" using 1(2) eqn False by (simp add: Let_def)
    then have "ncSent c' = ncSent c1" using 1(1) [OF refl _ _ _ f [symmetric] refl] False by simp
    then show ?thesis using fill_sent [OF f] by simp
  qed
qed

lemma line_sent: "readHealthLine c = (r, rest, c') \<Longrightarrow> ncSent c' = ncSent c"
  by (auto simp: readHealthLine_def dest: read_slice_sent split: prod.splits sum.splits option.splits)

lemma client_asks:
  assumes "ncWrites c = []"
  shows "\<exists>c'. snd (AcquireLease (Inr c) path h) = Some c' \<and> ncSent c' = ncSent c @ bytes_of health_line"
proof -
  obtain e c1 where d: "set_deadline (Some 0) c = (e, c1)" by fastforce
  note k = set_deadline_keeps [OF d]
  let ?p = "bytes_of health_line"
  have w: "conn_Write ?p c1 = ((length ?p, None), c1\<lparr>ncSent := ncSent c1 @ ?p\<rparr>)" using k assms by (simp add: conn_Write_def Let_def)
  obtain r rest c3 where l: "readHealthLine (c1\<lparr>ncSent := ncSent c1 @ ?p\<rparr>) = (r, rest, c3)" by (metis surj_pair)
  then have "ncSent c3 = ncSent c @ ?p" using line_sent [OF l] k by simp
  moreover obtain e4 c4 where "set_deadline None c3 = (e4, c4)" by fastforce
  ultimately show ?thesis using set_deadline_keeps [of None c3 e4 c4] l
    by (cases r) (simp_all add: AcquireLease_def d w Let_def conn_Close_def)
qed

lemma client_decides:
  assumes "steady c" "ncWrites c = []" "ncIn c = bytes_of (ready_line h sid)" "graphic h" "graphic sid" "length h + length sid < 505"
  shows "h \<noteq> expected \<Longrightarrow> fst (AcquireLease (Inr c) path expected)
      = Inl (Errorf ''CAPTURE_CONFIG_MISMATCH expected=%s actual=%s'' [AStr expected, AStr h])"
    and "h \<noteq> expected \<Longrightarrow> ncClosed (the (snd (AcquireLease (Inr c) path expected)))"
    and "h = expected \<Longrightarrow> \<exists>l rest. fst (AcquireLease (Inr c) path expected) = Inr (l, rest) \<and> \<not> lsLost l \<and> \<not> lsOnce l
      \<and> snd (AcquireLease (Inr c) path expected) = Some (lsConn l)"
proof -
  obtain e c1 where d: "set_deadline (Some 0) c = (e, c1)" by fastforce
  note k = set_deadline_keeps [OF d]
  let ?p = "bytes_of health_line"
  let ?c = "c1\<lparr>ncSent := ncSent c1 @ ?p\<rparr>"
  have w: "conn_Write ?p c1 = ((length ?p, None), ?c)" using k assms(2) by (simp add: conn_Write_def Let_def)
  let ?line = "''READY '' @ h @ '' '' @ sid"
  have st: "steady ?c" using assms(1) k by (simp add: steady_def)
  have rl: "ready_line h sid = ?line @ [CHR 0x0A]" by (simp add: ready_line_def)
  obtain tail c3 where l0: "readHealthLine ?c = (Inr (?line @ [CHR 0x0A]), tail, c3)"
    by (rule readHealthLine_line [OF st, of ?line "[]"])
      (use assms(3,6) k graphic_no_newline [OF assms(4)] graphic_no_newline [OF assms(5)] in \<open>simp_all add: rl\<close>)
  note l = l0 [folded rl] and f = go_fields_ready [OF assms(4,5)]
  obtain e4 c4 where s: "set_deadline None c3 = (e4, c4)" by fastforce
  note all = AcquireLease_def d w l f s Let_def conn_Close_def
  show "h \<noteq> expected \<Longrightarrow> fst (AcquireLease (Inr c) path expected)
      = Inl (Errorf ''CAPTURE_CONFIG_MISMATCH expected=%s actual=%s'' [AStr expected, AStr h])"
    by (simp add: all)
  show "h \<noteq> expected \<Longrightarrow> ncClosed (the (snd (AcquireLease (Inr c) path expected)))"
    by (simp add: all)
  show "h = expected \<Longrightarrow> \<exists>l rest. fst (AcquireLease (Inr c) path expected) = Inr (l, rest) \<and> \<not> lsLost l \<and> \<not> lsOnce l
      \<and> snd (AcquireLease (Inr c) path expected) = Some (lsConn l)"
    using f by (simp add: all)
qed

text \<open>C14: When the engine's connection and the server's connection are the two ends of one socket (each end
  reads what the other one sent, in pieces of any size), the server registers a lease, and the engine
  gets a live lease exactly when both processes run with the same configuration hash; otherwise it
  reports the mismatch with both hashes and closes its end.\<close>

lemma lease_handshake:
  assumes "answer = lease_answer s server" "acquired = AcquireLease (Inr client) path expected"
    and "steady client" "ncWrites client = []" "ncSent client = []" "steady server" "ncWrites server = []" "ncSent server = []"
    and "ncIn server = ncSent (the (snd acquired))" "ncIn client = ncSent (snd answer)"
    and "graphic (hsHash s)" "graphic (hsSessionID s)" "length (hsHash s) + length (hsSessionID s) < 505"
  shows "fst answer
    \<and> (if hsHash s = expected then \<exists>l rest. fst acquired = Inr (l, rest) \<and> \<not> lsLost l \<and> snd acquired = Some (lsConn l)
      else ncClosed (the (snd acquired)) \<and>
        fst acquired = Inl (Errorf ''CAPTURE_CONFIG_MISMATCH expected=%s actual=%s'' [AStr expected, AStr (hsHash s)]))"
proof -
  obtain c' where c: "snd acquired = Some c'" "ncSent c' = ncSent client @ bytes_of health_line"
    using client_asks [OF assms(4)] assms(2) by blast
  have i: "ncIn server = bytes_of health_line @ []" using c assms(5,9) by simp
  note a = server_answers [OF assms(6,7) i, of s]
  have "ncIn client = bytes_of (ready_line (hsHash s) (hsSessionID s))" using a(2) assms(1,8,10) by simp
  note d = client_decides [OF assms(3,4) this assms(11-13), of expected path]
  show ?thesis using a(1) d assms(1,2) by (cases "hsHash s = expected") auto
qed

definition cut_conn :: "byte list \<Rightarrow> (nat \<times> go_error option) list \<Rightarrow> net_conn" where
  "cut_conn bs reads = \<lparr>ncIn = bs, ncTaken = [], ncSent = [], ncReads = reads, ncWrites = [], ncDeadlines = [], ncSelects = [],
     ncClosed = False\<rparr>"

definition health0 :: health_server where
  "health0 = \<lparr>hsPath = ''s'', hsHash = ''ab12'', hsSessionID = ''77'', hsListening = True, hsLeases = {}, hsClosed = False,
     hsShut = {}, hsSocket = True\<rparr>"

lemma lease_handshake_witness:
  "\<exists>l rest. fst (AcquireLease (Inr (cut_conn (bytes_of (ready_line ''ab12'' ''77'')) [(3, None), (1, None)])) ''s'' ''ab12'')
     = Inr (l, rest) \<and> \<not> lsLost l"
proof -
  let ?client = "cut_conn (bytes_of (ready_line ''ab12'' ''77'')) [(3, None), (1, None)]"
  let ?server = "cut_conn (bytes_of health_line) [(2, None), (2, None)]"
  have s: "ncSent (the (snd (AcquireLease (Inr ?client) ''s'' ''ab12''))) = bytes_of health_line" by code_simp
  have a: "ncSent (snd (lease_answer health0 ?server)) = bytes_of (ready_line ''ab12'' ''77'')" by code_simp
  have h: "graphic (hsHash health0)" "graphic (hsSessionID health0)" "length (hsHash health0) + length (hsSessionID health0) < 505"
    by code_simp+
  have c: "steady ?client" "ncWrites ?client = []" "ncSent ?client = []" "steady ?server" "ncWrites ?server = []" "ncSent ?server = []"
    by (simp_all add: cut_conn_def steady_def)
  have i: "ncIn ?server = ncSent (the (snd (AcquireLease (Inr ?client) ''s'' ''ab12'')))" "ncIn ?client = ncSent (snd (lease_answer health0 ?server))"
    unfolding s a by (simp_all only: cut_conn_def net_conn.simps)
  show ?thesis using lease_handshake [OF refl refl c i h] by (auto simp: health0_def)
qed

section \<open>Closing the server\<close>

definition health_ok :: "health_server \<Rightarrow> bool" where
  "health_ok s \<longleftrightarrow> (hsClosed s \<longrightarrow> hsLeases s \<subseteq> hsShut s \<and> \<not> hsListening s \<and> \<not> hsSocket s)"

lemma health_step_ok: "health_ok s \<Longrightarrow> health_ok (health_do op s) \<and> (hsClosed s \<longrightarrow> hsClosed (health_do op s))"
  by (cases op) (auto simp: health_ok_def health_do_def lease_register_def lease_release_def HealthServer_Close_def)

lemma health_run_ok: "health_ok s \<Longrightarrow> health_ok (health_run ops s) \<and> (hsClosed s \<longrightarrow> hsClosed (health_run ops s))"
proof (induction ops arbitrary: s)
  case (Cons op ops)
  have "health_run (op # ops) s = health_run ops (health_do op s)" by (simp add: health_run_def)
  then show ?case using Cons.IH [of "health_do op s"] health_step_ok [OF Cons.prems, of op] by auto
qed (simp add: health_run_def)

lemma start_health_ok: "StartHealthServer env path hash session = Inr s \<Longrightarrow> health_ok s"
  by (auto simp: health_ok_def StartHealthServer_def split: option.splits if_splits)

text \<open>C15: Once the health server was closed, whatever its goroutines still do, every lease that is in its set is
  a closed connection, no new one is registered, it does not listen, and its socket file is gone.\<close>

lemma health_server_closed:
  assumes "StartHealthServer env path hash session = Inr s" "CloseAll \<in> set ops"
  shows "hsLeases (health_run ops s) \<subseteq> hsShut (health_run ops s) \<and> fst (lease_register l (health_run ops s)) = False
    \<and> \<not> hsListening (health_run ops s) \<and> \<not> hsSocket (health_run ops s)"
proof -
  obtain xs ys where ops: "ops = xs @ CloseAll # ys" using assms(2) by (meson split_list)
  have ok: "health_ok (health_run xs s)" using health_run_ok start_health_ok [OF assms(1)] by blast
  then have "health_ok (health_do CloseAll (health_run xs s))" using health_step_ok by blast
  moreover have "hsClosed (health_do CloseAll (health_run xs s))" by (simp add: health_do_def HealthServer_Close_def)
  moreover have "health_run ops s = health_run ys (health_do CloseAll (health_run xs s))" by (simp add: ops health_run_def)
  ultimately have "health_ok (health_run ops s)" "hsClosed (health_run ops s)" using health_run_ok by auto
  then show ?thesis by (simp add: health_ok_def lease_register_def)
qed

lemma health_server_closed_witness:
  "hsLeases (health_run [Register 1, CloseAll, Register 2] health0) = {1} \<and> 1 \<in> hsShut (health_run [Register 1, CloseAll, Register 2] health0)"
proof -
  have s: "StartHealthServer \<lparr>seMkdirAll = None, seRemove = None, seListen = None, seChmod = None\<rparr> ''s'' ''ab12'' ''77'' = Inr health0"
    by code_simp
  have "hsLeases (health_run [Register 1, CloseAll, Register 2] health0) = {1}"
    by (simp add: health_run_def health_do_def health0_def lease_register_def HealthServer_Close_def)
  then show ?thesis using health_server_closed [OF s, of "[Register 1, CloseAll, Register 2]"] by auto
qed

end
