(* ===== verification/Capture_Spec.thy ===== *)
theory Capture_Spec
  imports Capture Health_Spec Valid_Config
begin

text \<open>
  What the supervisor guarantees: on every way out of \<open>Run\<close> the process has ended or was told to in both
  ways, the leases were lost before the process was stopped, and \<open>Run\<close> ends when it is cancelled or the
  process ends.
\<close>

section \<open>The filter\<close>

lemma join_prefix: "xs \<noteq> [] \<Longrightarrow> prefix (hd xs) (join_strings sep xs)"
  by (cases xs rule: remdups_adj.cases) auto

lemma CaptureFilter_empty: "CaptureFilter cfg = ''tcp and ()'' \<longleftrightarrow> filter_ports cfg = []"
proof (cases "filter_ports cfg")
  case Nil
  then show ?thesis by (simp add: CaptureFilter_def)
next
  case (Cons port ports)
  have "CaptureFilter cfg ! 9 = CHR ''p'' \<or> CaptureFilter cfg ! 8 = CHR ''p''"
  proof (cases "ports = []")
    case False
    then have "prefix (''port '' @ itoa port) (join_strings '' or '' (map (\<lambda>port. ''port '' @ itoa port) (filter_ports cfg)))"
      using join_prefix [of "map (\<lambda>port. ''port '' @ itoa port) (filter_ports cfg)"] Cons by simp
    then show ?thesis using Cons False by (auto simp: CaptureFilter_def prefix_def)
  qed (simp add: CaptureFilter_def Cons)
  then show ?thesis using Cons by auto
qed

definition listened_port :: "string \<times> service_config \<Rightarrow> int option" where
  "listened_port p = (if scEnabled (snd p) then map_option lcPort (scListener (snd p)) else None)"

lemma filter_ports_set: "port \<in> set (filter_ports cfg) \<longleftrightarrow> (\<exists>p \<in> set (cfServices cfg). listened_port p = Some port)"
proof -
  have "(\<lambda>(sid, svc). if scEnabled svc then (case scListener svc of Some l \<Rightarrow> [lcPort l] | None \<Rightarrow> []) else [])
      = (\<lambda>p. case listened_port p of Some port \<Rightarrow> [port] | None \<Rightarrow> [])"
    by (auto simp: listened_port_def fun_eq_iff split: option.splits)
  then show ?thesis by (auto simp: filter_ports_def split: option.splits) metis
qed

section \<open>The end of the process\<close>

definition put_down :: "dumpcap \<Rightarrow> bool" where
  "put_down p \<longleftrightarrow> dcStatus p \<noteq> None \<or> dcSignals p = [''SIGTERM'', ''SIGKILL'']"

definition fresh :: "dumpcap \<Rightarrow> bool" where
  "fresh p \<longleftrightarrow> dcSignals p = [] \<and> (dcQueued p \<longrightarrow> dcStatus p \<noteq> None)"

lemma stopDumpcap_down: "fresh p \<Longrightarrow> put_down (stopDumpcap p)"
  by (auto simp: fresh_def put_down_def stopDumpcap_def ended_before_def await_exit_def send_signal_def Let_def
      split: prod.splits option.splits exit_status.splits bool.splits if_splits)

lemma waitForPCAPReady_fresh: "waitForPCAPReady ws p = (r, p') \<Longrightarrow> fresh p \<Longrightarrow> fresh p'"
  by (induction ws p rule: waitForPCAPReady.induct) (auto simp: fresh_def split: if_splits)

text \<open>What holds of a state on the way out.\<close>

definition stopped_all :: "capture_state \<Rightarrow> bool" where
  "stopped_all s \<longleftrightarrow> (case csDumpcap s of None \<Rightarrow> True | Some p \<Rightarrow> put_down p)
     \<and> (case csHealth s of None \<Rightarrow> True | Some hs \<Rightarrow> hsClosed hs \<and> \<not> hsListening hs \<and> hsLeases hs \<subseteq> hsShut hs)"

definition capture_logs :: "capture_act list set" where
  "capture_logs = {[], [Stopping], [Served, Unserved, Stopping, Unserved], [Served, Unserved, Unserved]}"

definition serving_state :: "capture_state \<Rightarrow> bool" where
  "serving_state s \<longleftrightarrow> csLog s = [Served] \<and> (\<exists>p hs. csDumpcap s = Some p \<and> fresh p \<and> csHealth s = Some hs \<and> health_ok hs)"

lemma supervise_stops:
  assumes "serving_state s" "supervise cfg ws s = (Some r, s')"
  shows "stopped_all s' \<and> csLog s' \<in> {[Served, Unserved, Stopping], [Served, Unserved]} \<and> (r = None \<longrightarrow> CaptureCancelled \<in> set ws)"
  using assms
proof (induction cfg ws s rule: supervise.induct)
  case (4 cfg ws s)
  obtain av h where f: "FreeBytes (pcDirectory (pcap_of cfg)) (csHost s) = (av, h)" by fastforce
  let ?low = "case av of Inl err \<Rightarrow> True | Inr n \<Rightarrow> n \<le> evMinFreeBytes (cfEvidence cfg)"
  show ?case
  proof (cases ?low)
    case True
    then have "s' = stop_process (close_health (s\<lparr>csHost := h\<rparr>))" "r \<noteq> None" using 4(3) f by (auto simp: Let_def)
    then show ?thesis using 4(2) stopDumpcap_down
      by (auto simp: serving_state_def stopped_all_def stop_process_def close_health_def HealthServer_Close_def health_ok_def)
  next
    case False
    have "serving_state (s\<lparr>csHost := h\<rparr>)" using 4(2) by (simp add: serving_state_def)
    moreover have "supervise cfg ws (s\<lparr>csHost := h\<rparr>) = (Some r, s')" using 4(3) f False by (simp add: Let_def)
    ultimately show ?thesis using 4(1) [OF refl refl f [symmetric] False] by simp
  qed
next
  case (2 cfg ws s)
  then show ?case using stopDumpcap_down
    by (auto simp: serving_state_def stopped_all_def stop_process_def close_health_def HealthServer_Close_def health_ok_def)
qed (auto simp: serving_state_def stopped_all_def stop_process_def close_health_def HealthServer_Close_def health_ok_def put_down_def)

lemma supervised_stops:
  assumes "supervised env cfg captureID s = (Some r, s')" "csLog s = []" "csDumpcap s = Some p" "fresh p" "csHealth s = None"
  shows "stopped_all s' \<and> csLog s' \<in> capture_logs \<and> (r = None \<longrightarrow> CaptureCancelled \<in> set (ceWakes env))"
proof -
  obtain n e h where f: "RequireFreeBytes (pcDirectory (pcap_of cfg)) (evMinFreeBytes (cfEvidence cfg)) (csHost s) = ((n, e), h)" by (metis surj_pair)
  let ?early = "stop_process (s\<lparr>csHost := h\<rparr>)"
  have early: "stopped_all ?early \<and> csLog ?early \<in> capture_logs"
    using stopDumpcap_down [OF assms(4)] assms(2,3,5) by (simp add: stopped_all_def stop_process_def capture_logs_def)
  show ?thesis
  proof (cases "e = None \<and> (\<exists>health. StartHealthServer (ceSocket env) ''/run/notaihoney/capture.sock'' (cfConfigSHA256 cfg) captureID = Inr health)")
    case False
    then have "s' = ?early" "r \<noteq> None" using assms(1) f by (auto simp: supervised_def split: option.splits sum.splits)
    then show ?thesis using early by auto
  next
    case True
    then obtain health where st: "StartHealthServer (ceSocket env) ''/run/notaihoney/capture.sock'' (cfConfigSHA256 cfg) captureID = Inr health"
      and e: "e = None" by blast
    let ?s = "s\<lparr>csHost := h, csHealth := Some (health_run (ceLeases env) health), csLog := csLog s @ [Served]\<rparr>"
    obtain r2 s2 where run: "supervise cfg (ceWakes env) ?s = (r2, s2)" by fastforce
    then have r2: "r2 = Some r" "s' = close_health s2" using assms(1) f st e by (auto simp: supervised_def split: option.splits)
    have "serving_state ?s" using assms(2-4) health_run_ok [OF start_health_ok [OF st]] by (auto simp: serving_state_def)
    from supervise_stops [OF this run [unfolded r2(1)]] show ?thesis
      by (auto simp: r2(2) close_health_def stopped_all_def HealthServer_Close_def capture_logs_def split: option.splits)
  qed
qed

lemma capture_Run_cases:
  assumes "capture_Run env cfg h = (r, s)"
  obtains e where "r = Some (Some e)" "csDumpcap s = None" "csHealth s = None" "csLog s = []"
  | h2 cid p1 e where "r = Some (Some e)" "fresh p1" "dcArgs p1 = dumpcap_args cfg (FormatID cid)" "filter_ports cfg \<noteq> []"
      "s = stop_process \<lparr>csHost = h2, csDumpcap = Some p1, csHealth = None, csLog = []\<rparr>"
  | h2 cid p1 where "supervised env cfg (FormatID cid) \<lparr>csHost = h2, csDumpcap = Some p1, csHealth = None, csLog = []\<rparr> = (r, s)"
      "fresh p1" "dcArgs p1 = dumpcap_args cfg (FormatID cid)" "filter_ports cfg \<noteq> []"
proof -
  obtain e h1 where c: "capture_CheckOperational env cfg h = (e, h1)" by fastforce
  have args: "waitForPCAPReady ws p = (x, p1) \<Longrightarrow> dcArgs p1 = dcArgs p" for ws p x p1
    by (induction ws p rule: waitForPCAPReady.induct) (auto split: if_splits)
  show thesis
  proof (cases e)
    case (Some err)
    then show thesis using assms c that(1) by (auto simp: capture_Run_def)
  next
    case None
    then have ports: "filter_ports cfg \<noteq> []" using c CaptureFilter_empty [of cfg]
      by (auto simp: capture_CheckOperational_def Let_def split: option.splits prod.splits if_splits)
    obtain i h2 where n: "NewID h1 = (i, h2)" by fastforce
    show thesis
    proof (cases "\<exists>cid. i = Inr cid \<and> ceStart env = None")
      case False
      then show thesis using assms c None n that(1) by (auto simp: capture_Run_def split: sum.splits option.splits)
    next
      case True
      then obtain cid where cid: "i = Inr cid" "ceStart env = None" by blast
      let ?p = "\<lparr>dcArgs = dumpcap_args cfg (FormatID cid), dcStatus = None, dcQueued = False, dcSignals = [],
                     dcBefore = ceBefore env, dcWaits = ceWaits env\<rparr>"
      obtain x p1 where w: "waitForPCAPReady (ceReady env) ?p = (x, p1)" by fastforce
      have fr: "fresh p1" "dcArgs p1 = dumpcap_args cfg (FormatID cid)"
        using waitForPCAPReady_fresh [OF w] args [OF w] by (simp_all add: fresh_def)
      show thesis
      proof (cases x)
        case None
        then show thesis using that(3) [OF _ fr ports] assms c \<open>e = None\<close> n cid w by (simp add: capture_Run_def)
      next
        case (Some err)
        then show thesis using that(2) [OF _ fr ports] assms c \<open>e = None\<close> n cid w by (auto simp: capture_Run_def)
      qed
    qed
  qed
qed

lemma capture_stopped:
  assumes "capture_Run env cfg h = (Some r, s)"
  shows "stopped_all s \<and> csLog s \<in> capture_logs
    \<and> (csDumpcap s \<noteq> None \<longrightarrow> (\<exists>p \<in> set (cfServices cfg). listened_port p \<noteq> None))
    \<and> (r = None \<longrightarrow> CaptureCancelled \<in> set (ceWakes env))"
  using assms
proof (cases rule: capture_Run_cases)
  case (1 e)
  then show ?thesis by (simp add: stopped_all_def capture_logs_def)
next
  case (2 h2 cid p1 e)
  then have "\<exists>p \<in> set (cfServices cfg). listened_port p \<noteq> None" using filter_ports_set [of "hd (filter_ports cfg)" cfg] by auto
  then show ?thesis using 2 stopDumpcap_down [OF 2(2)] by (simp add: stopped_all_def stop_process_def capture_logs_def)
next
  case (3 h2 cid p1)
  then have "\<exists>p \<in> set (cfServices cfg). listened_port p \<noteq> None" using filter_ports_set [of "hd (filter_ports cfg)" cfg] by auto
  then show ?thesis using supervised_stops [OF 3(1) _ _ 3(2)] by simp
qed

text \<open>C13: Whenever \<open>Run\<close> of the capture mode returns, a dumpcap that it started has ended or was sent SIGTERM
  and then SIGKILL; the health server, if it was started, is closed and every lease in it is a closed
  connection, and that happened before the process was stopped; dumpcap is started only when a port of
  an enabled service is to be captured; and the result is nil only after a cancellation.\<close>

lemma capture_Run_stops:
  assumes "capture_Run env cfg h = (Some r, s)"
  shows "stopped_all s \<and> csLog s \<in> capture_logs
    \<and> (csDumpcap s \<noteq> None \<longrightarrow> (\<exists>p \<in> set (cfServices cfg). listened_port p \<noteq> None))
    \<and> (r = None \<longrightarrow> CaptureCancelled \<in> set (ceWakes env))"
  by (rule capture_stopped [OF assms])

lemma supervise_ends: "w \<in> set ws \<Longrightarrow> w \<noteq> CaptureTick \<Longrightarrow> fst (supervise cfg ws s) \<noteq> None"
  by (induction cfg ws s rule: supervise.induct) (auto simp: Let_def split: prod.splits)

lemma supervised_ends:
  assumes "w \<in> set (ceWakes env)" "w \<noteq> CaptureTick"
  shows "fst (supervised env cfg captureID s) \<noteq> None"
proof -
  obtain n e h where f: "RequireFreeBytes (pcDirectory (pcap_of cfg)) (evMinFreeBytes (cfEvidence cfg)) (csHost s) = ((n, e), h)" by (metis surj_pair)
  let ?st = "StartHealthServer (ceSocket env) ''/run/notaihoney/capture.sock'' (cfConfigSHA256 cfg) captureID"
  show ?thesis
  proof (cases "e = None \<and> (\<exists>health. ?st = Inr health)")
    case False
    then show ?thesis using f by (cases ?st) (auto simp: supervised_def split: option.splits)
  next
    case True
    then obtain health where st: "e = None" "?st = Inr health" by blast
    obtain r s2 where run: "supervise cfg (ceWakes env)
      (s\<lparr>csHost := h, csHealth := Some (health_run (ceLeases env) health), csLog := csLog s @ [Served]\<rparr>) = (r, s2)" by fastforce
    then have "r \<noteq> None" using supervise_ends [OF assms] by (metis fst_conv)
    then show ?thesis using f st run by (auto simp: supervised_def)
  qed
qed

text \<open>\<open>Run\<close> of the capture mode returns as soon as it is cancelled or the process ends, however often the
  ticker woke it before.\<close>

lemma capture_Run_ends:
  assumes "w \<in> set (ceWakes env)" "w \<noteq> CaptureTick"
  shows "fst (capture_Run env cfg h) \<noteq> None"
proof -
  obtain r s where run: "capture_Run env cfg h = (r, s)" by fastforce
  then have "r \<noteq> None"
  proof (cases rule: capture_Run_cases)
    case (3 h2 cid p1)
    then show ?thesis using supervised_ends [OF assms] by (metis fst_conv)
  qed simp_all
  then show ?thesis by (simp add: run)
qed

section \<open>An example\<close>

definition quiet_host :: "string list \<Rightarrow> host" where
  "quiet_host dirs = \<lparr>clock = 1, ticks = [], randoms = [], files = [], writes = [], opens = [], syncs = [], closes = [], removes = [],
     stats = (\<lambda>d. if d \<in> set dirs then Inr True else Inl (OsError ''no such directory'' False)),
     frees = replicate 4 (Inr (100, 1))\<rparr>"

definition free_socket :: socket_env where
  "free_socket = \<lparr>seMkdirAll = None, seRemove = None, seListen = None, seChmod = None\<rparr>"

text \<open>Ready at the second tick; cancelled after a tick; dumpcap ignores SIGTERM.\<close>

definition capture0 :: capture_env where
  "capture0 = \<lparr>ceInterface = None, ceStat = None, ceStart = None, ceSocket = free_socket,
     ceReady = [ReadyTick (Inr []), ReadyTick (Inr [Inr False])], ceWakes = [CaptureTick, CaptureCancelled], ceBefore = [], ceWaits = [],
     ceLeases = [Register 1, Register 2, Release 1]\<rparr>"

lemma capture0_runs:
  "case capture_Run capture0 cfg0 (quiet_host [pcDirectory (pcap_of cfg0)]) of (r, s) \<Rightarrow>
     r = Some None \<and> map_option dcSignals (csDumpcap s) = Some [''SIGTERM'', ''SIGKILL''] \<and> map_option hsLeases (csHealth s) = Some {2}"
  by code_simp

lemma capture_Run_stops_witness:
  "case capture_Run capture0 cfg0 (quiet_host [pcDirectory (pcap_of cfg0)]) of (r, s) \<Rightarrow> stopped_all s \<and> csDumpcap s \<noteq> None \<and> r = Some None"
proof -
  obtain r s where run: "capture_Run capture0 cfg0 (quiet_host [pcDirectory (pcap_of cfg0)]) = (r, s)" by fastforce
  then have "r = Some None" "csDumpcap s \<noteq> None" using capture0_runs by auto
  then show ?thesis using capture_Run_stops [of capture0 cfg0 _ None s] run by simp
qed

lemma capture_Run_ends_witness: "fst (capture_Run capture0 cfg0 (quiet_host [pcDirectory (pcap_of cfg0)])) \<noteq> None"
  by (rule capture_Run_ends [of CaptureCancelled]) (simp_all add: capture0_def)

end
