(* ===== verification/Engine_Spec.thy ===== *)
theory Engine_Spec
  imports Engine Server Health_Spec Capture_Spec Conn_Spec
begin

text \<open>
  What \<open>Run\<close> of the engine guarantees: on every way out, the journal, the event log, the lease and the
  listeners are closed; and an exit with an error is reported under the code word of the error.
\<close>

section \<open>The writers stay open until they are closed\<close>

lemma failLocked_closed: "failLocked e w = (r, w') \<Longrightarrow> bwClosed w' = bwClosed w"
  by (auto simp: failLocked_def Let_def split: if_splits)

lemma openNextLocked_closed: "openNextLocked w h = (r, w', h') \<Longrightarrow> bwClosed w' = bwClosed w"
  by (auto simp: openNextLocked_def Let_def split: prod.splits option.splits)

lemma rotateLocked_closed: "rotateLocked w h = (r, w', h') \<Longrightarrow> bwClosed w' = bwClosed w"
  by (auto simp: rotateLocked_def split: prod.splits option.splits dest!: openNextLocked_closed)

lemma appendRecord_closed: "appendRecord rt d f c r p path w h = (e, w', h') \<Longrightarrow> bwClosed w' = bwClosed w"
  by (auto simp: appendRecord_def Let_def split: prod.splits option.splits if_splits dest!: failLocked_closed)

lemma writeRecord_closed: "writeRecord rt d f c r p w h = (e, w', h') \<Longrightarrow> bwClosed w' = bwClosed w"
  by (auto simp: writeRecord_def split: prod.splits option.splits if_splits dest!: failLocked_closed rotateLocked_closed appendRecord_closed)

lemma WriteData_closed: "WriteData c r d f bs w h = (e, w', h') \<Longrightarrow> bwClosed w' = bwClosed w"
proof -
  have "write_data_loop c r d f bs w h = (e, w', h') \<Longrightarrow> bwClosed w' = bwClosed w" for c r d f bs w h
  proof (induction c r d f bs w h arbitrary: e w' h' rule: write_data_loop.induct)
    case (1 c r d f bs w h)
    obtain e1 w1 h1 where w: "writeRecord RecordData d f c r (take (min (length bs) BWJMaxDataPayload) bs) w h = (e1, w1, h1)"
      by (metis surj_pair)
    note eqn = write_data_loop.simps [of c r d f bs w h]
    show ?case
    proof (cases "bs = []")
      case True
      then show ?thesis using 1(2) eqn by simp
    next
      case False
      show ?thesis
      proof (cases e1)
        case (Some err)
        then show ?thesis using 1(2) eqn False w writeRecord_closed [OF w] by (simp add: Let_def)
      next
        case None
        then have "write_data_loop c r d f (drop (min (length bs) BWJMaxDataPayload) bs) w1 h1 = (e, w', h')"
          using 1(2) eqn False w by (simp add: Let_def)
        then show ?thesis using 1(1) [OF False refl w [unfolded None, symmetric] refl refl] writeRecord_closed [OF w] by simp
      qed
    qed
  qed
  then show "WriteData c r d f bs w h = (e, w', h') \<Longrightarrow> bwClosed w' = bwClosed w" by (auto simp: WriteData_def split: if_splits)
qed

lemma jsonl_open_closed: "jsonl_openNextLocked w h = (e, w', h') \<Longrightarrow> jwClosed w' = jwClosed w"
  by (auto simp: jsonl_openNextLocked_def Let_def split: prod.splits option.splits)

lemma jsonl_rotate_closed: "jsonl_rotateLocked w h = (e, w', h') \<Longrightarrow> jwClosed w' = jwClosed w"
  by (auto simp: jsonl_rotateLocked_def split: prod.splits option.splits dest!: jsonl_open_closed)

lemma append_line_closed: "append_line line f w h = (e, w', h') \<Longrightarrow> jwClosed w' = jwClosed w"
  by (auto simp: append_line_def split: prod.splits option.splits)

lemma WriteEvent_closed: "WriteEvent e w h = (r, w', h') \<Longrightarrow> jwClosed w' = jwClosed w"
  by (auto simp: WriteEvent_def Let_def split: prod.splits option.splits sum.splits if_splits dest!: append_line_closed jsonl_rotate_closed)

definition writers_open :: "world \<Rightarrow> bool \<times> bool" where
  "writers_open w = (bwClosed (rtBwj (wRt w)), jwClosed (rtJsonl (wRt w)))"

lemma writers_open_bwj: "(\<And>b h r b' h'. f b h = (r, b', h') \<Longrightarrow> bwClosed b' = bwClosed b) \<Longrightarrow> frame writers_open (bwj_op f)"
  by (auto simp: frame_def bwj_op_def writers_open_def split: prod.splits)

lemma writers_open_jsonl: "(\<And>b h r b' h'. f b h = (r, b', h') \<Longrightarrow> jwClosed b' = jwClosed b) \<Longrightarrow> frame writers_open (jsonl_op f)"
  by (auto simp: frame_def jsonl_op_def writers_open_def split: prod.splits)

lemma writers_open_do: "frame writers_open (runtime_do op)"
  by (cases op) (auto simp: discard_def WriteConnectionOpen_def WriteConnectionClose_def WriteParserError_def WriteLimit_def writers_open_def
    rt_fail_def frame_def bwj_op_def jsonl_op_def split: prod.splits dest!: writeRecord_closed WriteData_closed WriteEvent_closed)

lemma writers_open_run: "frame writers_open (runtime_run ops)"
  by (induction ops) (auto intro!: frame_intros writers_open_do)

lemma writers_open_emit: "frame writers_open (rt_emit e)"
  unfolding rt_emit_def decorateEvent_def
  by (intro frame_intros writers_open_jsonl WriteEvent_closed) (auto simp: writers_open_def)

lemma writers_open_host [simp]: "writers_open (w\<lparr>wHost := h\<rparr>) = writers_open w"
  by (simp add: writers_open_def)

lemma writers_open_select: "frame writers_open (select_loop cfg es)"
proof (induction es)
  case (Cons e es)
  show ?case
  proof (cases e)
    case (Work op)
    then show ?thesis using Cons writers_open_do by (auto intro: frame_intros)
  next
    case StorageTick
    then show ?thesis using Cons by (auto simp: Let_def intro!: frame_intros)
  qed (use Cons in \<open>auto intro!: frame_intros\<close>)
qed (simp add: frame_intros)

section \<open>Everything is given back\<close>

definition bwj_shut :: "bwj_writer \<Rightarrow> bool" where
  "bwj_shut b \<longleftrightarrow> bwClosed b \<and> bwFile b = None"

definition jsonl_shut :: "jsonl_writer \<Rightarrow> bool" where
  "jsonl_shut j \<longleftrightarrow> jwClosed j \<and> (case jwFile j of None \<Rightarrow> True | Some f \<Rightarrow> \<not> ofOpen f)"

definition released :: "net_state \<Rightarrow> engine_out \<Rightarrow> bool" where
  "released net out \<longleftrightarrow> (eoBwj out \<longrightarrow> bwj_shut (rtBwj (wRt (eoWorld out)))) \<and> (eoJsonl out \<longrightarrow> jsonl_shut (rtJsonl (wRt (eoWorld out))))
     \<and> (case eoLease out of None \<Rightarrow> True | Some c \<Rightarrow> ncClosed c) \<and> nsListening (eoNet out) = nsListening net"

lemma BWJWriter_Close_shut: "BWJWriter_Close b h = (e, b', h') \<Longrightarrow> \<not> bwClosed b \<Longrightarrow> bwj_shut b' \<and> (e = None \<longrightarrow> bwFailed b' = None)"
  by (auto simp: BWJWriter_Close_def bwj_shut_def Let_def split: if_splits prod.splits)

lemma JSONLWriter_Close_shut: "JSONLWriter_Close j h = (e, j', h') \<Longrightarrow> \<not> jwClosed j \<Longrightarrow> jsonl_shut j'"
  by (auto simp: JSONLWriter_Close_def jsonl_shut_def Let_def os_close_def split: if_splits prod.splits option.splits)

lemma close_writers_shut:
  assumes "run_state close_writers w = ((je, be), w')" "writers_open w = (False, False)"
  shows "bwj_shut (rtBwj (wRt w')) \<and> jsonl_shut (rtJsonl (wRt w')) \<and> (be = None \<longrightarrow> bwFailed (rtBwj (wRt w')) = None)
    \<and> rtEvents (wRt w') = rtEvents (wRt w)"
proof -
  obtain e j h where j: "JSONLWriter_Close (rtJsonl (wRt w)) (wHost w) = (e, j, h)" by (metis surj_pair)
  obtain e2 b h2 where b: "BWJWriter_Close (rtBwj (wRt w)) h = (e2, b, h2)" by (metis surj_pair)
  show ?thesis using assms JSONLWriter_Close_shut [OF j] BWJWriter_Close_shut [OF b]
    by (auto simp: close_writers_def jsonl_op_def bwj_op_def j b writers_open_def)
qed

lemma close_writers_run: "writers_open w = (False, False) \<Longrightarrow>
    bwj_shut (rtBwj (wRt (snd (run_state close_writers w)))) \<and> jsonl_shut (rtJsonl (wRt (snd (run_state close_writers w))))"
  using close_writers_shut [of w "fst (fst (run_state close_writers w))" "snd (fst (run_state close_writers w))"] by simp

lemma NewBWJWriter_open: "NewBWJWriter d r s t h = (Inr b, h') \<Longrightarrow> \<not> bwClosed b"
  by (auto simp: NewBWJWriter_def Let_def split: prod.splits option.splits dest!: openNextLocked_closed)

lemma NewJSONLWriter_open: "NewJSONLWriter d r s t m h = (Inr j, h') \<Longrightarrow> \<not> jwClosed j"
  by (auto simp: NewJSONLWriter_def Let_def split: prod.splits option.splits dest!: jsonl_open_closed)

lemma engine_open_released:
  assumes "engine_open env cfg w = (r, out)"
  shows "case r of Inl err \<Rightarrow> released (enNet env) out
    | Inr tls \<Rightarrow> writers_open (eoWorld out) = (False, False) \<and> eoLease out = None \<and> eoNet out = enNet env \<and> eoBwj out \<and> eoJsonl out"
  using assms unfolding engine_open_def engine_idle_def released_def writers_open_def
  by (auto simp: Let_def split: prod.splits option.splits sum.splits
      dest!: NewBWJWriter_open NewJSONLWriter_open BWJWriter_Close_shut)

lemma AcquireLease_conn:
  "AcquireLease dialled path expected = (r, c) \<Longrightarrow>
     (case r of Inl err \<Rightarrow> (case c of None \<Rightarrow> True | Some c \<Rightarrow> ncClosed c) | Inr (l, rest) \<Rightarrow> c = Some (lsConn l) \<and> \<not> lsOnce l)"
  by (auto simp: AcquireLease_def conn_Close_def Let_def split: prod.splits option.splits sum.splits if_splits)

lemma Lease_Close_watch: "\<not> lsOnce l \<Longrightarrow> ncClosed (lsConn (Lease_Close (watch b l)))" "\<not> lsOnce l \<Longrightarrow> ncClosed (lsConn (Lease_Close l))"
  by (auto simp: Lease_Close_def watch_def conn_Close_def)

text \<open>The listeners: what a valid configuration says of them, and sockets that are numbered.\<close>

definition services_bindable :: "config \<Rightarrow> bool" where
  "services_bindable cfg \<longleftrightarrow> (\<forall>(sid, svc) \<in> set (cfServices cfg). scEnabled svc \<longrightarrow> scListener svc \<noteq> None) \<and> distinct (map fst (cfServices cfg))"

definition numbered :: "net_state \<Rightarrow> bool" where
  "numbered n \<longleftrightarrow> (\<forall>(k, a) \<in> set (nsListening n). k < nsNext n)"

lemma engine_acquire_released:
  assumes "engine_acquire env cfg tls out = (r, out')" "writers_open (eoWorld out) = (False, False)" "eoLease out = None"
    and "services_bindable cfg" "numbered (eoNet out)" "eoNet out = net"
  shows "case r of Inl err \<Rightarrow> released net out'
    | Inr (services, l) \<Rightarrow> writers_open (eoWorld out') = (False, False) \<and> \<not> lsOnce l
        \<and> nsListening (closeListeners services (eoNet out')) = nsListening net"
proof -
  let ?start = "do { e \<leftarrow> decorateEvent (startup_event env tls); jsonl_op (WriteEvent e) }"
  obtain x w where s: "run_state ?start (eoWorld out) = (x, w)" by fastforce
  have "frame writers_open ?start" unfolding decorateEvent_def
    by (intro frame_intros writers_open_jsonl WriteEvent_closed) auto
  then have w: "writers_open w = (False, False)" using frameD [OF _ s] assms(2) by metis
  note shut = close_writers_run [OF w]
  obtain a c where acq: "AcquireLease (enDialled env) ''/run/notaihoney/capture.sock'' (cfConfigSHA256 cfg) = (a, c)" by fastforce
  obtain b n where bind: "bindConfiguredListeners cfg (eoNet out) = (b, n)" by fastforce
  have eff: "case b of Inl err \<Rightarrow> nsListening n = nsListening net
    | Inr services \<Rightarrow> nsListening (closeListeners services n) = nsListening net"
    using bind_listeners_effect [OF bind] assms(4-6) by (simp add: services_bindable_def numbered_def split: sum.splits)
  show ?thesis
  proof (cases x)
    case (Some err)
    then show ?thesis using assms(1,3,6) s shut by (auto simp: engine_acquire_def Let_def released_def)
  next
    case None
    show ?thesis
    proof (cases a)
      case (Inl err)
      then show ?thesis using assms(1,6) s None acq shut AcquireLease_conn [OF acq] by (auto simp: engine_acquire_def Let_def released_def)
    next
      case (Inr lr)
      then obtain l rest where lr: "a = Inr (l, rest)" "\<not> lsOnce l" using AcquireLease_conn [OF acq] by (cases lr) auto
      then show ?thesis using assms(1) s None acq shut bind eff w Lease_Close_watch(2) [OF lr(2)]
        by (cases b) (auto simp: engine_acquire_def Let_def released_def)
    qed
  qed
qed

lemma engine_shutdown_released:
  assumes "engine_shutdown env services l terminal out = (r, out')" "writers_open (eoWorld out) = (False, False)" "\<not> lsOnce l"
    and "nsListening (closeListeners services (eoNet out)) = nsListening net"
  shows "released net out' \<and> (r = None \<longrightarrow> bwFailed (rtBwj (wRt (eoWorld out'))) = None)
    \<and> (\<forall>err. terminal = Some err \<longrightarrow> r = Some err \<and> (\<exists>es. rtEvents (wRt (eoWorld out')) = es @ [exit_event err]))"
proof -
  let ?report = "case terminal of None \<Rightarrow> ret () | Some err \<Rightarrow> rt_emit (exit_event err)"
  obtain w1 where d: "run_state (runtime_run (enDrain env)) (eoWorld out) = ((), w1)" by (metis surj_pair old.unit.exhaust)
  obtain w2 where e: "run_state ?report w1 = ((), w2)" by (metis surj_pair old.unit.exhaust)
  obtain je be w3 where c: "run_state close_writers w2 = ((je, be), w3)" by (metis surj_pair)
  have "frame writers_open ?report" by (intro frame_intros writers_open_emit)
  then have o: "writers_open w2 = (False, False)" using frameD [OF _ e] frameD [OF writers_open_run d] assms(2) by metis
  note shut = close_writers_shut [OF c o]
  have ev: "\<exists>es. rtEvents (wRt w2) = es @ [exit_event err]" if "terminal = Some err" for err
  proof -
    let ?f = "\<lambda>w. rtEvents (wRt w)"
    have "?f (snd (run_state (rt_emit e) w)) = ?f w @ [e]" for e w
    proof -
      define m where "m = do { healthy \<leftarrow> gets (\<lambda>w. rtHealthy (wRt w)); if \<not> healthy then ret () else do { e \<leftarrow> decorateEvent e; err \<leftarrow> jsonl_op (WriteEvent e);
          (case err of None \<Rightarrow> ret () | Some _ \<Rightarrow> modify (\<lambda>w. w\<lparr>wRt := (wRt w)\<lparr>rtHealthy := False\<rparr>\<rparr>)) } }"
      have "frame ?f m" unfolding m_def decorateEvent_def by (intro frame_intros) auto
      moreover have "rt_emit e = do { _ \<leftarrow> modify (\<lambda>w. w\<lparr>wRt := (wRt w)\<lparr>rtEvents := rtEvents (wRt w) @ [e]\<rparr>\<rparr>); m }"
        unfolding rt_emit_def m_def ..
      ultimately show ?thesis by (simp add: frame_def)
    qed
    then show ?thesis using e that by (metis option.simps(5) snd_conv)
  qed
  have run: "run_state (do { _ \<leftarrow> runtime_run (enDrain env); _ \<leftarrow> ?report; close_writers }) (eoWorld out) = ((je, be), w3)"
    by (simp add: d e c)
  have l: "ncClosed (lsConn (Lease_Close (if list_ex lease_lost (enEvents env) then watch False l else l)))"
    using Lease_Close_watch [OF assms(3)] by simp
  note res = assms(1) [unfolded engine_shutdown_def run Let_def prod.case]
  show ?thesis
  proof (cases terminal)
    case None
    then show ?thesis using res assms(4) shut l by (cases be) (auto simp: released_def)
  next
    case (Some err)
    then show ?thesis using res assms(4) shut l ev [OF Some] by (auto simp: released_def)
  qed
qed

lemma engine_released:
  assumes "engine_Run env cfg w = (Some r, out)" "services_bindable cfg" "numbered (enNet env)"
  shows "released (enNet env) out \<and> (r = None \<longrightarrow> bwFailed (rtBwj (wRt (eoWorld out))) = None)"
proof -
  obtain a o1 where a: "engine_open env cfg w = (a, o1)" by fastforce
  note op = engine_open_released [OF a]
  show ?thesis
  proof (cases a)
    case (Inl err)
    then show ?thesis using assms(1) a op by (auto simp: engine_Run_def)
  next
    case (Inr tls)
    then have o1: "writers_open (eoWorld o1) = (False, False)" "eoLease o1 = None" "eoNet o1 = enNet env" using op by simp_all
    obtain b o2 where b: "engine_acquire env cfg tls o1 = (b, o2)" by fastforce
    note ac = engine_acquire_released [OF b o1(1,2) assms(2) _ o1(3), unfolded o1(3), OF assms(3)]
    show ?thesis
    proof (cases b)
      case (Inl err)
      then show ?thesis using assms(1) a Inr b ac by (auto simp: engine_Run_def)
    next
      case got: (Inr sl)
      obtain services l where sl: "sl = (services, l)" by fastforce
      have o2: "writers_open (eoWorld o2) = (False, False)" "\<not> lsOnce l"
          "nsListening (closeListeners services (eoNet o2)) = nsListening (enNet env)" using ac got sl by simp_all
      obtain t w1 where s: "run_state (select_loop cfg (enEvents env)) (eoWorld o2) = (t, w1)" by fastforce
      have w1: "writers_open w1 = (False, False)" using frameD [OF writers_open_select s] o2(1) by simp
      obtain terminal where t: "t = Some terminal" using assms(1) a Inr b got sl s by (cases t) (auto simp: engine_Run_def)
      have "engine_shutdown env services l terminal (o2\<lparr>eoWorld := w1\<rparr>) = (r, out)"
        using assms(1) a Inr b got sl s t by (auto simp: engine_Run_def split: prod.splits)
      from engine_shutdown_released [OF this _ o2(2)] w1 o2(3) show ?thesis by simp
    qed
  qed
qed

text \<open>C12: Whenever the engine's \<open>Run\<close> returns, from whichever of its exits, each resource it had acquired is
  given back: the journal and the event log are closed with their files, so is the connection of the
  lease, and no listener it bound is open; and it returns nil only if no write to the journal ever
  failed.\<close>

lemma engine_Run_releases:
  assumes "engine_Run env cfg w = (Some r, out)" "services_bindable cfg" "numbered (enNet env)"
  shows "released (enNet env) out \<and> (r = None \<longrightarrow> bwFailed (rtBwj (wRt (eoWorld out))) = None)"
  by (rule engine_released [OF assms])

section \<open>The code word of a journal failure\<close>

lemma categories_apart: "\<forall>c \<in> set error_categories. \<forall>k \<in> set error_categories. prefix k c \<longrightarrow> k = c" "distinct error_categories"
  by code_simp+

lemma filter_only: "distinct xs \<Longrightarrow> x \<in> set xs \<Longrightarrow> filter (\<lambda>y. y = x) xs = [x]"
  by (induction xs) (auto simp: filter_empty_conv)

lemma errorCategory_word:
  assumes "c \<in> set error_categories" "error_text e = c @ t"
  shows "errorCategory (Some e) = c"
proof -
  have k: "(length k \<le> length (c @ t) \<and> take (length k) (c @ t) = k) = (k = c)" if "k \<in> set error_categories" for k
  proof
    assume "length k \<le> length (c @ t) \<and> take (length k) (c @ t) = k"
    then have "prefix k (c @ t)" using take_is_prefix by metis
    then have "prefix k c \<or> prefix c k" using prefix_same_cases [of k "c @ t" c] by auto
    then show "k = c" using categories_apart(1) assms(1) that by metis
  qed simp
  have "filter (\<lambda>k. length k \<le> length (error_text e) \<and> take (length k) (error_text e) = k) error_categories = filter (\<lambda>k. k = c) error_categories"
    unfolding assms(2) by (rule filter_cong) (use k in auto)
  also have "\<dots> = [c]" using assms(1) categories_apart(2) by (intro filter_only)
  finally show ?thesis by (simp add: errorCategory_def Let_def)
qed

lemma format_word: "CHR ''%'' \<notin> set w \<Longrightarrow> f \<noteq> [] \<Longrightarrow> go_format (w @ f) as e = w @ go_format f as e"
proof (induction w)
  case (Cons a w)
  then obtain b r where "w @ f = b # r" by (cases "w @ f") auto
  then show ?case using Cons by (metis (no_types, lifting) append_Cons go_format.simps(1) list.set_intros(1) list.set_intros(2))
qed simp

definition journal_failure :: "go_error \<Rightarrow> bool" where
  "journal_failure err \<longleftrightarrow> (\<exists>f as e. err = Wrapf (''BWJ_WRITE_FAILED'' @ CHR '' '' # f) as e)"

lemma journal_failureI: "journal_failure (Wrapf (''BWJ_WRITE_FAILED'' @ CHR '' '' # f) as e)"
  unfolding journal_failure_def by blast

lemma errorCategory_journal: "journal_failure err \<Longrightarrow> errorCategory (Some err) = ''BWJ_WRITE_FAILED''"
proof -
  assume "journal_failure err"
  then obtain f as e where "error_text err = go_format (''BWJ_WRITE_FAILED'' @ CHR '' '' # f) as (error_text e)"
    unfolding journal_failure_def by auto
  then have "error_text err = ''BWJ_WRITE_FAILED'' @ go_format (CHR '' '' # f) as (error_text e)"
    using format_word [of "''BWJ_WRITE_FAILED''" "CHR '' '' # f"] by simp
  moreover have "''BWJ_WRITE_FAILED'' \<in> set error_categories" by code_simp
  ultimately show ?thesis by (rule errorCategory_word [rotated])
qed

lemma openNextLocked_failure: "openNextLocked w h = (Some err, w', h') \<Longrightarrow> journal_failure err"
  by (auto simp: openNextLocked_def journal_failure_def Let_def split: prod.splits option.splits)

lemma rotateLocked_failure: "rotateLocked w h = (Some err, w', h') \<Longrightarrow> journal_failure err"
  by (auto simp: rotateLocked_def journal_failure_def split: prod.splits option.splits dest!: openNextLocked_failure)

lemma rotateLocked_failed: "rotateLocked w h = (e, w', h') \<Longrightarrow> bwFailed w' = bwFailed w"
  by (auto simp: rotateLocked_def openNextLocked_def Let_def split: prod.splits option.splits)

lemma appendRecord_failure: "appendRecord rt d f c r p path w h = (Some err, w', h') \<Longrightarrow> bwFailed w = None \<Longrightarrow> journal_failure err"
  by (auto simp: appendRecord_def failLocked_def journal_failure_def Let_def split: prod.splits option.splits if_splits)

text \<open>C19: The first failure of the journal, whichever call to the disk it comes from, is classified as
  \<open>BWJ_WRITE_FAILED\<close> in the event that reports the exit.\<close>

lemma journal_error_category:
  assumes "writeRecord recordType direction flags c r payload w h = (Some err, w', h')"
    and "flags AND reservedFlags = 0" "validatePayload recordType payload = None" "\<not> bwClosed w" "bwFailed w = None"
  shows "errorCategory (Some err) = ''BWJ_WRITE_FAILED'' \<and> evOperationalCode (exit_event err) = ''BWJ_WRITE_FAILED''"
proof -
  obtain due h1 where due: "shouldRotateLocked (int (BWJRecordHeaderSize + length payload)) w h = (due, h1)" by fastforce
  obtain e1 w1 h2 where rot: "(if due then rotateLocked w h1 else (None, w, h1)) = (e1, w1, h2)" by (metis surj_pair)
  then have clean: "bwFailed w1 = None" using assms(5) rotateLocked_failed [of w h1 e1 w1 h2] by (auto split: if_splits)
  have "journal_failure err"
  proof (cases e1)
    case (Some e)
    then have "journal_failure e" using rot rotateLocked_failure by (auto split: if_splits)
    then show ?thesis using assms Some due rot clean by (auto simp: writeRecord_def failLocked_def Let_def split: prod.splits)
  next
    case None
    show ?thesis
    proof (cases "bwFile w1")
      case (Some path)
      then have "appendRecord recordType direction flags c r payload path w1 h2 = (Some err, w', h')"
        using assms None due rot by (simp add: writeRecord_def)
      then show ?thesis using appendRecord_failure clean by blast
    next
      case none: None
      then have "err = Wrapf ''BWJ_WRITE_FAILED header: %w'' [] (OsError ''invalid argument'' False)"
        using assms None due rot clean by (auto simp: writeRecord_def failLocked_def Let_def split: prod.splits)
      then show ?thesis by (auto simp: journal_failure_def)
    qed
  qed
  from errorCategory_journal [OF this] show ?thesis by (simp add: exit_event_def)
qed

section \<open>A run of the engine\<close>

definition cfg1 :: config where
  "cfg1 = cfg0\<lparr>cfRaw := [7], cfConfigSHA256 := ''07'', cfSourcePath := ''c.yaml''\<rparr>"

definition engine0 :: engine_env where
  "engine0 = \<lparr>enTls = no_tls, enSha256 = id, enBuild = \<lparr>biApplicationVersion = ''dev'', biBuildID = ''unknown''\<rparr>, enGoVersion = ''go1'',
     enDialled = Inr (cut_conn (bytes_of (ready_line ''07'' ''77'')) [(4, None)]), enLeaseClose = None, enNet = net0,
     enEvents = [Work (OpOpen zero_id), StorageTick, LeaseLost False], enDrain = [OpClose zero_id CloseShutdown]\<rparr>"

text \<open>The state before \<open>Run\<close> has opened anything.\<close>

definition idle_bwj :: bwj_writer where
  "idle_bwj = \<lparr>bwDirectory = '''', bwRunSessionID = [], bwRotateSize = 0, bwRotateDuration = 0, bwFile = None, bwFileSequence = 0,
     bwRecordSequence = 0, bwCreatedAt = 0, bwBytesWritten = 0, bwClosed = True, bwFailed = None\<rparr>"

definition idle_world :: "host \<Rightarrow> world" where
  "idle_world h = \<lparr>wHost = h, wRt = \<lparr>rtCfg = cfg0, rtRunSessionID = [], rtBwj = idle_bwj, rtJsonl = a_jsonl, rtHealthy = False, rtFatal = None,
      rtEvents = []\<rparr>, wConn = a_conn, wCounters = \<lparr>bytesIn = 0, bytesOut = 0, requests = 0\<rparr>,
     wReader = \<lparr>rrConnectionID = [], rrMaxConnBytes = 0, rrLifetimeEnd = 0, rrParserFailed = False, rrHeaderPhase = False,
       rrHeaderStarted = False, rrHeaderBytesRead = 0, rrHeaderReadCap = 0, rrHeaderTimeout = 0\<rparr>,
     wBuf = [], wPending = None, wWriter = \<lparr>xwConnectionID = [], xwRequestID = [], xwMaxConnBytes = 0, xwWriteTimeout = 0,
       xwLifetimeEnd = 0, xwStreaming = False, xwHasher = []\<rparr>, wRoutes = NewRouteState, wDone = [], wStreams = []\<rparr>"

lemma select_loop_ends: "e \<in> set es \<Longrightarrow> e = SelectDone \<or> lease_lost e \<Longrightarrow> fst (run_state (select_loop cfg es) w) \<noteq> None"
proof (induction es arbitrary: w)
  case (Cons x es)
  note ih = Cons.IH [OF _ Cons.prems(2)]
  show ?case
  proof (cases x)
    case (Work op)
    then show ?thesis using Cons.prems ih by (auto simp: lease_lost_def split: prod.split)
  next
    case FatalReceived
    then show ?thesis using Cons.prems ih by (cases "rtFatal (wRt w)") (auto simp: lease_lost_def)
  next
    case StorageTick
    obtain av w1 where "run_state (on_host (FreeBytes (roDirectory (evWireJournal (cfEvidence cfg))))) w = (av, w1)" by fastforce
    then show ?thesis using StorageTick Cons.prems ih [of w1] by (auto simp: lease_lost_def Let_def)
  qed simp_all
qed simp

text \<open>The engine's \<open>Run\<close> returns when its context is done or the lease is lost, whatever woke it before.\<close>

lemma engine_Run_ends:
  assumes "e \<in> set (enEvents env)" "e = SelectDone \<or> lease_lost e"
  shows "fst (engine_Run env cfg w) \<noteq> None"
  using select_loop_ends [OF assms, of cfg]
  by (auto simp: engine_Run_def split: prod.splits sum.splits option.splits) (metis fst_conv option.distinct(1))+

lemma engine_Run_ends_witness: "fst (engine_Run engine0 cfg1 (idle_world (quiet_host []))) \<noteq> None"
  by (rule engine_Run_ends [of "LeaseLost False"]) (simp_all add: engine0_def lease_lost_def)

text \<open>The event log cannot be created: \<open>Run\<close> fails and closes the journal it had opened.\<close>

definition torn_world :: world where
  "torn_world = idle_world ((quiet_host [''w'', ''j'', ''/run/notaihoney''])
     \<lparr>opens := [None, None, None, None, None, Some (OsError ''no space left on device'' False)]\<rparr>)"

lemma torn_open: "case engine_open engine0 cfg1 torn_world of (r, out) \<Rightarrow> isl r \<and> eoBwj out"
  by code_simp

lemma torn_run: "\<exists>err out. engine_Run engine0 cfg1 torn_world = (Some (Some err), out) \<and> eoBwj out"
  using torn_open by (auto simp: engine_Run_def split: prod.splits sum.splits)

lemma cfg1_bindable: "services_bindable cfg1" "numbered net0"
  by (simp_all add: services_bindable_def numbered_def cfg1_def cfg0_def svc0_def net0_def)

lemma engine_Run_releases_witness:
  "\<exists>r out. engine_Run engine0 cfg1 torn_world = (Some (Some r), out) \<and> eoBwj out \<and> bwj_shut (rtBwj (wRt (eoWorld out)))"
proof -
  obtain r out where run: "engine_Run engine0 cfg1 torn_world = (Some (Some r), out)" "eoBwj out" using torn_run by blast
  have "numbered (enNet engine0)" using cfg1_bindable(2) by (simp add: engine0_def)
  from engine_Run_releases [OF run(1) cfg1_bindable(1) this] run show ?thesis by (auto simp: released_def)
qed

text \<open>The header of a record is not written.\<close>

definition cut_host :: host where
  "cut_host = oH\<lparr>writes := [(0, Some (OsError ''input/output error'' False))]\<rparr>"

lemma cut_record: "fst (writeRecord RecordConnectionOpen DirectionNA 0 zero_id zero_id [] oW cut_host) \<noteq> None"
  by code_simp

lemma journal_error_category_witness:
  "\<exists>err. fst (writeRecord RecordConnectionOpen DirectionNA 0 zero_id zero_id [] oW cut_host) = Some err \<and> errorCategory (Some err) = ''BWJ_WRITE_FAILED''"
proof -
  obtain err w' h' where op: "writeRecord RecordConnectionOpen DirectionNA 0 zero_id zero_id [] oW cut_host = (Some err, w', h')"
    using cut_record by (metis not_Some_eq prod.collapse)
  have "validatePayload RecordConnectionOpen [] = None" "\<not> bwClosed oW" "bwFailed oW = None" by code_simp+
  from journal_error_category [OF op _ this] op show ?thesis by simp
qed

end
