(* ===== verification/Command_Spec.thy ===== *)
theory Command_Spec
  imports Command Engine_Spec Capture_Spec
begin

text \<open>
  What the command line guarantees: how the path of the configuration may be given, that the exported
  listeners are those that the server binds, and that the modes, started on any configuration file,
  give back what they acquired.
\<close>

section \<open>Flags\<close>

lemma flag_split_equals: "CHR ''='' \<notin> set name \<Longrightarrow> name \<noteq> '''' \<Longrightarrow> flag_split (name @ CHR ''='' # val) = (name, Some val)"
  by (cases name) (simp_all add: flag_split_def index_byte_first)

lemma flag_split_plain: "CHR ''='' \<notin> set name \<Longrightarrow> flag_split name = (name, None)"
  by (cases name) (auto simp: flag_split_def split: option.splits)

text \<open>The path of the configuration is taken from \<open>--config path\<close>, \<open>-config path\<close>, \<open>--config=path\<close> and
  \<open>-config=path\<close> unchanged, whatever it is, also when it is empty or looks like a flag; without the flag it
  is the default; the last one given counts.\<close>

lemma parseConfigOnly_path:
  "parseConfigOnly [''--config'', path] = Inr path \<and> parseConfigOnly [''-config'', path] = Inr path
    \<and> parseConfigOnly [''--config='' @ path] = Inr path \<and> parseConfigOnly [''-config='' @ path] = Inr path
    \<and> parseConfigOnly [] = Inr ''/etc/notaihoney/honeypot.yaml''
    \<and> parseConfigOnly [''--config'', path', ''-config='' @ path] = Inr path"
proof -
  have s: "flag_split ''config'' = (''config'', None)" "flag_split (''config='' @ v) = (''config'', Some v)" for v
    using flag_split_plain [of "''config''"] flag_split_equals [of "''config''" v] by simp_all
  show ?thesis using s by (simp add: parseConfigOnly_def flag_name_def flag_value_def set_flag_def default_config_def)
qed

section \<open>The exported listeners\<close>

lemma plain_string_printable [simp]: "printable (plain_string s)"
proof (induction s rule: plain_string.induct)
  case (2 c cs)
  have "printable (take (utf8_width (c # cs)) (c # cs))"
    using utf8_width_high [OF refl, of _ "c # cs"] by (fastforce simp: printable_def)
  with 2 show ?case by (auto simp: plain_string.simps Let_def split: option.split)
qed (simp add: plain_string.simps)

lemma plain_json_printable [simp]: "printable (plain_json j)"
proof (induction j rule: plain_json.induct)
  case (6 kvs)
  then show ?case by (auto intro!: join_printable)
qed (auto intro!: join_printable)

text \<open>C17: The listeners that \<open>check --emit-listeners json\<close> exports are those that \<open>serve\<close> binds: when the
  server has bound its listeners, the export succeeds, is a single line, and names the same services in
  the same order with the same addresses and ports.\<close>

lemma listener_export_bound:
  assumes "bindConfiguredListeners cfg n = (Inr services, n')" "services_bindable cfg" "numbered n"
  shows "\<exists>e line. listener_export_of cfg = Some e \<and> emitListenerJSON cfg = Inr (line @ [CHR 0x0A]) \<and> printable line
    \<and> leConfigSHA256 e = cfConfigSHA256 cfg \<and> map ljServiceID (leListeners e) = map srID services
    \<and> map snd (nsListening n') = map snd (nsListening n) @ map (\<lambda>l. JoinHostPort (ljAddress l) (itoa (ljPort l))) (leListeners e)"
proof -
  have eff: "map srID services = enabled_ids cfg" "\<forall>s \<in> set services. map_of (cfServices cfg) (srID s) = Some (srCfg s)"
      "nsListening n' = nsListening n @ map bound_to services"
    using bind_listeners_effect [OF assms(1)] assms(2,3) by (auto simp: services_bindable_def numbered_def)
  have entry: "\<exists>l. export_entry cfg (srID s) = Some l \<and> ljServiceID l = srID s \<and> JoinHostPort (ljAddress l) (itoa (ljPort l)) = snd (bound_to s)"
    if "s \<in> set services" for s
  proof -
    have m: "map_of (cfServices cfg) (srID s) = Some (srCfg s)" using eff(2) that by blast
    have "srID s \<in> set (enabled_ids cfg)" using eff(1) that by (metis image_eqI set_map)
    then obtain svc where svc: "(srID s, svc) \<in> set (cfServices cfg)" "scEnabled svc" by (auto simp: enabled_ids_def)
    then have "svc = srCfg s" using m assms(2) by (simp add: services_bindable_def)
    then obtain l where "scListener (srCfg s) = Some l" using svc assms(2) by (fastforce simp: services_bindable_def)
    then show ?thesis using m by (simp add: export_entry_def bound_to_def)
  qed
  define ls where "ls = map (\<lambda>s. the (export_entry cfg (srID s))) services"
  have entries: "map (export_entry cfg) (enabled_ids cfg) = map Some ls"
    unfolding eff(1) [symmetric] ls_def using entry by (fastforce simp: o_def)
  have "listener_export_of cfg = Some \<lparr>leConfigSHA256 = cfConfigSHA256 cfg, leListeners = ls\<rparr>"
    unfolding listener_export_of_def Let_def entries by (auto simp: o_def)
  moreover have "map ljServiceID ls = map srID services" "map (\<lambda>l. JoinHostPort (ljAddress l) (itoa (ljPort l))) ls = map (snd \<circ> bound_to) services"
    unfolding ls_def using entry by fastforce+
  ultimately show ?thesis by (auto simp: emitListenerJSON_def eff(3))
qed

lemma listener_export_bound_witness:
  "\<exists>e services n'. bindConfiguredListeners cfg1 net0 = (Inr services, n') \<and> listener_export_of cfg1 = Some e
    \<and> map snd (nsListening n') = [''127.0.0.1:8080''] \<and> map ljServiceID (leListeners e) = map srID services"
proof -
  have b: "map_sum id (map srID) (fst (bindConfiguredListeners cfg1 net0)) = Inr [''web'']"
      "map snd (nsListening (snd (bindConfiguredListeners cfg1 net0))) = [''127.0.0.1:8080'']" by code_simp+
  then obtain services n' where bind: "bindConfiguredListeners cfg1 net0 = (Inr services, n')"
    by (cases "bindConfiguredListeners cfg1 net0"; cases "fst (bindConfiguredListeners cfg1 net0)") auto
  from listener_export_bound [OF bind cfg1_bindable] bind b(2) show ?thesis by auto
qed

section \<open>From a configuration file to the end of the program\<close>

lemma valid_bindable: "Validate cfg = None \<Longrightarrow> distinct (map fst (cfServices cfg)) \<Longrightarrow> services_bindable cfg"
  using Validate_valid [of cfg] by (fastforce simp: services_bindable_def valid_config_def valid_service_def)

definition keyed_decoder :: "loader \<Rightarrow> bool" where
  "keyed_decoder l \<longleftrightarrow> (\<forall>data cfg. decode l data = Inr cfg \<longrightarrow> distinct (map fst (cfServices cfg)))"

lemma Load_bindable: "Load sha256 l path = Inr cfg \<Longrightarrow> keyed_decoder l \<Longrightarrow> services_bindable cfg"
  by (rule valid_bindable) (auto simp: Load_def keyed_decoder_def Let_def split: option.splits sum.splits prod.splits if_splits)

lemma main_run_left:
  assumes "rrLeft (main_run m args) \<noteq> NothingLeft"
  obtains mode rest path cfg where "args = mode # rest" "parseConfigOnly rest = Inr path" "Load (mcSha256 m) (mcLoader m) path = Inr cfg"
    "mode = ''serve'' \<and> (\<exists>r out. engine_Run (mcEngine m) cfg (mcWorld m) = (r, out) \<and> rrError (main_run m args) = r \<and> rrLeft (main_run m args) = EngineLeft out)
     \<or> mode = ''capture'' \<and> (\<exists>r s. capture_Run (mcCapture m) cfg (wHost (mcWorld m)) = (r, s) \<and> rrError (main_run m args) = r \<and> rrLeft (main_run m args) = CaptureLeft s)
     \<or> mode = ''index'' \<and> (\<exists>db. rrLeft (main_run m args) = IndexLeft db)"
proof -
  obtain mode rest where a: "args = mode # rest" using assms by (cases args) (auto simp: main_run_def exits_def)
  have check: "rrLeft (runCheck m rest) = NothingLeft"
    by (auto simp: runCheck_def exits_def Let_def split: prod.splits option.splits sum.splits)
  then have mode: "mode = ''serve'' \<or> mode = ''capture'' \<or> mode = ''index''"
    using assms a by (auto simp: main_run_def exits_def split: if_splits)
  obtain path where p: "parseConfigOnly rest = Inr path"
    using assms a mode by (cases "parseConfigOnly rest") (auto simp: main_run_def exits_def)
  obtain cfg where c: "Load (mcSha256 m) (mcLoader m) path = Inr cfg"
    using assms a mode p by (cases "Load (mcSha256 m) (mcLoader m) path") (auto simp: main_run_def exits_def)
  show thesis by (rule that [OF a p c]) (use mode in \<open>auto simp: main_run_def a p c split: prod.splits\<close>)
qed

text \<open>C7: From the command line to the exit: whatever the arguments and the configuration file are, when the
  program ends, the server mode has closed its writers, its lease and its listeners, and the capture
  mode has ended its process and closed its leases. The YAML decoder is only assumed to give each
  service once, and the sockets that were open before to be numbered.\<close>

lemma main_run_releases:
  assumes "rrError (main_run m args) \<noteq> None" "keyed_decoder (mcLoader m)" "numbered (enNet (mcEngine m))"
  shows "case rrLeft (main_run m args) of EngineLeft out \<Rightarrow> released (enNet (mcEngine m)) out
    | CaptureLeft s \<Rightarrow> stopped_all s | _ \<Rightarrow> True"
proof (cases "rrLeft (main_run m args) = NothingLeft")
  case False
  then show ?thesis
  proof (rule main_run_left)
    fix mode rest path cfg
    assume cfg: "Load (mcSha256 m) (mcLoader m) path = Inr cfg"
      and runs: "mode = ''serve'' \<and> (\<exists>r out. engine_Run (mcEngine m) cfg (mcWorld m) = (r, out) \<and> rrError (main_run m args) = r \<and> rrLeft (main_run m args) = EngineLeft out)
     \<or> mode = ''capture'' \<and> (\<exists>r s. capture_Run (mcCapture m) cfg (wHost (mcWorld m)) = (r, s) \<and> rrError (main_run m args) = r \<and> rrLeft (main_run m args) = CaptureLeft s)
     \<or> mode = ''index'' \<and> (\<exists>db. rrLeft (main_run m args) = IndexLeft db)"
    note bindable = Load_bindable [OF cfg assms(2)]
    from runs show ?thesis
    proof (elim disjE conjE exE)
      fix r out
      assume "engine_Run (mcEngine m) cfg (mcWorld m) = (r, out)" "rrError (main_run m args) = r" "rrLeft (main_run m args) = EngineLeft out"
      then show ?thesis using engine_released bindable assms(1,3) by fastforce
    next
      fix r s
      assume "capture_Run (mcCapture m) cfg (wHost (mcWorld m)) = (r, s)" "rrError (main_run m args) = r" "rrLeft (main_run m args) = CaptureLeft s"
      then show ?thesis using capture_stopped assms(1) by fastforce
    qed simp
  qed
qed simp

text \<open>The check mode exits with status 0 exactly when the prerequisites of both the server and the capture
  hold; it prints which of them fail, and the lease it acquired for the check is closed.\<close>

lemma check_mode_verdict:
  assumes "flag_parse [(''config'', default_config), (''emit-listeners'', '''')] args = Inr (fs, [])"
    and "Load (mcSha256 m) (mcLoader m) (flag_value ''config'' fs) = Inr cfg" "flag_value ''emit-listeners'' fs = ''''"
    and "engine_CheckOperational (mcEngine m) cfg (wHost (mcWorld m)) = (serveErr, c, h)"
    and "capture_CheckOperational (mcCapture m) cfg h = (captureErr, h2)"
  shows "(fst (main_exit (main_run m (''check'' # args))) = 0 \<longleftrightarrow> serveErr = None \<and> captureErr = None)
    \<and> (''serve_operational: FAIL'' \<in> set (rrOut (main_run m (''check'' # args))) \<longleftrightarrow> serveErr \<noteq> None)
    \<and> (''capture_operational: FAIL'' \<in> set (rrOut (main_run m (''check'' # args))) \<longleftrightarrow> captureErr \<noteq> None)
    \<and> pred_option ncClosed c"
proof -
  have run: "main_run m (''check'' # args) = runCheck m args" by (simp add: main_run_def)
  have res: "rrError (runCheck m args) = Some (case errors_Join (filter (\<lambda>e. e \<noteq> None) [serveErr, captureErr]) of None \<Rightarrow> None
        | Some errs \<Rightarrow> Some (Wrapf ''check operational prerequisites failed: %w'' [] errs))"
      "rrOut (runCheck m args) = [''schema: PASS'', if serveErr = None then ''serve_operational: PASS'' else ''serve_operational: FAIL'',
         if captureErr = None then ''capture_operational: NOT_CHECKED'' else ''capture_operational: FAIL'', ''config_sha256: '' @ cfConfigSHA256 cfg]"
    by (simp_all add: runCheck_def assms)
  have "pred_option ncClosed c"
    using assms(4) AcquireLease_conn [of "enDialled (mcEngine m)" "''/run/notaihoney/capture.sock''" "cfConfigSHA256 cfg"] Lease_Close_watch(2)
    by (fastforce simp: engine_CheckOperational_def split: prod.splits option.splits sum.splits)
  then show ?thesis unfolding run main_exit_def res by (cases serveErr; cases captureErr) (simp_all add: errors_Join_def)
qed

section \<open>A run from the command line\<close>

text \<open>The server mode on the configuration of theory Valid_Config; the event log cannot be
  created.\<close>

definition no_sql :: "unit sql_lib" where
  "no_sql = \<lparr>sqOpen = (\<lambda>p. Inr ()), sqSchema = (\<lambda>d. (None, d)), sqBegin = (\<lambda>d. (None, d)), sqExec = (\<lambda>s d. (None, d)),
     sqCommit = (\<lambda>d. (None, d)), sqRollback = id, sqClose = id\<rparr>"

definition machine0 :: "unit machine" where
  "machine0 = \<lparr>mcSha256 = id, mcLoader = env0, mcEngine = engine0, mcCapture = capture0, mcWorld = torn_world, mcSql = no_sql,
     mcUnmarshal = (\<lambda>bs. Inl EOF), mcMkdirs = (\<lambda>d. None), mcFiles = at_rest (wHost torn_world)\<rparr>"

text \<open>What the loader makes of the configuration.\<close>

lemma Load_cfg1: "Load id env0 ''c.yaml'' = Inr cfg1"
proof -
  have "Validate cfg1 = None" by code_simp
  moreover have "hex_encode (id [7]) = ''07''" by code_simp
  moreover have "inspectYAMLSyntax (Inr (Node DocumentNode '''' '''' '''' [tree0])) (Inl EOF) = None" by code_simp
  ultimately show ?thesis by (simp add: Load_def env0_def cfg1_def Let_def)
qed

lemma serve_args: "parseConfigOnly [''--config'', ''c.yaml''] = Inr ''c.yaml''"
  by code_simp

lemma machine0_keyed: "keyed_decoder (mcLoader machine0)" "numbered (enNet (mcEngine machine0))"
  by (simp_all add: keyed_decoder_def machine0_def env0_def cfg0_def engine0_def numbered_def net0_def)

lemma main_run_releases_witness:
  "\<exists>out. rrLeft (main_run machine0 [''serve'', ''--config'', ''c.yaml'']) = EngineLeft out \<and> bwj_shut (rtBwj (wRt (eoWorld out)))"
proof -
  obtain e out where run: "engine_Run engine0 cfg1 torn_world = (Some (Some e), out)" "eoBwj out" using torn_run by blast
  have res: "rrError (main_run machine0 [''serve'', ''--config'', ''c.yaml'']) = Some (Some e)"
      "rrLeft (main_run machine0 [''serve'', ''--config'', ''c.yaml'']) = EngineLeft out"
    using run(1) by (simp_all add: main_run_def serve_args Load_cfg1 machine0_def)
  have "rrError (main_run machine0 [''serve'', ''--config'', ''c.yaml'']) \<noteq> None" by (simp add: res)
  from main_run_releases [OF this machine0_keyed] run(2) show ?thesis by (simp add: res released_def)
qed

end
