(* ===== verification/Json_Read.thy ===== *)
theory Json_Read
  imports Json
begin

text \<open>
  A reader of JSON texts (RFC 8259) without insignificant white space, such as \<open>json.Marshal\<close> writes
  them, and the round trip: what theory Json encodes is read back, with the bytes that are not UTF-8
  replaced as \<open>encoding/json\<close> replaces them. The reader is the specification that statements about
  encoded events refer to.
\<close>

section \<open>Strings\<close>

text \<open>The string with each byte that does not belong to a UTF-8 encoding replaced by U+FFFD.\<close>

definition replacement :: string where
  "replacement = [CHR 0xEF, CHR 0xBF, CHR 0xBD]"

function to_utf8 :: "string \<Rightarrow> string" where
  "to_utf8 [] = []"
| "to_utf8 (c # cs) =
    (if of_char c < (0x80 :: nat) then c # to_utf8 cs
     else let n = utf8_width (c # cs) in
       if n = 0 then replacement @ to_utf8 cs else take n (c # cs) @ to_utf8 (drop n (c # cs)))"
  by pat_completeness auto
termination
  by (relation "measure length") auto

declare to_utf8.simps [simp del]

definition ascii :: "string \<Rightarrow> bool" where
  "ascii s \<longleftrightarrow> list_all (\<lambda>c. of_char c < (0x80 :: nat)) s"

lemma to_utf8_ascii: "ascii s \<Longrightarrow> to_utf8 s = s"
  by (induction s) (simp_all add: ascii_def to_utf8.simps)

text \<open>A code point below \<open>2 ^ 16\<close> as UTF-8.\<close>

definition utf8_encode :: "nat \<Rightarrow> string" where
  "utf8_encode n = map char_of (if n < 0x80 then [n] else if n < 0x800 then [0xC0 + n div 64, 0x80 + n mod 64]
     else [0xE0 + n div 4096, 0x80 + n div 64 mod 64, 0x80 + n mod 64])"

fun hex4 :: "string \<Rightarrow> (nat \<times> string) option" where
  "hex4 (a # b # c # d # s) = (case (digit_value a, digit_value b, digit_value c, digit_value d) of
     (Some w, Some x, Some y, Some z) \<Rightarrow> Some (4096 * w + 256 * x + 16 * y + z, s) | _ \<Rightarrow> None)"
| "hex4 _ = None"

definition simple_escape :: "char \<Rightarrow> char option" where
  "simple_escape c = map_of [(quote_char, quote_char), (backslash, backslash), (CHR ''/'', CHR ''/''), (CHR ''b'', CHR 0x08),
     (CHR ''f'', CHR 0x0C), (CHR ''n'', CHR 0x0A), (CHR ''r'', CHR 0x0D), (CHR ''t'', CHR 0x09)] c"

text \<open>The rest of a string literal after its opening quote, and what follows it.\<close>

abbreviation (input) put_front :: "string \<Rightarrow> (string \<times> string) option \<Rightarrow> (string \<times> string) option" where
  "put_front p r \<equiv> map_option (\<lambda>(s, t). (p @ s, t)) r"

lemma hex4_shorter: "hex4 s = Some (n, r) \<Longrightarrow> length r < length s"
  by (induction s rule: hex4.induct) (auto split: option.splits)

function unquote :: "string \<Rightarrow> (string \<times> string) option" where
  "unquote [] = None"
| "unquote (c # cs) =
    (if c = quote_char then Some ([], cs)
     else if c \<noteq> backslash then put_front [c] (unquote cs)
     else (case cs of [] \<Rightarrow> None
       | x # xs \<Rightarrow> if x = CHR ''u'' then (case hex4 xs of None \<Rightarrow> None | Some (n, r) \<Rightarrow> put_front (utf8_encode n) (unquote r))
           else (case simple_escape x of None \<Rightarrow> None | Some y \<Rightarrow> put_front [y] (unquote xs))))"
  by pat_completeness auto
termination
  by (relation "measure length") (auto dest: hex4_shorter)

declare unquote.simps [simp del]

lemma unquote_plain: "\<forall>c \<in> set p. c \<noteq> quote_char \<and> c \<noteq> backslash \<Longrightarrow> unquote (p @ s) = put_front p (unquote s)"
proof (induction p)
  case (Cons c p)
  then show ?case by (simp add: unquote.simps option.map_comp comp_def split_beta)
qed (simp add: split_beta option.map_id0 id_def [symmetric])

lemma unquote_unicode: "n < 0x10000 \<Longrightarrow> unquote (unicode_escape n @ s) = put_front (utf8_encode n) (unquote s)"
proof -
  assume "n < 0x10000"
  have nibble: "16 * (k div 16) + k mod 16 = k" for k :: nat by simp
  have top: "n div 16 div 16 = n div 256" "n div 256 div 16 = n div 4096" "n div 4096 mod 16 = n div 4096"
    using \<open>n < 0x10000\<close> by (simp_all add: div_mult2_eq [symmetric] less_mult_imp_div_less)
  then have "4096 * (n div 4096 mod 16) + 256 * (n div 256 mod 16) + 16 * (n div 16 mod 16) + n mod 16 = n"
    using nibble [of n] nibble [of "n div 16"] nibble [of "n div 256"] by linarith
  moreover have "n div 4096 < 16" using \<open>n < 0x10000\<close> by (simp add: less_mult_imp_div_less)
  ultimately have h: "hex4 (drop 2 (unicode_escape n) @ s) = Some (n, s)" by (simp add: unicode_escape_def top(3))
  have "unicode_escape n = backslash # CHR ''u'' # drop 2 (unicode_escape n)" by (simp add: unicode_escape_def)
  then have "unquote (unicode_escape n @ s) = unquote (backslash # CHR ''u'' # (drop 2 (unicode_escape n) @ s))"
    by (metis append_Cons)
  then show ?thesis by (simp add: unquote.simps h)
qed

lemma unquote_ascii:
  assumes "of_char c < (0x80 :: nat)"
  shows "unquote (escape_ascii c @ s) = put_front [c] (unquote s)"
proof -
  have c: "c = char_of (of_char c :: nat)" by simp
  show ?thesis
  proof (cases "of_char c < (0x20 :: nat) \<or> c \<in> set ''<>&''")
    case True
    have "utf8_encode (of_char c) = [c]" using assms by (simp add: utf8_encode_def)
    then have u: "unquote (unicode_escape (of_char c) @ s) = put_front [c] (unquote s)"
      using unquote_unicode [of "of_char c" s] assms by simp
    have ctl: "char_of (8 :: nat) = CHR 0x08" "char_of (12 :: nat) = CHR 0x0C" "char_of (10 :: nat) = CHR 0x0A"
        "char_of (13 :: nat) = CHR 0x0D" "char_of (9 :: nat) = CHR 0x09" by code_simp+
    have "c = CHR 0x08" if "(of_char c :: nat) = 8" using c that by (simp add: ctl)
    moreover have "c = CHR 0x0C" if "(of_char c :: nat) = 12" using c that by (simp add: ctl)
    moreover have "c = CHR 0x0A" if "(of_char c :: nat) = 10" using c that by (simp add: ctl)
    moreover have "c = CHR 0x0D" if "(of_char c :: nat) = 13" using c that by (simp add: ctl)
    moreover have "c = CHR 0x09" if "(of_char c :: nat) = 9" using c that by (simp add: ctl)
    ultimately show ?thesis using True u
      by (auto simp: escape_ascii_def Let_def unquote.simps simple_escape_def)
  next
    case False
    then show ?thesis by (auto simp: escape_ascii_def Let_def unquote.simps simple_escape_def)
  qed
qed

lemma unquote_escape: "unquote (escape_string s @ quote_char # r) = Some (to_utf8 s, r)"
proof (induction s rule: escape_string.induct)
  case 1
  then show ?case by (simp add: escape_string.simps to_utf8.simps unquote.simps)
next
  case (2 c cs)
  show ?case
  proof (cases "of_char c < (0x80 :: nat)")
    case True
    then show ?thesis using 2(1) unquote_ascii [OF True] by (simp add: escape_string.simps to_utf8.simps)
  next
    case high: False
    let ?n = "utf8_width (c # cs)"
    show ?thesis
    proof (cases "?n = 0")
      case True
      have "utf8_encode 0xFFFD = replacement" by code_simp
      then show ?thesis using high True 2(2) unquote_unicode [of "0xFFFD"]
        by (simp add: escape_string.simps to_utf8.simps)
    next
      case False
      let ?p = "take ?n (c # cs)"
      have rest: "unquote (escape_string (drop ?n (c # cs)) @ quote_char # r) = Some (to_utf8 (drop ?n (c # cs)), r)"
        using 2(3) high False by simp
      have plain: "\<forall>d \<in> set ?p. d \<noteq> quote_char \<and> d \<noteq> backslash"
        using utf8_width_high [OF refl, of _ "c # cs"] by force
      have sep: "unquote (unicode_escape code @ t) = put_front ?p (unquote t)" if "map_of line_separators ?p = Some code" for code t
      proof -
        have "char_of (226 :: nat) = CHR 0xE2" "char_of (128 :: nat) = CHR 0x80" "char_of (168 :: nat) = CHR 0xA8"
            "char_of (169 :: nat) = CHR 0xA9" by code_simp+
        then have "code < 0x10000 \<and> utf8_encode code = ?p" using that
          by (auto simp: line_separators_def utf8_encode_def split: if_splits)
        then show ?thesis using unquote_unicode [of code t] by simp
      qed
      show ?thesis using high False rest unquote_plain [OF plain] sep
        by (cases "map_of line_separators ?p") (simp_all add: escape_string.simps to_utf8.simps Let_def)
    qed
  qed
qed

section \<open>Values\<close>

definition decimal :: "char \<Rightarrow> bool" where
  "decimal c \<longleftrightarrow> (48 :: nat) \<le> of_char c \<and> of_char c \<le> (57 :: nat)"

definition read_int :: "string \<Rightarrow> (json \<times> string) option" where
  "read_int s = (let negative = (take 1 s = ''-''); t = (if negative then drop 1 s else s); ds = takeWhile decimal t in
     if ds = [] then None
     else map_option (\<lambda>n. (JInt (if negative then - int n else int n), drop (length ds) t)) (undigits 10 ds))"

text \<open>Values, the elements of an array after its first bracket or a comma, and the members of an object; a
  level of nesting or a further element takes one unit of the first argument.\<close>

fun read_value :: "nat \<Rightarrow> string \<Rightarrow> (json \<times> string) option"
  and read_items :: "nat \<Rightarrow> string \<Rightarrow> (json list \<times> string) option"
  and read_members :: "nat \<Rightarrow> string \<Rightarrow> ((string \<times> json) list \<times> string) option" where
  "read_value (Suc n) (c # cs) =
    (if c = CHR ''-'' \<or> decimal c then read_int (c # cs)
     else if c = quote_char then map_option (\<lambda>(s, t). (JStr s, t)) (unquote cs)
     else if c = CHR ''['' then
       (if take 1 cs = '']'' then Some (JArr [], drop 1 cs) else map_option (\<lambda>(js, t). (JArr js, t)) (read_items n cs))
     else if c = CHR ''{'' then
       (if take 1 cs = ''}'' then Some (JObj [], drop 1 cs) else map_option (\<lambda>(kvs, t). (JObj kvs, t)) (read_members n cs))
     else if take 4 (c # cs) = ''null'' then Some (JNull, drop 4 (c # cs))
     else if take 4 (c # cs) = ''true'' then Some (JBool True, drop 4 (c # cs))
     else if take 5 (c # cs) = ''false'' then Some (JBool False, drop 5 (c # cs))
     else None)"
| "read_value _ _ = None"
| "read_items (Suc n) s = (case read_value n s of None \<Rightarrow> None
     | Some (j, t) \<Rightarrow> if take 1 t = '','' then map_option (\<lambda>(js, u). (j # js, u)) (read_items n (drop 1 t))
         else if take 1 t = '']'' then Some ([j], drop 1 t) else None)"
| "read_items 0 s = None"
| "read_members (Suc n) s = (if take 1 s \<noteq> [quote_char] then None else
     (case unquote (drop 1 s) of None \<Rightarrow> None
      | Some (k, r) \<Rightarrow> if take 1 r \<noteq> '':'' then None else
         (case read_value n (drop 1 r) of None \<Rightarrow> None
          | Some (j, t) \<Rightarrow> if take 1 t = '','' then map_option (\<lambda>(kvs, u). ((k, j) # kvs, u)) (read_members n (drop 1 t))
              else if take 1 t = ''}'' then Some ([(k, j)], drop 1 t) else None)))"
| "read_members 0 s = None"

text \<open>A text is one value; its length bounds the nesting.\<close>

definition read_json :: "string \<Rightarrow> json option" where
  "read_json s = (case read_value (length s) s of Some (j, []) \<Rightarrow> Some j | _ \<Rightarrow> None)"

section \<open>The round trip\<close>

primrec json_utf8 :: "json \<Rightarrow> json" where
  "json_utf8 JNull = JNull"
| "json_utf8 (JBool b) = JBool b"
| "json_utf8 (JInt i) = JInt i"
| "json_utf8 (JStr s) = JStr (to_utf8 s)"
| "json_utf8 (JArr js) = JArr (map json_utf8 js)"
| "json_utf8 (JObj kvs) = JObj (map (\<lambda>(k, v). (to_utf8 k, v)) (map (map_prod id json_utf8) kvs))"

lemma digit_decimal: "d < 10 \<Longrightarrow> decimal (digit d)"
  by (simp add: decimal_def digit_def)

lemma digits_are_decimal: "\<forall>c \<in> set (digits 10 n). decimal c"
proof (induction n rule: less_induct)
  case (less n)
  have "\<not> n < 10 \<Longrightarrow> \<forall>c \<in> set (digits 10 (n div 10)). decimal c" using less [of "n div 10"] by simp
  then show ?case using digit_decimal by (subst digits.simps) auto
qed

definition open_end :: "string \<Rightarrow> bool" where
  "open_end r \<longleftrightarrow> (case r of [] \<Rightarrow> True | c # _ \<Rightarrow> \<not> decimal c)"

lemma read_digits:
  "open_end r \<Longrightarrow> takeWhile decimal (digits 10 n @ r) = digits 10 n"
  using digits_are_decimal [of n] by (cases r) (simp_all add: open_end_def takeWhile_append2)

lemma read_itoa:
  assumes "open_end r"
  shows "read_int (itoa i @ r) = Some (JInt i, r)"
proof (cases "i < 0")
  case True
  then show ?thesis using read_digits [OF assms]
    by (simp add: read_int_def itoa_def undigits_digits Let_def)
next
  case False
  let ?ds = "digits 10 (nat i)"
  obtain c cs where d: "?ds = c # cs" by (cases ?ds) simp_all
  then have "c \<noteq> CHR ''-''" using digits_are_decimal [of "nat i"] by (auto simp: decimal_def)
  then have "take 1 (?ds @ r) \<noteq> ''-''" by (simp add: d)
  then have "read_int (?ds @ r) = Some (JInt (int (nat i)), r)"
    unfolding read_int_def Let_def by (simp add: read_digits [OF assms] undigits_digits)
  then show ?thesis using False by (simp add: itoa_def)
qed

lemma itoa_start: "\<exists>c cs. itoa i = c # cs \<and> (c = CHR ''-'' \<or> decimal c)"
proof -
  obtain c cs where "digits 10 (nat i) = c # cs" by (cases "digits 10 (nat i)") simp_all
  then show ?thesis using digits_are_decimal [of "nat i"] by (auto simp: itoa_def)
qed

text \<open>A value does not begin like the end of the array around it.\<close>

lemma encode_start: "take 1 (encode_json j @ r) \<noteq> '']'' \<and> take 1 (encode_json j @ r) \<noteq> ''}''"
proof (cases j)
  case (JInt i)
  then show ?thesis using itoa_start [of i] by (auto simp: decimal_def)
qed (simp_all add: encode_string_def)

lemma open_end_simps [simp]: "open_end []" "open_end (CHR '','' # s)" "open_end (CHR '']'' # s)" "open_end (CHR ''}'' # s)"
  by (simp_all add: open_end_def decimal_def)

text \<open>The text between the brackets, and what the reader makes of it.\<close>

abbreviation items_text :: "json list \<Rightarrow> string" where
  "items_text js \<equiv> join_strings '','' (map encode_json js)"

abbreviation members_text :: "(string \<times> json) list \<Rightarrow> string" where
  "members_text kvs \<equiv> join_strings '','' (map (\<lambda>(k, v). encode_string k @ '':'' @ encode_json v) kvs)"

definition read_back :: "json \<Rightarrow> bool" where
  "read_back j \<longleftrightarrow> (\<forall>n r. length (encode_json j) \<le> n \<and> open_end r \<longrightarrow> read_value n (encode_json j @ r) = Some (json_utf8 j, r))"

lemma read_items_text:
  "\<forall>j \<in> set js. read_back j \<Longrightarrow> js \<noteq> [] \<Longrightarrow> length (items_text js) < n \<Longrightarrow>
     read_items n (items_text js @ CHR '']'' # r) = Some (map json_utf8 js, r)"
proof (induction js arbitrary: n rule: induct_list012)
  case (2 j)
  then obtain m where m: "n = Suc m" by (cases n) auto
  have "read_value m (encode_json j @ CHR '']'' # r) = Some (json_utf8 j, CHR '']'' # r)"
    using 2(1,3) by (simp add: read_back_def m)
  then show ?case by (simp add: m)
next
  case (3 j k js)
  then obtain m where m: "n = Suc m" by (cases n) auto
  let ?t = "items_text (k # js) @ CHR '']'' # r"
  have whole: "items_text (j # k # js) @ CHR '']'' # r = encode_json j @ CHR '','' # ?t" by simp
  have len: "length (encode_json j) \<le> m" "length (items_text (k # js)) < m" using 3(5) by (simp_all add: m)
  have "read_value m (encode_json j @ CHR '','' # ?t) = Some (json_utf8 j, CHR '','' # ?t)"
    using 3(3) len(1) by (simp add: read_back_def)
  moreover have "read_items m ?t = Some (map json_utf8 (k # js), r)" using 3(2) [OF _ _ len(2)] 3(3) by simp
  ultimately show ?case unfolding whole by (simp add: m)
qed simp

lemma read_members_text:
  "\<forall>v \<in> snd ` set kvs. read_back v \<Longrightarrow> kvs \<noteq> [] \<Longrightarrow> length (members_text kvs) < n \<Longrightarrow>
     read_members n (members_text kvs @ CHR ''}'' # r) = Some (map (\<lambda>(k, v). (to_utf8 k, json_utf8 v)) kvs, r)"
proof (induction kvs arbitrary: n rule: induct_list012)
  case (2 kv)
  obtain k v where kv: "kv = (k, v)" by (cases kv)
  obtain m where m: "n = Suc m" using 2(3) by (cases n) auto
  have "read_value m (encode_json v @ CHR ''}'' # r) = Some (json_utf8 v, CHR ''}'' # r)"
    using 2(1,3) by (simp add: read_back_def m kv)
  then show ?case by (simp add: m kv encode_string_def unquote_escape)
next
  case (3 kv kw kvs)
  obtain k v where kv: "kv = (k, v)" by (cases kv)
  obtain m where m: "n = Suc m" using 3(5) by (cases n) auto
  let ?t = "members_text (kw # kvs) @ CHR ''}'' # r"
  have whole: "members_text (kv # kw # kvs) @ CHR ''}'' # r = encode_string k @ CHR '':'' # encode_json v @ CHR '','' # ?t"
    by (simp add: kv)
  have len: "length (encode_json v) \<le> m" "length (members_text (kw # kvs)) < m" using 3(5) by (simp_all add: m kv)
  have "read_value m (encode_json v @ CHR '','' # ?t) = Some (json_utf8 v, CHR '','' # ?t)"
    using 3(3) len(1) by (simp add: read_back_def kv)
  moreover have "read_members m ?t = Some (map (\<lambda>(k, v). (to_utf8 k, json_utf8 v)) (kw # kvs), r)"
    using 3(2) [OF _ _ len(2)] 3(3) by simp
  ultimately show ?case unfolding whole by (simp add: m kv encode_string_def unquote_escape del: list.map)
      (simp only: list.map prod.case)
qed simp

lemma read_value_encode: "read_back j"
proof (induction j)
  case (JInt i)
  obtain c cs where c: "itoa i = c # cs" "c = CHR ''-'' \<or> decimal c" using itoa_start by blast
  have "read_value n (itoa i @ r) = Some (JInt i, r)" if "length (itoa i) \<le> n" "open_end r" for n r
    using read_itoa [OF that(2), of i] that(1) c by (cases n) simp_all
  then show ?case by (simp add: read_back_def)
next
  case (JStr s)
  have "read_value n (encode_string s @ r) = Some (JStr (to_utf8 s), r)" if "length (encode_string s) \<le> n" for n r
    using that by (cases n) (simp_all add: encode_string_def unquote_escape decimal_def)
  then show ?case by (simp add: read_back_def)
next
  case (JArr js)
  have "read_value n (encode_json (JArr js) @ r) = Some (json_utf8 (JArr js), r)" if n: "length (encode_json (JArr js)) \<le> n" for n r
  proof (cases "js = []")
    case True
    then show ?thesis using n by (cases n) (simp_all add: decimal_def)
  next
    case False
    obtain m where m: "n = Suc m" "length (items_text js) < m" using n by (cases n) auto
    have "items_text js = encode_json (hd js) @ drop (length (encode_json (hd js))) (items_text js)"
      using False by (cases js; cases "tl js") simp_all
    then have "take 1 (items_text js @ CHR '']'' # r) \<noteq> '']''" using encode_start(1) by (metis append_assoc)
    then show ?thesis using read_items_text [of js m r] JArr False m by (simp add: decimal_def)
  qed
  then show ?case by (simp add: read_back_def)
next
  case (JObj kvs)
  have sub: "\<forall>v \<in> snd ` set kvs. read_back v" using JObj by fastforce
  have "read_value n (encode_json (JObj kvs) @ r) = Some (json_utf8 (JObj kvs), r)" if n: "length (encode_json (JObj kvs)) \<le> n" for n r
  proof (cases "kvs = []")
    case True
    then show ?thesis using n by (cases n) (simp_all add: decimal_def)
  next
    case False
    obtain m where m: "n = Suc m" "length (members_text kvs) < m" using n by (cases n) auto
    have "take 1 (members_text kvs @ CHR ''}'' # r) \<noteq> ''}''"
      using False by (cases kvs; cases "tl kvs") (auto simp: encode_string_def)
    then show ?thesis using read_members_text [OF sub False m(2), of r] m
      by (simp add: decimal_def comp_def map_prod_def split_beta)
  qed
  then show ?case by (simp add: read_back_def)
next
  case JNull
  have "read_value n (''null'' @ r) = Some (JNull, r)" if "4 \<le> n" for n r using that by (cases n) (simp_all add: decimal_def)
  then show ?case by (simp add: read_back_def)
next
  case (JBool b)
  have "read_value n (''true'' @ r) = Some (JBool True, r)" "read_value n (''false'' @ r) = Some (JBool False, r)" if "4 \<le> n" for n r
    using that by (cases n; simp add: decimal_def)+
  then show ?case by (auto simp: read_back_def)
qed

text \<open>What was encoded is read back.\<close>

theorem read_json_encode: "read_json (encode_json j) = Some (json_utf8 j)"
proof -
  have "read_value (length (encode_json j)) (encode_json j @ []) = Some (json_utf8 j, [])"
    using read_value_encode [of j] unfolding read_back_def by (metis order_refl open_end_simps(1))
  then show ?thesis by (simp add: read_json_def)
qed

end
