(* ===== verification/Events_Spec.thy ===== *)
theory Events_Spec
  imports Events Json_Read
begin

text \<open>
  What a line of the event log says to a reader (\<open>internal/evidence/jsonl.go\<close>, theory Events): the fields
  that a JSON reader (theory Json_Read) finds in the encoding of an event, under the names of the
  struct tags, and which of them the bound on an encoded event can never remove.
\<close>

section \<open>The fields of an encoded event\<close>

text \<open>How \<open>json.Unmarshal\<close> fills a field of the given name: a member that is missing leaves the zero value.\<close>

definition text_field :: "(string \<times> json) list \<Rightarrow> string \<Rightarrow> string" where
  "text_field kvs k = (case map_of kvs k of Some (JStr s) \<Rightarrow> s | _ \<Rightarrow> '''')"

definition number_field :: "(string \<times> json) list \<Rightarrow> string \<Rightarrow> int" where
  "number_field kvs k = (case map_of kvs k of Some (JInt i) \<Rightarrow> i | _ \<Rightarrow> 0)"

lemma event_keys: "distinct (map fst (event_fields e))" "distinct (map fst (exchange_fields e))"
    "\<forall>k \<in> set (map fst (event_fields e)). ascii k" "set (map fst (exchange_fields e)) \<subseteq> set (map fst (event_fields e))"
  by (simp_all add: event_fields_def exchange_fields_def ascii_def)

lemma present_keys: "set (map fst (present kvs)) \<subseteq> set (map fst kvs)"
  by (auto simp: present_def split: option.splits) force

lemma present_distinct: "distinct (map fst kvs) \<Longrightarrow> distinct (map fst (present kvs))"
proof (induction kvs)
  case (Cons kv kvs)
  have "present (kv # kvs) = (case snd kv of None \<Rightarrow> [] | Some j \<Rightarrow> [(fst kv, j)]) @ present kvs"
    by (simp add: present_def split_beta)
  then show ?case using Cons present_keys [of kvs] by (auto split: option.split)
qed (simp add: present_def)

lemma map_of_present:
  "distinct (map fst kvs) \<Longrightarrow> map_of (present kvs) k = (case map_of kvs k of Some v \<Rightarrow> v | None \<Rightarrow> None)"
proof (induction kvs)
  case (Cons kv kvs)
  have p: "present (kv # kvs) = (case snd kv of None \<Rightarrow> [] | Some j \<Rightarrow> [(fst kv, j)]) @ present kvs"
    by (simp add: present_def split_beta)
  have "map_of (present kvs) (fst kv) = None"
    using Cons.prems present_keys [of kvs] by (auto simp: map_of_eq_None_iff)
  then show ?case using Cons unfolding p by (auto simp: map_add_def split: option.splits)
qed (simp add: present_def)

lemma map_of_filter_key: "map_of (filter (\<lambda>(k, v). P k) kvs) k = (if P k then map_of kvs k else None)"
  by (induction kvs) auto

definition members :: "event \<Rightarrow> (string \<times> json) list" where
  "members e = (case event_json e of JObj kvs \<Rightarrow> kvs | _ \<Rightarrow> [])"

lemma event_json_members: "event_json e = JObj (members e)"
  by (simp add: members_def event_json_def)

lemma members_keys: "distinct (map fst (members e))" "\<forall>k \<in> set (map fst (members e)). ascii k"
proof -
  let ?ex = "set (map fst (exchange_fields e))"
  let ?own = "filter (\<lambda>(k, v). k \<notin> ?ex) (event_fields e)"
  have "distinct (map fst ?own)" using event_keys(1) [of e] by (rule distinct_map_filter)
  moreover have "set (map fst ?own) \<inter> ?ex = {}" by force
  moreover have "members e = (if evEventType e \<noteq> ''exchange'' then present (event_fields e) else present ?own @ exchange_fields e)"
    by (simp add: members_def event_json_def)
  moreover have "set (map fst (present ?own)) \<subseteq> set (map fst ?own)" "set (map fst ?own) \<subseteq> set (map fst (event_fields e))"
      "set (map fst (present (event_fields e))) \<subseteq> set (map fst (event_fields e))"
    by (rule present_keys, auto intro: subsetD [OF present_keys [unfolded set_map]])
  ultimately show "distinct (map fst (members e))" "\<forall>k \<in> set (map fst (members e)). ascii k"
    using event_keys [of e] present_distinct [of ?own] present_distinct [of "event_fields e"] by (auto simp del: set_map)
qed

lemma members_field:
  "map_of (members e) k =
    (if evEventType e = ''exchange'' \<and> map_of (exchange_fields e) k \<noteq> None then map_of (exchange_fields e) k
     else (case map_of (event_fields e) k of Some v \<Rightarrow> v | None \<Rightarrow> None))"
proof -
  let ?own = "filter (\<lambda>(k, v). k \<notin> set (map fst (exchange_fields e))) (event_fields e)"
  have "distinct (map fst ?own)" using event_keys(1) [of e] by (rule distinct_map_filter)
  then have "map_of (present ?own) k
      = (if k \<in> set (map fst (exchange_fields e)) then None else (case map_of (event_fields e) k of Some v \<Rightarrow> v | None \<Rightarrow> None))"
    by (simp add: map_of_present map_of_filter_key [of "\<lambda>k. k \<notin> fst ` set (exchange_fields e)"])
  moreover have "map_of (exchange_fields e) k = None \<longleftrightarrow> k \<notin> set (map fst (exchange_fields e))"
    by (simp add: map_of_eq_None_iff)
  ultimately show ?thesis using map_of_present [OF event_keys(1) [of e]]
    by (auto simp: members_def event_json_def map_add_def split: option.split)
qed

text \<open>What the reader finds in an encoded event.\<close>

lemma read_event:
  "\<exists>kvs. read_json (MarshalJSON e) = Some (JObj kvs) \<and> distinct (map fst kvs)
    \<and> (\<forall>k. map_of kvs k = map_option json_utf8 (map_of (members e) k))"
proof -
  let ?f = "\<lambda>(k, v). (to_utf8 k, json_utf8 v)"
  have "read_json (MarshalJSON e) = Some (JObj (map ?f (members e)))"
    by (simp add: MarshalJSON_def event_json_members read_json_encode comp_def map_prod_def split_beta del: encode_json.simps)
  moreover have "map ?f (members e) = map (map_prod id json_utf8) (members e)"
    using members_keys(2) [of e] by (auto simp: to_utf8_ascii)
  moreover have "map fst (map (map_prod id json_utf8) (members e)) = map fst (members e)" by simp
  moreover have "map_of (map (map_prod id json_utf8) kvs) k = map_option json_utf8 (map_of kvs k)" for kvs k
    by (induction kvs) auto
  ultimately show ?thesis using members_keys(1) [of e] by metis
qed

section \<open>What a bounded encoding keeps\<close>

lemma read_members:
  assumes "\<forall>k. map_of kvs k = map_option json_utf8 (map_of (members e) k)"
  shows "number_field kvs ''event_schema_version'' = evEventSchemaVersion e"
    and "text_field kvs ''event_type'' = to_utf8 (evEventType e)"
    and "number_field kvs ''timestamp_ns'' = evTimestampNS e"
    and "text_field kvs ''sensor_id'' = to_utf8 (evSensorID e)"
    and "text_field kvs ''run_session_id'' = to_utf8 (evRunSessionID e)"
    and "number_field kvs ''config_schema_version'' = evConfigSchemaVersion e"
    and "text_field kvs ''config_sha256'' = to_utf8 (evConfigSHA256 e)"
    and "text_field kvs ''service_id'' = to_utf8 (evServiceID e)"
    and "text_field kvs ''connection_id'' = to_utf8 (evConnectionID e)"
    and "text_field kvs ''request_id'' = to_utf8 (evRequestID e)"
    and "evMetadataTruncated e \<Longrightarrow> map_of kvs ''metadata_truncated'' = Some (JBool True)"
  by (simp_all add: text_field_def number_field_def assms members_field event_fields_def exchange_fields_def
      omit_string_def omit_bool_def to_utf8.simps)

lemma read_exchange:
  assumes "\<forall>k. map_of kvs k = map_option json_utf8 (map_of (members e) k)" and "evEventType e = ''exchange''"
  shows "map_of kvs ''request_stream_start'' = Some (JInt (evRequestStreamStart e))"
    and "map_of kvs ''request_stream_length'' = Some (JInt (evRequestStreamLength e))"
    and "map_of kvs ''request_complete'' = Some (JBool (evRequestComplete e))"
    and "map_of kvs ''response_stream_start'' = Some (JInt (evResponseStreamStart e))"
    and "map_of kvs ''response_stream_length'' = Some (JInt (evResponseStreamLength e))"
    and "map_of kvs ''response_sha256'' = Some (JStr (to_utf8 (evResponseSHA256 e)))"
    and "map_of kvs ''response_complete'' = Some (JBool (evResponseComplete e))"
  by (simp_all add: assms members_field exchange_fields_def)

text \<open>C38: Whatever a remote party sends, the encoding of an event fits the operator's bound, is one line, and
  is a JSON object in which a reader still finds, under their names, the schema versions, the type, the
  time, the sensor, the run, the configuration, the service, the connection and the request of the event;
  for an exchange also, present even when zero, the two stream ranges, the digest of the response and
  whether the two were complete. When anything was left out the object says so.\<close>

lemma boundedEventJSON_keeps:
  assumes "boundedEventJSON e m = Inr b"
  shows "int (length b) \<le> m \<and> CHR 0x0A \<notin> set b
    \<and> (\<exists>kvs. read_json b = Some (JObj kvs) \<and> distinct (map fst kvs)
         \<and> number_field kvs ''event_schema_version'' = evEventSchemaVersion e
         \<and> text_field kvs ''event_type'' = to_utf8 (evEventType e)
         \<and> number_field kvs ''timestamp_ns'' = evTimestampNS e
         \<and> text_field kvs ''sensor_id'' = to_utf8 (evSensorID e)
         \<and> text_field kvs ''run_session_id'' = to_utf8 (evRunSessionID e)
         \<and> number_field kvs ''config_schema_version'' = evConfigSchemaVersion e
         \<and> text_field kvs ''config_sha256'' = to_utf8 (evConfigSHA256 e)
         \<and> text_field kvs ''service_id'' = to_utf8 (evServiceID e)
         \<and> text_field kvs ''connection_id'' = to_utf8 (evConnectionID e)
         \<and> text_field kvs ''request_id'' = to_utf8 (evRequestID e)
         \<and> (evEventType e = ''exchange'' \<longrightarrow>
              map_of kvs ''request_stream_start'' = Some (JInt (evRequestStreamStart e))
              \<and> map_of kvs ''request_stream_length'' = Some (JInt (evRequestStreamLength e))
              \<and> map_of kvs ''request_complete'' = Some (JBool (evRequestComplete e))
              \<and> map_of kvs ''response_stream_start'' = Some (JInt (evResponseStreamStart e))
              \<and> map_of kvs ''response_stream_length'' = Some (JInt (evResponseStreamLength e))
              \<and> map_of kvs ''response_sha256'' = Some (JStr (to_utf8 (evResponseSHA256 e)))
              \<and> map_of kvs ''response_complete'' = Some (JBool (evResponseComplete e)))
         \<and> (b = MarshalJSON e \<or> map_of kvs ''metadata_truncated'' = Some (JBool True)))"
proof -
  obtain e' where e': "int (length b) \<le> m" "b = MarshalJSON e'" "e' = e \<or> same_identity (e\<lparr>evMetadataTruncated := True\<rparr>) e'"
    using bounded_identity [OF assms] by (elim conjE exE) (rule that)
  have same: "correlation e' = correlation e" "evEventType e = ''exchange'' \<Longrightarrow> stream_ranges e' = stream_ranges e"
      "b \<noteq> MarshalJSON e \<Longrightarrow> evMetadataTruncated e'"
    using e'(2,3) by (auto simp: identity_defs)
  have line: "CHR 0x0A \<notin> set b" using MarshalJSON_printable [of e'] by (auto simp: e'(2) printable_def)
  obtain kvs where r: "read_json b = Some (JObj kvs)" "distinct (map fst kvs)"
      and k: "\<forall>k. map_of kvs k = map_option json_utf8 (map_of (members e') k)"
    using read_event [of e'] by (auto simp: e'(2))
  have ty: "evEventType e' = evEventType e" using same(1) by (simp add: correlation_def)
  show ?thesis using e'(1) line r read_members [OF k] read_exchange [OF k] same ty
    by (intro conjI exI [of _ kvs]) (auto simp: correlation_def stream_ranges_def)
qed

definition long_exchange :: event where
  "long_exchange = no_event\<lparr>evEventSchemaVersion := 1, evEventType := ''exchange'', evTimestampNS := 5,
     evSensorID := ''s'', evConnectionID := ''c'', evRequestStreamLength := 7, evResponseSHA256 := ''ab'',
     evSanitizedHeaders := Some [\<lparr>hmName = ''A'', hmPresent = True, hmScheme = '''', hmLength = 30, hmSHA256 = ''00'',
       hmValue = replicate 20 (CHR 0x0A), hmTruncated = False\<rparr>]\<rparr>"

lemma boundedEventJSON_keeps_witness:
  "\<exists>b kvs. boundedEventJSON long_exchange 670 = Inr b \<and> b \<noteq> MarshalJSON long_exchange \<and> read_json b = Some (JObj kvs)
     \<and> text_field kvs ''sensor_id'' = ''s'' \<and> text_field kvs ''connection_id'' = ''c''
     \<and> map_of kvs ''request_stream_length'' = Some (JInt 7) \<and> map_of kvs ''response_sha256'' = Some (JStr ''ab'')
     \<and> map_of kvs ''metadata_truncated'' = Some (JBool True)"
proof -
  have big: "int (length (MarshalJSON long_exchange)) > 670" by code_simp
  have "\<not> isl (boundedEventJSON long_exchange 670)" by code_simp
  then obtain b where b: "boundedEventJSON long_exchange 670 = Inr b" by (cases "boundedEventJSON long_exchange 670") auto
  have ne: "b \<noteq> MarshalJSON long_exchange" using boundedEventJSON_keeps [OF b] big by auto
  have v: "evEventType long_exchange = ''exchange''" "to_utf8 (evSensorID long_exchange) = ''s''"
      "to_utf8 (evConnectionID long_exchange) = ''c''" "evRequestStreamLength long_exchange = 7"
      "to_utf8 (evResponseSHA256 long_exchange) = ''ab''" by code_simp+
  show ?thesis using boundedEventJSON_keeps [OF b] b ne v by auto
qed

end
