(* ===== verification/Response_Spec.thy ===== *)
theory Response_Spec
  imports Conn_Spec
begin

text \<open>
  What \<open>response.Write\<close> (\<open>internal/response/response.go\<close>, theory Response) puts on the wire through
  the writer of a connection (\<open>exchangeWriter\<close> of \<open>internal/engine/connection.go\<close>, theory Exchange): the
  interpretation \<open>response\<close> of theory Triples carries the lemmas of the locale \<open>destination\<close> to it.
\<close>

section \<open>A connection on which nothing fails\<close>

text \<open>A connection, a disk and a clock on which nothing fails, with room for \<open>k\<close> more bytes.\<close>

definition quiet_wire :: "nat \<Rightarrow> world \<Rightarrow> bool" where
  "quiet_wire k w \<longleftrightarrow> calm (wHost w) \<and> ncWrites (wConn w) = [] \<and> ncDeadlines (wConn w) = [] \<and> ncSelects (wConn w) = []
     \<and> length (xwConnectionID (wWriter w)) = 16 \<and> length (xwRequestID (wWriter w)) = 16
     \<and> int k \<le> out_room w \<and> bwj_live k (the_journal w)"

lemma quiet_write:
  assumes Q: "quiet_wire (length p + k) w" and p: "p \<noteq> []" and op: "exchangeWriter_Write w p = ((n, e), w')"
  shows "n = length p \<and> e = None \<and> quiet_wire k w'"
proof -
  let ?x = "wWriter w"
  obtain t h1 where now: "now (wHost w) = (t, h1)" by (metis surj_pair)
  have h1: "calm h1" "files h1 = files (wHost w)" using Q calm_now [OF now] host_files(1) [OF now] by (simp_all add: quiet_wire_def)
  let ?c = "(wConn w)\<lparr>ncDeadlines := []\<rparr>" let ?w1 = "w\<lparr>wHost := h1, wConn := ?c\<rparr>"
  have b: "run_state (before_write ?x) w = (None, ?w1)" using Q now
    by (simp add: before_write_def on_host_def on_conn_def set_deadline_def quiet_wire_def)
  have fits: "int (length p + k) \<le> out_room w" using Q by (simp add: quiet_wire_def)
  moreover have "0 < length p" using p by simp
  ultimately have pos: "0 < out_room w" by linarith
  have cut: "out_cut (out_room w) p = p" using fits by (simp add: out_cut_def)
  let ?w2 = "?w1\<lparr>wConn := ?c\<lparr>ncWrites := [], ncSent := ncSent ?c @ p\<rparr>\<rparr>"
  have wr: "run_state (on_conn (conn_Write p)) ?w1 = ((length p, None), ?w2)" using Q
    by (simp add: on_conn_def conn_Write_def quiet_wire_def)
  obtain err w3 where rec: "run_state (record_out p) ?w2 = (err, w3)" by (metis surj_pair)
  have rec': "run_state (bwj_op (WriteData (xwConnectionID ?x) (xwRequestID ?x) DirectionOutbound
      (if xwStreaming ?x then FlagStreaming else 0) p)) ?w2 = (err, w3)" using rec by (simp add: record_out_def)
  have live: "bwj_live (length p + k) (the_journal ?w2)" and ids: "length (xwConnectionID ?x) = 16" "length (xwRequestID ?x) = 16"
    using Q bwj_live_files [OF h1(2)] by (simp_all add: quiet_wire_def)
  have ok: "err = None" "calm (wHost w3)"
    using data_calm [OF _ live ids _ _ rec'] h1(1) by simp_all
  obtain b h where w3: "WriteData (xwConnectionID ?x) (xwRequestID ?x) DirectionOutbound
      (if xwStreaming ?x then FlagStreaming else 0) p (rtBwj (wRt ?w2)) (wHost ?w2) = (None, b, h)"
      "w3 = ?w2\<lparr>wRt := (wRt ?w2)\<lparr>rtBwj := b\<rparr>, wHost := h\<rparr>"
    using bwj_op_world [OF rec'] ok(1) by blast
  have "bwj_live (length (chunks p) + k) (the_journal ?w2)" using live length_chunks [of p] by (auto simp: bwj_live_def room_def)
  then have "bwj_live k (b, h)" using WriteData_log [OF _ ids w3(1)] by blast
  then have after: "bwj_live k (the_journal w3)" by (simp add: w3(2))
  obtain w4 where c: "run_state (count_out p) w3 = ((), w4)" by (metis surj_pair old.unit.exhaust)
  have w4: "w4 = w3\<lparr>wCounters := (wCounters w3)\<lparr>bytesOut := bytesOut (wCounters w3) + int (length p)\<rparr>,
      wWriter := (wWriter w3)\<lparr>xwHasher := xwHasher (wWriter w3) @ p\<rparr>\<rparr>"
    using c by (simp add: count_out_def addOut_def)
  have "run_state (xw_rest ?x p (out_room w)) w = ((length p, None), w4)"
    using b wr rec ok(1) c p fits by (simp add: xw_rest_def cut write_outcome_def)
  moreover have "run_state (xw_Write p) w = run_state (xw_rest ?x p (out_room w)) w" using pos
    by (simp add: xw_Write_rest remaining_def) (simp add: out_room_def)
  ultimately have "n = length p" "e = None" "w' = w4" using op by (simp_all add: exchangeWriter_Write_def)
  moreover have "quiet_wire k w4" using Q ok(2) after fits ids
    by (simp add: quiet_wire_def w4) (simp add: w3(2) out_room_def)
  ultimately show ?thesis by simp
qed

lemma quiet_select: "quiet_wire k w \<Longrightarrow> exchange_select d w = (e, w') \<Longrightarrow> e = None \<and> quiet_wire k w'"
  by (auto simp: quiet_wire_def exchange_select_def on_conn_def select_wait_def out_room_def)

lemma quiet_lossless: "lossless exchangeWriter_Write exchange_select quiet_wire"
  unfolding lossless_def using quiet_write quiet_select by blast

definition writing_world :: world where
  "writing_world = a_world\<lparr>wWriter := \<lparr>xwConnectionID = replicate 16 1, xwRequestID = replicate 16 2, xwMaxConnBytes = 1000,
     xwWriteTimeout = 1, xwLifetimeEnd = 100, xwStreaming = True, xwHasher = []\<rparr>\<rparr>"

lemma writing_world_quiet: "k \<le> 1000 \<Longrightarrow> quiet_wire k writing_world" "wire writing_world = []"
  using opened_live [of k] a_world_calm(1)
  by (simp_all add: quiet_wire_def writing_world_def a_world_def a_conn_def out_room_def)

lemma writing_world_writes:
  assumes "responseHeaders 1 1 ''GET'' (effective plan) = Inr hs" "length (response_bytes 1 1 ''GET'' plan) \<le> 1000"
  shows "\<exists>res w'. Write exchangeWriter_Write exchange_select id 1 1 ''GET'' plan 1000 writing_world = (res, w') \<and> rError res = None"
proof -
  obtain res w' where op: "Write exchangeWriter_Write exchange_select id 1 1 ''GET'' plan 1000 writing_world = (res, w')"
    by (metis surj_pair)
  have "int (length (response_bytes 1 1 ''GET'' plan)) \<le> 1000" using assms(2) by simp
  from Write_lossless [OF quiet_lossless assms(1) this writing_world_quiet(1) [OF assms(2)], of id] op
  show ?thesis by simp
qed

section \<open>Streamed responses\<close>

text \<open>C34: A streamed response over HTTP/1.1 that \<open>Write\<close> sends without an error is, on the wire, a status line,
  the header lines with \<open>Transfer-Encoding: chunked\<close> among them, an empty line, and a body that a
  reader of the chunked coding decodes to the configured chunks put together, with nothing left over,
  when no chunk is empty; the number of bytes in the result is the number on the wire.\<close>

lemma ndjson_body_read:
  assumes "pMode plan = ''ndjson''" "\<not> no_body meth plan" "\<forall>c \<in> set (pChunks plan). cBody c \<noteq> []"
    and "Write exchangeWriter_Write exchange_select sha256 1 1 meth plan maxBytes w = (res, w')" "rError res = None"
  shows "\<exists>hs body. responseHeaders 1 1 meth plan = Inr hs \<and> ''Transfer-Encoding: chunked'' @ crlf \<in> set hs
    \<and> wire w' = wire w @ bytes_of (statusLine 1 1 (pStatus plan) @ concat hs @ crlf) @ body
    \<and> (\<forall>rest. dechunk (body @ rest) = Some (concat (map cBody (pChunks plan)), rest))
    \<and> rBytes res = int (length (wire w') - length (wire w))"
  using response.Write_stream [OF TrueI assms(4,5,1,2)] stream_read [OF assms(3)] by blast

lemma ndjson_body_read_witness:
  "\<exists>res w' hs body. Write exchangeWriter_Write exchange_select id 1 1 ''GET'' stream_plan 1000 writing_world = (res, w')
    \<and> wire w' = bytes_of (statusLine 1 1 200 @ concat hs @ crlf) @ body \<and> dechunk (body @ [7]) = Some (bytes_of ''{}[1]'', [7])"
proof -
  have m: "pMode stream_plan = ''ndjson''" "\<not> no_body ''GET'' stream_plan" "\<forall>c \<in> set (pChunks stream_plan). cBody c \<noteq> []"
    by (simp_all add: stream_plan_def no_body_def equal_fold_def to_lower_def lower_char_def bytes_of_def)
  obtain hs where hs: "responseHeaders 1 1 ''GET'' (effective stream_plan) = Inr hs"
    using stream_layout [OF m(1,2)] m(1) by (auto simp: effective_def)
  have "length (response_bytes 1 1 ''GET'' stream_plan) \<le> 1000" by code_simp
  from writing_world_writes [OF hs this] obtain res w' where
    w: "Write exchangeWriter_Write exchange_select id 1 1 ''GET'' stream_plan 1000 writing_world = (res, w')" "rError res = None" by blast
  have "pStatus stream_plan = 200" "concat (map cBody (pChunks stream_plan)) = bytes_of ''{}[1]''"
    by (simp_all add: stream_plan_def bytes_of_def)
  with ndjson_body_read [OF m w] w(1) writing_world_quiet(2) show ?thesis by auto
qed

text \<open>C35: An empty chunk in the middle of a stream ends the body for a reader of the chunked coding:
  although \<open>Write\<close> reports success, the reader gets the chunks before it only, and the chunks after
  it are left over on the connection, where the reader expects the next response.\<close>

lemma ndjson_empty_chunk_truncates:
  assumes "pMode plan = ''ndjson''" "\<not> no_body meth plan"
    and "pChunks plan = cs @ c # ds" "\<forall>c \<in> set cs. cBody c \<noteq> []" "cBody c = []"
    and "Write exchangeWriter_Write exchange_select sha256 1 1 meth plan maxBytes w = (res, w')" "rError res = None"
  shows "\<exists>hs body rest. responseHeaders 1 1 meth plan = Inr hs \<and> ''Transfer-Encoding: chunked'' @ crlf \<in> set hs
    \<and> wire w' = wire w @ bytes_of (statusLine 1 1 (pStatus plan) @ concat hs @ crlf) @ body
    \<and> dechunk body = Some (concat (map cBody cs), rest) \<and> rest \<noteq> []
    \<and> ((\<forall>d \<in> set ds. cBody d \<noteq> []) \<longrightarrow> dechunk rest = Some (concat (map cBody ds), []))"
proof -
  let ?rest = "chunked ds @ last_chunk"
  have "dechunk (chunked (pChunks plan) @ last_chunk) = Some (concat (map cBody cs), ?rest)"
    unfolding assms(3) using assms(4,5) by (rule stream_cut)
  moreover have "?rest \<noteq> []" by (simp add: bytes_of_def)
  moreover have "(\<forall>d \<in> set ds. cBody d \<noteq> []) \<longrightarrow> dechunk ?rest = Some (concat (map cBody ds), [])"
    using stream_read [of ds "[]"] by simp
  ultimately show ?thesis using response.Write_stream [OF TrueI assms(6,7,1,2)] by blast
qed

lemma ndjson_empty_chunk_truncates_witness:
  "\<exists>res w' hs body rest. Write exchangeWriter_Write exchange_select id 1 1 ''GET'' gap_plan 1000 writing_world = (res, w')
    \<and> rError res = None \<and> wire w' = bytes_of (statusLine 1 1 200 @ concat hs @ crlf) @ body
    \<and> dechunk body = Some ([1], rest) \<and> dechunk rest = Some ([2], [])"
proof -
  have m: "pMode gap_plan = ''ndjson''" "\<not> no_body ''GET'' gap_plan"
      "pChunks gap_plan = [\<lparr>cDelay = 0, cBody = [1]\<rparr>] @ \<lparr>cDelay = 0, cBody = []\<rparr> # [\<lparr>cDelay = 0, cBody = [2]\<rparr>]"
      "\<forall>c \<in> set [\<lparr>cDelay = 0, cBody = [1]\<rparr>]. cBody c \<noteq> []" "cBody \<lparr>cDelay = 0, cBody = []\<rparr> = []"
    by (simp_all add: gap_plan_def stream_plan_def no_body_def equal_fold_def to_lower_def lower_char_def)
  obtain hs where hs: "responseHeaders 1 1 ''GET'' (effective gap_plan) = Inr hs"
    using stream_layout [OF m(1,2)] m(1) by (auto simp: effective_def)
  have "length (response_bytes 1 1 ''GET'' gap_plan) \<le> 1000" by code_simp
  from writing_world_writes [OF hs this] obtain res w' where
    w: "Write exchangeWriter_Write exchange_select id 1 1 ''GET'' gap_plan 1000 writing_world = (res, w')" "rError res = None" by blast
  have "pStatus gap_plan = 200" by (simp add: gap_plan_def stream_plan_def)
  with ndjson_empty_chunk_truncates [OF m w] w writing_world_quiet(2) show ?thesis by auto
qed

end
