(* ===== verification/Spec2Isabelle.thy ===== *)
theory Spec2Isabelle
  imports Header_Merge Index_Spec Command_Spec Events_Spec Response_Spec
begin

text \<open>
  A verification library for notaihoney, a honeypot that imitates the HTTP interfaces of inference
  servers and keeps evidence of everything it receives and sends. The paths below are relative to
  \<open>src/\<close>.

  \<^bold>\<open>The program.\<close> One binary, \<open>cmd/notaihoney/main.go\<close>, has four modes. \<open>capture\<close> runs \<open>dumpcap\<close> and
  hands out a lease over a Unix socket while packets are recorded. \<open>serve\<close> acquires the lease, binds
  the listeners of the enabled services and handles connections; every byte goes to the Binary Wire
  Journal (BWJ) before it is used, and every exchange is described by a line of a structured event
  log. \<open>check\<close> validates a configuration. \<open>index\<close> reads journal and event log offline, reconstructs
  the two byte streams of each connection, compares them with the events, and fills a database.

  \<^bold>\<open>The theories\<close>, from the ground up:

  \<^item> \<open>Prelude\<close>, \<open>Go_Strings\<close>, \<open>Paths\<close>, \<open>Net_Addr\<close>, \<open>Net_IP\<close>, \<open>Json\<close>: words, errors as values with
    \<open>errors.Is\<close> and the timeout test of \<open>net.Error\<close>, scripts, and what the program uses of \<open>strconv\<close>, \<open>strings\<close>, \<open>hex\<close>,
    \<open>filepath\<close>, \<open>net\<close> and \<open>encoding/json\<close>.
  \<^item> \<open>Host\<close>: files, clock, random bytes and the outcome of each system call; \<open>internal/evidence/storage.go\<close>;
    the locale \<open>io_writer\<close> (a writer takes a prefix of the bytes, all of them when it reports no error),
    interpreted for a file of the host.
  \<^item> \<open>Bwj_Codec\<close>, \<open>Bwj_Reader\<close>, \<open>Bwj_Writer\<close>: \<open>internal/evidence/bwj.go\<close>, namely \<open>ID\<close>, the two 64-byte
    headers, \<open>ReadBWJFile\<close> and every method of \<open>BWJWriter\<close>. \<open>Bwj_Journal\<close> gives the contract of the
    writer as the locale \<open>journal\<close> (an acknowledged entry is in the recovered log, a refused one
    leaves it alone or stops the writer for good) and interprets it on the writer; \<open>Bwj_Spec\<close> states
    its properties.
  \<^item> \<open>Json_Read\<close>: a reader of JSON texts and the proof that it reads back what \<open>Json\<close> encodes.
  \<^item> \<open>Events\<close>, \<open>Events_Spec\<close>, \<open>Sanitize\<close>, \<open>Jsonl\<close>, \<open>Jsonl_Spec\<close>: \<open>internal/evidence/jsonl.go\<close>, namely \<open>Event\<close> and
    \<open>boundedEventJSON\<close>; the redaction of headers, queries and targets; \<open>JSONLWriter\<close>.
  \<^item> \<open>Response\<close>: \<open>internal/response/response.go\<close>, with the locale \<open>destination\<close> that extends
    \<open>io_writer\<close> by the waiting for a delay; \<open>hashWriter\<close> is a sublocale, the writer of a connection
    the interpretation (theory \<open>Triples\<close>), and \<open>Response_Spec\<close> states what \<open>Write\<close> then puts on the wire.
  \<^item> \<open>Config\<close>, \<open>Validate\<close>, \<open>Valid_Config\<close>: \<open>internal/config\<close>. \<open>valid_config\<close> is the specification
    of a valid configuration, proved equivalent to the validator; the server relies on it alone.
  \<^item> \<open>Router\<close>, \<open>Header_Merge\<close>: \<open>internal/engine/router.go\<close>, the choice of a response and its headers.
  \<^item> \<open>Http\<close>, \<open>Tls\<close>: \<open>internal/engine/http.go\<close> and \<open>tls.go\<close>.
  \<^item> \<open>Runtime\<close>, \<open>Exchange\<close>, \<open>Connection\<close>: \<open>internal/engine/connection.go\<close> with \<open>fail\<close> and \<open>emit\<close> of
    \<open>engine.go\<close>, as computations of the state monad over the record \<open>world\<close>. \<open>Triples\<close> has the Hoare
    rules, \<open>Calm\<close> hosts on which nothing fails, \<open>Tidy\<close> journal directories, \<open>Conn_Inv\<close> the invariant of a
    connection, \<open>Conn_Phases\<close> its preservation by each phase, \<open>Conn_Spec\<close> the properties.
  \<^item> \<open>Listener\<close>, \<open>Server\<close>: \<open>internal/engine/listener.go\<close> and the concurrent part of \<open>engine.go\<close>. The
    accept loops, the goroutines of the connections and \<open>Run\<close> are step relations on one state;
    \<open>Server\<close> has the invariant, admission, shutdown and the measure that every step lowers.
  \<^item> \<open>Engine\<close>, \<open>Engine_Spec\<close>: \<open>Run\<close> and \<open>CheckOperational\<close> of \<open>internal/engine/engine.go\<close> from the
    first acquisition to the last release.
  \<^item> \<open>Health\<close>, \<open>Health_Spec\<close>, \<open>Capture\<close>, \<open>Capture_Spec\<close>: \<open>internal/capture\<close>, both ends of the lease
    and the supervision of \<open>dumpcap\<close>.
  \<^item> \<open>Index\<close>, \<open>Index_Spec\<close>: \<open>internal/index/index.go\<close>.
  \<^item> \<open>Command\<close>, \<open>Command_Spec\<close>: \<open>cmd/notaihoney/main.go\<close>.

  \<^bold>\<open>What is shown\<close> (the theorem numbers are those of the texts before the theorems). For a connection
  (C1 to C6): the recovered journal grows by exactly the bytes that were received and sent, framed by
  one opening and one closing entry; the exchange events cut these streams into consecutive pieces and
  the index accepts them; byte and request limits hold; the handler returns on every input. For the
  server (C7 to C19): limits on simultaneous connections, no slot lost, shutdown closes everything
  and comes to an end, every exit of every mode releases what was acquired, the lease is given
  exactly for equal configurations. For the index (C20 to C23), the journal (C24 to C30), the
  configuration and the responses (C31 to C36), and the event log (C37 to C40): round trips, what a
  failure can leave behind, bounds, and what cannot leak; C34 and C38 are stated with readers of the
  chunked coding and of JSON, written from their standards. C21 and C35 state weaknesses of the code.

  \<^bold>\<open>Scripts and bounds.\<close> What the environment decides (results of system calls, arrival of bytes,
  ticks, signals, wake-ups of a \<open>select\<close>) is read from lists, so a theorem over all states covers every
  sequence of outcomes. A list that is used up goes on with a default (a full write, no
  error, all the input that is left and then its end; \<open>statfs\<close> reports a full disk). The loops \<open>select_loop\<close> and \<open>supervise\<close> of the two servers, which run until
  something happens, give \<open>None\<close> when their script ends before they do: the server still runs;
  theorems on what is released speak of \<open>Some\<close>. No function has fuel except the fill of a
  \<open>bufio.Reader\<close>, which the library itself gives up after 100 empty reads, and \<open>handleConnection\<close> is
  total because requests are limited (the loop counts them up to the configured maximum). Times and durations are integers of nanoseconds, sums wrap
  where the code's 64-bit arithmetic can, and the journal's sequence numbers are 64-bit words; the
  theorems on the journal bound the number of records by \<open>2 ^ 64\<close>.

  \<^bold>\<open>Parameters.\<close> Code that is not part of the repository is an argument of the definitions that use
  it: SHA-256, the YAML decoder (record \<open>loader\<close>), the HTTP parser (\<open>http_lib\<close>, a program that pulls bytes
  from the connection, so it cannot invent input), TLS and X.509 (\<open>tls_lib\<close>), \<open>json.Unmarshal\<close> of an
  event, the SQL driver (\<open>sql_lib\<close>), the process \<open>dumpcap\<close> and its exit, and dialling the lease socket. The
  only assumption on them that a theorem makes is that a decoded configuration has each service once,
  as a Go map has, and for C23 that \<open>json.Unmarshal\<close> reads the lines it is given.

  \<^bold>\<open>Concurrency.\<close> The writers, \<open>fail\<close>, \<open>emit\<close>, the set of active connections and the health server hold a
  mutex for their whole body, so concurrent calls amount to a sequence of complete calls; the model
  takes any such sequence (\<open>runtime_op\<close>, \<open>health_op\<close>). The properties of a single connection are about one
  handler with the writers to itself; \<open>Server\<close> interleaves the goroutines and keeps of a handler only what
  it does with the shared state.

  \<^bold>\<open>Not modelled.\<close> The usage text of package \<open>flag\<close>, the text of the SQL schema, the line that
  \<open>emit\<close> logs when the event log fails, the output of \<open>dumpcap\<close>, which is discarded; the values of the version strings (they are parameters); the passing of real time (when a deadline
  expires is up to the script); data races outside the mutexes; errors of closing a socket, which the code
  ignores; the socket file between a failed \<open>chmod\<close> and its removal in \<open>StartHealthServer\<close>; pattern
  characters in the directory given to \<open>filepath.Glob\<close>. \<open>sort.Slice\<close> is a stable sort here; the keys it sorts by are distinct in the program's files.
\<close>

end
